(* ===== verification/Prelude.thy ===== *)
theory Prelude
  imports Main "HOL-Library.Word" "HOL-Library.Sublist"
begin

unbundle bit_operations_syntax

text \<open>
  Shared vocabulary of the development: machine integer types, saturating
  arithmetic, the newest-suffix operation that every bounded buffer of the
  daemon implements, iteration of fallible operations, and the interfaces
  (locales) that several components promise or rely on.

  A \<^verbatim>\<open>u64\<close>/\<^verbatim>\<open>usize\<close> that is only counted or compared is a natural number,
  with saturation written out by \<open>sat64\<close>; bit masks and bytes are words.
  Rust strings are \<open>string\<close>: a list of the UTF-8 bytes, so \<open>length\<close> is
  \<^verbatim>\<open>str::len\<close>.
\<close>

type_synonym byte = "8 word"
type_synonym u16 = "16 word"
type_synonym u32 = "32 word"
type_synonym u64 = "64 word"

named_theorems ring_simps
  and mode_simps and store_simps and router_simps

section \<open>Saturating arithmetic\<close>

definition u64_max :: nat where
  "u64_max = 2 ^ 64 - 1"

definition sat64 :: "nat \<Rightarrow> nat" where
  "sat64 n = min n u64_max"

lemma sat64_add: "sat64 (sat64 m + n) = sat64 (m + n)"
  by (simp add: sat64_def)

lemma sat64_le [simp]: "sat64 n \<le> u64_max"
  by (simp add: sat64_def)

lemma sat64_id [simp]: "n \<le> u64_max \<Longrightarrow> sat64 n = n"
  by (simp add: sat64_def)

lemma sat64_mono: "m \<le> n \<Longrightarrow> sat64 m \<le> sat64 n"
  by (simp add: sat64_def)

lemma sat64_le_self: "sat64 n \<le> n"
  by (simp add: sat64_def)

section \<open>The newest suffix of a list\<close>

definition last_n :: "nat \<Rightarrow> 'a list \<Rightarrow> 'a list" where
  "last_n n xs = drop (length xs - n) xs"

lemma length_last_n [simp]: "length (last_n n xs) = min n (length xs)"
  by (auto simp: last_n_def)

lemma last_n_all: "length xs \<le> n \<Longrightarrow> last_n n xs = xs"
  by (simp add: last_n_def)

lemma last_n_0 [simp]: "last_n 0 xs = []"
  by (simp add: last_n_def)

lemma last_n_Nil [simp]: "last_n n [] = []"
  by (simp add: last_n_def)

lemma suffix_last_n: "suffix (last_n n xs) xs"
  by (simp add: last_n_def suffix_drop)

lemma last_n_append_ge: "n \<le> length ys \<Longrightarrow> last_n n (xs @ ys) = last_n n ys"
  by (simp add: last_n_def)

lemma last_n_append_le:
  "length ys \<le> n \<Longrightarrow> last_n n (xs @ ys) = last_n (n - length ys) xs @ ys"
  by (simp add: last_n_def)

lemma last_n_last_n: "m \<le> n \<Longrightarrow> last_n m (last_n n xs) = last_n m xs"
  by (cases "length xs \<le> n") (simp_all add: last_n_def)

lemma last_n_absorb [simp]: "last_n n (last_n n xs @ ys) = last_n n (xs @ ys)"
proof (cases "n \<le> length ys")
  case True
  then show ?thesis by (simp add: last_n_append_ge)
next
  case False
  then show ?thesis by (simp add: last_n_append_le last_n_last_n)
qed

lemma last_n_absorb2 [simp]: "last_n n (xs @ last_n n ys) = last_n n (xs @ ys)"
  by (cases "n \<le> length ys") (simp_all add: last_n_append_ge last_n_last_n last_n_all)

lemma last_n_drop: "k \<le> length xs \<Longrightarrow> last_n (length xs - k) xs = drop k xs"
  by (simp add: last_n_def)

section \<open>Decimal text\<close>

text \<open>
  \<^verbatim>\<open>str::parse\<close> for an unsigned integer with maximum \<open>mx\<close>, on the codes of the
  characters: an optional \<open>+\<close>, at least one digit, an error on overflow.
  \<open>dec\<close> is the \<^verbatim>\<open>Display\<close> form.
\<close>

fun digits_val :: "nat \<Rightarrow> nat \<Rightarrow> nat list \<Rightarrow> nat option" where
  "digits_val mx acc [] = Some acc"
| "digits_val mx acc (d # ds) =
     (if 48 \<le> d \<and> d \<le> 57 \<and> acc * 10 + (d - 48) \<le> mx
      then digits_val mx (acc * 10 + (d - 48)) ds else None)"

definition parse_uint :: "nat \<Rightarrow> nat list \<Rightarrow> nat option" where
  "parse_uint mx cs =
     (let ds = (case cs of c # rest \<Rightarrow> (if c = 43 then rest else cs) | [] \<Rightarrow> [])
      in if ds = [] then None else digits_val mx 0 ds)"

fun dec :: "nat \<Rightarrow> nat list" where
  "dec n = (if n < 10 then [48 + n] else dec (n div 10) @ [48 + n mod 10])"

declare dec.simps [simp del]

lemma dec_digit: "\<forall>d\<in>set (dec n). 48 \<le> d \<and> d \<le> 57"
proof (induction n rule: dec.induct)
  case (1 n)
  show ?case
  proof (cases "n < 10")
    case True
    then show ?thesis by (subst dec.simps) simp
  next
    case False
    with 1 show ?thesis by (subst dec.simps) auto
  qed
qed

lemma dec_nonempty: "dec n \<noteq> []"
  by (subst dec.simps) simp

lemma length_dec: "n < 10 ^ Suc k \<Longrightarrow> length (dec n) \<le> Suc k"
proof (induction n arbitrary: k rule: dec.induct)
  case (1 n)
  show ?case
  proof (cases "n < 10")
    case True
    then show ?thesis by (subst dec.simps) simp
  next
    case False
    with 1 obtain k' where k: "k = Suc k'" by (cases k) auto
    with 1 False have "length (dec (n div 10)) \<le> Suc k'" by (simp add: less_mult_imp_div_less)
    with False k show ?thesis by (subst dec.simps) simp
  qed
qed

lemma digits_val_append:
  "digits_val mx acc (xs @ ys) = Option.bind (digits_val mx acc xs) (\<lambda>a. digits_val mx a ys)"
  by (induction xs arbitrary: acc) auto

lemma digits_val_dec: "n \<le> mx \<Longrightarrow> digits_val mx 0 (dec n) = Some n"
proof (induction n rule: dec.induct)
  case (1 n)
  show ?case
  proof (cases "n < 10")
    case True
    with 1 show ?thesis by (subst dec.simps) simp
  next
    case False
    then have "digits_val mx 0 (dec (n div 10)) = Some (n div 10)"
      using 1 by (meson div_le_dividend le_trans)
    with False 1 show ?thesis by (subst dec.simps) (simp add: digits_val_append)
  qed
qed

lemma parse_dec: "n \<le> mx \<Longrightarrow> parse_uint mx (dec n) = Some n"
proof -
  assume n: "n \<le> mx"
  obtain c cs where d: "dec n = c # cs" using dec_nonempty [of n] by (cases "dec n") auto
  with dec_digit [of n] have "c \<noteq> 43" by auto
  with d digits_val_dec [OF n] show ?thesis by (simp add: parse_uint_def)
qed

text \<open>\<^verbatim>\<open>str::split\<close> on one character.\<close>

fun split_on :: "'a \<Rightarrow> 'a list \<Rightarrow> 'a list list" where
  "split_on c [] = [[]]"
| "split_on c (x # xs) =
     (if x = c then [] # split_on c xs
      else case split_on c xs of [] \<Rightarrow> [[x]] | w # ws \<Rightarrow> (x # w) # ws)"

lemma split_on_nonempty: "split_on c xs \<noteq> []"
  by (induction xs) (auto split: list.splits)

lemma split_on_fresh: "c \<notin> set xs \<Longrightarrow> split_on c xs = [xs]"
  by (induction xs) (auto split: list.splits)

lemma split_on_sep: "c \<notin> set xs \<Longrightarrow> split_on c (xs @ c # ys) = xs # split_on c ys"
  by (induction xs) (auto split: list.splits)

section \<open>Fallible iteration\<close>

text \<open>Apply a partial operation to each input in turn; \<open>None\<close> is a panic.\<close>

fun run_opt :: "('i \<Rightarrow> 's \<Rightarrow> 's option) \<Rightarrow> 'i list \<Rightarrow> 's \<Rightarrow> 's option" where
  "run_opt f [] s = Some s"
| "run_opt f (i # is) s = (case f i s of None \<Rightarrow> None | Some s' \<Rightarrow> run_opt f is s')"

lemma run_opt_append:
  "run_opt f (is @ js) s = Option.bind (run_opt f is s) (run_opt f js)"
  by (induction "is" arbitrary: s) (auto split: option.splits)

section \<open>Interface: a log that keeps its newest entries\<close>

text \<open>
  The contract of the daemon's bounded buffers: appending never panics and
  leaves exactly the newest \<open>bound\<close> entries of what was there followed by
  what was added.
\<close>

locale bounded_log =
  fixes append :: "'i \<Rightarrow> 's \<Rightarrow> 's option"
    and contents :: "'s \<Rightarrow> 'a list"
    and added :: "'s \<Rightarrow> 'i \<Rightarrow> 'a list"
    and bound :: "'s \<Rightarrow> nat"
    and invar :: "'s \<Rightarrow> bool"
  assumes append_total: "invar s \<Longrightarrow> \<exists>s'. append i s = Some s'"
    and append_invar: "invar s \<Longrightarrow> append i s = Some s' \<Longrightarrow> invar s'"
    and append_bound: "invar s \<Longrightarrow> append i s = Some s' \<Longrightarrow> bound s' = bound s"
    and append_contents: "invar s \<Longrightarrow> append i s = Some s' \<Longrightarrow>
           contents s' = last_n (bound s) (contents s @ added s i)"
    and contents_bounded: "invar s \<Longrightarrow> length (contents s) \<le> bound s"
begin

lemma run_total: "invar s \<Longrightarrow> \<exists>s'. run_opt append is s = Some s'"
proof (induction "is" arbitrary: s)
  case Nil
  then show ?case by simp
next
  case (Cons i "is")
  from append_total [OF Cons.prems] obtain t where t: "append i s = Some t" by blast
  with Cons.prems have "invar t" by (blast intro: append_invar)
  with Cons.IH t show ?case by simp
qed

lemma run_invar:
  "invar s \<Longrightarrow> run_opt append is s = Some s' \<Longrightarrow> invar s' \<and> bound s' = bound s"
proof (induction "is" arbitrary: s)
  case Nil
  then show ?case by simp
next
  case (Cons i "is")
  then obtain t where t: "append i s = Some t" "run_opt append is t = Some s'"
    by (auto split: option.splits)
  with Cons.prems have "invar t" "bound t = bound s"
    by (blast intro: append_invar append_bound)+
  with Cons.IH t show ?case by auto
qed

lemma run_bounded:
  "invar s \<Longrightarrow> run_opt append is s = Some s' \<Longrightarrow> length (contents s') \<le> bound s"
  using run_invar contents_bounded by metis

end

text \<open>
  When what an input adds does not depend on the state, the contents after any
  run are the newest suffix of the whole stream.
\<close>

locale bounded_stream = bounded_log +
  fixes payload :: "'b \<Rightarrow> 'c list"
  assumes added_payload: "added s i = payload i"
begin

lemma run_contents:
  "invar s \<Longrightarrow> run_opt append is s = Some s' \<Longrightarrow>
     contents s' = last_n (bound s) (contents s @ concat (map payload is))"
proof (induction "is" arbitrary: s)
  case Nil
  then show ?case by (simp add: last_n_all contents_bounded)
next
  case (Cons i "is")
  then obtain t where t: "append i s = Some t" "run_opt append is t = Some s'"
    by (auto split: option.splits)
  from Cons.prems(1) t(1) have it: "invar t" and bt: "bound t = bound s"
    and ct: "contents t = last_n (bound s) (contents s @ payload i)"
    by (auto intro: append_invar append_bound simp: append_contents added_payload)
  from Cons.IH [OF it t(2)] show ?case
    by (simp add: bt ct)
qed

end

section \<open>Interface: a byte-at-a-time scanner\<close>

text \<open>
  The streaming recognizers of the daemon consume output bytes one at a time, so
  the split of the byte stream into frames cannot matter.
\<close>

locale scanner =
  fixes step :: "'s \<Rightarrow> 'b \<Rightarrow> 's"
    and feed :: "'s \<Rightarrow> 'b list \<Rightarrow> 's"
  assumes feed_Nil: "feed s [] = s"
    and feed_Cons: "feed s (b # bs) = feed (step s b) bs"
begin

lemma feed_append: "feed s (xs @ ys) = feed (feed s xs) ys"
  by (induction xs arbitrary: s) (simp_all add: feed_Nil feed_Cons)

lemma feed_chunks: "fold (\<lambda>c s. feed s c) cs s = feed s (concat cs)"
  by (induction cs arbitrary: s) (simp_all add: feed_Nil feed_append)

lemma feed_invar:
  "(\<And>s b. I s \<Longrightarrow> I (step s b)) \<Longrightarrow> I s \<Longrightarrow> I (feed s bs)"
  by (induction bs arbitrary: s) (simp_all add: feed_Nil feed_Cons)

end

section \<open>Interface: a framed byte stream\<close>

text \<open>
  A peer writes items one after the other; the reader sees the bytes in arbitrary
  chunks. \<open>wire\<close> is the encoding of an item, \<open>out\<close> the frames it delivers, \<open>drain\<close>
  pulls what is complete out of a buffer and \<open>loop\<close> reads chunk after chunk.
\<close>

locale framed_stream =
  fixes wire :: "'i \<Rightarrow> 'b list"
    and out :: "'i \<Rightarrow> 'f list"
    and ok :: "'i \<Rightarrow> bool"
    and mk :: "'b list \<Rightarrow> 's"
    and drain :: "'s \<Rightarrow> 'f list \<times> 'e option \<times> 's"
    and loop :: "'b list list \<Rightarrow> 's \<Rightarrow> 'f list \<times> 'e option \<times> 's"
  assumes drain_Nil: "drain (mk []) = ([], None, mk [])"
    and drain_item: "ok i \<Longrightarrow> drain (mk b) = (fs, r, s) \<Longrightarrow>
           drain (mk (wire i @ b)) = (out i @ fs, r, s)"
    and drain_partial: "ok i \<Longrightarrow> strict_prefix p (wire i) \<Longrightarrow> drain (mk p) = ([], None, mk p)"
    and loop_Nil: "loop [] s = drain s"
    and loop_Cons: "c \<noteq> [] \<Longrightarrow> drain s = (fs, None, mk b) \<Longrightarrow>
           loop cs (mk (b @ c)) = (gs, r, s') \<Longrightarrow> loop (c # cs) s = (fs @ gs, r, s')"
begin

lemma drain_prefix:
  assumes "\<forall>i\<in>set items. ok i" and "b @ rest = concat (map wire items)"
  shows "\<exists>done todo l. items = done @ todo \<and> drain (mk b) = (concat (map out done), None, mk l)
           \<and> l @ rest = concat (map wire todo) \<and> (rest = [] \<longrightarrow> todo = [] \<and> l = [])"
  using assms
proof (induction items arbitrary: b)
  case Nil
  then show ?case using drain_Nil by auto
next
  case (Cons i items)
  show ?case
  proof (cases "length b < length (wire i)")
    case True
    from Cons.prems(2) have "b @ rest = wire i @ concat (map wire items)" by simp
    with True have "b = take (length b) (wire i)"
      by (metis append_eq_append_conv_if less_or_eq_imp_le append_eq_conv_conj)
    with True have "strict_prefix b (wire i)"
      by (metis strict_prefixI take_is_prefix less_irrefl)
    with Cons.prems(1) have "drain (mk b) = ([], None, mk b)"
      by (intro drain_partial [of i]) simp_all
    moreover have "rest \<noteq> []" using True Cons.prems(2) by auto
    ultimately show ?thesis
      using Cons.prems(2) by (intro exI [of _ "[]"] exI [of _ "i # items"] exI [of _ b]) simp
  next
    case False
    from Cons.prems(2) have eq: "b @ rest = wire i @ concat (map wire items)" by simp
    with False obtain b' where b: "b = wire i @ b'"
      by (metis append_eq_append_conv_if append_eq_conv_conj not_less)
    with eq have "b' @ rest = concat (map wire items)" by simp
    from Cons.IH [OF _ this] Cons.prems(1) obtain dn todo l where
      *: "items = dn @ todo" "drain (mk b') = (concat (map out dn), None, mk l)"
         "l @ rest = concat (map wire todo)" "rest = [] \<longrightarrow> todo = [] \<and> l = []" by auto
    from drain_item [OF _ *(2)] Cons.prems(1) b
    have "drain (mk b) = (concat (map out (i # dn)), None, mk l)" by simp
    with * show ?thesis
      by (intro exI [of _ "i # dn"] exI [of _ todo] exI [of _ l]) simp
  qed
qed

lemma loop_delivers:
  assumes "\<forall>i\<in>set items. ok i" and "[] \<notin> set chunks"
    and "b @ concat chunks = concat (map wire items)"
  shows "loop chunks (mk b) = (concat (map out items), None, mk [])"
  using assms
proof (induction chunks arbitrary: items b)
  case Nil
  from drain_prefix [OF Nil(1) Nil(3)] show ?case by (auto simp: loop_Nil)
next
  case (Cons c cs)
  from drain_prefix [OF Cons.prems(1,3)] obtain dn todo l where
    *: "items = dn @ todo" "drain (mk b) = (concat (map out dn), None, mk l)"
       "l @ c @ concat cs = concat (map wire todo)" by auto
  from * Cons.prems have "loop cs (mk (l @ c)) = (concat (map out todo), None, mk [])"
    by (intro Cons.IH) auto
  from loop_Cons [OF _ *(2) this] Cons.prems(2) *(1) show ?case by auto
qed

end

section \<open>Runs of a system with events\<close>

text \<open>
  A system that reacts to each input with a new state and a list of events; a run collects
  the events. An invariant of the events so far and the state is checked for one step and
  holds of every run.
\<close>

fun run_trace :: "('a \<Rightarrow> 's \<Rightarrow> 's \<times> 'e list) \<Rightarrow> 'a list \<Rightarrow> 's \<Rightarrow> 's \<times> 'e list" where
  "run_trace step [] s = (s, [])"
| "run_trace step (a # as) s =
     (let (s1, es) = step a s; (s2, es') = run_trace step as s1 in (s2, es @ es'))"

locale traced =
  fixes step :: "'a \<Rightarrow> 's \<Rightarrow> 's \<times> 'e list" and holds :: "'e list \<Rightarrow> 's \<Rightarrow> bool"
  assumes step_holds: "holds tr s \<Longrightarrow> step a s = (s', es) \<Longrightarrow> holds (tr @ es) s'"
begin

lemma run_holds_from: "holds tr s \<Longrightarrow> run_trace step as s = (s', es) \<Longrightarrow> holds (tr @ es) s'"
proof (induction as arbitrary: tr s s' es)
  case (Cons a as)
  obtain s1 e1 where 1: "step a s = (s1, e1)" by fastforce
  obtain s2 e2 where 2: "run_trace step as s1 = (s2, e2)" by fastforce
  from Cons.IH [OF step_holds [OF Cons.prems(1) 1] 2] Cons.prems(2) 1 2 show ?case by auto
qed simp

lemma run_holds: "holds [] s \<Longrightarrow> run_trace step as s = (s', es) \<Longrightarrow> holds es s'"
  using run_holds_from [of "[]"] by simp

end

text \<open>The same for a system of which only the state matters.\<close>

locale stepping =
  fixes step :: "'a \<Rightarrow> 's \<Rightarrow> 's" and holds :: "'s \<Rightarrow> bool"
  assumes step_holds: "holds s \<Longrightarrow> holds (step a s)"
begin

lemma run_holds: "holds s \<Longrightarrow> holds (fold step as s)"
  by (induction as arbitrary: s) (simp_all add: step_holds)

end

text \<open>A system whose steps may panic: an invariant under which the allowed steps do not.\<close>

locale panic_free =
  fixes step :: "'a \<Rightarrow> 's \<Rightarrow> 's option" and allowed :: "'a \<Rightarrow> bool" and holds :: "'s \<Rightarrow> bool"
  assumes step_ok: "holds s \<Longrightarrow> allowed a \<Longrightarrow> \<exists>s'. step a s = Some s' \<and> holds s'"
begin

lemma run_ok: "holds s \<Longrightarrow> list_all allowed as \<Longrightarrow> \<exists>s'. run_opt step as s = Some s' \<and> holds s'"
proof (induction as arbitrary: s)
  case (Cons a as)
  then obtain t where "step a s = Some t" "holds t" using step_ok [of s a] by auto
  with Cons show ?case by auto
qed simp

end

text \<open>A condition on every event, given the events before it.\<close>

fun every_event :: "('e list \<Rightarrow> 'e \<Rightarrow> bool) \<Rightarrow> 'e list \<Rightarrow> 'e list \<Rightarrow> bool" where
  "every_event P pre [] = True"
| "every_event P pre (e # es) = (P pre e \<and> every_event P (pre @ [e]) es)"

lemma every_event_append: "every_event P pre (xs @ ys) \<longleftrightarrow> every_event P pre xs \<and> every_event P (pre @ xs) ys"
  by (induction xs arbitrary: pre) auto

lemma every_event_at: "every_event P [] (xs @ e # ys) \<Longrightarrow> P xs e"
  by (simp add: every_event_append)

lemma in_map_filter: "y \<in> set (List.map_filter g xs) \<longleftrightarrow> (\<exists>x\<in>set xs. g x = Some y)"
  by (force simp: List.map_filter_def)

end
