(* ===== verification/Ring.thy ===== *)
theory Ring
  imports Prelude
begin

text \<open>
  The capped scrollback ring of \<^verbatim>\<open>crates/amber-core/src/ring.rs\<close>: a byte buffer
  that fills up to its cap and then wraps in place, with the absolute stream
  offset used for delta replay and the epoch that names the stream.
  A slice index out of range panics in Rust: here it is \<open>None\<close>.
\<close>

section \<open>The growable byte vector\<close>

text \<open>
  \<^verbatim>\<open>Vec<u8>\<close> as far as the ring uses it. \<^verbatim>\<open>extend_from_slice\<close> past the capacity
  takes the amortized growth step (at least double, at least 8 bytes);
  \<^verbatim>\<open>reserve_exact\<close> asks for exactly what is missing.
\<close>

record vec =
  items :: "byte list"
  capacity :: nat

definition vec_new :: vec where
  "vec_new = \<lparr>items = [], capacity = 0\<rparr>"

definition vec_extend :: "vec \<Rightarrow> byte list \<Rightarrow> vec" where
  "vec_extend v xs =
     (let need = length (items v) + length xs in
      v\<lparr>items := items v @ xs,
        capacity := (if need \<le> capacity v then capacity v
                     else max (max (2 * capacity v) need) 8)\<rparr>)"

definition vec_reserve_exact :: "vec \<Rightarrow> nat \<Rightarrow> vec" where
  "vec_reserve_exact v n =
     (if n \<le> capacity v - length (items v) then v
      else v\<lparr>capacity := length (items v) + n\<rparr>)"

text \<open>\<^verbatim>\<open>buf[i..i + src.len()].copy_from_slice(src)\<close>.\<close>

definition copy_into :: "byte list \<Rightarrow> nat \<Rightarrow> byte list \<Rightarrow> byte list option" where
  "copy_into xs i src =
     (if i + length src \<le> length xs
      then Some (take i xs @ src @ drop (i + length src) xs) else None)"

section \<open>Epochs\<close>

text \<open>
  The process-wide allocator. Its only state is the atomic \<^verbatim>\<open>NEXT\<close>, initially 1;
  the wall clock in nanoseconds and the process id are inputs.
\<close>

definition epoch_init :: u64 where
  "epoch_init = 1"

definition next_epoch :: "u64 \<Rightarrow> u64 \<Rightarrow> u64 \<Rightarrow> u64 \<times> u64" where
  "next_epoch nanos pid nxt =
     (let nxt' = (if nxt = 1 then (nanos XOR push_bit 32 pid) OR 1 else nxt);
          value = nxt'
      in (if value = 0 then 1 else value, nxt' + 1))"

section \<open>The ring\<close>

record ring =
  cap :: nat
  buf :: vec
  head :: nat
  written :: nat
  epoch :: u64

definition MIN_ALLOC :: nat where
  "MIN_ALLOC = 8 * 1024"

definition ring_new :: "u64 \<Rightarrow> nat \<Rightarrow> ring" where
  "ring_new ep c = \<lparr>cap = c, buf = vec_new, head = 0, written = 0, epoch = ep\<rparr>"

definition reserve_up_to_cap :: "ring \<Rightarrow> nat \<Rightarrow> ring" where
  "reserve_up_to_cap r additional =
     (let needed = length (items (buf r)) + additional in
      if needed \<le> capacity (buf r) then r
      else let want = min (max (max (sat64 (capacity (buf r) * 2)) MIN_ALLOC) needed) (cap r)
           in r\<lparr>buf := vec_reserve_exact (buf r) (want - length (items (buf r)))\<rparr>)"

definition write_wrapping :: "ring \<Rightarrow> byte list \<Rightarrow> ring option" where
  "write_wrapping r data =
     (let n = length data; first = min (cap r - head r) n in
      case copy_into (items (buf r)) (head r) (take first data) of
        None \<Rightarrow> None
      | Some b1 \<Rightarrow>
          (case (if first < n then copy_into b1 0 (drop first data) else Some b1) of
             None \<Rightarrow> None
           | Some b2 \<Rightarrow> Some (r\<lparr>buf := (buf r)\<lparr>items := b2\<rparr>, head := (head r + n) mod cap r\<rparr>)))"

definition push :: "byte list \<Rightarrow> ring \<Rightarrow> ring option" where
  "push data r =
     (if cap r = 0 \<or> data = [] then Some r
      else
        let r1 = r\<lparr>written := sat64 (written r + length data)\<rparr>;
            data1 = (if length data > cap r1 then drop (length data - cap r1) data else data)
        in if length (items (buf r1)) < cap r1 then
             let room = cap r1 - length (items (buf r1));
                 n = min room (length data1);
                 r2 = reserve_up_to_cap r1 n;
                 r3 = r2\<lparr>buf := vec_extend (buf r2) (take n data1)\<rparr>
             in if n = length data1 then Some r3 else write_wrapping r3 (drop n data1)
           else write_wrapping r1 data1)"

definition from_bytes :: "u64 \<Rightarrow> nat \<Rightarrow> byte list \<Rightarrow> ring option" where
  "from_bytes ep c bs = push bs (ring_new ep c)"

definition snapshot :: "ring \<Rightarrow> byte list" where
  "snapshot r =
     (if head r = 0 then items (buf r)
      else drop (head r) (items (buf r)) @ take (head r) (items (buf r)))"

definition len :: "ring \<Rightarrow> nat" where
  "len r = length (items (buf r))"

definition is_empty :: "ring \<Rightarrow> bool" where
  "is_empty r \<longleftrightarrow> items (buf r) = []"

definition allocated :: "ring \<Rightarrow> nat" where
  "allocated r = capacity (buf r)"

definition since :: "ring \<Rightarrow> nat \<Rightarrow> byte list option" where
  "since r offset =
     (if offset > written r then None
      else let have = written r - offset in
        if have > length (items (buf r)) then None
        else if have = 0 then Some []
        else let snap = snapshot r in Some (drop (length snap - have) snap))"

fun position :: "('a \<Rightarrow> bool) \<Rightarrow> 'a list \<Rightarrow> nat option" where
  "position p [] = None"
| "position p (x # xs) = (if p x then Some 0 else map_option Suc (position p xs))"

definition tail :: "ring \<Rightarrow> nat \<Rightarrow> byte list" where
  "tail r n =
     (let all = snapshot r in
      if length all \<le> n then all
      else let window = drop (length all - n) all in
        case position (\<lambda>b. b = 10) window of
          Some i \<Rightarrow> drop (i + 1) window
        | None \<Rightarrow> window)"

section \<open>Invariant\<close>

text \<open>The documented invariant: \<^verbatim>\<open>buf.len() <= cap\<close>, \<^verbatim>\<open>buf.capacity() <= cap\<close>, and
  \<open>head\<close> is 0 until the buffer is full, below \<open>cap\<close> afterwards.\<close>

definition ring_inv :: "ring \<Rightarrow> bool" where
  "ring_inv r \<longleftrightarrow>
     length (items (buf r)) \<le> capacity (buf r) \<and> capacity (buf r) \<le> cap r \<and>
     (length (items (buf r)) < cap r \<longrightarrow> head r = 0) \<and>
     (0 < cap r \<longrightarrow> head r < cap r) \<and> (cap r = 0 \<longrightarrow> head r = 0) \<and>
     cap r \<le> u64_max \<and> written r \<le> u64_max"

lemmas ring_defs = ring_inv_def snapshot_def len_def allocated_def

lemma ring_inv_new: "c \<le> u64_max \<Longrightarrow> ring_inv (ring_new ep c)"
  by (simp add: ring_inv_def ring_new_def vec_new_def)

lemma snapshot_new [simp]: "snapshot (ring_new ep c) = []"
  by (simp add: snapshot_def ring_new_def vec_new_def)

lemma length_snapshot [simp]: "ring_inv r \<Longrightarrow> length (snapshot r) = len r"
  by (auto simp: ring_defs)

lemma reserve_up_to_cap_facts [ring_simps]:
  "items (buf (reserve_up_to_cap r n)) = items (buf r)"
  "head (reserve_up_to_cap r n) = head r"
  "cap (reserve_up_to_cap r n) = cap r"
  "written (reserve_up_to_cap r n) = written r"
  by (simp_all add: reserve_up_to_cap_def vec_reserve_exact_def Let_def)

lemma reserve_up_to_cap_room:
  assumes "ring_inv r" and "length (items (buf r)) + n \<le> cap r"
  shows "length (items (buf r)) + n \<le> capacity (buf (reserve_up_to_cap r n))"
    and "capacity (buf (reserve_up_to_cap r n)) \<le> cap r"
  using assms
  by (auto simp: reserve_up_to_cap_def vec_reserve_exact_def ring_inv_def Let_def)

text \<open>Overwriting a full ring: the oldest bytes go, the new ones come last.\<close>

lemma write_wrapping_full:
  assumes "ring_inv r" and full: "len r = cap r" and c: "0 < cap r"
    and n: "length data \<le> cap r"
  obtains r' where "write_wrapping r data = Some r'" "ring_inv r'"
    "cap r' = cap r" "len r' = cap r" "written r' = written r"
    "snapshot r' = last_n (cap r) (snapshot r @ data)"
proof -
  let ?xs = "items (buf r)" and ?h = "head r" and ?c = "cap r"
  let ?f = "min (?c - ?h) (length data)"
  have lx: "length ?xs = ?c" using full by (simp add: len_def)
  have h: "?h < ?c" using assms by (simp add: ring_inv_def)
  show thesis
  proof (cases "?h + length data < ?c")
    case True
    let ?b = "take ?h ?xs @ data @ drop (?h + length data) ?xs"
    let ?r = "r\<lparr>buf := (buf r)\<lparr>items := ?b\<rparr>, head := ?h + length data\<rparr>"
    have f: "?f = length data" using True by simp
    have w: "write_wrapping r data = Some ?r"
      using True lx by (simp add: write_wrapping_def copy_into_def Let_def f)
    have "snapshot ?r = last_n ?c (snapshot r @ data)"
      using True h lx by (auto simp: snapshot_def last_n_def add.commute)
    moreover have "ring_inv ?r" "len ?r = ?c"
      using assms True lx by (auto simp: ring_inv_def len_def)
    ultimately show thesis using that [OF w] by simp
  next
    case False
    let ?k = "?c - ?h"
    let ?m = "length data - ?k"
    have k: "?k \<le> length data" using False h by simp
    have mod: "(?h + length data) mod ?c = ?m"
    proof -
      have "?h + length data = ?m + ?c" using k h by simp
      moreover have "?m < ?c" using n h k by simp
      ultimately show ?thesis by (metis mod_add_self2 mod_less)
    qed
    let ?b1 = "take ?h ?xs @ take ?k data"
    let ?b2 = "drop ?k data @ drop ?m ?b1"
    let ?r = "r\<lparr>buf := (buf r)\<lparr>items := ?b2\<rparr>, head := ?m\<rparr>"
    have b1: "copy_into ?xs ?h (take ?k data) = Some ?b1"
      using lx h k by (simp add: copy_into_def)
    have w: "write_wrapping r data = Some ?r"
      using k lx h n b1
      by (auto simp: write_wrapping_def Let_def mod min_absorb1 copy_into_def)
    have m: "?m \<le> ?h" using n h by simp
    have s: "snapshot ?r = drop ?m (take ?h ?xs) @ take ?k data @ drop ?k data"
      using k lx h m by (auto simp: snapshot_def)
    have "snapshot ?r = last_n ?c (snapshot r @ data)"
      unfolding s using k lx h m n by (auto simp: snapshot_def last_n_def)
    moreover have "ring_inv ?r" "len ?r = ?c"
      using assms k lx h m by (auto simp: ring_inv_def len_def)
    ultimately show thesis using that [OF w] by simp
  qed
qed


section \<open>Pushing\<close>

lemma oversized_push:
  "(if c < length data then drop (length data - c) data else data) = last_n c data"
  by (simp add: last_n_def)

lemma push_eq:
  assumes "0 < cap r" "data \<noteq> []"
  shows "push data r =
     (let r1 = r\<lparr>written := sat64 (written r + length data)\<rparr>; d1 = last_n (cap r) data in
      if len r < cap r then
        let n = min (cap r - len r) (length d1);
            r2 = reserve_up_to_cap r1 n;
            r3 = r2\<lparr>buf := vec_extend (buf r2) (take n d1)\<rparr>
        in if n = length d1 then Some r3 else write_wrapping r3 (drop n d1)
      else write_wrapping r1 d1)"
  using assms
  by (simp add: push_def Let_def len_def oversized_push cong: if_cong
      del: length_last_n split del: if_split)

lemma push_trivial:
  assumes "ring_inv r" and "cap r = 0 \<or> data = []"
  shows "push data r = Some r" "snapshot r = last_n (cap r) (snapshot r @ data)"
proof -
  show "push data r = Some r" using assms by (simp add: push_def)
  have "length (snapshot r) \<le> cap r" using assms by (simp add: len_def) (simp add: ring_inv_def)
  with assms(2) show "snapshot r = last_n (cap r) (snapshot r @ data)"
    by (auto simp: last_n_all)
qed

lemma push_filling:
  assumes inv: "ring_inv r" and c: "0 < cap r" and d: "data \<noteq> []" and nf: "len r < cap r"
  obtains r' where "push data r = Some r'" "ring_inv r'" "cap r' = cap r"
    "written r' = sat64 (written r + length data)"
    "snapshot r' = last_n (cap r) (snapshot r @ data)"
proof -
  let ?r1 = "r\<lparr>written := sat64 (written r + length data)\<rparr>"
  let ?xs = "items (buf r)"
  define d1 where "d1 = last_n (cap r) data"
  define n where "n = min (cap r - length ?xs) (length d1)"
  let ?r2 = "reserve_up_to_cap ?r1 n"
  let ?r3 = "?r2\<lparr>buf := vec_extend (buf ?r2) (take n d1)\<rparr>"
  have nf': "length ?xs < cap r" using nf by (simp add: len_def)
  have h0: "head r = 0" and inv1: "ring_inv ?r1" using inv nf' by (auto simp: ring_inv_def)
  have n: "n \<le> length d1" "length ?xs + n \<le> cap r" using nf' by (simp_all add: n_def)
  note room = reserve_up_to_cap_room [OF inv1, of n, simplified, OF n(2)]
  have items3: "items (buf ?r3) = ?xs @ take n d1"
    by (simp add: vec_extend_def Let_def ring_simps)
  have inv3: "ring_inv ?r3" and c3: "cap ?r3 = cap r" and h3: "head ?r3 = 0"
    and w3: "written ?r3 = sat64 (written r + length data)"
    using room n h0 inv c
    by (auto simp: ring_inv_def vec_extend_def Let_def ring_simps)
  have s3: "snapshot ?r3 = snapshot r @ take n d1"
    using h0 h3 items3 by (simp add: snapshot_def)
  have stream: "last_n (cap r) (snapshot r @ d1) = last_n (cap r) (snapshot r @ data)"
    by (simp add: d1_def)
  have step: "push data r =
      (if n = length d1 then Some ?r3 else write_wrapping ?r3 (drop n d1))"
    using nf by (simp only: push_eq [OF c d] Let_def n_def d1_def len_def if_True)
  show thesis
  proof (cases "n = length d1")
    case True
    then have "length (snapshot r @ d1) \<le> cap r" using n inv by (simp add: len_def)
    with True s3 stream have "snapshot ?r3 = last_n (cap r) (snapshot r @ data)"
      by (metis last_n_all take_all_iff order_refl)
    with that step True inv3 c3 w3 show thesis by simp
  next
    case False
    then have "n = cap r - length ?xs" by (simp add: n_def)
    moreover have "len ?r3 = length ?xs + n"
      unfolding len_def items3 using n(1) by simp
    ultimately have "len ?r3 = cap r" using nf' by linarith
    then have full: "len ?r3 = cap ?r3" by (simp only: c3)
    have "length (drop n d1) \<le> cap r" by (simp add: d1_def)
    then have "length (drop n d1) \<le> cap ?r3" by (simp only: c3)
    then obtain r' where "write_wrapping ?r3 (drop n d1) = Some r'" "ring_inv r'"
      "cap r' = cap r" "written r' = written ?r3"
      "snapshot r' = last_n (cap r) (snapshot ?r3 @ drop n d1)"
      using write_wrapping_full [OF inv3 full, of "drop n d1"] c c3 by metis
    with that step False s3 stream w3 show thesis by simp
  qed
qed

lemma push_full:
  assumes inv: "ring_inv r" and c: "0 < cap r" and d: "data \<noteq> []" and f: "\<not> len r < cap r"
  obtains r' where "push data r = Some r'" "ring_inv r'" "cap r' = cap r"
    "written r' = sat64 (written r + length data)"
    "snapshot r' = last_n (cap r) (snapshot r @ data)"
proof -
  let ?r1 = "r\<lparr>written := sat64 (written r + length data)\<rparr>"
  have inv1: "ring_inv ?r1" and s1: "snapshot ?r1 = snapshot r"
    using inv by (auto simp: ring_inv_def snapshot_def)
  have full: "len ?r1 = cap ?r1" using inv f by (simp add: len_def ring_inv_def)
  have "push data r = write_wrapping ?r1 (last_n (cap r) data)"
    using f by (simp only: push_eq [OF c d] Let_def if_False)
  moreover have l: "length (last_n (cap r) data) \<le> cap ?r1" by simp
  have c1: "0 < cap ?r1" using c by simp
  obtain r' where "write_wrapping ?r1 (last_n (cap r) data) = Some r'" "ring_inv r'"
    "cap r' = cap ?r1" "written r' = written ?r1"
    "snapshot r' = last_n (cap ?r1) (snapshot ?r1 @ last_n (cap r) data)"
    using write_wrapping_full [OF inv1 full c1 l] by metis
  ultimately show thesis using that [of r'] s1 by simp
qed

lemma push_spec:
  assumes "ring_inv r"
  obtains r' where "push data r = Some r'" "ring_inv r'" "cap r' = cap r"
    "written r' = (if cap r = 0 then written r else sat64 (written r + length data))"
    "snapshot r' = last_n (cap r) (snapshot r @ data)"
proof -
  consider "cap r = 0 \<or> data = []" | "0 < cap r" "data \<noteq> []" "len r < cap r"
    | "0 < cap r" "data \<noteq> []" "\<not> len r < cap r" by blast
  then show thesis
  proof cases
    case 1
    moreover have "written r \<le> u64_max" using assms by (simp add: ring_inv_def)
    ultimately show thesis using push_trivial [OF assms 1] assms that [of r] by auto
  next
    case 2
    with push_filling [OF assms 2] that show thesis by auto
  next
    case 3
    with push_full [OF assms 3] that show thesis by auto
  qed
qed


section \<open>The ring as a bounded stream\<close>

interpretation ring: bounded_log push snapshot "\<lambda>_ d. d" cap ring_inv
proof unfold_locales
  fix r d assume "ring_inv r"
  then show "\<exists>r'. push d r = Some r'" by (blast elim: push_spec)
next
  fix r d r' assume "ring_inv r" "push d r = Some r'"
  then show "ring_inv r'" "cap r' = cap r" "snapshot r' = last_n (cap r) (snapshot r @ d)"
    by (auto elim: push_spec [of r d])
next
  fix r assume "ring_inv r"
  then show "length (snapshot r) \<le> cap r" by (simp add: len_def) (simp add: ring_inv_def)
qed

interpretation ring: bounded_stream push snapshot "\<lambda>_ d. d" cap ring_inv "\<lambda>d. d"
  by unfold_locales simp

lemma run_written:
  assumes "ring_inv r" "0 < cap r" "run_opt push ds r = Some r'"
  shows "written r' = sat64 (written r + length (concat ds))"
  using assms
proof (induction ds arbitrary: r)
  case Nil
  then show ?case by (simp add: ring_inv_def)
next
  case (Cons d ds)
  from push_spec [OF Cons.prems(1), of d] Cons.prems(2) obtain t where
    t: "push d r = Some t" "ring_inv t" "cap t = cap r" "written t = sat64 (written r + length d)"
    by (metis less_irrefl)
  with Cons show ?case by (auto simp: sat64_def)
qed

lemma run_from_new:
  assumes "c \<le> u64_max" "run_opt push ds (ring_new ep c) = Some r"
  shows "ring_inv r" "cap r = c" "snapshot r = last_n c (concat ds)"
    "0 < c \<Longrightarrow> written r = sat64 (length (concat ds))"
proof -
  note inv = ring_inv_new [OF assms(1), of ep]
  have new: "cap (ring_new ep c) = c" "written (ring_new ep c) = 0" by (simp_all add: ring_new_def)
  from ring.run_invar [OF inv assms(2)] new show "ring_inv r" "cap r = c" by simp_all
  from ring.run_contents [OF inv assms(2)] new show "snapshot r = last_n c (concat ds)" by simp
  from run_written [OF inv _ assms(2)] new
  show "0 < c \<Longrightarrow> written r = sat64 (length (concat ds))" by simp
qed

section \<open>Delta replay\<close>

lemma since_snapshot:
  assumes "ring_inv r"
  shows "since r k =
    (if k \<le> written r \<and> written r - k \<le> len r then Some (last_n (written r - k) (snapshot r))
     else None)"
  using assms by (auto simp: since_def Let_def last_n_def len_def)

lemma position_Some:
  "position p xs = Some i \<Longrightarrow>
     i < length xs \<and> p (xs ! i) \<and> (\<forall>x\<in>set (take i xs). \<not> p x)"
proof (induction xs arbitrary: i)
  case Nil
  then show ?case by simp
next
  case (Cons x xs)
  then show ?case by (cases i) (auto split: if_splits)
qed

lemma position_None: "position p xs = None \<longleftrightarrow> (\<forall>x\<in>set xs. \<not> p x)"
  by (induction xs) auto

lemma drop_position:
  "position p xs = Some i \<Longrightarrow> drop (Suc i) xs = tl (dropWhile (\<lambda>x. \<not> p x) xs)"
  by (induction xs arbitrary: i) (auto split: if_splits)

section \<open>Epoch sequences\<close>

text \<open>The epochs handed out by successive calls, each with its clock reading and pid.\<close>

fun epochs :: "u64 \<Rightarrow> (u64 \<times> u64) list \<Rightarrow> u64 list" where
  "epochs nxt [] = []"
| "epochs nxt ((nanos, pid) # es) =
     (case next_epoch nanos pid nxt of (e, nxt') \<Rightarrow> e # epochs nxt' es)"

definition epoch_seed :: "u64 \<Rightarrow> u64 \<Rightarrow> u64" where
  "epoch_seed nanos pid = (nanos XOR push_bit 32 pid) OR 1"

lemma epoch_seed_nonzero: "epoch_seed nanos pid \<noteq> 0"
proof
  assume "epoch_seed nanos pid = 0"
  then have "bit (epoch_seed nanos pid) 0 = False" by simp
  then show False by (simp add: epoch_seed_def bit_or_iff)
qed

lemma next_epoch_seed:
  "next_epoch nanos pid 1 = (epoch_seed nanos pid, epoch_seed nanos pid + 1)"
  using epoch_seed_nonzero [of nanos pid]
  by (simp add: next_epoch_def Let_def flip: epoch_seed_def)

lemma epochs_run:
  assumes "2 \<le> unat nxt" "unat nxt + length es \<le> 2 ^ 64"
  shows "epochs nxt es = map of_nat [unat nxt ..< unat nxt + length es]"
  using assms
proof (induction es arbitrary: nxt)
  case Nil
  then show ?case by simp
next
  case (Cons e es)
  obtain nanos pid where e: "e = (nanos, pid)" by fastforce
  have n: "nxt \<noteq> 1" "nxt \<noteq> 0" using Cons.prems(1) by auto
  show ?case
  proof (cases es)
    case Nil
    with n e show ?thesis by (simp add: next_epoch_def)
  next
    case (Cons e' es')
    with \<open>unat nxt + length (e # es) \<le> 2 ^ 64\<close> have s: "unat (nxt + 1) = unat nxt + 1"
      by (simp add: unat_word_ariths)
    have "epochs (nxt + 1) es = map of_nat [unat nxt + 1 ..< unat nxt + 1 + length es]"
      using Cons.IH [of "nxt + 1"] Cons.prems by (simp add: s)
    then show ?thesis using n by (simp add: e next_epoch_def upt_conv_Cons del: upt_Suc)
  qed
qed

lemma distinct_of_nat: "b \<le> 2 ^ 64 \<Longrightarrow> distinct (map (of_nat :: nat \<Rightarrow> u64) [a ..< b])"
  by (auto simp: distinct_map inj_on_def word_of_nat_eq_iff take_bit_nat_def)

lemma zero_notin_of_nat:
  assumes "b \<le> 2 ^ 64" "0 < a"
  shows "(0::u64) \<notin> set (map of_nat [a ..< b])"
proof -
  have "of_nat x \<noteq> (0::u64)" if "a \<le> x" "x < b" for x
    using that assms by (simp add: word_of_nat_eq_0_iff nat_dvd_not_less)
  then show ?thesis by auto
qed

section \<open>Properties\<close>

text \<open>C7: whatever sequence of chunks is pushed into a fresh ring, no push panics and the
  ring then holds exactly the newest \<open>c\<close> bytes of the whole stream, in order, in an allocation
  that never exceeds the cap.\<close>

theorem ring_keeps_newest:
  assumes "c \<le> u64_max"
  shows "\<exists>r. run_opt push ds (ring_new ep c) = Some r \<and>
           snapshot r = last_n c (concat ds) \<and> len r \<le> c \<and> allocated r \<le> c"
proof -
  obtain r where r: "run_opt push ds (ring_new ep c) = Some r"
    using ring.run_total [OF ring_inv_new [OF assms]] by blast
  from run_from_new [OF assms r] show ?thesis
    using r by (auto simp: ring_inv_def len_def allocated_def)
qed

theorem ring_keeps_newest_witness:
  "(4::nat) \<le> u64_max \<and>
   (\<exists>r. run_opt push [[1, 2, 3], [4, 5, 6]] (ring_new 9 4) = Some r \<and>
      snapshot r = [3, 4, 5, 6] \<and> len r \<le> 4 \<and> allocated r \<le> 4)"
proof -
  have h: "(4::nat) \<le> u64_max" by (simp add: u64_max_def)
  show ?thesis
    using h ring_keeps_newest [OF h, of "[[1, 2, 3], [4, 5, 6]]" 9] by (simp add: last_n_def)
qed

text \<open>Delta replay is exact. After any pushes into a fresh ring (short of the 64-bit
  counter's limit), \<^verbatim>\<open>since(k)\<close> is the stream from absolute offset \<open>k\<close> on when that offset
  has been reached and none of those bytes was evicted, and \<^verbatim>\<open>None\<close> in every other case.\<close>

theorem since_exact_delta:
  assumes "0 < c" "c \<le> u64_max" and "length (concat ds) \<le> u64_max"
    and "run_opt push ds (ring_new ep c) = Some r"
  shows "since r k =
    (if k \<le> length (concat ds) \<and> length (concat ds) - k \<le> c then Some (drop k (concat ds))
     else None)"
proof -
  note r = run_from_new [OF assms(2,4)]
  have w: "written r = length (concat ds)" using r(4) assms by simp
  have l: "len r = min c (length (concat ds))" using r by (metis length_snapshot length_last_n)
  show ?thesis
    unfolding since_snapshot [OF r(1)] w l r(3)
    by (auto simp: last_n_last_n last_n_drop)
qed

theorem since_exact_delta_witness:
  "\<exists>r. run_opt push [[1, 2, 3], [4, 5, 6]] (ring_new 9 4) = Some r \<and>
     since r 3 = Some [4, 5, 6] \<and> since r 1 = None \<and> since r 7 = None"
proof -
  have h: "(0::nat) < 4" "(4::nat) \<le> u64_max" "length (concat [[1, 2, 3], [4, 5, 6 :: byte]]) \<le> u64_max"
    by (simp_all add: u64_max_def)
  obtain r where r: "run_opt push [[1, 2, 3], [4, 5, 6]] (ring_new 9 4) = Some r"
    using ring.run_total [OF ring_inv_new [OF h(2)]] by blast
  show ?thesis
    using r since_exact_delta [OF h r] by auto
qed

text \<open>A preview tail is a suffix of the scrollback. When nothing is cut it is everything;
  when the last \<open>n\<close> bytes contain a newline it is what follows the first newline of that
  window, so a preview never starts inside a line; otherwise it is the window itself.\<close>

theorem tail_starts_at_line:
  "tail r n =
     (let window = last_n n (snapshot r) in
      if length (snapshot r) \<le> n then snapshot r
      else if 10 \<in> set window then tl (dropWhile (\<lambda>b. b \<noteq> 10) window) else window) \<and>
   suffix (tail r n) (snapshot r)"
proof -
  let ?w = "last_n n (snapshot r)"
  have w: "drop (length (snapshot r) - n) (snapshot r) = ?w" by (simp add: last_n_def)
  have tl: "tail r n = (if length (snapshot r) \<le> n then snapshot r
      else if 10 \<in> set ?w then tl (dropWhile (\<lambda>b. b \<noteq> 10) ?w) else ?w)"
    using position_None [of "\<lambda>b. b = 10" ?w]
    by (auto simp: tail_def Let_def w drop_position split: option.splits)
  have "suffix (tl (dropWhile (\<lambda>b. b \<noteq> 10) ?w)) (snapshot r)"
    by (meson suffix_dropWhile suffix_last_n suffix_order.trans suffix_tl)
  then show ?thesis by (simp add: tl Let_def suffix_last_n)
qed

text \<open>An allocated epoch is never 0 (clients use 0 for "no watermark"), and the epochs of
  all rings of one process are pairwise distinct as long as the 64-bit counter does not run
  past its maximum after seeding.\<close>

theorem epochs_distinct:
  assumes "unat (epoch_seed nanos pid) + length clock \<le> u64_max"
  shows "0 \<notin> set (epochs epoch_init ((nanos, pid) # clock)) \<and>
         distinct (epochs epoch_init ((nanos, pid) # clock))"
proof -
  let ?s = "epoch_seed nanos pid"
  have s0: "?s \<noteq> 0" by (rule epoch_seed_nonzero)
  show ?thesis
  proof (cases clock)
    case Nil
    with s0 show ?thesis by (simp add: epoch_init_def next_epoch_seed)
  next
    case (Cons c cs)
    with assms have s: "unat (?s + 1) = unat ?s + 1"
      by (simp add: u64_max_def unat_word_ariths)
    have pos: "1 \<le> unat ?s" using s0 by (simp add: unat_gt_0 Suc_le_eq)
    have e: "epochs epoch_init ((nanos, pid) # clock) =
        ?s # map of_nat [unat ?s + 1 ..< unat ?s + 1 + length clock]"
      using epochs_run [of "?s + 1" clock] pos assms
      by (simp add: epoch_init_def next_epoch_seed s u64_max_def del: upt_Suc)
    have "epochs epoch_init ((nanos, pid) # clock) = map of_nat [unat ?s ..< unat ?s + 1 + length clock]"
      unfolding e by (simp add: upt_conv_Cons del: upt_Suc)
    moreover have "distinct (map (of_nat :: nat \<Rightarrow> u64) [unat ?s ..< unat ?s + 1 + length clock])"
      using assms by (intro distinct_of_nat) (simp add: u64_max_def)
    moreover have "(0::u64) \<notin> set (map of_nat [unat ?s ..< unat ?s + 1 + length clock])"
      using assms pos by (intro zero_notin_of_nat) (simp_all add: u64_max_def)
    ultimately show ?thesis by simp
  qed
qed

theorem epochs_distinct_witness:
  "unat (epoch_seed 6 2) + length [(7, 2), (8, 2 :: u64)] \<le> u64_max \<and>
   distinct (epochs epoch_init [(6, 2), (7, 2), (8, 2)])"
proof -
  have h: "unat (epoch_seed 6 2) + length [(7, 2), (8, 2 :: u64)] \<le> u64_max"
    by (simp add: epoch_seed_def u64_max_def)
  show ?thesis using h epochs_distinct [OF h] by simp
qed

end
