(* ===== verification/Modes.thy ===== *)
theory Modes
  imports Prelude
begin

text \<open>
  The private-terminal-mode tracker of \<^verbatim>\<open>crates/amber-core/src/modes.rs\<close>: a
  split-safe recognizer of \<^verbatim>\<open>ESC [ ? params h|l\<close> with O(1) memory, and the preamble
  that puts a cold terminal into the modes a full-screen application has set.
\<close>

section \<open>Tracked modes\<close>

definition BIT_ALT_47 :: u32 where "BIT_ALT_47 = push_bit 0 1"
definition BIT_ALT_1047 :: u32 where "BIT_ALT_1047 = push_bit 1 1"
definition BIT_ALT_1049 :: u32 where "BIT_ALT_1049 = push_bit 2 1"
definition BIT_MOUSE_1000 :: u32 where "BIT_MOUSE_1000 = push_bit 3 1"
definition BIT_MOUSE_1002 :: u32 where "BIT_MOUSE_1002 = push_bit 4 1"
definition BIT_MOUSE_1003 :: u32 where "BIT_MOUSE_1003 = push_bit 5 1"
definition BIT_FOCUS_1004 :: u32 where "BIT_FOCUS_1004 = push_bit 6 1"
definition BIT_MOUSE_1006 :: u32 where "BIT_MOUSE_1006 = push_bit 7 1"
definition BIT_MOUSE_1015 :: u32 where "BIT_MOUSE_1015 = push_bit 8 1"
definition BIT_MOUSE_1016 :: u32 where "BIT_MOUSE_1016 = push_bit 9 1"
definition BIT_BRACKETED_PASTE :: u32 where "BIT_BRACKETED_PASTE = push_bit 10 1"
definition BIT_CURSOR_HIDDEN :: u32 where "BIT_CURSOR_HIDDEN = push_bit 11 1"

lemmas bit_defs =
  BIT_ALT_47_def BIT_ALT_1047_def BIT_ALT_1049_def BIT_MOUSE_1000_def BIT_MOUSE_1002_def
  BIT_MOUSE_1003_def BIT_FOCUS_1004_def BIT_MOUSE_1006_def BIT_MOUSE_1015_def
  BIT_MOUSE_1016_def BIT_BRACKETED_PASTE_def BIT_CURSOR_HIDDEN_def

definition TRACKED :: "(nat \<times> u32) list" where
  "TRACKED =
     [(25, BIT_CURSOR_HIDDEN), (47, BIT_ALT_47), (1000, BIT_MOUSE_1000), (1002, BIT_MOUSE_1002),
      (1003, BIT_MOUSE_1003), (1004, BIT_FOCUS_1004), (1006, BIT_MOUSE_1006),
      (1015, BIT_MOUSE_1015), (1016, BIT_MOUSE_1016), (1047, BIT_ALT_1047),
      (1049, BIT_ALT_1049), (2004, BIT_BRACKETED_PASTE)]"

definition bit_for :: "nat \<Rightarrow> u32 option" where
  "bit_for mode = map_of TRACKED mode"

definition is_alt_bit :: "u32 \<Rightarrow> bool" where
  "is_alt_bit b \<longleftrightarrow> b = BIT_ALT_47 \<or> b = BIT_ALT_1047 \<or> b = BIT_ALT_1049"

datatype preamble_pass = AltScreen | Reporting

definition MAX_PARAMS :: nat where "MAX_PARAMS = 64"

section \<open>The tracker\<close>

datatype mode_parse = Normal | Esc | Csi | Priv "byte list"

record terminal_modes =
  enabled :: u32
  state :: mode_parse

definition modes_new :: terminal_modes where
  "modes_new = \<lparr>enabled = 0, state = Normal\<rparr>"

definition set_bit_modes :: "terminal_modes \<Rightarrow> u32 \<Rightarrow> bool \<Rightarrow> terminal_modes" where
  "set_bit_modes m b on =
     m\<lparr>enabled := (if on then enabled m OR b else enabled m AND NOT b)\<rparr>"

definition apply_mode :: "terminal_modes \<Rightarrow> nat \<Rightarrow> bool \<Rightarrow> terminal_modes" where
  "apply_mode m mode on =
     (if mode = 25 then set_bit_modes m BIT_CURSOR_HIDDEN (\<not> on)
      else case bit_for mode of Some b \<Rightarrow> set_bit_modes m b on | None \<Rightarrow> m)"

text \<open>A parameter that is no \<^verbatim>\<open>u16\<close> is skipped.\<close>

definition parse_u16 :: "byte list \<Rightarrow> nat option" where
  "parse_u16 bs = parse_uint 65535 (map unat bs)"

definition apply_params :: "terminal_modes \<Rightarrow> byte list \<Rightarrow> bool \<Rightarrow> terminal_modes" where
  "apply_params m params on =
     fold (\<lambda>p m. case parse_u16 p of Some mode \<Rightarrow> apply_mode m mode on | None \<Rightarrow> m)
       (split_on 59 params) m"

definition is_ascii_digit :: "byte \<Rightarrow> bool" where
  "is_ascii_digit b \<longleftrightarrow> 48 \<le> b \<and> b \<le> 57"

definition feed_byte :: "terminal_modes \<Rightarrow> byte \<Rightarrow> terminal_modes" where
  "feed_byte m b =
     (case state m of
        Normal \<Rightarrow> if b = 0x1b then m\<lparr>state := Esc\<rparr> else m\<lparr>state := Normal\<rparr>
      | Esc \<Rightarrow> if b = 91 then m\<lparr>state := Csi\<rparr>
               else if b = 0x1b then m\<lparr>state := Esc\<rparr> else m\<lparr>state := Normal\<rparr>
      | Csi \<Rightarrow> if b = 63 then m\<lparr>state := Priv []\<rparr>
               else if b = 0x1b then m\<lparr>state := Esc\<rparr> else m\<lparr>state := Normal\<rparr>
      | Priv params \<Rightarrow>
          if b = 104 \<or> b = 108 then (apply_params m params (b = 104))\<lparr>state := Normal\<rparr>
          else if is_ascii_digit b \<or> b = 59 then
            (if length params < MAX_PARAMS then m\<lparr>state := Priv (params @ [b])\<rparr>
             else m\<lparr>state := Normal\<rparr>)
          else if b = 0x1b then m\<lparr>state := Esc\<rparr> else m\<lparr>state := Normal\<rparr>)"

fun feed :: "terminal_modes \<Rightarrow> byte list \<Rightarrow> terminal_modes" where
  "feed m [] = m"
| "feed m (b # bs) = feed (feed_byte m b) bs"

definition alt_screen :: "terminal_modes \<Rightarrow> bool" where
  "alt_screen m \<longleftrightarrow> enabled m AND (BIT_ALT_47 OR BIT_ALT_1047 OR BIT_ALT_1049) \<noteq> 0"

definition mouse_tracking :: "terminal_modes \<Rightarrow> bool" where
  "mouse_tracking m \<longleftrightarrow>
     enabled m AND (BIT_MOUSE_1000 OR BIT_MOUSE_1002 OR BIT_MOUSE_1003 OR BIT_MOUSE_1006
                    OR BIT_MOUSE_1015 OR BIT_MOUSE_1016) \<noteq> 0"

definition bracketed_paste :: "terminal_modes \<Rightarrow> bool" where
  "bracketed_paste m \<longleftrightarrow> enabled m AND BIT_BRACKETED_PASTE \<noteq> 0"

definition cursor_hidden :: "terminal_modes \<Rightarrow> bool" where
  "cursor_hidden m \<longleftrightarrow> enabled m AND BIT_CURSOR_HIDDEN \<noteq> 0"

text \<open>\<^verbatim>\<open>format!("\x1b[?{mode}h")\<close> and the hidden-cursor sequence.\<close>

definition decset :: "nat \<Rightarrow> byte list" where
  "decset mode = [0x1b, 91, 63] @ map of_nat (dec mode) @ [104]"

definition hide_cursor :: "byte list" where
  "hide_cursor = [0x1b, 91, 63, 50, 53, 108]"

definition replay_preamble :: "terminal_modes \<Rightarrow> byte list" where
  "replay_preamble m =
     (if \<not> alt_screen m then []
      else concat (map (\<lambda>pass. concat (map (\<lambda>(mode, b).
               if mode = 25 \<or> (pass = AltScreen) \<noteq> is_alt_bit b then []
               else if enabled m AND b \<noteq> 0 then decset mode else [])
             TRACKED)) [AltScreen, Reporting])
           @ (if cursor_hidden m then hide_cursor else []))"

section \<open>Single bits\<close>

lemma and_bit_eq_0: "(x AND 2 ^ k = 0) \<longleftrightarrow> \<not> bit x k"
  for x :: u32
  by (rule and_exp_eq_0_iff_not_bit)

lemma set_bit_modes_bit:
  assumes "i < 32"
  shows "bit (enabled (set_bit_modes m (2 ^ i) on)) j = (if j = i then on else bit (enabled m) j)"
proof (cases "j < 32")
  case True
  with assms show ?thesis
    by (auto simp: set_bit_modes_def bit_or_iff bit_and_iff bit_not_iff bit_exp_iff
        possible_bit_def)
next
  case False
  with assms show ?thesis by (auto simp: bit_imp_le_length dest: bit_imp_le_length)
qed

lemma push_bit_1_inj: "i < 32 \<Longrightarrow> j < 32 \<Longrightarrow> push_bit i (1::u32) = push_bit j 1 \<longleftrightarrow> i = j"
proof
  assume ij: "i < 32" "j < 32" and "push_bit i (1::u32) = push_bit j 1"
  then have "bit (push_bit j (1::u32)) i = bit (push_bit i (1::u32)) i" by simp
  with ij show "i = j" by (simp add: bit_exp_iff possible_bit_def)
qed simp

lemma tracked_bits: "list_all (\<lambda>b. b \<in> set (map (\<lambda>i. push_bit i 1) [0..<12])) (map snd TRACKED)"
  by code_simp

lemma tracked_index: "bit_for k = Some b \<Longrightarrow> \<exists>i<12. b = push_bit i 1"
proof -
  assume "bit_for k = Some b"
  then have "b \<in> set (map snd TRACKED)" by (force simp: bit_for_def dest: map_of_SomeD)
  then have "b \<in> set (map (\<lambda>i. push_bit i 1) [0..<12])"
    using tracked_bits by (simp only: list_all_iff)
  then show ?thesis by auto
qed

lemma bit_for_25: "bit_for 25 = Some BIT_CURSOR_HIDDEN"
  by (simp add: bit_for_def TRACKED_def)

lemma tracked_bits_distinct: "distinct (map snd TRACKED)"
  by (simp add: TRACKED_def bit_defs)

lemma bit_for_inj: "bit_for k = Some b \<Longrightarrow> bit_for k' = Some b \<Longrightarrow> k = k'"
  using tracked_bits_distinct
  by (auto simp: bit_for_def distinct_map inj_on_def dest!: map_of_SomeD) force

section \<open>Abstract modes\<close>

text \<open>
  The DECSET state the tracker stands for: which of the tracked modes are on. Mode 25
  (cursor visible) is on by default, the others are off.
\<close>

definition mode_set :: "terminal_modes \<Rightarrow> nat \<Rightarrow> bool" where
  "mode_set m k =
     (case bit_for k of None \<Rightarrow> False
      | Some b \<Rightarrow> if k = 25 then enabled m AND b = 0 else enabled m AND b \<noteq> 0)"

lemma mode_set_apply:
  "mode_set (apply_mode m k on) j = (if j = k \<and> bit_for k \<noteq> None then on else mode_set m j)"
proof (cases "bit_for k")
  case None
  then show ?thesis using bit_for_25 by (auto simp: apply_mode_def)
next
  case (Some b)
  obtain i where i: "i < 12" "b = push_bit i 1" using tracked_index [OF Some] by blast
  have upd: "apply_mode m k on = set_bit_modes m b (if k = 25 then \<not> on else on)"
    using Some bit_for_25 by (auto simp: apply_mode_def)
  show ?thesis
  proof (cases "bit_for j")
    case None
    with Some show ?thesis by (auto simp: mode_set_def)
  next
    case (Some c)
    obtain l where l: "l < 12" "c = push_bit l 1" using tracked_index [OF Some] by blast
    have "l = i \<longleftrightarrow> j = k"
    proof
      assume "l = i"
      then show "j = k" using bit_for_inj [OF Some] \<open>bit_for k = Some b\<close> i(2) l(2) by simp
    next
      assume "j = k"
      then have "c = b" using Some \<open>bit_for k = Some b\<close> by simp
      then show "l = i" using push_bit_1_inj [of l i] i l by simp
    qed
    with Some \<open>bit_for k = Some b\<close> i l show ?thesis
      by (simp add: mode_set_def upd and_bit_eq_0 set_bit_modes_bit)
  qed
qed

text \<open>The tracked modes a parameter string names.\<close>

definition listed :: "byte list \<Rightarrow> nat set" where
  "listed params = {k. bit_for k \<noteq> None \<and> (\<exists>p\<in>set (split_on 59 params). parse_u16 p = Some k)}"

lemma mode_set_fold:
  "mode_set (fold (\<lambda>p m. case parse_u16 p of Some k \<Rightarrow> apply_mode m k on | None \<Rightarrow> m) ps m) j =
     (if bit_for j \<noteq> None \<and> (\<exists>p\<in>set ps. parse_u16 p = Some j) then on else mode_set m j)"
  by (induction ps arbitrary: m) (auto simp: mode_set_apply split: option.splits)

lemma mode_set_apply_params:
  "mode_set (apply_params m params on) j = (if j \<in> listed params then on else mode_set m j)"
  by (simp add: apply_params_def mode_set_fold listed_def)

lemma mode_set_state [simp]: "mode_set (m\<lparr>state := p\<rparr>) = mode_set m"
  by (simp add: mode_set_def fun_eq_iff split: option.splits)

section \<open>Streaming\<close>

interpretation modes: scanner feed_byte feed
  by unfold_locales simp_all

text \<open>Bytes that may stand inside a private-mode candidate.\<close>

definition param_byte :: "byte \<Rightarrow> bool" where
  "param_byte b \<longleftrightarrow> is_ascii_digit b \<or> b = 59"

lemma param_byte_neq: "param_byte b \<Longrightarrow> b \<noteq> 104 \<and> b \<noteq> 108 \<and> b \<noteq> 0x1b"
  by (auto simp: param_byte_def is_ascii_digit_def)

lemma feed_params:
  assumes "\<forall>b\<in>set ps. param_byte b" and "length qs + length ps \<le> MAX_PARAMS"
  shows "feed (m\<lparr>state := Priv qs\<rparr>) ps = m\<lparr>state := Priv (qs @ ps)\<rparr>"
  using assms
proof (induction ps arbitrary: qs)
  case Nil
  then show ?case by simp
next
  case (Cons b ps)
  then have b: "param_byte b" by simp
  with Cons.prems have "feed_byte (m\<lparr>state := Priv qs\<rparr>) b = m\<lparr>state := Priv (qs @ [b])\<rparr>"
    using param_byte_neq [OF b] by (simp add: feed_byte_def param_byte_def)
  with Cons show ?case by simp
qed

lemma feed_escape: "feed_byte m 0x1b = m\<lparr>state := Esc\<rparr>"
  by (simp add: feed_byte_def is_ascii_digit_def split: mode_parse.splits)

text \<open>Wherever the recognizer is, a complete sequence is recognized.\<close>

lemma feed_sequence:
  assumes "\<forall>b\<in>set ps. param_byte b" and "length ps \<le> MAX_PARAMS" and "f = 104 \<or> f = 108"
  shows "feed m ([0x1b, 91, 63] @ ps @ [f]) =
           (apply_params (m\<lparr>state := Priv ps\<rparr>) ps (f = 104))\<lparr>state := Normal\<rparr>"
proof -
  have "feed m [0x1b, 91, 63] = m\<lparr>state := Priv []\<rparr>"
    by (simp add: feed_escape) (simp add: feed_byte_def)
  moreover have "feed (m\<lparr>state := Priv []\<rparr>) ps = m\<lparr>state := Priv ps\<rparr>"
    using feed_params [of ps "[]" m] assms by simp
  ultimately have "feed m ([0x1b, 91, 63] @ ps @ [f]) = feed_byte (m\<lparr>state := Priv ps\<rparr>) f"
    by (simp only: modes.feed_append) simp
  with assms(3) show ?thesis by (auto simp: feed_byte_def)
qed

section \<open>The preamble\<close>

lemma apply_mode_state: "apply_mode (m\<lparr>state := p\<rparr>) k on = (apply_mode m k on)\<lparr>state := p\<rparr>"
  by (simp add: apply_mode_def set_bit_modes_def split: option.splits)

lemma dec_bytes:
  "map unat (map of_nat (dec k) :: byte list) = dec k"
  "\<forall>b\<in>set (map of_nat (dec k) :: byte list). is_ascii_digit b"
proof -
  have d: "unat (of_nat x :: byte) = x" "is_ascii_digit (of_nat x)" if "x \<in> set (dec k)" for x
  proof -
    from that dec_digit [of k] have x: "48 \<le> x" "x \<le> 57" by auto
    then show "unat (of_nat x :: byte) = x" by (simp add: unat_of_nat)
    then show "is_ascii_digit (of_nat x)"
      using x by (simp add: is_ascii_digit_def word_le_nat_alt)
  qed
  from d(1) show "map unat (map of_nat (dec k) :: byte list) = dec k"
    by (simp add: map_idI)
  from d(2) show "\<forall>b\<in>set (map of_nat (dec k) :: byte list). is_ascii_digit b" by auto
qed

lemma feed_decimal:
  assumes "k \<le> 65535" "f = 104 \<or> f = 108"
  shows "feed m ([0x1b, 91, 63] @ map of_nat (dec k) @ [f]) =
           (apply_mode m k (f = 104))\<lparr>state := Normal\<rparr>"
proof -
  let ?ps = "map of_nat (dec k) :: byte list"
  have "length ?ps \<le> MAX_PARAMS"
    using length_dec [of k 63] assms(1) by (simp add: MAX_PARAMS_def)
  moreover have "\<forall>b\<in>set ?ps. param_byte b" using dec_bytes(2) by (auto simp: param_byte_def)
  moreover have "59 \<notin> set ?ps" using dec_bytes(2) by (fastforce simp: is_ascii_digit_def)
  moreover have "parse_u16 ?ps = Some k"
    using assms(1) by (simp only: parse_u16_def dec_bytes parse_dec)
  ultimately show ?thesis
    using feed_sequence [of ?ps f m] assms(2)
    by (simp add: apply_params_def split_on_fresh apply_mode_state)
qed

lemma mode_set_decset:
  "k \<le> 65535 \<Longrightarrow>
     mode_set (feed m (decset k)) j = (if j = k \<and> bit_for k \<noteq> None then True else mode_set m j)"
  using feed_decimal [of k 104 m] by (simp add: decset_def mode_set_apply)

lemma mode_set_hide:
  "mode_set (feed m hide_cursor) j = (if j = 25 then False else mode_set m j)"
proof -
  have "hide_cursor = [0x1b, 91, 63] @ map of_nat (dec 25) @ [108]"
    by (simp add: hide_cursor_def dec.simps [of 25] dec.simps [of 2])
  then show ?thesis
    using feed_decimal [of 25 108 m] by (simp add: mode_set_apply bit_for_25)
qed

lemma mode_set_emit:
  assumes "\<forall>(k, b)\<in>set ts. k \<le> 65535 \<and> bit_for k \<noteq> None"
  shows "mode_set (feed m (concat (map (\<lambda>(k, b). if c k b then decset k else []) ts))) j =
           ((\<exists>b. (j, b) \<in> set ts \<and> c j b) \<or> mode_set m j)"
  using assms
proof (induction ts arbitrary: m)
  case Nil
  then show ?case by simp
next
  case (Cons t ts)
  obtain k b where t: "t = (k, b)" by fastforce
  have "mode_set (feed (feed m (if c k b then decset k else [])) (concat (map (\<lambda>(k, b).
      if c k b then decset k else []) ts))) j =
      ((\<exists>b. (j, b) \<in> set ts \<and> c j b) \<or> (j = k \<and> c k b) \<or> mode_set m j)"
    using Cons t by (auto simp: mode_set_decset)
  then show ?case by (auto simp: t modes.feed_append)
qed

lemma tracked_ok: "\<forall>(k, b)\<in>set TRACKED. k \<le> 65535 \<and> bit_for k \<noteq> None"
  by (simp add: TRACKED_def bit_for_def)

lemma tracked_iff: "(k, b) \<in> set TRACKED \<longleftrightarrow> bit_for k = Some b"
  unfolding bit_for_def by (subst map_of_eq_Some_iff) (simp_all add: TRACKED_def)

lemma replay_preamble_eq:
  "replay_preamble m =
     (if \<not> alt_screen m then []
      else concat (map (\<lambda>(k, b). if k \<noteq> 25 \<and> is_alt_bit b \<and> enabled m AND b \<noteq> 0
                                 then decset k else []) TRACKED)
         @ concat (map (\<lambda>(k, b). if k \<noteq> 25 \<and> \<not> is_alt_bit b \<and> enabled m AND b \<noteq> 0
                                 then decset k else []) TRACKED)
         @ (if cursor_hidden m then hide_cursor else []))"
  by (simp add: replay_preamble_def case_prod_unfold cong: if_cong)
    (intro conjI impI arg_cong2 [where f = append] arg_cong [where f = concat] map_cong;
     auto simp: fun_eq_iff)

lemma mode_set_new: "mode_set modes_new j \<longleftrightarrow> j = 25"
  by (auto simp: mode_set_def modes_new_def bit_for_25 split: option.splits)

lemma mode_set_preamble:
  assumes "alt_screen m"
  shows "mode_set (feed modes_new (replay_preamble m)) = mode_set m"
proof
  fix j
  have "mode_set (feed modes_new (replay_preamble m)) j =
      (if j = 25 then \<not> cursor_hidden m
       else \<exists>b. (j, b) \<in> set TRACKED \<and> enabled m AND b \<noteq> 0)"
    using assms
    by (auto simp: replay_preamble_eq modes.feed_append mode_set_hide mode_set_new
        mode_set_emit [OF tracked_ok])
  then show "mode_set (feed modes_new (replay_preamble m)) j = mode_set m j"
    by (auto simp: tracked_iff mode_set_def bit_for_25 cursor_hidden_def split: option.splits)
qed

text \<open>Only tracked bits are ever set, so the abstract modes determine the mask.\<close>

definition modes_inv :: "terminal_modes \<Rightarrow> bool" where
  "modes_inv m \<longleftrightarrow> (\<forall>n\<ge>12. \<not> bit (enabled m) n) \<and>
     (case state m of Priv params \<Rightarrow> length params \<le> MAX_PARAMS | _ \<Rightarrow> True)"

lemma apply_mode_bits:
  "\<forall>n\<ge>12. \<not> bit (enabled m) n \<Longrightarrow> \<forall>n\<ge>12. \<not> bit (enabled (apply_mode m k on)) n"
proof (cases "bit_for k")
  case None
  moreover assume "\<forall>n\<ge>12. \<not> bit (enabled m) n"
  ultimately show ?thesis using bit_for_25 by (auto simp: apply_mode_def)
next
  case (Some b)
  moreover obtain i where "i < 12" "b = 2 ^ i" using tracked_index [OF Some] by auto
  moreover have "apply_mode m k on = set_bit_modes m b (if k = 25 then \<not> on else on)"
    using Some bit_for_25 by (auto simp: apply_mode_def)
  moreover assume "\<forall>n\<ge>12. \<not> bit (enabled m) n"
  ultimately show ?thesis by (simp add: set_bit_modes_bit)
qed

lemma apply_params_bits:
  "\<forall>n\<ge>12. \<not> bit (enabled m) n \<Longrightarrow> \<forall>n\<ge>12. \<not> bit (enabled (apply_params m ps on)) n"
  unfolding apply_params_def
  by (induction "split_on 59 ps" arbitrary: ps m rule: list.induct;
      rule fold_invariant [where Q = "\<lambda>_. True" and P = "\<lambda>m. \<forall>n\<ge>12. \<not> bit (enabled m) n"])
    (simp_all add: apply_mode_bits split: option.splits)

lemma modes_inv_new: "modes_inv modes_new"
  by (simp add: modes_inv_def modes_new_def)

lemma modes_inv_step: "modes_inv m \<Longrightarrow> modes_inv (feed_byte m b)"
  using apply_params_bits [of m]
  by (auto simp: modes_inv_def feed_byte_def split: mode_parse.splits)

lemma modes_inv_feed: "modes_inv m \<Longrightarrow> modes_inv (feed m bs)"
  by (rule modes.feed_invar) (rule modes_inv_step)

lemma tracked_onto: "n < 12 \<Longrightarrow> \<exists>k b. bit_for k = Some b \<and> b = 2 ^ n"
proof -
  assume "n < 12"
  then have "n \<in> set [0..<12]" by simp
  moreover have "\<forall>n\<in>set [0..<12]. \<exists>t\<in>set TRACKED. snd t = 2 ^ n"
    by code_simp
  ultimately obtain t where "t \<in> set TRACKED" "snd t = 2 ^ n" by blast
  then show ?thesis by (metis prod.collapse tracked_iff)
qed

lemma enabled_determined:
  assumes "modes_inv m" "modes_inv m'" "mode_set m = mode_set m'"
  shows "enabled m = enabled m'"
proof (rule bit_eqI)
  fix n
  show "bit (enabled m) n = bit (enabled m') n"
  proof (cases "n < 12")
    case True
    then obtain k where k: "bit_for k = Some (2 ^ n)" using tracked_onto by blast
    from assms(3) have "mode_set m k = mode_set m' k" by simp
    with k show ?thesis by (simp add: mode_set_def and_bit_eq_0 split: if_splits)
  next
    case False
    with assms show ?thesis by (simp add: modes_inv_def)
  qed
qed

section \<open>Properties\<close>

text \<open>C29: wherever the recognizer stands (mid-sequence, after a stray ESC, after binary junk), a
  complete \<^verbatim>\<open>ESC [ ? params h\<close> or \<^verbatim>\<open>l\<close> with at most 64 parameter bytes is recognized: it
  switches exactly the tracked modes its parameters name and leaves every other mode alone,
  however the bytes were split into frames.\<close>

theorem sequence_recognized_anywhere:
  assumes "\<forall>b\<in>set ps. param_byte b" and "length ps \<le> MAX_PARAMS"
    and "concat chunks = [0x1b, 91, 63] @ ps @ [if on then 104 else 108]"
  shows "mode_set (fold (\<lambda>c m. feed m c) chunks m) k =
           (if k \<in> listed ps then on else mode_set m k)"
  using feed_sequence [OF assms(1,2), of "if on then 104 else 108" m] assms(3)
  by (simp add: modes.feed_chunks mode_set_apply_params split: if_splits)

theorem sequence_recognized_anywhere_witness:
  "mode_set (fold (\<lambda>c m. feed m c) [[0x1b, 91], [63, 52, 55, 104]] (modes_new\<lparr>state := Csi\<rparr>)) 47"
proof -
  have h: "\<forall>b\<in>set [52, 55 :: byte]. param_byte b" "length [52, 55 :: byte] \<le> MAX_PARAMS"
    "concat [[0x1b, 91], [63, 52, 55, 104 :: byte]] = [0x1b, 91, 63] @ [52, 55] @ [if True then 104 else 108]"
    by (simp_all add: param_byte_def is_ascii_digit_def MAX_PARAMS_def)
  have "47 \<in> listed [52, 55]"
    by (simp add: listed_def bit_for_def TRACKED_def parse_u16_def parse_uint_def)
  then show ?thesis
    using sequence_recognized_anywhere [OF h, of "modes_new\<lparr>state := Csi\<rparr>" 47] by simp
qed

text \<open>C17: the replay preamble restores the application's modes. Whatever bytes a session has
  produced, if its application is on the alternate screen then a cold terminal that is fed only
  the preamble ends up with exactly the same mode mask; if it is not, the preamble is empty, so
  a stale mouse mode is never re-asserted into a shell.\<close>

theorem preamble_restores_modes:
  "if alt_screen (feed modes_new bs)
   then enabled (feed modes_new (replay_preamble (feed modes_new bs))) = enabled (feed modes_new bs)
   else replay_preamble (feed modes_new bs) = []"
proof (cases "alt_screen (feed modes_new bs)")
  case True
  then show ?thesis
    using enabled_determined [OF modes_inv_feed [OF modes_inv_new] modes_inv_feed [OF modes_inv_new]
        mode_set_preamble [OF True]] by simp
next
  case False
  then show ?thesis by (simp add: replay_preamble_def)
qed

text \<open>The recognizer's memory is bounded: after any output, a pending candidate holds at most
  64 parameter bytes and no bit outside the twelve tracked modes is set.\<close>

theorem tracker_bounded:
  "take_bit 12 (enabled (feed modes_new bs)) = enabled (feed modes_new bs) \<and>
   (case state (feed modes_new bs) of Priv params \<Rightarrow> length params \<le> 64 | _ \<Rightarrow> True)"
proof -
  note inv = modes_inv_feed [OF modes_inv_new, of bs]
  have "take_bit 12 (enabled (feed modes_new bs)) = enabled (feed modes_new bs)"
    using inv by (intro bit_eqI) (auto simp: modes_inv_def bit_take_bit_iff not_less
        intro: ccontr)
  with inv show ?thesis by (simp add: modes_inv_def MAX_PARAMS_def split: mode_parse.splits)
qed

end
