(* ===== verification/Text.thy ===== *)
theory Text
  imports Prelude
begin

text \<open>
  Rust text. A \<^verbatim>\<open>String\<close>/\<^verbatim>\<open>&str\<close> is the list of its UTF-8 bytes written as \<open>string\<close>,
  so \<open>length\<close> is \<^verbatim>\<open>str::len\<close> and equality is equality of bytes.
  \<open>utf8_decode\<close> is \<^verbatim>\<open>str::from_utf8\<close>: the scalar values of a well-formed byte string,
  \<open>None\<close> where the standard library reports a \<^verbatim>\<open>Utf8Error\<close>. The character classes
  are those of \<^verbatim>\<open>char\<close>.
\<close>

section \<open>Bytes of a string\<close>

definition bytes_of :: "string \<Rightarrow> byte list" where
  "bytes_of s = map (\<lambda>c. of_nat (of_char c)) s"

definition string_of_bytes :: "byte list \<Rightarrow> string" where
  "string_of_bytes bs = map (\<lambda>b. char_of (unat b)) bs"

lemma length_bytes_of [simp]: "length (bytes_of s) = length s"
  by (simp add: bytes_of_def)

lemma length_string_of_bytes [simp]: "length (string_of_bytes bs) = length bs"
  by (simp add: string_of_bytes_def)

lemma unat_of_char [simp]: "unat (word_of_nat (of_char c) :: byte) = of_char c"
  by (simp add: unat_of_nat take_bit_nat_eq_self)

lemma string_of_bytes_of [simp]: "string_of_bytes (bytes_of s) = s"
  by (induction s) (simp_all add: bytes_of_def string_of_bytes_def)

lemma bytes_of_inject [simp]: "bytes_of s = bytes_of t \<longleftrightarrow> s = t"
  by (metis string_of_bytes_of)

lemma bytes_of_append [simp]: "bytes_of (s @ t) = bytes_of s @ bytes_of t"
  by (simp add: bytes_of_def)

section \<open>UTF-8\<close>

definition in_rng :: "nat \<Rightarrow> nat \<Rightarrow> nat \<Rightarrow> bool" where
  "in_rng lo hi b \<longleftrightarrow> lo \<le> b \<and> b \<le> hi"

abbreviation cont :: "nat \<Rightarrow> bool" where
  "cont b \<equiv> in_rng 128 191 b"

text \<open>The first scalar value of a byte sequence and the number of bytes it occupies.\<close>

definition utf8_head :: "nat list \<Rightarrow> (nat \<times> nat) option" where
  "utf8_head bs =
     (case bs of
        [] \<Rightarrow> None
      | b0 # r0 \<Rightarrow>
          if b0 < 128 then Some (b0, 1)
          else (case r0 of
             [] \<Rightarrow> None
           | b1 # r1 \<Rightarrow>
               if in_rng 194 223 b0 \<and> cont b1
               then Some ((b0 - 192) * 64 + (b1 - 128), 2)
               else (case r1 of
                  [] \<Rightarrow> None
                | b2 # r2 \<Rightarrow>
                    if (b0 = 224 \<and> in_rng 160 191 b1 \<or> in_rng 225 236 b0 \<and> cont b1
                        \<or> b0 = 237 \<and> in_rng 128 159 b1 \<or> in_rng 238 239 b0 \<and> cont b1) \<and> cont b2
                    then Some ((b0 - 224) * 4096 + (b1 - 128) * 64 + (b2 - 128), 3)
                    else (case r2 of
                       [] \<Rightarrow> None
                     | b3 # r3 \<Rightarrow>
                         if (b0 = 240 \<and> in_rng 144 191 b1 \<or> in_rng 241 243 b0 \<and> cont b1
                             \<or> b0 = 244 \<and> in_rng 128 143 b1) \<and> cont b2 \<and> cont b3
                         then Some ((b0 - 240) * 262144 + (b1 - 128) * 4096
                                     + (b2 - 128) * 64 + (b3 - 128), 4)
                         else None))))"

lemma utf8_head_len: "utf8_head bs = Some (c, n) \<Longrightarrow> 1 \<le> n \<and> n \<le> 4 \<and> n \<le> length bs"
  by (auto simp: utf8_head_def split: list.splits if_splits)

function utf8_decode :: "nat list \<Rightarrow> nat list option" where
  "utf8_decode bs =
     (if bs = [] then Some []
      else case utf8_head bs of
             None \<Rightarrow> None
           | Some (c, n) \<Rightarrow> map_option ((#) c) (utf8_decode (drop n bs)))"
  by pat_completeness auto

termination
  by (relation "measure length") (auto dest: utf8_head_len)

declare utf8_decode.simps [simp del]

lemma utf8_decode_Nil [simp]: "utf8_decode [] = Some []"
  by (simp add: utf8_decode.simps)

lemma utf8_decode_ascii [simp]:
  "b < 128 \<Longrightarrow> utf8_decode (b # bs) = map_option ((#) b) (utf8_decode bs)"
  by (subst utf8_decode.simps) (simp add: utf8_head_def)

lemma utf8_decode_all_ascii: "(\<forall>b\<in>set bs. b < 128) \<Longrightarrow> utf8_decode bs = Some bs"
  by (induction bs) simp_all

text \<open>\<^verbatim>\<open>str::from_utf8\<close> on a byte slice, and the characters of a string.\<close>

definition from_utf8 :: "byte list \<Rightarrow> string option" where
  "from_utf8 bs = (case utf8_decode (map unat bs) of
                     None \<Rightarrow> None | Some _ \<Rightarrow> Some (string_of_bytes bs))"

definition wf_str :: "string \<Rightarrow> bool" where
  "wf_str s \<longleftrightarrow> utf8_decode (map of_char s) \<noteq> None"

definition chars :: "string \<Rightarrow> nat list" where
  "chars s = (case utf8_decode (map of_char s) of None \<Rightarrow> [] | Some cs \<Rightarrow> cs)"

lemma from_utf8_bytes_of [simp]: "wf_str s \<Longrightarrow> from_utf8 (bytes_of s) = Some s"
proof -
  assume "wf_str s"
  moreover have "map unat (bytes_of s) = map of_char s" by (simp add: bytes_of_def)
  ultimately show ?thesis by (auto simp: from_utf8_def wf_str_def)
qed

text \<open>The characters of a string, each as the bytes that encode it.\<close>

function str_chars :: "string \<Rightarrow> string list" where
  "str_chars s =
     (case utf8_head (map of_char s) of
        None \<Rightarrow> []
      | Some (_, n) \<Rightarrow> take n s # str_chars (drop n s))"
  by pat_completeness auto

termination
proof (relation "measure length")
  fix s :: string and a b c n
  assume "utf8_head (map of_char s) = Some a" and "(c, n) = a"
  then show "(drop n s, s) \<in> measure length"
    using utf8_head_len [of "map of_char s" c n] by (auto simp: neq_Nil_conv)
qed simp

declare str_chars.simps [simp del]

lemma utf8_head_Nil [simp]: "utf8_head [] = None"
  by (simp add: utf8_head_def)

lemma concat_str_chars: "wf_str s \<Longrightarrow> concat (str_chars s) = s"
proof (induction s rule: str_chars.induct)
  case (1 s)
  show ?case
  proof (cases "utf8_head (map of_char s)")
    case None
    with "1.prems" have "s = []"
      by (cases s) (simp_all add: wf_str_def utf8_decode.simps)
    then show ?thesis by (simp add: str_chars.simps)
  next
    case (Some a)
    obtain c n where a: "a = (c, n)" by (cases a)
    have "s \<noteq> []" using Some by auto
    with Some a "1.prems" have "wf_str (drop n s)"
      by (auto simp: wf_str_def utf8_decode.simps [of "map of_char s"] drop_map)
    with "1.IH" [OF Some a [symmetric]] Some a show ?thesis
      by (subst str_chars.simps) simp
  qed
qed

definition is_ascii :: "string \<Rightarrow> bool" where
  "is_ascii s \<longleftrightarrow> list_all (\<lambda>c. (of_char c :: nat) < 128) s"

lemma ascii_decode: "is_ascii s \<Longrightarrow> utf8_decode (map of_char s) = Some (map of_char s)"
  by (rule utf8_decode_all_ascii) (auto simp: is_ascii_def list_all_iff)

lemma ascii_wf [simp]: "is_ascii s \<Longrightarrow> wf_str s"
  by (simp add: wf_str_def ascii_decode)

lemma ascii_chars: "is_ascii s \<Longrightarrow> chars s = map of_char s"
  by (simp add: chars_def ascii_decode)

section \<open>Character classes\<close>

definition is_control :: "nat \<Rightarrow> bool" where
  "is_control c \<longleftrightarrow> c < 32 \<or> in_rng 127 159 c"

definition is_whitespace :: "nat \<Rightarrow> bool" where
  "is_whitespace c \<longleftrightarrow> in_rng 9 13 c \<or> c \<in> {32, 133, 160, 5760, 8232, 8233, 8239, 8287, 12288}
     \<or> in_rng 8192 8202 c"

definition is_ascii_alphanumeric :: "char \<Rightarrow> bool" where
  "is_ascii_alphanumeric c \<longleftrightarrow>
     (let n = of_char c in in_rng 48 57 n \<or> in_rng 65 90 n \<or> in_rng 97 122 n)"

text \<open>\<^verbatim>\<open>str::trim\<close>, on the characters.\<close>

definition trim_chars :: "nat list \<Rightarrow> nat list" where
  "trim_chars cs = rev (dropWhile is_whitespace (rev (dropWhile is_whitespace cs)))"

lemma trim_chars_empty: "trim_chars cs = [] \<longleftrightarrow> (\<forall>c\<in>set cs. is_whitespace c)"
proof -
  have "set cs \<subseteq> set (takeWhile is_whitespace cs) \<union> set (dropWhile is_whitespace cs)"
    by (metis order_refl set_append takeWhile_dropWhile_id)
  then show ?thesis
    by (auto simp: trim_chars_def dropWhile_eq_Nil_conv dest: set_takeWhileD set_dropWhileD)
qed

text \<open>\<^verbatim>\<open>str::trim\<close> as a string.\<close>

definition ws_group :: "string \<Rightarrow> bool" where
  "ws_group g = (case utf8_head (map of_char g) of Some (c, _) \<Rightarrow> is_whitespace c | None \<Rightarrow> False)"

definition str_trim :: "string \<Rightarrow> string" where
  "str_trim s = concat (rev (dropWhile ws_group (rev (dropWhile ws_group (str_chars s)))))"

end
