(* ===== verification/Messages.thy ===== *)
theory Messages
  imports Text Complex_Main
begin

text \<open>
  The control messages of \<^verbatim>\<open>crates/amber-core/src/proto.rs\<close>: every struct, enum and
  variant of the wire protocol, the constructor names their JSON form is tagged
  with, and the table of names the decoder treats as known.

  An \<^verbatim>\<open>f64\<close> is not-a-number, an infinity or its exact rational value (the sign of zero
  is not kept), signed integers are \<open>int\<close>, and a
  \<^verbatim>\<open>serde_json::Value\<close> is a \<open>json\<close> tree (an object is the association list of its
  fields, a number its decimal text).
\<close>

datatype f64 = NaN | PosInf | NegInf | Finite rat

datatype json =
    JNull
  | JBool bool
  | JNumber string
  | JString string
  | JArray "json list"
  | JObject "(string \<times> json) list"

text \<open>\<^verbatim>\<open>Value::get\<close> with a key.\<close>

definition json_get :: "json \<Rightarrow> string \<Rightarrow> json option" where
  "json_get v k = (case v of JObject ms \<Rightarrow> map_of ms k | _ \<Rightarrow> None)"

section \<open>Records carried by messages\<close>

record session_info =
  si_name :: string
  si_cwd :: string
  si_kind :: string
  si_alive :: bool
  si_title :: "string option"
  si_branch :: "string option"
  si_updated :: nat
  si_run_state :: "string option"
  si_claude_id :: "string option"
  si_cols :: u16
  si_rows :: u16
  si_slot :: u32

record search_result =
  sr_name :: string
  sr_line :: nat
  sr_preview :: string

record recovery_event =
  ev_at :: nat
  ev_sequence :: nat
  ev_level :: string
  ev_event :: string
  ev_session :: "string option"
  ev_detail :: string
  ev_code :: "int option"

record attach_resume =
  ar_epoch :: nat
  ar_offset :: nat

datatype resource_pressure_level = RplNormal | RplCritical

datatype resource_pressure_cause = Cpu | Io | Memory

record gauge =
  ga_kind :: string
  ga_label :: string
  ga_percent :: f64
  ga_resets_at :: "int option"
  ga_stale :: bool

record provider_usage =
  pu_provider :: string
  pu_plan :: "string option"
  pu_gauges :: "gauge list"
  pu_updated :: nat
  pu_state :: string
  pu_detail :: "string option"

section \<open>Pi bridge commands\<close>

datatype pi_delivery = Now | Steer | FollowUp

datatype pi_subagent_action = Stop | SteerRun | Interrupt | ResumeRun

datatype pi_command =
    PiSnapshot
  | Prompt (message: string) (delivery: pi_delivery)
  | PromptWithAttachments (request_id: string) (message: string) (delivery: pi_delivery)
      (attachments: "string list")
  | UploadBegin (request_id: string) (filename: string) (mime_type: string) (upload_size: nat)
  | UploadChunk (request_id: string) (attachment_id: string) (chunk_offset: nat) (chunk_data: string)
  | UploadFinish (request_id: string) (attachment_id: string)
  | UploadCancel (request_id: string) (attachment_id: string)
  | SubagentStatus (request_id: string)
  | SubagentTranscript (request_id: string) (run_id: string) (index: "nat option")
  | SubagentControl (request_id: string) (action: pi_subagent_action) (run_id: string)
      (child_id: "string option") (index: "nat option") (control_message: "string option")
  | Abort
  | SetThinkingLevel (level: string)

section \<open>Control messages\<close>

datatype (plugins only: code) control_msg =
    Hello
  | ListSessions
  | Create string string string "string option"
  | Attach string bool bool "attach_resume option"
  | Detach string
  | Focus string
  | Resize string u16 u16
  | Kill string
  | Rename string string
  | SetTitle string "string option"
  | TitleSet string "string option"
  | ReportRunState string string nat
  | PiHook string string string "string option" string u32 nat
  | PiHookAck string
  | SupervisorHello string
  | SupervisorCommand string string
  | Suspend string
  | Resume string
  | Snapshot
  | SnapshotOk
  | DumpBacklog string
  | SearchScrollback u32 string "string list" u16
  | SearchResults u32 string "search_result list"
  | ListRecoveryEvents u16
  | ClearRecoveryEvents
  | RecoveryEvents "recovery_event list"
  | RecoveryEventsCleared
  | BacklogMsg string "byte list"
  | WatchSessions
  | WatchMemoryPressure u16
  | WatchPiEvents u16
  | PiBridgeHello string
  | PiBridgeCommand string pi_command
  | PiEvent string nat json
  | PiBridgeStatus string bool
  | ListSessionsDetailed
  | Sessions "session_info list"
  | SessionsChanged "session_info list" "string list"
  | Activity string
  | MemoryStat string nat bool
  | MemoryPressure string nat nat bool
  | ResourcePressure resource_pressure_level "resource_pressure_cause list" bool
  | RunStateAck string nat
  | AttachBacklog string nat nat bool
  | SetMemoryBudget nat
  | GetMemoryBudget
  | BudgetApplied nat nat nat nat
  | GetUsage
  | RefreshUsage
  | Usage "provider_usage list"
  | SessionList "string list"
  | Created string
  | Killed string
  | Exit string int
  | ErrorMsg string

text \<open>The externally tagged name that the derived serializer gives each variant.\<close>

primrec variant_name :: "control_msg \<Rightarrow> string" where
  "variant_name Hello = ''Hello''"
| "variant_name ListSessions = ''ListSessions''"
| "variant_name (Create _ _ _ _) = ''Create''"
| "variant_name (Attach _ _ _ _) = ''Attach''"
| "variant_name (Detach _) = ''Detach''"
| "variant_name (Focus _) = ''Focus''"
| "variant_name (Resize _ _ _) = ''Resize''"
| "variant_name (Kill _) = ''Kill''"
| "variant_name (Rename _ _) = ''Rename''"
| "variant_name (SetTitle _ _) = ''SetTitle''"
| "variant_name (TitleSet _ _) = ''TitleSet''"
| "variant_name (ReportRunState _ _ _) = ''ReportRunState''"
| "variant_name (PiHook _ _ _ _ _ _ _) = ''PiHook''"
| "variant_name (PiHookAck _) = ''PiHookAck''"
| "variant_name (SupervisorHello _) = ''SupervisorHello''"
| "variant_name (SupervisorCommand _ _) = ''SupervisorCommand''"
| "variant_name (Suspend _) = ''Suspend''"
| "variant_name (Resume _) = ''Resume''"
| "variant_name Snapshot = ''Snapshot''"
| "variant_name SnapshotOk = ''SnapshotOk''"
| "variant_name (DumpBacklog _) = ''DumpBacklog''"
| "variant_name (SearchScrollback _ _ _ _) = ''SearchScrollback''"
| "variant_name (SearchResults _ _ _) = ''SearchResults''"
| "variant_name (ListRecoveryEvents _) = ''ListRecoveryEvents''"
| "variant_name ClearRecoveryEvents = ''ClearRecoveryEvents''"
| "variant_name (RecoveryEvents _) = ''RecoveryEvents''"
| "variant_name RecoveryEventsCleared = ''RecoveryEventsCleared''"
| "variant_name (BacklogMsg _ _) = ''Backlog''"
| "variant_name WatchSessions = ''WatchSessions''"
| "variant_name (WatchMemoryPressure _) = ''WatchMemoryPressure''"
| "variant_name (WatchPiEvents _) = ''WatchPiEvents''"
| "variant_name (PiBridgeHello _) = ''PiBridgeHello''"
| "variant_name (PiBridgeCommand _ _) = ''PiBridgeCommand''"
| "variant_name (PiEvent _ _ _) = ''PiEvent''"
| "variant_name (PiBridgeStatus _ _) = ''PiBridgeStatus''"
| "variant_name ListSessionsDetailed = ''ListSessionsDetailed''"
| "variant_name (Sessions _) = ''Sessions''"
| "variant_name (SessionsChanged _ _) = ''SessionsChanged''"
| "variant_name (Activity _) = ''Activity''"
| "variant_name (MemoryStat _ _ _) = ''MemoryStat''"
| "variant_name (MemoryPressure _ _ _ _) = ''MemoryPressure''"
| "variant_name (ResourcePressure _ _ _) = ''ResourcePressure''"
| "variant_name (RunStateAck _ _) = ''RunStateAck''"
| "variant_name (AttachBacklog _ _ _ _) = ''AttachBacklog''"
| "variant_name (SetMemoryBudget _) = ''SetMemoryBudget''"
| "variant_name GetMemoryBudget = ''GetMemoryBudget''"
| "variant_name (BudgetApplied _ _ _ _) = ''BudgetApplied''"
| "variant_name GetUsage = ''GetUsage''"
| "variant_name RefreshUsage = ''RefreshUsage''"
| "variant_name (Usage _) = ''Usage''"
| "variant_name (SessionList _) = ''SessionList''"
| "variant_name (Created _) = ''Created''"
| "variant_name (Killed _) = ''Killed''"
| "variant_name (Exit _ _) = ''Exit''"
| "variant_name (ErrorMsg _) = ''Error''"

definition KNOWN :: "string list" where
  "KNOWN =
     [''Hello'', ''ListSessions'', ''Create'', ''Attach'', ''Detach'', ''Focus'', ''Resize'',
      ''Kill'', ''Rename'', ''SetTitle'', ''TitleSet'', ''ReportRunState'', ''Suspend'',
      ''Resume'', ''Snapshot'', ''SnapshotOk'', ''DumpBacklog'', ''SearchScrollback'',
      ''SearchResults'', ''ListRecoveryEvents'', ''ClearRecoveryEvents'', ''RecoveryEvents'',
      ''RecoveryEventsCleared'', ''Backlog'', ''WatchSessions'', ''WatchMemoryPressure'',
      ''WatchPiEvents'', ''PiBridgeHello'', ''PiBridgeCommand'', ''PiEvent'', ''PiBridgeStatus'',
      ''ListSessionsDetailed'', ''Sessions'', ''SessionsChanged'', ''Activity'', ''MemoryStat'',
      ''MemoryPressure'', ''ResourcePressure'', ''RunStateAck'', ''AttachBacklog'',
      ''SetMemoryBudget'', ''GetMemoryBudget'', ''BudgetApplied'', ''SessionList'', ''Created'',
      ''Killed'', ''Exit'', ''Error'']"

definition known_control_variant :: "string \<Rightarrow> bool" where
  "known_control_variant name \<longleftrightarrow> name \<in> set KNOWN"

fun control_variant_name :: "json \<Rightarrow> string option" where
  "control_variant_name (JString name) = Some name"
| "control_variant_name (JObject kvs) =
     (case kvs of [(k, _)] \<Rightarrow> Some k | _ \<Rightarrow> None)"
| "control_variant_name _ = None"

text \<open>The variants the table omits although the enum has them.\<close>

definition omitted_variant :: "control_msg \<Rightarrow> bool" where
  "omitted_variant m \<longleftrightarrow>
     (case m of
        PiHook _ _ _ _ _ _ _ \<Rightarrow> True
      | PiHookAck _ \<Rightarrow> True
      | SupervisorHello _ \<Rightarrow> True
      | SupervisorCommand _ _ \<Rightarrow> True
      | GetUsage \<Rightarrow> True
      | RefreshUsage \<Rightarrow> True
      | Usage _ \<Rightarrow> True
      | _ \<Rightarrow> False)"

lemma known_variant_iff: "known_control_variant (variant_name m) \<longleftrightarrow> \<not> omitted_variant m"
  by (cases m) (simp_all add: known_control_variant_def KNOWN_def omitted_variant_def)

end
