(* ===== verification/Proto.thy ===== *)
theory Proto
  imports Messages
begin

text \<open>
  The length-prefixed wire framing of \<^verbatim>\<open>crates/amber-core/src/proto.rs\<close> (\<^verbatim>\<open>encode\<close> and the
  streaming \<^verbatim>\<open>Decoder\<close>) and the daemon's connection read loop
  (\<^verbatim>\<open>crates/amber/src/daemon.rs\<close>) that drives it. \<^verbatim>\<open>serde_json\<close> is a parameter: a record of
  the three functions the code calls.
\<close>

section \<open>Frames and the serializer\<close>

datatype frame =
    Control control_msg
  | Data string "byte list"
  | Backlog string "byte list"

datatype frame_error =
    FrameTooLong nat
  | EmptyBody
  | BadJson
  | BadControl
  | TruncatedHeader
  | TruncatedName
  | BadUtf8
  | UnknownTag byte

datatype decoded = Frame frame | UndecodableControl

record serde =
  to_vec :: "control_msg \<Rightarrow> byte list"
  from_slice :: "byte list \<Rightarrow> json option"
  from_value :: "json \<Rightarrow> control_msg option"

definition TAG_CONTROL :: byte where "TAG_CONTROL = 0"
definition TAG_DATA :: byte where "TAG_DATA = 1"
definition TAG_BACKLOG :: byte where "TAG_BACKLOG = 2"

definition MAX_FRAME_LEN :: nat where "MAX_FRAME_LEN = 64 * 1024 * 1024"

text \<open>\<^verbatim>\<open>to_be_bytes\<close> of an integer already truncated to the width, and back.\<close>

definition be16 :: "nat \<Rightarrow> byte list" where
  "be16 n = [of_nat (n div 256 mod 256), of_nat (n mod 256)]"

definition be32 :: "nat \<Rightarrow> byte list" where
  "be32 n = [of_nat (n div 16777216 mod 256), of_nat (n div 65536 mod 256),
             of_nat (n div 256 mod 256), of_nat (n mod 256)]"

fun from_be :: "byte list \<Rightarrow> nat" where
  "from_be [] = 0"
| "from_be (b # bs) = unat b * 256 ^ length bs + from_be bs"

definition encode_body :: "serde \<Rightarrow> frame \<Rightarrow> byte list" where
  "encode_body J f =
     (case f of
        Control msg \<Rightarrow> TAG_CONTROL # to_vec J msg
      | Data session bytes \<Rightarrow>
          TAG_DATA # be16 (length session mod 65536) @ bytes_of session @ bytes
      | Backlog session bytes \<Rightarrow>
          TAG_BACKLOG # be16 (length session mod 65536) @ bytes_of session @ bytes)"

definition encode :: "serde \<Rightarrow> frame \<Rightarrow> byte list" where
  "encode J f = (let body = encode_body J f in be32 (length body mod 4294967296) @ body)"

section \<open>The streaming decoder\<close>

record decoder =
  buf :: "byte list"

definition decoder_new :: decoder where
  "decoder_new = \<lparr>buf = []\<rparr>"

definition feed_decoder :: "decoder \<Rightarrow> byte list \<Rightarrow> decoder" where
  "feed_decoder d chunk = d\<lparr>buf := buf d @ chunk\<rparr>"

definition decode_control :: "serde \<Rightarrow> byte list \<Rightarrow> frame_error + decoded" where
  "decode_control J rest =
     (case from_slice J rest of
        None \<Rightarrow> Inl BadJson
      | Some value \<Rightarrow>
          (case from_value J value of
             Some msg \<Rightarrow> Inr (Frame (Control msg))
           | None \<Rightarrow>
               (case control_variant_name value of
                  Some name \<Rightarrow>
                    if \<not> known_control_variant name then Inr UndecodableControl else Inl BadControl
                | None \<Rightarrow> Inl BadControl)))"

definition decode_data :: "byte \<Rightarrow> byte list \<Rightarrow> frame_error + decoded" where
  "decode_data tag rest =
     (if length rest < 2 then Inl TruncatedHeader
      else let name_len = from_be (take 2 rest) in
        if length rest < 2 + name_len then Inl TruncatedName
        else (case from_utf8 (take name_len (drop 2 rest)) of
                None \<Rightarrow> Inl BadUtf8
              | Some session \<Rightarrow>
                  let bytes = drop (2 + name_len) rest in
                  Inr (Frame (if tag = TAG_DATA then Data session bytes
                              else Backlog session bytes))))"

definition decode_body :: "serde \<Rightarrow> byte list \<Rightarrow> frame_error + decoded" where
  "decode_body J body =
     (case body of
        [] \<Rightarrow> Inl EmptyBody
      | tag # rest \<Rightarrow>
          if tag = TAG_CONTROL then decode_control J rest
          else if tag = TAG_DATA \<or> tag = TAG_BACKLOG then decode_data tag rest
          else Inl (UnknownTag tag))"

text \<open>The decoder is drained before the body is decoded, also when decoding fails.\<close>

definition next_decoded :: "serde \<Rightarrow> decoder \<Rightarrow> (frame_error + decoded option) \<times> decoder" where
  "next_decoded J d =
     (if length (buf d) < 4 then (Inr None, d)
      else let len = from_be (take 4 (buf d)) in
        if len > MAX_FRAME_LEN then (Inl (FrameTooLong len), d)
        else if length (buf d) < 4 + len then (Inr None, d)
        else let body = take len (drop 4 (buf d));
                 d' = d\<lparr>buf := drop (4 + len) (buf d)\<rparr>
             in (case decode_body J body of
                   Inl e \<Rightarrow> (Inl e, d')
                 | Inr x \<Rightarrow> (Inr (Some x), d')))"

text \<open>The strict variant that the clients use.\<close>

definition next_frame :: "serde \<Rightarrow> decoder \<Rightarrow> (frame_error option + frame option) \<times> decoder" where
  "next_frame J d =
     (case next_decoded J d of
        (Inl e, d') \<Rightarrow> (Inl (Some e), d')
      | (Inr None, d') \<Rightarrow> (Inr None, d')
      | (Inr (Some (Frame f)), d') \<Rightarrow> (Inr (Some f), d')
      | (Inr (Some UndecodableControl), d') \<Rightarrow> (Inl None, d'))"

section \<open>The connection read loop\<close>

text \<open>
  The inner \<^verbatim>\<open>while let\<close>: pull decoded frames until more bytes are needed. The result
  lists the frames handed to \<^verbatim>\<open>handle_frame\<close>, in order. A pulled frame consumes at
  least its four-byte prefix, so the loop ends.
\<close>

lemma next_decoded_consumes:
  "next_decoded J d = (Inr (Some x), d') \<Longrightarrow> length (buf d') < length (buf d)"
  by (auto simp: next_decoded_def Let_def split: if_splits sum.splits)

function drain :: "serde \<Rightarrow> decoder \<Rightarrow> frame list \<times> frame_error option \<times> decoder" where
  "drain J d =
     (case next_decoded J d of
        (Inl e, d') \<Rightarrow> ([], Some e, d')
      | (Inr None, d') \<Rightarrow> ([], None, d')
      | (Inr (Some UndecodableControl), d') \<Rightarrow> drain J d'
      | (Inr (Some (Frame f)), d') \<Rightarrow>
          (case drain J d' of (fs, r, d'') \<Rightarrow> (f # fs, r, d'')))"
  by pat_completeness auto

termination
  by (relation "measure (\<lambda>(J, d). length (buf d))") (auto dest: next_decoded_consumes [OF sym])

declare drain.simps [simp del]

text \<open>
  The outer loop over the successive reads of the socket: a read of no bytes, or
  the end of the list, is the client disconnecting.
\<close>

fun connection_loop :: "serde \<Rightarrow> byte list list \<Rightarrow> decoder \<Rightarrow> frame list \<times> frame_error option \<times> decoder" where
  "connection_loop J [] d = drain J d"
| "connection_loop J (chunk # chunks) d =
     (case drain J d of
        (fs, Some e, d') \<Rightarrow> (fs, Some e, d')
      | (fs, None, d') \<Rightarrow>
          if chunk = [] then (fs, None, d')
          else (case connection_loop J chunks (feed_decoder d' chunk) of
                  (gs, r, d'') \<Rightarrow> (fs @ gs, r, d'')))"

section \<open>Round trip of one frame\<close>

lemma unat_byte [simp]: "n < 256 \<Longrightarrow> unat (word_of_nat n :: byte) = n"
  by (simp add: unat_of_nat take_bit_eq_mod)

lemma length_be16 [simp]: "length (be16 n) = 2"
  by (simp add: be16_def)

lemma length_be32 [simp]: "length (be32 n) = 4"
  by (simp add: be32_def)

lemma from_be16 [simp]: "n < 65536 \<Longrightarrow> from_be (be16 n) = n"
  by (simp add: be16_def)

lemma from_be32 [simp]: "n < 4294967296 \<Longrightarrow> from_be (be32 n) = n"
proof -
  assume n: "n < 4294967296"
  define a b where "a = n div 256" and "b = a div 256"
  have "n div 65536 = b" "n div 16777216 = b div 256"
    by (simp_all add: a_def b_def div_mult2_eq [symmetric])
  moreover have "b div 256 < 256" using n by (simp add: a_def b_def div_mult2_eq [symmetric] less_mult_imp_div_less)
  moreover have "b div 256 * 16777216 + (b mod 256 * 65536 + (a mod 256 * 256 + n mod 256)) = n"
    using div_mult_mod_eq [of n 256] div_mult_mod_eq [of a 256] div_mult_mod_eq [of b 256]
    unfolding a_def [symmetric] b_def [symmetric] by linarith
  ultimately show ?thesis
    by (simp add: be32_def a_def [symmetric])
qed

text \<open>
  What the code relies on of \<^verbatim>\<open>serde_json\<close>: parsing what was serialized gives a value that
  deserializes to the message (documented for the types whose fields round trip).
  A frame is encodable when its name is text that fits the 16-bit length and its body
  fits a frame.
\<close>

definition serde_roundtrip :: "serde \<Rightarrow> control_msg \<Rightarrow> bool" where
  "serde_roundtrip J m \<longleftrightarrow> (case from_slice J (to_vec J m) of
     None \<Rightarrow> False | Some v \<Rightarrow> from_value J v = Some m)"

definition frame_ok :: "serde \<Rightarrow> frame \<Rightarrow> bool" where
  "frame_ok J f \<longleftrightarrow> length (encode_body J f) \<le> MAX_FRAME_LEN \<and>
     (case f of
        Control m \<Rightarrow> serde_roundtrip J m
      | Data s _ \<Rightarrow> wf_str s \<and> length s < 65536
      | Backlog s _ \<Rightarrow> wf_str s \<and> length s < 65536)"

lemma decode_data_ok:
  "wf_str s \<Longrightarrow> length s < 65536 \<Longrightarrow>
     decode_data tag (be16 (length s) @ bytes_of s @ bytes)
       = Inr (Frame (if tag = TAG_DATA then Data s bytes else Backlog s bytes))"
  by (simp add: decode_data_def)

lemma decode_encode_body: "frame_ok J f \<Longrightarrow> decode_body J (encode_body J f) = Inr (Frame f)"
proof (cases f)
  case (Control m)
  assume "frame_ok J f"
  with Control show ?thesis
    by (auto simp: frame_ok_def serde_roundtrip_def decode_body_def encode_body_def decode_control_def
        split: option.splits)
qed (simp_all add: frame_ok_def decode_body_def encode_body_def decode_data_ok
      TAG_CONTROL_def TAG_DATA_def TAG_BACKLOG_def)

section \<open>Items on the wire\<close>

text \<open>
  What a peer may send: a frame of this build, or the control message of a newer build
  (JSON whose variant this build does not know).
\<close>

datatype item = Sent frame | Future "byte list"

definition item_body :: "serde \<Rightarrow> item \<Rightarrow> byte list" where
  "item_body J i = (case i of Sent f \<Rightarrow> encode_body J f | Future json \<Rightarrow> TAG_CONTROL # json)"

definition item_wire :: "serde \<Rightarrow> item \<Rightarrow> byte list" where
  "item_wire J i = (case i of
     Sent f \<Rightarrow> encode J f
   | Future json \<Rightarrow> be32 (Suc (length json)) @ TAG_CONTROL # json)"

definition item_frames :: "item \<Rightarrow> frame list" where
  "item_frames i = (case i of Sent f \<Rightarrow> [f] | Future _ \<Rightarrow> [])"

definition future_variant :: "serde \<Rightarrow> byte list \<Rightarrow> bool" where
  "future_variant J json \<longleftrightarrow> (case from_slice J json of
     None \<Rightarrow> False
   | Some v \<Rightarrow> from_value J v = None \<and>
       (case control_variant_name v of None \<Rightarrow> False | Some n \<Rightarrow> \<not> known_control_variant n))"

definition item_ok :: "serde \<Rightarrow> item \<Rightarrow> bool" where
  "item_ok J i = (case i of
     Sent f \<Rightarrow> frame_ok J f
   | Future json \<Rightarrow> future_variant J json \<and> length json < MAX_FRAME_LEN)"

lemma item_body_bounded: "item_ok J i \<Longrightarrow> length (item_body J i) \<le> MAX_FRAME_LEN"
  by (cases i) (auto simp: item_ok_def item_body_def frame_ok_def)

lemma item_wire_body:
  "item_ok J i \<Longrightarrow> item_wire J i = be32 (length (item_body J i)) @ item_body J i"
  using item_body_bounded [of J i]
  by (cases i) (simp_all add: item_wire_def item_body_def encode_def Let_def MAX_FRAME_LEN_def)

lemma item_prefix:
  "item_ok J i \<Longrightarrow> from_be (be32 (length (item_body J i))) = length (item_body J i)"
  using item_body_bounded [of J i] by (simp add: MAX_FRAME_LEN_def)

lemma decode_item_body:
  "item_ok J i \<Longrightarrow> decode_body J (item_body J i) =
     Inr (case i of Sent f \<Rightarrow> Frame f | Future _ \<Rightarrow> UndecodableControl)"
proof (cases i)
  case (Future json)
  assume "item_ok J i"
  with Future show ?thesis
    by (auto simp: item_ok_def item_body_def decode_body_def decode_control_def future_variant_def
        split: option.splits)
qed (simp add: item_ok_def item_body_def decode_encode_body)

lemma next_decoded_item:
  assumes "item_ok J i"
  shows "next_decoded J \<lparr>buf = item_wire J i @ b\<rparr>
     = (Inr (Some (case i of Sent f \<Rightarrow> Frame f | Future _ \<Rightarrow> UndecodableControl)), \<lparr>buf = b\<rparr>)"
  using item_body_bounded [OF assms] item_prefix [OF assms] decode_item_body [OF assms]
  by (simp add: next_decoded_def item_wire_body [OF assms])

lemma next_decoded_partial:
  assumes "item_ok J i" "strict_prefix p (item_wire J i)"
  shows "next_decoded J \<lparr>buf = p\<rparr> = (Inr None, \<lparr>buf = p\<rparr>)"
proof (cases "length p < 4")
  case True
  then show ?thesis by (simp add: next_decoded_def)
next
  case False
  from assms(2) have less: "length p < 4 + length (item_body J i)"
    using prefix_length_less by (fastforce simp: item_wire_body [OF assms(1)])
  from assms(2) have "take 4 p = take 4 (item_wire J i)"
    using False by (metis not_less prefix_def strict_prefix_def take_append take_all
        append_Nil2 diff_is_0_eq take0)
  also have "\<dots> = be32 (length (item_body J i))"
    by (simp add: item_wire_body [OF assms(1)])
  finally have "from_be (take 4 p) = length (item_body J i)"
    using item_prefix [OF assms(1)] by simp
  with False less item_body_bounded [OF assms(1)] show ?thesis
    by (simp add: next_decoded_def)
qed

lemma drain_None: "next_decoded J d = (Inr None, d') \<Longrightarrow> drain J d = ([], None, d')"
  by (subst drain.simps) simp

interpretation wire: framed_stream
  "item_wire J" item_frames "item_ok J" "\<lambda>b. \<lparr>buf = b\<rparr>" "drain J" "connection_loop J"
  for J
proof unfold_locales
  show "drain J \<lparr>buf = []\<rparr> = ([], None, \<lparr>buf = []\<rparr>)"
    by (rule drain_None) (simp add: next_decoded_def)
next
  fix i b fs r s assume "item_ok J i" "drain J \<lparr>buf = b\<rparr> = (fs, r, s)"
  then show "drain J \<lparr>buf = item_wire J i @ b\<rparr> = (item_frames i @ fs, r, s)"
    by (subst drain.simps) (auto simp: next_decoded_item item_frames_def split: item.splits)
next
  fix i p assume "item_ok J i" "strict_prefix p (item_wire J i)"
  then show "drain J \<lparr>buf = p\<rparr> = ([], None, \<lparr>buf = p\<rparr>)"
    by (intro drain_None next_decoded_partial)
qed (simp_all add: feed_decoder_def)

section \<open>Properties of the wire\<close>

definition sample_serde :: serde where
  "sample_serde = \<lparr>to_vec = (\<lambda>_. [123]),
     from_slice = (\<lambda>bs. if bs = [123] then Some JNull
                         else if bs = [125] then Some (JObject [(''GetUsage'', JNull)])
                         else Some (JString ''Novel'')),
     from_value = (\<lambda>v. if v = JNull then Some Hello else None)\<rparr>"

text \<open>C8: however the socket splits the byte stream, the daemon's read loop hands exactly the
  frames the peer encoded to \<^verbatim>\<open>handle_frame\<close>, in order, skips the control messages of newer
  builds without losing synchronization, and ends without an error and with an empty buffer.\<close>

theorem connection_delivers:
  assumes "\<forall>i\<in>set items. item_ok J i" and "[] \<notin> set chunks"
    and "concat chunks = concat (map (item_wire J) items)"
  shows "connection_loop J chunks decoder_new = (concat (map item_frames items), None, decoder_new)"
  using wire.loop_delivers [of items J chunks "[]"] assms by (simp add: decoder_new_def)

theorem connection_delivers_witness:
  "connection_loop sample_serde
     [[0, 0, 0], [6, 1, 0, 1, 97, 7], [8, 0, 0, 0, 2, 0], [9, 0, 0, 0], [2, 0, 123]] decoder_new
   = ([Data ''a'' [7, 8], Control Hello], None, decoder_new)"
proof -
  have "\<forall>i\<in>set [Sent (Data ''a'' [7, 8]), Future [9], Sent (Control Hello)]. item_ok sample_serde i"
    by (simp add: item_ok_def frame_ok_def serde_roundtrip_def future_variant_def sample_serde_def
        encode_body_def MAX_FRAME_LEN_def known_control_variant_def KNOWN_def is_ascii_def)
  from connection_delivers [OF this, of "[[0, 0, 0], [6, 1, 0, 1, 97, 7], [8, 0, 0, 0, 2, 0], [9, 0, 0, 0], [2, 0, 123]]"]
  show ?thesis
    by (simp add: item_wire_def item_frames_def encode_def encode_body_def be32_def be16_def
        sample_serde_def bytes_of_def TAG_CONTROL_def TAG_DATA_def)
qed

text \<open>The buffer left by an error-free drain is shorter than one maximal frame.\<close>

lemma next_decoded_None_bounded:
  "next_decoded J d = (Inr None, d') \<Longrightarrow> d' = d \<and> length (buf d) < 4 + MAX_FRAME_LEN"
  by (auto simp: next_decoded_def Let_def split: if_splits sum.splits)

lemma next_decoded_le: "length (buf (snd (next_decoded J d))) \<le> length (buf d)"
  by (auto simp: next_decoded_def Let_def split: sum.splits)

lemma drain_bounded:
  "drain J d = (fs, r, d') \<Longrightarrow> length (buf d') \<le> length (buf d) \<and>
     (r = None \<longrightarrow> length (buf d') < 4 + MAX_FRAME_LEN)"
proof (induction J d arbitrary: fs rule: drain.induct)
  case (1 J d)
  obtain res d1 where nd: "next_decoded J d = (res, d1)" by fastforce
  have le: "length (buf d1) \<le> length (buf d)" using next_decoded_le [of J d] nd by simp
  show ?case
  proof (cases res)
    case (Inl e)
    with 1(3) nd le show ?thesis by (subst (asm) drain.simps) auto
  next
    case (Inr x)
    show ?thesis
    proof (cases x)
      case None
      with 1(3) nd Inr le next_decoded_None_bounded [of J d d1] show ?thesis
        by (subst (asm) drain.simps) auto
    next
      case (Some y)
      show ?thesis
      proof (cases y)
        case (Frame f)
        obtain gs r1 d2 where "drain J d1 = (gs, r1, d2)" by (metis prod_cases3)
        with 1(1) [OF nd [symmetric] Inr Some Frame] 1(3) nd Inr Some Frame le show ?thesis
          by (subst (asm) (2) drain.simps) auto
      next
        case UndecodableControl
        with 1(2) [OF nd [symmetric] Inr Some] 1(3) nd Inr Some le show ?thesis
          by (subst (asm) (2) drain.simps) auto
      qed
    qed
  qed
qed

lemma connection_loop_bounded:
  "\<forall>c\<in>set chunks. length c \<le> k \<Longrightarrow> length (buf d) < 4 + MAX_FRAME_LEN + k \<Longrightarrow>
     connection_loop J chunks d = (fs, r, d') \<Longrightarrow> length (buf d') < 4 + MAX_FRAME_LEN + k"
proof (induction chunks arbitrary: d fs)
  case Nil
  then show ?case using drain_bounded by fastforce
next
  case (Cons c cs)
  obtain gs r1 d1 where dr: "drain J d = (gs, r1, d1)" by (metis prod_cases3)
  from drain_bounded [OF dr] have le: "length (buf d1) \<le> length (buf d)"
    and lt: "r1 = None \<Longrightarrow> length (buf d1) < 4 + MAX_FRAME_LEN" by auto
  show ?case
  proof (cases "r1 = None \<and> c \<noteq> []")
    case True
    with lt Cons.prems(1) have "length (buf (feed_decoder d1 c)) < 4 + MAX_FRAME_LEN + k"
      by (simp add: feed_decoder_def)
    with Cons True dr show ?thesis by (auto split: prod.splits)
  next
    case False
    with Cons.prems dr le show ?thesis by (cases r1) auto
  qed
qed

definition READ_BUF_LEN :: nat where "READ_BUF_LEN = 8192"

text \<open>Whatever bytes a peer sends, a connection's decoder never buffers more than one
  maximal frame with its prefix and one read.\<close>

theorem connection_buffer_bounded:
  assumes "\<forall>c\<in>set chunks. length c \<le> READ_BUF_LEN"
  shows "case connection_loop J chunks decoder_new of
           (_, _, d) \<Rightarrow> length (buf d) < 4 + MAX_FRAME_LEN + READ_BUF_LEN"
  using connection_loop_bounded [OF assms, of decoder_new J]
  by (auto simp: decoder_new_def MAX_FRAME_LEN_def split: prod.splits)

theorem connection_buffer_bounded_witness:
  "case connection_loop sample_serde [[255, 255, 255, 255], [1, 2]] decoder_new of
     (_, _, d) \<Rightarrow> length (buf d) < 4 + MAX_FRAME_LEN + READ_BUF_LEN"
  by (rule connection_buffer_bounded) (simp add: READ_BUF_LEN_def)

text \<open>A control body whose JSON is tagged with a variant of this build but does not
  deserialize is a hard error for all variants but seven: a malformed \<^verbatim>\<open>PiHook\<close>,
  \<^verbatim>\<open>PiHookAck\<close>, \<^verbatim>\<open>SupervisorHello\<close>, \<^verbatim>\<open>SupervisorCommand\<close>, \<^verbatim>\<open>GetUsage\<close>, \<^verbatim>\<open>RefreshUsage\<close> or \<^verbatim>\<open>Usage\<close>
  is skipped as if it came from a newer build, because the table of known names omits them.\<close>

theorem malformed_variant_outcome:
  assumes "from_slice J rest = Some v" and "from_value J v = None"
    and "control_variant_name v = Some (variant_name m)"
  shows "decode_control J rest = (if omitted_variant m then Inr UndecodableControl else Inl BadControl)"
  using assms by (simp add: decode_control_def known_variant_iff)

theorem malformed_variant_outcome_witness:
  "decode_control sample_serde [125] = Inr UndecodableControl"
  using malformed_variant_outcome [of sample_serde "[125]" "JObject [(''GetUsage'', JNull)]" GetUsage]
  by (simp add: sample_serde_def omitted_variant_def)

end
