(* ===== verification/PiCommands.thy ===== *)
theory PiCommands
  imports Messages
begin

text \<open>
  The boundary checks of the Pi bridge in \<^verbatim>\<open>crates/amber-core/src/proto.rs\<close>: the validators
  every command passes before it reaches the extension, and the strict base64
  decoder of an upload chunk, with the proof that it accepts exactly the canonical
  encodings of one to 49152 bytes.
\<close>

section \<open>Bounds\<close>

definition PI_PROMPT_MAX_BYTES :: nat where "PI_PROMPT_MAX_BYTES = 64 * 1024"
definition PI_REQUEST_ID_MAX_BYTES :: nat where "PI_REQUEST_ID_MAX_BYTES = 128"
definition PI_SUBAGENT_ID_MAX_BYTES :: nat where "PI_SUBAGENT_ID_MAX_BYTES = 256"
definition PI_SUBAGENT_INDEX_MAX :: nat where "PI_SUBAGENT_INDEX_MAX = 500"
definition PI_ATTACHMENT_ID_MAX_BYTES :: nat where "PI_ATTACHMENT_ID_MAX_BYTES = 128"
definition PI_FILENAME_MAX_CHARS :: nat where "PI_FILENAME_MAX_CHARS = 255"
definition PI_MIME_TYPE_MAX_BYTES :: nat where "PI_MIME_TYPE_MAX_BYTES = 128"
definition PI_ATTACHMENT_MAX_BYTES :: nat where "PI_ATTACHMENT_MAX_BYTES = 16 * 1024 * 1024"
definition PI_ATTACHMENTS_PER_PROMPT :: nat where "PI_ATTACHMENTS_PER_PROMPT = 8"
definition PI_UPLOAD_CHUNK_MAX_BYTES :: nat where "PI_UPLOAD_CHUNK_MAX_BYTES = 48 * 1024"

definition PI_UPLOAD_CHUNK_MAX_ENCODED_BYTES :: nat where
  "PI_UPLOAD_CHUNK_MAX_ENCODED_BYTES = (PI_UPLOAD_CHUNK_MAX_BYTES + 2) div 3 * 4"

section \<open>Validators\<close>

datatype pi_error =
    PiEmpty string | PiTooLong string | PiControlChar string | PiBadId string
  | PiBadIndex | PiBadFilename | PiPromptEmpty | PiPromptTooLong | PiNoContent
  | PiTooManyAttachments | PiDuplicateAttachment | PiAttachmentTooBig | PiOffsetTooBig
  | PiNotCanonical | PiChunkTooBig | PiChildTarget | PiMessageRequired | PiMessageRefused
  | PiBadLevel

type_synonym 'a pi_result = "pi_error + 'a"

definition and_then :: "unit pi_result \<Rightarrow> 'a pi_result \<Rightarrow> 'a pi_result" where
  "and_then r k = (case r of Inl e \<Rightarrow> Inl e | Inr _ \<Rightarrow> k)"

definition bail_if :: "bool \<Rightarrow> pi_error \<Rightarrow> unit pi_result" where
  "bail_if b e = (if b then Inl e else Inr ())"

lemma and_then_Inr [simp]: "and_then r k = Inr x \<longleftrightarrow> r = Inr () \<and> k = Inr x"
  by (cases r) (simp_all add: and_then_def)

lemma bail_if_Inr [simp]: "bail_if b e = Inr () \<longleftrightarrow> \<not> b"
  by (simp add: bail_if_def)

definition validate_pi_identifier :: "string \<Rightarrow> nat \<Rightarrow> string \<Rightarrow> unit pi_result" where
  "validate_pi_identifier v mx label =
     and_then (bail_if (v = []) (PiEmpty label))
    (and_then (bail_if (length v > mx) (PiTooLong label))
              (bail_if (list_ex is_control (chars v)) (PiControlChar label)))"

definition validate_pi_subagent_id :: "string \<Rightarrow> string \<Rightarrow> unit pi_result" where
  "validate_pi_subagent_id v label =
     and_then (validate_pi_identifier v PI_SUBAGENT_ID_MAX_BYTES label)
       (bail_if (list_ex (\<lambda>c. c = 47 \<or> c = 92 \<or> is_whitespace c) (chars v)) (PiBadId label))"

definition validate_pi_subagent_index :: "nat option \<Rightarrow> unit pi_result" where
  "validate_pi_subagent_index i =
     (case i of None \<Rightarrow> Inr () | Some n \<Rightarrow> bail_if (n > PI_SUBAGENT_INDEX_MAX) PiBadIndex)"

definition validate_pi_attachment_id :: "string \<Rightarrow> unit pi_result" where
  "validate_pi_attachment_id v =
     and_then (validate_pi_identifier v PI_ATTACHMENT_ID_MAX_BYTES ''attachment id'')
       (bail_if (\<not> list_all (\<lambda>c. is_ascii_alphanumeric c \<or> c = CHR ''-'' \<or> c = CHR ''_'') v)
          (PiBadId ''attachment id''))"

definition validate_pi_filename :: "string \<Rightarrow> unit pi_result" where
  "validate_pi_filename v =
     and_then (bail_if (v = []) (PiEmpty ''filename''))
    (and_then (bail_if (length (chars v) > PI_FILENAME_MAX_CHARS) (PiTooLong ''filename''))
              (bail_if (list_ex (\<lambda>c. is_control c \<or> c = 47 \<or> c = 92) (chars v)) PiBadFilename))"

definition validate_pi_mime_type :: "string \<Rightarrow> unit pi_result" where
  "validate_pi_mime_type v = validate_pi_identifier v PI_MIME_TYPE_MAX_BYTES ''attachment MIME type''"

definition blank :: "string \<Rightarrow> bool" where
  "blank s \<longleftrightarrow> trim_chars (chars s) = []"

section \<open>Strict base64\<close>

definition base64_value :: "byte \<Rightarrow> byte option" where
  "base64_value b =
     (if 65 \<le> b \<and> b \<le> 90 then Some (b - 65)
      else if 97 \<le> b \<and> b \<le> 122 then Some (b - 97 + 26)
      else if 48 \<le> b \<and> b \<le> 57 then Some (b - 48 + 52)
      else if b = 43 then Some 62
      else if b = 47 then Some 63
      else None)"

text \<open>One group of four characters, \<open>=\<close> being 61; \<open>None\<close> is the canonicality error.\<close>

definition decode_group :: "byte \<Rightarrow> byte \<Rightarrow> byte \<Rightarrow> byte \<Rightarrow> byte list option" where
  "decode_group g0 g1 g2 g3 =
     (case base64_value g0 of None \<Rightarrow> None | Some a \<Rightarrow>
      case base64_value g1 of None \<Rightarrow> None | Some b \<Rightarrow>
      case (if g2 = 61 then Some 0 else base64_value g2) of None \<Rightarrow> None | Some c \<Rightarrow>
      case (if g3 = 61 then Some 0 else base64_value g3) of None \<Rightarrow> None | Some d \<Rightarrow>
        if g2 = 61 \<and> g3 \<noteq> 61 \<or> g2 = 61 \<and> (ucast b :: u32) AND 15 \<noteq> 0
           \<or> g3 = 61 \<and> (ucast c :: u32) AND 3 \<noteq> 0
        then None
        else let n = push_bit 18 (ucast a :: u32) OR push_bit 12 (ucast b)
                     OR push_bit 6 (ucast c) OR ucast d
             in Some ([ucast (drop_bit 16 n)]
                      @ (if g2 \<noteq> 61 then [ucast (drop_bit 8 n)] else [])
                      @ (if g3 \<noteq> 61 then [ucast n] else [])))"

text \<open>\<^verbatim>\<open>as_chunks::<4>\<close>: the remainder is dropped.\<close>

fun decode_groups :: "byte list \<Rightarrow> byte list option" where
  "decode_groups (g0 # g1 # g2 # g3 # rest) =
     (case decode_group g0 g1 g2 g3 of
        None \<Rightarrow> None
      | Some out \<Rightarrow> map_option ((@) out) (decode_groups rest))"
| "decode_groups _ = Some []"

definition decode_pi_upload_chunk :: "string \<Rightarrow> byte list pi_result" where
  "decode_pi_upload_chunk data =
     (if data = [] \<or> length data > PI_UPLOAD_CHUNK_MAX_ENCODED_BYTES \<or> length data mod 4 \<noteq> 0
      then Inl PiNotCanonical
      else let bytes = bytes_of data;
               padding = length (takeWhile (\<lambda>b. b = 61) (rev bytes))
           in if padding > 2 \<or> 61 \<in> set (take (length bytes - padding) bytes)
              then Inl PiNotCanonical
              else let decoded_len = length bytes div 4 * 3 - padding
                   in if decoded_len = 0 \<or> decoded_len > PI_UPLOAD_CHUNK_MAX_BYTES
                      then Inl PiChunkTooBig
                      else (case decode_groups bytes of
                              None \<Rightarrow> Inl PiNotCanonical
                            | Some out \<Rightarrow>
                                if length out \<noteq> decoded_len then Inl PiNotCanonical else Inr out))"

section \<open>The command validator\<close>

fun validate_attachments :: "string list \<Rightarrow> string set \<Rightarrow> unit pi_result" where
  "validate_attachments [] seen = Inr ()"
| "validate_attachments (a # as) seen =
     and_then (validate_pi_attachment_id a)
    (and_then (bail_if (a \<in> seen) PiDuplicateAttachment)
              (validate_attachments as (insert a seen)))"

definition validate_request_id :: "string \<Rightarrow> unit pi_result" where
  "validate_request_id r = validate_pi_identifier r PI_REQUEST_ID_MAX_BYTES ''request id''"

definition validate_control_message :: "pi_subagent_action \<Rightarrow> string option \<Rightarrow> unit pi_result" where
  "validate_control_message act msg =
     (if act = SteerRun \<or> act = ResumeRun then
        (case msg of
           None \<Rightarrow> Inl PiMessageRequired
         | Some m \<Rightarrow> and_then (bail_if (blank m) PiPromptEmpty)
                              (bail_if (length m > PI_PROMPT_MAX_BYTES) PiPromptTooLong))
      else bail_if (msg \<noteq> None) PiMessageRefused)"

fun validate_pi_command :: "pi_command \<Rightarrow> unit pi_result" where
  "validate_pi_command PiSnapshot = Inr ()"
| "validate_pi_command Abort = Inr ()"
| "validate_pi_command (Prompt msg _) =
     and_then (bail_if (blank msg) PiPromptEmpty)
              (bail_if (length msg > PI_PROMPT_MAX_BYTES) PiPromptTooLong)"
| "validate_pi_command (PromptWithAttachments rid msg _ atts) =
     and_then (validate_request_id rid)
    (and_then (bail_if (blank msg \<and> atts = []) PiNoContent)
    (and_then (bail_if (length msg > PI_PROMPT_MAX_BYTES) PiPromptTooLong)
    (and_then (bail_if (length atts > PI_ATTACHMENTS_PER_PROMPT) PiTooManyAttachments)
              (validate_attachments atts {}))))"
| "validate_pi_command (UploadBegin rid fname mime sz) =
     and_then (validate_request_id rid)
    (and_then (validate_pi_filename fname)
    (and_then (validate_pi_mime_type mime)
              (bail_if (sz > PI_ATTACHMENT_MAX_BYTES) PiAttachmentTooBig)))"
| "validate_pi_command (UploadChunk rid aid off data) =
     and_then (validate_request_id rid)
    (and_then (validate_pi_attachment_id aid)
    (and_then (bail_if (off > PI_ATTACHMENT_MAX_BYTES) PiOffsetTooBig)
              (case decode_pi_upload_chunk data of Inl e \<Rightarrow> Inl e | Inr _ \<Rightarrow> Inr ())))"
| "validate_pi_command (UploadFinish rid aid) =
     and_then (validate_request_id rid) (validate_pi_attachment_id aid)"
| "validate_pi_command (UploadCancel rid aid) =
     and_then (validate_request_id rid) (validate_pi_attachment_id aid)"
| "validate_pi_command (SubagentStatus rid) = validate_request_id rid"
| "validate_pi_command (SubagentTranscript rid run idx) =
     and_then (validate_request_id rid)
    (and_then (validate_pi_subagent_id run ''subagent run id'')
              (validate_pi_subagent_index idx))"
| "validate_pi_command (SubagentControl rid act run child idx msg) =
     and_then (validate_request_id rid)
    (and_then (validate_pi_subagent_id run ''subagent run id'')
    (and_then (bail_if (child \<noteq> None \<or> idx \<noteq> None) PiChildTarget)
              (validate_control_message act msg)))"
| "validate_pi_command (SetThinkingLevel lv) =
     bail_if (lv \<notin> {''off'', ''minimal'', ''low'', ''medium'', ''high'', ''xhigh'', ''max''}) PiBadLevel"

section \<open>Canonical base64\<close>

text \<open>The specification: RFC 4648 encoding with padding.\<close>

definition b64_char :: "nat \<Rightarrow> byte" where
  "b64_char v = (if v < 26 then of_nat (65 + v) else if v < 52 then of_nat (97 + (v - 26))
                 else if v < 62 then of_nat (48 + (v - 52)) else if v = 62 then 43 else 47)"

definition enc3 :: "byte \<Rightarrow> byte \<Rightarrow> byte \<Rightarrow> byte list" where
  "enc3 x y z = [b64_char (unat x div 4), b64_char (unat x mod 4 * 16 + unat y div 16),
                 b64_char (unat y mod 16 * 4 + unat z div 64), b64_char (unat z mod 64)]"

fun b64_encode :: "byte list \<Rightarrow> byte list" where
  "b64_encode [] = []"
| "b64_encode [x] = take 2 (enc3 x 0 0) @ [61, 61]"
| "b64_encode [x, y] = take 3 (enc3 x y 0) @ [61]"
| "b64_encode (x # y # z # rest) = enc3 x y z @ b64_encode rest"

lemma b64_char_value_all:
  "\<forall>v\<in>set [0..<64]. base64_value (b64_char v) = Some (of_nat v) \<and> b64_char v \<noteq> 61"
  by code_simp

lemma base64_value_char_all:
  "\<forall>n\<in>set [0..<256]. (case base64_value (of_nat n) of None \<Rightarrow> True
     | Some v \<Rightarrow> unat v < 64 \<and> b64_char (unat v) = of_nat n)"
  by code_simp

lemma b64_char_value: "v < 64 \<Longrightarrow> base64_value (b64_char v) = Some (of_nat v)"
  and b64_char_not_pad: "v < 64 \<Longrightarrow> b64_char v \<noteq> 61"
  using b64_char_value_all by simp_all

lemma base64_value_char:
  "base64_value c = Some v \<Longrightarrow> \<exists>k<64. v = of_nat k \<and> c = b64_char k"
proof -
  assume v: "base64_value c = Some v"
  have "unat c \<in> set [0..<256]" using unsigned_less [of c] by simp
  with base64_value_char_all v have "unat v < 64 \<and> b64_char (unat v) = c" by fastforce
  then show ?thesis by (intro exI [of _ "unat v"]) simp
qed

subsection \<open>The bit arithmetic of one group\<close>

lemma or_shift_nat: "b < 2 ^ k \<Longrightarrow> push_bit k a OR b = a * 2 ^ k + (b :: nat)"
proof -
  assume b: "b < 2 ^ k"
  have "push_bit k a AND b = 0"
  proof (rule bit_eqI)
    fix n
    from b have "take_bit k b = b" by (simp add: take_bit_nat_eq_self)
    then have "bit b n \<Longrightarrow> n < k" by (metis bit_take_bit_iff)
    then show "bit (push_bit k a AND b) n \<longleftrightarrow> bit (0 :: nat) n"
      by (auto simp: bit_and_iff bit_push_bit_iff)
  qed
  then show ?thesis by (simp add: disjunctive_add_eq_or [symmetric] push_bit_eq_mult)
qed

definition word24 :: "nat \<Rightarrow> nat \<Rightarrow> nat \<Rightarrow> nat \<Rightarrow> nat" where
  "word24 a b c d = a * 262144 + (b * 4096 + (c * 64 + d))"

lemma combine:
  assumes "a < 64" "b < 64" "c < 64" "d < 64"
  shows "push_bit 18 (ucast (of_nat a :: byte) :: u32) OR push_bit 12 (ucast (of_nat b :: byte))
           OR push_bit 6 (ucast (of_nat c :: byte)) OR ucast (of_nat d :: byte)
         = of_nat (word24 a b c d)"
proof -
  have "push_bit 18 a OR push_bit 12 b OR push_bit 6 c OR d = word24 a b c d"
    using assms by (simp add: or.assoc or_shift_nat word24_def)
  moreover have "(ucast (of_nat k :: byte) :: u32) = of_nat k" if "k < 64" for k
    using that by (simp add: unsigned_of_nat take_bit_nat_eq_self)
  ultimately show ?thesis
    using assms by (simp flip: of_nat_push_bit of_nat_or_eq)
qed

lemma byte_of_word24:
  assumes "n < 16777216"
  shows "(ucast (drop_bit k (of_nat n :: u32)) :: byte) = of_nat (n div 2 ^ k)"
proof -
  have "unat (drop_bit k (of_nat n :: u32)) = n div 2 ^ k"
    using assms by (simp only: unsigned_drop_bit_eq) (simp add: unat_of_nat take_bit_nat_eq_self drop_bit_eq_div)
  then show ?thesis by (metis of_nat_unat)
qed

lemma word24_bound: "a < 64 \<Longrightarrow> b < 64 \<Longrightarrow> c < 64 \<Longrightarrow> d < 64 \<Longrightarrow> word24 a b c d < 16777216"
  by (simp add: word24_def)

lemma word24_bytes:
  assumes "a < 64" "b < 64" "c < 64" "d < 64"
  shows "word24 a b c d div 65536 = a * 4 + b div 16"
    and "word24 a b c d div 256 mod 256 = b mod 16 * 16 + c div 4"
    and "word24 a b c d mod 256 = c mod 4 * 64 + d"
proof -
  define p q r where "p = a * 4 + b div 16" and "q = b mod 16 * 16 + c div 4" and "r = c mod 4 * 64 + d"
  have "b div 16 < 4" "c div 4 < 16" "b mod 16 < 16" "c mod 4 < 4"
    using assms by auto
  then have lt: "p < 256" "q < 256" "r < 256" using assms unfolding p_def q_def r_def by linarith+
  have sum: "(a * 4 + b1) * 65536 + (b2 * 16 + c1) * 256 + (c2 * 64 + d)
      = a * 262144 + ((b1 * 16 + b2) * 4096 + ((c1 * 4 + c2) * 64 + d))" for b1 b2 c1 c2
    by simp
  have w: "word24 a b c d = (p * 256 + q) * 256 + r"
    using sum [of "b div 16" "b mod 16" "c div 4" "c mod 4"]
    by (simp add: word24_def p_def q_def r_def)
  have d1: "word24 a b c d div 256 = p * 256 + q" using lt by (simp add: w)
  have "word24 a b c d div 65536 = word24 a b c d div 256 div 256" by (simp add: div_mult2_eq)
  also have "\<dots> = p" using lt by (simp add: d1)
  finally show "word24 a b c d div 65536 = a * 4 + b div 16" by (simp add: p_def)
  show "word24 a b c d div 256 mod 256 = b mod 16 * 16 + c div 4"
    using lt by (simp add: d1 q_def [symmetric])
  show "word24 a b c d mod 256 = c mod 4 * 64 + d"
    using lt(3) by (simp only: w mod_mult_self3) (simp add: r_def [symmetric])
qed

text \<open>What a group of legal characters decodes to, on the values of its characters.\<close>

definition byte1 :: "nat \<Rightarrow> nat \<Rightarrow> byte" where "byte1 a b = of_nat (a * 4 + b div 16)"
definition byte2 :: "nat \<Rightarrow> nat \<Rightarrow> byte" where "byte2 b c = of_nat (b mod 16 * 16 + c div 4)"
definition byte3 :: "nat \<Rightarrow> nat \<Rightarrow> byte" where "byte3 c d = of_nat (c mod 4 * 64 + d)"

lemma of_nat_byte_mod: "(of_nat n :: byte) = of_nat (n mod 256)"
  by (rule word_of_nat_eq_iff [THEN iffD2]) (simp add: take_bit_eq_mod)

lemma group_bytes:
  assumes "a < 64" "b < 64" "c < 64" "d < 64"
  shows "(ucast (drop_bit 16 (of_nat (word24 a b c d) :: u32)) :: byte) = byte1 a b"
    and "(ucast (drop_bit 8 (of_nat (word24 a b c d) :: u32)) :: byte) = byte2 b c"
    and "(ucast (of_nat (word24 a b c d) :: u32) :: byte) = byte3 c d"
proof -
  note bd = word24_bound [OF assms] and wb = word24_bytes [OF assms]
  from byte_of_word24 [OF bd, of 16] wb(1)
  show "(ucast (drop_bit 16 (of_nat (word24 a b c d) :: u32)) :: byte) = byte1 a b"
    by (simp add: byte1_def)
  from byte_of_word24 [OF bd, of 8] wb(2)
  show "(ucast (drop_bit 8 (of_nat (word24 a b c d) :: u32)) :: byte) = byte2 b c"
    by (subst (asm) of_nat_byte_mod) (simp add: byte2_def)
  from byte_of_word24 [OF bd, of 0] wb(3)
  show "(ucast (of_nat (word24 a b c d) :: u32) :: byte) = byte3 c d"
    by (subst (asm) of_nat_byte_mod) (simp add: byte3_def)
qed

lemma low_bits_all:
  "\<forall>b\<in>set [0..<64]. (((ucast (of_nat b :: byte) :: u32) AND 15 = 0) \<longleftrightarrow> b mod 16 = 0) \<and>
     (((ucast (of_nat b :: byte) :: u32) AND 3 = 0) \<longleftrightarrow> b mod 4 = 0)"
  by code_simp

lemma low_bits:
  assumes "b < 64"
  shows "((ucast (of_nat b :: byte) :: u32) AND 15 = 0) \<longleftrightarrow> b mod 16 = 0"
    and "((ucast (of_nat b :: byte) :: u32) AND 3 = 0) \<longleftrightarrow> b mod 4 = 0"
  using low_bits_all assms by auto

lemma decode_group_full:
  assumes "a < 64" "b < 64" "c < 64" "d < 64"
  shows "decode_group (b64_char a) (b64_char b) (b64_char c) (b64_char d)
           = Some [byte1 a b, byte2 b c, byte3 c d]"
  unfolding decode_group_def
  using assms by (simp add: b64_char_value b64_char_not_pad combine group_bytes Let_def
      del: push_bit_of_nat)

lemma decode_group_pad1:
  assumes "a < 64" "b < 64" "c < 64"
  shows "decode_group (b64_char a) (b64_char b) (b64_char c) 61
           = (if c mod 4 = 0 then Some [byte1 a b, byte2 b c] else None)"
proof -
  have "ucast (of_nat 0 :: byte) = (0 :: u32)" by simp
  note * = combine [OF assms, of 0, simplified this] group_bytes [OF assms, of 0] low_bits(2) [OF assms(3)]
  show ?thesis
    unfolding decode_group_def
    using assms * by (simp add: b64_char_value b64_char_not_pad Let_def)
qed

lemma decode_group_pad2:
  assumes "a < 64" "b < 64"
  shows "decode_group (b64_char a) (b64_char b) 61 61
           = (if b mod 16 = 0 then Some [byte1 a b] else None)"
proof -
  have "ucast (of_nat 0 :: byte) = (0 :: u32)" by simp
  note * = combine [OF assms, of 0 0, simplified this] group_bytes [OF assms, of 0 0] low_bits(1) [OF assms(2)]
  show ?thesis
    unfolding decode_group_def
    using assms * by (simp add: b64_char_value Let_def)
qed

lemma unat_bytes:
  assumes "a < 64" "b < 64" "c < 64" "d < 64"
  shows "unat (byte1 a b) = a * 4 + b div 16" and "unat (byte2 b c) = b mod 16 * 16 + c div 4"
    and "unat (byte3 c d) = c mod 4 * 64 + d"
proof -
  have u: "n < 256 \<Longrightarrow> unat (of_nat n :: byte) = n" for n
    by (simp add: unat_of_nat take_bit_nat_eq_self)
  have "b div 16 < 4" "c div 4 < 16" "b mod 16 < 16" "c mod 4 < 4" using assms by auto
  then have "a * 4 + b div 16 < 256" "b mod 16 * 16 + c div 4 < 256" "c mod 4 * 64 + d < 256"
    using assms by linarith+
  then show "unat (byte1 a b) = a * 4 + b div 16" "unat (byte2 b c) = b mod 16 * 16 + c div 4"
    "unat (byte3 c d) = c mod 4 * 64 + d"
    by (simp_all only: byte1_def byte2_def byte3_def u)
qed

lemma enc3_bytes:
  assumes "a < 64" "b < 64" "c < 64" "d < 64"
  shows "enc3 (byte1 a b) (byte2 b c) (byte3 c d) = map b64_char [a, b, c, d]"
proof -
  have "b div 16 < 4" "c div 4 < 16" using assms by auto
  then show ?thesis using assms by (simp add: enc3_def unat_bytes)
qed

lemma byte_zero:
  "c mod 4 = 0 \<Longrightarrow> byte3 c 0 = 0" "b mod 16 = 0 \<Longrightarrow> byte2 b 0 = 0"
  by (simp_all add: byte2_def byte3_def)

lemma decode_group_sound:
  assumes "decode_group g0 g1 g2 g3 = Some out"
  shows "b64_encode out = [g0, g1, g2, g3] \<and> (g2 \<noteq> 61 \<and> g3 \<noteq> 61 \<longrightarrow> length out = 3)"
proof -
  have "base64_value g0 \<noteq> None" "base64_value g1 \<noteq> None"
    using assms by (auto simp: decode_group_def split: option.splits)
  then obtain a b where ab: "a < 64" "g0 = b64_char a" "b < 64" "g1 = b64_char b"
    using base64_value_char by blast
  show ?thesis
  proof (cases "g2 = 61")
    case True
    with assms have g3: "g3 = 61" by (auto simp: decode_group_def split: option.splits if_splits)
    with assms True ab decode_group_pad2 [OF ab(1,3)] have "b mod 16 = 0" "out = [byte1 a b]"
      by (auto split: if_splits)
    with enc3_bytes [OF ab(1,3), of 0 0] ab True g3 show ?thesis
      by (simp add: byte_zero)
  next
    case False
    with assms have "base64_value g2 \<noteq> None"
      by (auto simp: decode_group_def split: option.splits)
    then obtain c where c: "c < 64" "g2 = b64_char c" using base64_value_char by blast
    show ?thesis
    proof (cases "g3 = 61")
      case True
      with assms ab c decode_group_pad1 [OF ab(1,3) c(1)]
      have "c mod 4 = 0" "out = [byte1 a b, byte2 b c]" by (auto split: if_splits)
      with enc3_bytes [OF ab(1,3) c(1), of 0] ab c True show ?thesis by (simp add: byte_zero)
    next
      case g3: False
      with assms False have "base64_value g3 \<noteq> None"
        by (auto simp: decode_group_def split: option.splits)
      then obtain d where d: "d < 64" "g3 = b64_char d" using base64_value_char by blast
      with assms ab c decode_group_full [OF ab(1,3) c(1) d(1)]
      have "out = [byte1 a b, byte2 b c, byte3 c d]" by auto
      with enc3_bytes [OF ab(1,3) c(1) d(1)] ab c d show ?thesis by simp
    qed
  qed
qed

text \<open>Every triple of bytes is the decoding of its four sextets.\<close>

lemma sextets:
  obtains a b c d where "a < 64" "b < 64" "c < 64" "d < 64"
    "x = byte1 a b" "y = byte2 b c" "z = byte3 c d"
    "y = 0 \<longrightarrow> b mod 16 = 0" "z = 0 \<longrightarrow> c mod 4 = 0"
proof -
  have lt: "unat x < 256" "unat y < 256" "unat z < 256"
    using unsigned_less [of x] unsigned_less [of y] unsigned_less [of z] by simp_all
  define a b c d where "a = unat x div 4" and "b = unat x mod 4 * 16 + unat y div 16"
    and "c = unat y mod 16 * 4 + unat z div 64" and "d = unat z mod 64"
  have s: "unat y div 16 < 16" "unat z div 64 < 4" using lt by auto
  have r: "unat x mod 4 < 4" "unat y mod 16 < 16" by simp_all
  have "a < 64" "d < 64" using lt by (simp_all add: a_def d_def less_mult_imp_div_less)
  moreover have "b < 64" "c < 64" using s r unfolding b_def c_def by linarith+
  moreover have "x = byte1 a b" using s by (simp add: byte1_def a_def b_def)
  moreover have "y = byte2 b c" using s by (simp add: byte2_def b_def c_def)
  moreover have "z = byte3 c d" using s by (simp add: byte3_def c_def d_def)
  moreover have "y = 0 \<longrightarrow> b mod 16 = 0" "z = 0 \<longrightarrow> c mod 4 = 0"
    by (simp_all add: b_def c_def)
  ultimately show ?thesis by - (rule that [of a b c d])
qed

lemma enc3_group:
  obtains g0 g1 g2 g3 where "enc3 x y z = [g0, g1, g2, g3]"
    "61 \<notin> set [g0, g1, g2, g3]" "decode_group g0 g1 g2 g3 = Some [x, y, z]"
    "z = 0 \<Longrightarrow> decode_group g0 g1 g2 61 = Some [x, y]"
    "y = 0 \<Longrightarrow> z = 0 \<Longrightarrow> decode_group g0 g1 61 61 = Some [x]"
proof -
  obtain a b c d where *: "a < 64" "b < 64" "c < 64" "d < 64"
    "x = byte1 a b" "y = byte2 b c" "z = byte3 c d"
    "y = 0 \<longrightarrow> b mod 16 = 0" "z = 0 \<longrightarrow> c mod 4 = 0"
    by (rule sextets [of x y z])
  show ?thesis
  proof (rule that [of "b64_char a" "b64_char b" "b64_char c" "b64_char d"])
    show "enc3 x y z = [b64_char a, b64_char b, b64_char c, b64_char d]"
      using * enc3_bytes [of a b c d] by simp
    have "61 \<noteq> b64_char a" "61 \<noteq> b64_char b" "61 \<noteq> b64_char c" "61 \<noteq> b64_char d"
      using * b64_char_not_pad by metis+
    then show "61 \<notin> set [b64_char a, b64_char b, b64_char c, b64_char d]" by simp
  qed (use * decode_group_full decode_group_pad1 decode_group_pad2 in simp_all)
qed

lemma decode_b64_encode: "decode_groups (b64_encode xs) = Some xs"
proof (induction xs rule: b64_encode.induct)
  case (2 x)
  then show ?case by (rule enc3_group [of x 0 0]) simp
next
  case (3 x y)
  then show ?case by (rule enc3_group [of x y 0]) simp
next
  case (4 x y z rest)
  then show ?case by (rule_tac enc3_group [of x y z]) simp
qed simp

lemma b64_encode_append3:
  "length out = 3 \<Longrightarrow> b64_encode (out @ xs) = b64_encode out @ b64_encode xs"
  by (auto simp: numeral_3_eq_3 length_Suc_conv)

lemma decode_groups_sound:
  "decode_groups s = Some xs \<Longrightarrow> length s mod 4 = 0 \<Longrightarrow>
     61 \<notin> set (take (length s - 4) s) \<Longrightarrow> b64_encode xs = s"
proof (induction s arbitrary: xs rule: decode_groups.induct)
  case (1 g0 g1 g2 g3 rest)
  then obtain out ys where o: "decode_group g0 g1 g2 g3 = Some out" "decode_groups rest = Some ys"
    "xs = out @ ys" by (auto split: option.splits)
  show ?case
  proof (cases "rest = []")
    case True
    with o show ?thesis using decode_group_sound by fastforce
  next
    case False
    moreover have m: "length rest mod 4 = 0" using 1(3) by simp
    ultimately have "4 \<le> length rest" by (metis dvd_imp_le length_greater_0_conv mod_eq_0_iff_dvd)
    then obtain n where n: "length rest = 4 + n" using le_Suc_ex by blast
    then have "take (length (g0 # g1 # g2 # g3 # rest) - 4) (g0 # g1 # g2 # g3 # rest)
        = g0 # g1 # g2 # g3 # take (length rest - 4) rest" by (simp add: eval_nat_numeral)
    with 1(4) have g: "g2 \<noteq> 61 \<and> g3 \<noteq> 61" and r: "61 \<notin> set (take (length rest - 4) rest)"
      by auto
    from m 1(1) [OF o(1,2)] r have "b64_encode ys = rest" by simp
    with decode_group_sound [OF o(1)] g o(3) show ?thesis by (simp add: b64_encode_append3)
  qed
qed auto

lemma b64_encode_shape:
  "length (b64_encode xs) = (length xs + 2) div 3 * 4"
  "length (takeWhile (\<lambda>b. b = 61) (rev (b64_encode xs))) = (length xs + 2) div 3 * 3 - length xs"
  "61 \<notin> set (take (length (b64_encode xs) - ((length xs + 2) div 3 * 3 - length xs)) (b64_encode xs))"
proof (induction xs rule: b64_encode.induct)
  case (2 x)
  { case 1 show ?case by (rule enc3_group [of x 0 0]) simp }
  { case 2 show ?case by (rule enc3_group [of x 0 0]) auto }
  { case 3 show ?case by (rule enc3_group [of x 0 0]) auto }
next
  case (3 x y)
  { case 1 show ?case by (rule enc3_group [of x y 0]) simp }
  { case 2 show ?case by (rule enc3_group [of x y 0]) auto }
  { case 3 show ?case by (rule enc3_group [of x y 0]) auto }
next
  case (4 x y z rest)
  obtain g0 g1 g2 g3 where g: "enc3 x y z = [g0, g1, g2, g3]" "61 \<notin> set [g0, g1, g2, g3]"
    by (rule enc3_group [of x y z])
  have arith: "(5 + length rest) div 3 = Suc (Suc (Suc (length rest)) div 3)" by simp
  let ?pad = "(length rest + 2) div 3 * 3 - length rest"
  { case 1 show ?case using 4(1) g by (simp add: arith) }
  { case 2
    have "takeWhile (\<lambda>b. b = 61) (rev (b64_encode rest) @ [g3, g2, g1, g0])
        = takeWhile (\<lambda>b. b = 61) (rev (b64_encode rest))"
      using g(2) by (auto simp: takeWhile_append intro!: takeWhile_eq_all_conv [THEN iffD2, symmetric])
    then show ?case using 4(2) g by (simp add: arith) }
  { case 3
    have "?pad \<le> length (b64_encode rest)"
      using 4(1) by linarith
    then show ?case using 4(3) g by (auto simp: arith Suc_diff_le) }
qed simp_all

section \<open>Properties of the Pi boundary\<close>

lemma decode_chunk_sound:
  assumes "decode_pi_upload_chunk s = Inr xs"
  shows "bytes_of s = b64_encode xs \<and> 1 \<le> length xs \<and> length xs \<le> PI_UPLOAD_CHUNK_MAX_BYTES"
proof -
  define padding where "padding = length (takeWhile (\<lambda>b. b = 61) (rev (bytes_of s)))"
  from assms have *: "length (bytes_of s) mod 4 = 0" "padding \<le> 2"
    "61 \<notin> set (take (length s - padding) (bytes_of s))" "decode_groups (bytes_of s) = Some xs"
    "1 \<le> length xs" "length xs \<le> PI_UPLOAD_CHUNK_MAX_BYTES"
    by (auto simp: decode_pi_upload_chunk_def Let_def padding_def split: if_splits option.splits)
  from * have "61 \<notin> set (take (length s - padding) (bytes_of s))" by blast
  moreover have "set (take (length s - 4) (bytes_of s)) \<subseteq> set (take (length s - padding) (bytes_of s))"
    using \<open>padding \<le> 2\<close> by (intro set_take_subset_set_take) simp
  ultimately have "61 \<notin> set (take (length s - 4) (bytes_of s))" by blast
  with * show ?thesis using decode_groups_sound [of "bytes_of s" xs] by simp
qed

lemma decode_chunk_complete:
  assumes s: "bytes_of s = b64_encode xs" and len: "1 \<le> length xs" "length xs \<le> PI_UPLOAD_CHUNK_MAX_BYTES"
  shows "decode_pi_upload_chunk s = Inr xs"
proof -
  let ?k = "(length xs + 2) div 3"
  note sh = b64_encode_shape [of xs, folded s, unfolded length_bytes_of]
  have k: "length xs \<le> ?k * 3" "?k * 3 - length xs \<le> 2" "1 \<le> ?k" using len(1) by linarith+
  have "length s \<le> PI_UPLOAD_CHUNK_MAX_ENCODED_BYTES"
    using len(2) unfolding sh(1) PI_UPLOAD_CHUNK_MAX_ENCODED_BYTES_def PI_UPLOAD_CHUNK_MAX_BYTES_def
    by (intro mult_le_mono1 div_le_mono) simp
  moreover have "s \<noteq> []" "xs \<noteq> []" using sh(1) k(3) len(1) by auto
  moreover have "length s div 4 * 3 - (?k * 3 - length xs) = length xs" "length s mod 4 = 0"
    using sh(1) k(1) by simp_all
  ultimately show ?thesis
    using sh k len decode_b64_encode [of xs]
    by (simp add: decode_pi_upload_chunk_def Let_def s [symmetric])
qed

text \<open>C32: the upload decoder accepts a chunk and returns bytes exactly when the text is the
  canonical padded base64 encoding of these bytes and there are between one and 49152 of
  them; every other text, every non-canonical spelling included, is refused.\<close>

theorem upload_chunk_canonical:
  "decode_pi_upload_chunk s = Inr xs \<longleftrightarrow>
     bytes_of s = b64_encode xs \<and> 1 \<le> length xs \<and> length xs \<le> PI_UPLOAD_CHUNK_MAX_BYTES"
  by (meson decode_chunk_sound decode_chunk_complete)

text \<open>The text a command carries to the extension, in bytes.\<close>

fun payload_bytes :: "pi_command \<Rightarrow> nat" where
  "payload_bytes PiSnapshot = 0"
| "payload_bytes Abort = 0"
| "payload_bytes (Prompt msg _) = length msg"
| "payload_bytes (PromptWithAttachments rid msg _ atts) =
     length rid + length msg + sum_list (map length atts)"
| "payload_bytes (UploadBegin rid fname mime _) = length rid + length fname + length mime"
| "payload_bytes (UploadChunk rid aid _ data) = length rid + length aid + length data"
| "payload_bytes (UploadFinish rid aid) = length rid + length aid"
| "payload_bytes (UploadCancel rid aid) = length rid + length aid"
| "payload_bytes (SubagentStatus rid) = length rid"
| "payload_bytes (SubagentTranscript rid run _) = length rid + length run"
| "payload_bytes (SubagentControl rid _ run child _ msg) =
     length rid + length run + (case child of None \<Rightarrow> 0 | Some c \<Rightarrow> length c)
       + (case msg of None \<Rightarrow> 0 | Some m \<Rightarrow> length m)"
| "payload_bytes (SetThinkingLevel lv) = length lv"

definition filename_wf :: "pi_command \<Rightarrow> bool" where
  "filename_wf c = (case c of UploadBegin _ fname _ _ \<Rightarrow> wf_str fname | _ \<Rightarrow> True)"

lemma utf8_decode_length: "utf8_decode bs = Some cs \<Longrightarrow> length bs \<le> 4 * length cs"
proof (induction bs arbitrary: cs rule: utf8_decode.induct)
  case (1 bs)
  show ?case
  proof (cases "bs = []")
    case False
    with 1(2) obtain c n ds where h: "utf8_head bs = Some (c, n)" "utf8_decode (drop n bs) = Some ds"
      "cs = c # ds" by (subst (asm) utf8_decode.simps) (auto split: option.splits)
    with 1(1) [OF False h(1) refl] utf8_head_len [OF h(1)] show ?thesis by fastforce
  qed simp
qed

lemma length_chars: "wf_str s \<Longrightarrow> length s \<le> 4 * length (chars s)"
  using utf8_decode_length [of "map of_char s"] by (auto simp: wf_str_def chars_def)

lemma identifier_bounded: "validate_pi_identifier v mx l = Inr () \<Longrightarrow> length v \<le> mx"
  by (simp add: validate_pi_identifier_def)

lemma attachment_id_bounded: "validate_pi_attachment_id v = Inr () \<Longrightarrow> length v \<le> 128"
  using identifier_bounded by (fastforce simp: validate_pi_attachment_id_def PI_ATTACHMENT_ID_MAX_BYTES_def)

lemma request_id_bounded: "validate_request_id v = Inr () \<Longrightarrow> length v \<le> 128"
  using identifier_bounded by (fastforce simp: validate_request_id_def PI_REQUEST_ID_MAX_BYTES_def)

lemma subagent_id_bounded: "validate_pi_subagent_id v l = Inr () \<Longrightarrow> length v \<le> 256"
  using identifier_bounded by (fastforce simp: validate_pi_subagent_id_def PI_SUBAGENT_ID_MAX_BYTES_def)

lemma attachments_valid:
  "validate_attachments as seen = Inr () \<Longrightarrow>
     distinct as \<and> set as \<inter> seen = {} \<and> sum_list (map length as) \<le> 128 * length as"
  by (induction "as" seen rule: validate_attachments.induct) (auto dest: attachment_id_bounded)

lemma chunk_data_bounded: "decode_pi_upload_chunk d = Inr x \<Longrightarrow> length d \<le> 65536"
  by (auto simp: decode_pi_upload_chunk_def PI_UPLOAD_CHUNK_MAX_ENCODED_BYTES_def
      PI_UPLOAD_CHUNK_MAX_BYTES_def split: if_splits)

lemmas pi_bounds = request_id_bounded attachment_id_bounded subagent_id_bounded identifier_bounded

text \<open>A command that passes validation carries at most 66688 bytes of text (a full
  prompt with its request id and eight attachment ids) and never names an attachment twice.\<close>

theorem validated_command_bounded:
  assumes "validate_pi_command c = Inr ()" and "filename_wf c"
  shows "payload_bytes c \<le> 66688 \<and>
    (case c of PromptWithAttachments _ _ _ atts \<Rightarrow> distinct atts | _ \<Rightarrow> True)"
proof (cases c)
  case (PromptWithAttachments rid msg dl atts)
  with assms have "length rid \<le> 128" "length msg \<le> 65536" "length atts \<le> 8"
    "distinct atts \<and> sum_list (map length atts) \<le> 128 * length atts"
    using attachments_valid [of atts "{}"]
    by (auto simp: PI_PROMPT_MAX_BYTES_def PI_ATTACHMENTS_PER_PROMPT_def dest: pi_bounds)
  with PromptWithAttachments show ?thesis by simp
next
  case (UploadBegin rid fname mime sz)
  with assms have "length rid \<le> 128" "length (chars fname) \<le> 255" "length mime \<le> 128"
    by (auto simp: validate_pi_filename_def validate_pi_mime_type_def PI_FILENAME_MAX_CHARS_def
        PI_MIME_TYPE_MAX_BYTES_def dest: pi_bounds)
  with UploadBegin assms(2) length_chars [of fname] show ?thesis by (simp add: filename_wf_def)
next
  case (UploadChunk rid aid off data)
  with assms have "length rid \<le> 128" "length aid \<le> 128" "length data \<le> 65536"
    by (auto dest: pi_bounds chunk_data_bounded split: sum.splits)
  with UploadChunk show ?thesis by simp
next
  case (SubagentControl rid act run child idx msg)
  with assms have "length rid \<le> 128" "length run \<le> 256" "child = None"
    "(case msg of None \<Rightarrow> 0 | Some m \<Rightarrow> length m) \<le> 65536"
    by (auto simp: validate_control_message_def PI_PROMPT_MAX_BYTES_def dest: pi_bounds
        split: if_splits option.splits)
  with SubagentControl show ?thesis by simp
next
  case (SubagentTranscript rid run idx)
  with assms have "length rid \<le> 128" "length run \<le> 256" by (auto dest: pi_bounds)
  with SubagentTranscript show ?thesis by simp
qed (use assms in \<open>auto simp: PI_PROMPT_MAX_BYTES_def dest!: pi_bounds\<close>)

theorem validated_command_bounded_witness:
  "payload_bytes (PromptWithAttachments ''r'' ''hi'' Now [''a'', ''b'']) \<le> 66688 \<and> distinct [''a'', ''b'']"
  using validated_command_bounded [of "PromptWithAttachments ''r'' ''hi'' Now [''a'', ''b'']"]
  by (simp add: validate_request_id_def validate_pi_identifier_def validate_pi_attachment_id_def
      PI_REQUEST_ID_MAX_BYTES_def PI_PROMPT_MAX_BYTES_def PI_ATTACHMENTS_PER_PROMPT_def
      PI_ATTACHMENT_ID_MAX_BYTES_def blank_def trim_chars_def ascii_chars is_ascii_def is_control_def
      is_whitespace_def in_rng_def is_ascii_alphanumeric_def filename_wf_def)

end
