(* ===== verification/Fs.thy ===== *)
theory Fs
  imports Messages
begin

text \<open>
  The file operations of \<^verbatim>\<open>crates/amber-core/src/state.rs\<close>: an explicit file system, the
  calls the store makes of it, and the atomic write and durable removal built from
  them. Every call that can fail consumes one element of a fault list, so a theorem
  over all fault lists covers every combination of I/O errors and every point at
  which the process may die. A crash keeps what the calls before it did; \<^verbatim>\<open>exists\<close> and
  \<^verbatim>\<open>stat\<close> do not fail, and the loss of unsynced data in a power failure is not modelled.

  A small Hoare logic over the visible contents of the files (temporary files and
  inode numbers are invisible) carries the proofs about the store.
\<close>

section \<open>Sessions and their metadata\<close>

datatype session_kind = Shell | Claude | Grok | Codex | OpenCode | Hermes | Pi | Muse

definition is_agent :: "session_kind \<Rightarrow> bool" where
  "is_agent k \<longleftrightarrow> k \<in> {Claude, Grok, Codex, OpenCode, Hermes, Pi, Muse}"

primrec as_str :: "session_kind \<Rightarrow> string" where
  "as_str Shell = ''shell''"
| "as_str Claude = ''claude''"
| "as_str Grok = ''grok''"
| "as_str Codex = ''codex''"
| "as_str OpenCode = ''opencode''"
| "as_str Hermes = ''hermes''"
| "as_str Pi = ''pi''"
| "as_str Muse = ''muse''"

record session_meta =
  sm_name :: string
  sm_cwd :: string
  sm_kind :: session_kind
  sm_updated :: nat
  sm_title :: "string option"
  sm_resume_as_claude :: bool
  sm_resume_as_muse :: bool
  sm_run_state :: "string option"
  sm_slot :: nat

record claude_meta =
  cm_session_id :: string
  cm_cwd :: string
  cm_updated :: nat
  cm_session_file :: "string option"
  cm_agent_kind :: "session_kind option"

record rename_journal =
  rj_from :: string
  rj_to :: string
  rj_source :: session_meta

text \<open>The serializer of the persisted records, \<^verbatim>\<open>serde_json\<close>, as a parameter.\<close>

record codec =
  ser_session :: "session_meta \<Rightarrow> byte list option"
  de_session :: "byte list \<Rightarrow> session_meta option"
  ser_claude :: "claude_meta \<Rightarrow> byte list option"
  de_claude :: "byte list \<Rightarrow> claude_meta option"
  ser_journal :: "rename_journal \<Rightarrow> byte list option"
  de_journal :: "byte list \<Rightarrow> rename_journal option"
  ser_events :: "recovery_event list \<Rightarrow> byte list option"
  de_events :: "byte list \<Rightarrow> recovery_event list option"

section \<open>The file system\<close>

datatype dir = RootDir | SessionsDir | ClaudeDir | ScrollbackDir

datatype path = Path (parent: dir) (file_name: string)

record file_entry =
  data :: "byte list"
  ino :: nat
  mtime :: nat

record stamp =
  st_modified :: nat
  st_len :: nat
  st_inode :: nat

datatype fault = NoFault | Fails nat | Crashes nat

record world =
  files :: "path \<Rightarrow> file_entry option"
  next_ino :: nat
  clock :: nat
  pid :: nat
  seq :: nat
  faults :: "fault list"
  session_cache :: "path \<Rightarrow> (stamp \<times> session_meta) option"
  claude_cache :: "path \<Rightarrow> (stamp \<times> claude_meta) option"

datatype io_error =
    NotFound | Io | Corrupt | Unserializable
  | NoSuchSession string | RenamePending | TargetExists path | RollbackFailed
  | InvalidJournal | JournalMismatch | NoMetadata

datatype 'a outcome = Ok 'a | Err io_error | Crash

type_synonym 'a io = "world \<Rightarrow> 'a outcome \<times> world"

definition ret :: "'a \<Rightarrow> 'a io" where
  "ret a w = (Ok a, w)"

definition fail :: "io_error \<Rightarrow> 'a io" where
  "fail e w = (Err e, w)"

definition bind_io :: "'a io \<Rightarrow> ('a \<Rightarrow> 'b io) \<Rightarrow> 'b io" where
  "bind_io m f w = (case m w of
     (Ok a, w') \<Rightarrow> f a w' | (Err e, w') \<Rightarrow> (Err e, w') | (Crash, w') \<Rightarrow> (Crash, w'))"

definition attempt :: "'a io \<Rightarrow> (io_error + 'a) io" where
  "attempt m w = (case m w of
     (Ok a, w') \<Rightarrow> (Ok (Inr a), w') | (Err e, w') \<Rightarrow> (Ok (Inl e), w') | (Crash, w') \<Rightarrow> (Crash, w'))"

lemma bind_ret [simp]: "bind_io (ret a) f = f a"
  by (rule ext) (simp add: bind_io_def ret_def)

text \<open>One system call: its effect, or the part of it done before an error or a crash.\<close>

definition syscall :: "(nat \<Rightarrow> world \<Rightarrow> world) \<Rightarrow> 'a io \<Rightarrow> 'a io" where
  "syscall part full w = (case faults w of
     [] \<Rightarrow> full w
   | f # fs \<Rightarrow> let w1 = w\<lparr>faults := fs\<rparr> in
       (case f of NoFault \<Rightarrow> full w1 | Fails k \<Rightarrow> (Err Io, part k w1) | Crashes k \<Rightarrow> (Crash, part k w1)))"

definition atomic_call :: "'a io \<Rightarrow> 'a io" where
  "atomic_call = syscall (\<lambda>_ w. w)"

definition no_effect :: "unit io" where
  "no_effect = atomic_call (ret ())"

definition set_file :: "path \<Rightarrow> file_entry option \<Rightarrow> world \<Rightarrow> world" where
  "set_file p f w = w\<lparr>files := (files w)(p := f)\<rparr>"

definition create_file :: "path \<Rightarrow> unit io" where
  "create_file p = atomic_call (\<lambda>w. (Ok (), case files w p of
     Some f \<Rightarrow> set_file p (Some (f\<lparr>data := []\<rparr>)) w
   | None \<Rightarrow> set_file p (Some \<lparr>data = [], ino = next_ino w, mtime = clock w\<rparr>)
               (w\<lparr>next_ino := Suc (next_ino w)\<rparr>)))"

definition put_bytes :: "path \<Rightarrow> byte list \<Rightarrow> world \<Rightarrow> world" where
  "put_bytes p bytes w = (case files w p of
     None \<Rightarrow> w | Some f \<Rightarrow> set_file p (Some (f\<lparr>data := bytes, mtime := clock w\<rparr>)) w)"

definition write_all :: "path \<Rightarrow> byte list \<Rightarrow> unit io" where
  "write_all p bytes =
     syscall (\<lambda>k. put_bytes p (take k bytes)) (\<lambda>w. (Ok (), put_bytes p bytes w))"

definition rename_file :: "path \<Rightarrow> path \<Rightarrow> unit io" where
  "rename_file a b = atomic_call (\<lambda>w. case files w a of
     None \<Rightarrow> (Err NotFound, w)
   | Some f \<Rightarrow> (Ok (), set_file a None (set_file b (Some f) w)))"

definition remove_file :: "path \<Rightarrow> unit io" where
  "remove_file p = atomic_call (\<lambda>w. case files w p of
     None \<Rightarrow> (Err NotFound, w) | Some _ \<Rightarrow> (Ok (), set_file p None w))"

definition read_file :: "path \<Rightarrow> byte list io" where
  "read_file p = atomic_call (\<lambda>w. case files w p of
     None \<Rightarrow> (Err NotFound, w) | Some f \<Rightarrow> (Ok (data f), w))"

definition exists_file :: "path \<Rightarrow> bool io" where
  "exists_file p w = (Ok (files w p \<noteq> None), w)"

section \<open>Atomic writes and durable removal\<close>

definition tmp_path :: "path \<Rightarrow> nat \<Rightarrow> nat \<Rightarrow> path" where
  "tmp_path p pid_no seq_no =
     Path (parent p) (file_name p @ ''.'' @ map char_of (dec pid_no) @ ''.''
                      @ map char_of (dec seq_no) @ ''.tmp'')"

definition fetch_seq :: "nat io" where
  "fetch_seq w = (Ok (seq w), w\<lparr>seq := (seq w + 1) mod 2 ^ 64\<rparr>)"

definition get_pid :: "nat io" where
  "get_pid w = (Ok (pid w), w)"

definition sync_dir :: "dir \<Rightarrow> unit io" where
  "sync_dir d = no_effect"

definition replace_atomic :: "path \<Rightarrow> path \<Rightarrow> unit io" where
  "replace_atomic tmp p = rename_file tmp p"

definition atomic_write :: "path \<Rightarrow> byte list \<Rightarrow> unit io" where
  "atomic_write p bytes =
     bind_io no_effect (\<lambda>_.
     bind_io fetch_seq (\<lambda>s.
     bind_io get_pid (\<lambda>pd.
     let tmp = tmp_path p pd s in
     bind_io (create_file tmp) (\<lambda>_.
     bind_io (write_all tmp bytes) (\<lambda>_.
     bind_io no_effect (\<lambda>_.
     bind_io (attempt (replace_atomic tmp p)) (\<lambda>r.
       case r of
         Inl e \<Rightarrow> bind_io (attempt (remove_file tmp)) (\<lambda>_. fail e)
       | Inr _ \<Rightarrow> sync_dir (parent p))))))))"

definition remove_durable :: "path \<Rightarrow> unit io" where
  "remove_durable p =
     bind_io (attempt (remove_file p)) (\<lambda>r.
       case r of
         Inr _ \<Rightarrow> sync_dir (parent p)
       | Inl e \<Rightarrow> if e = NotFound then ret () else fail e)"

definition remove_if_exists :: "path \<Rightarrow> unit io" where
  "remove_if_exists p =
     bind_io (attempt (remove_file p)) (\<lambda>r.
       case r of Inr _ \<Rightarrow> ret () | Inl e \<Rightarrow> if e = NotFound then ret () else fail e)"

definition read_json :: "(byte list \<Rightarrow> 'a option) \<Rightarrow> path \<Rightarrow> 'a option io" where
  "read_json de p =
     bind_io (attempt (read_file p)) (\<lambda>r.
       case r of
         Inr bytes \<Rightarrow> (case de bytes of None \<Rightarrow> fail Corrupt | Some v \<Rightarrow> ret (Some v))
       | Inl e \<Rightarrow> if e = NotFound then ret None else fail e)"

definition write_json :: "('a \<Rightarrow> byte list option) \<Rightarrow> path \<Rightarrow> 'a \<Rightarrow> unit io" where
  "write_json ser p v =
     (case ser v of None \<Rightarrow> fail Unserializable | Some bytes \<Rightarrow> atomic_write p bytes)"

section \<open>The parse cache\<close>

definition stamp_of :: "file_entry \<Rightarrow> stamp" where
  "stamp_of f = \<lparr>st_modified = mtime f, st_len = length (data f), st_inode = ino f\<rparr>"

definition read_stamp :: "path \<Rightarrow> stamp option io" where
  "read_stamp p w = (Ok (map_option stamp_of (files w p)), w)"

text \<open>
  \<^verbatim>\<open>FileCache::get\<close>, over the cache selected by \<open>rd\<close> and updated by \<open>wr\<close>.
\<close>

definition cache_get ::
  "(world \<Rightarrow> path \<Rightarrow> (stamp \<times> 'v) option) \<Rightarrow> ((path \<Rightarrow> (stamp \<times> 'v) option) \<Rightarrow> world \<Rightarrow> world)
   \<Rightarrow> path \<Rightarrow> 'v option io \<Rightarrow> 'v option io" where
  "cache_get rd wr p load =
     bind_io (read_stamp p) (\<lambda>st w.
       case (st, rd w p) of
         (Some s, Some (cached, v)) \<Rightarrow>
           if cached = s then (Ok (Some v), w)
           else bind_io load (\<lambda>loaded w.
                  (Ok loaded, wr ((rd w)(p := (case loaded of Some v \<Rightarrow> Some (s, v) | None \<Rightarrow> None))) w)) w
       | (Some s, None) \<Rightarrow>
           bind_io load (\<lambda>loaded w.
             (Ok loaded, wr ((rd w)(p := (case loaded of Some v \<Rightarrow> Some (s, v) | None \<Rightarrow> None))) w)) w
       | (None, _) \<Rightarrow>
           bind_io load (\<lambda>loaded w. (Ok loaded, wr ((rd w)(p := None)) w)) w)"

section \<open>The invariant of the store\<close>

definition is_tmp :: "path \<Rightarrow> bool" where
  "is_tmp p \<longleftrightarrow> suffix ''.tmp'' (file_name p)"

definition view :: "world \<Rightarrow> path \<Rightarrow> byte list option" where
  "view w p = (if is_tmp p then None else map_option data (files w p))"

text \<open>
  Inode numbers are allocated in order and shared by no two names; a cached inode
  belongs to the file of its own path, which parses to the cached value.
\<close>

definition inodes_ok :: "world \<Rightarrow> bool" where
  "inodes_ok w \<longleftrightarrow>
     (\<forall>p f. files w p = Some f \<longrightarrow> ino f < next_ino w) \<and>
     (\<forall>p q f g. files w p = Some f \<longrightarrow> files w q = Some g \<longrightarrow> ino f = ino g \<longrightarrow> p = q)"

definition cache_ok :: "(byte list \<Rightarrow> 'v option) \<Rightarrow> (path \<Rightarrow> (stamp \<times> 'v) option) \<Rightarrow> world \<Rightarrow> bool" where
  "cache_ok de cache w \<longleftrightarrow>
     (\<forall>p s v. cache p = Some (s, v) \<longrightarrow> \<not> is_tmp p \<and> st_inode s < next_ino w \<and>
        (\<forall>q f. files w q = Some f \<longrightarrow> ino f = st_inode s \<longrightarrow> q = p \<and> de (data f) = Some v))"

definition wf_world :: "codec \<Rightarrow> world \<Rightarrow> bool" where
  "wf_world C w \<longleftrightarrow> inodes_ok w \<and> cache_ok (de_session C) (session_cache w) w
     \<and> cache_ok (de_claude C) (claude_cache w) w"

lemma tmp_path_is_tmp [simp]: "is_tmp (tmp_path p a b)"
  by (simp add: is_tmp_def tmp_path_def suffix_def)

lemma set_file_fields [simp]:
  "files (set_file p f w) = (files w)(p := f)" "next_ino (set_file p f w) = next_ino w"
  "session_cache (set_file p f w) = session_cache w" "claude_cache (set_file p f w) = claude_cache w"
  "faults (set_file p f w) = faults w" "seq (set_file p f w) = seq w" "pid (set_file p f w) = pid w"
  by (simp_all add: set_file_def)

lemma view_set_tmp [simp]: "is_tmp t \<Longrightarrow> view (set_file t f w) = view w"
  by (rule ext) (simp add: view_def set_file_def)

lemma view_set: "\<not> is_tmp p \<Longrightarrow> view (set_file p f w) = (view w)(p := map_option data f)"
  by (rule ext) (simp add: view_def set_file_def)

lemma inodes_ok_cong:
  "files w' = files w \<Longrightarrow> next_ino w' = next_ino w \<Longrightarrow> inodes_ok w' = inodes_ok w"
  by (simp add: inodes_ok_def)

lemma cache_ok_cong:
  "files w' = files w \<Longrightarrow> next_ino w' = next_ino w \<Longrightarrow> cache_ok de c w' = cache_ok de c w"
  by (simp add: cache_ok_def)

lemma inv_cong:
  "files w' = files w \<Longrightarrow> next_ino w' = next_ino w \<Longrightarrow> session_cache w' = session_cache w \<Longrightarrow>
     claude_cache w' = claude_cache w \<Longrightarrow> wf_world C w' = wf_world C w"
  by (simp add: wf_world_def inodes_ok_def cache_ok_def)

lemma inv_faults [simp]: "wf_world C (w\<lparr>faults := fs\<rparr>) = wf_world C w"
  and inv_seq [simp]: "wf_world C (w\<lparr>seq := n\<rparr>) = wf_world C w"
  by (rule inv_cong; simp)+

lemma view_faults [simp]: "view (w\<lparr>faults := fs\<rparr>) = view w"
  and view_seq [simp]: "view (w\<lparr>seq := n\<rparr>) = view w"
  and view_ino [simp]: "view (w\<lparr>next_ino := n\<rparr>) = view w"
  and view_sc [simp]: "view (w\<lparr>session_cache := sc\<rparr>) = view w"
  and view_cc [simp]: "view (w\<lparr>claude_cache := cc\<rparr>) = view w"
  by (simp_all add: view_def fun_eq_iff)

text \<open>The four ways a file changes.\<close>

lemma inodes_create:
  "inodes_ok w \<Longrightarrow> files w t = None \<Longrightarrow>
     inodes_ok (set_file t (Some \<lparr>data = [], ino = next_ino w, mtime = m\<rparr>)
                 (w\<lparr>next_ino := Suc (next_ino w)\<rparr>))"
  unfolding inodes_ok_def set_file_def by (fastforce split: if_splits)

lemma cache_create:
  "cache_ok de c w \<Longrightarrow> cache_ok de c (set_file t (Some \<lparr>data = [], ino = next_ino w, mtime = m\<rparr>)
                 (w\<lparr>next_ino := Suc (next_ino w)\<rparr>))"
  unfolding cache_ok_def set_file_def by (fastforce split: if_splits)

lemma inv_create:
  "wf_world C w \<Longrightarrow> files w t = None \<Longrightarrow>
     wf_world C (set_file t (Some \<lparr>data = [], ino = next_ino w, mtime = m\<rparr>)
             (w\<lparr>next_ino := Suc (next_ino w)\<rparr>))"
  by (simp add: wf_world_def inodes_create cache_create)

lemma inodes_rewrite:
  "inodes_ok w \<Longrightarrow> files w t = Some f \<Longrightarrow> ino f' = ino f \<Longrightarrow> inodes_ok (set_file t (Some f') w)"
  unfolding inodes_ok_def set_file_def by (simp split: if_splits) metis

lemma cache_rewrite:
  "cache_ok de c w \<Longrightarrow> is_tmp t \<Longrightarrow> files w t = Some f \<Longrightarrow> ino f' = ino f \<Longrightarrow>
     cache_ok de c (set_file t (Some f') w)"
  unfolding cache_ok_def set_file_def by (simp split: if_splits) metis

lemma inv_rewrite_tmp:
  "wf_world C w \<Longrightarrow> is_tmp t \<Longrightarrow> files w t = Some f \<Longrightarrow> ino f' = ino f \<Longrightarrow> wf_world C (set_file t (Some f') w)"
  by (simp add: wf_world_def inodes_rewrite cache_rewrite)

lemma inv_remove: "wf_world C w \<Longrightarrow> wf_world C (set_file p None w)"
  unfolding wf_world_def inodes_ok_def cache_ok_def by (simp split: if_splits)

lemma inodes_move:
  "inodes_ok w \<Longrightarrow> files w t = Some f \<Longrightarrow> inodes_ok (set_file t None (set_file p (Some f) w))"
  unfolding inodes_ok_def set_file_def by (simp split: if_splits) metis

lemma cache_move:
  "cache_ok de c w \<Longrightarrow> is_tmp t \<Longrightarrow> files w t = Some f \<Longrightarrow>
     cache_ok de c (set_file t None (set_file p (Some f) w))"
  unfolding cache_ok_def set_file_def by (simp split: if_splits) metis

lemma inv_move:
  "wf_world C w \<Longrightarrow> is_tmp t \<Longrightarrow> files w t = Some f \<Longrightarrow> wf_world C (set_file t None (set_file p (Some f) w))"
  by (simp add: wf_world_def inodes_move cache_move)

section \<open>A Hoare logic with errors and crashes\<close>

text \<open>
  \<open>hoare b P m Q E K\<close>: from a state with \<open>P\<close>, the computation ends in \<open>Q\<close> with its value,
  in \<open>E\<close> with an error or in \<open>K\<close> by a crash; with \<open>b\<close> the run is free of faults.
\<close>

definition post ::
  "bool \<Rightarrow> ('a \<Rightarrow> world \<Rightarrow> bool) \<Rightarrow> (io_error \<Rightarrow> world \<Rightarrow> bool) \<Rightarrow> (world \<Rightarrow> bool)
   \<Rightarrow> 'a outcome \<times> world \<Rightarrow> bool" where
  "post b Q E K x \<longleftrightarrow> (case x of
        (Ok a, w') \<Rightarrow> Q a w' \<and> (b \<longrightarrow> faults w' = [])
      | (Err e, w') \<Rightarrow> E e w' \<and> (b \<longrightarrow> faults w' = [])
      | (Crash, w') \<Rightarrow> \<not> b \<and> K w')"

lemma post_simps [simp]:
  "post b Q E K (Ok a, w) \<longleftrightarrow> Q a w \<and> (b \<longrightarrow> faults w = [])"
  "post b Q E K (Err e, w) \<longleftrightarrow> E e w \<and> (b \<longrightarrow> faults w = [])"
  "post b Q E K (Crash, w) \<longleftrightarrow> \<not> b \<and> K w"
  by (simp_all add: post_def)

definition hoare ::
  "bool \<Rightarrow> (world \<Rightarrow> bool) \<Rightarrow> 'a io \<Rightarrow> ('a \<Rightarrow> world \<Rightarrow> bool) \<Rightarrow> (io_error \<Rightarrow> world \<Rightarrow> bool)
   \<Rightarrow> (world \<Rightarrow> bool) \<Rightarrow> bool" where
  "hoare b P m Q E K \<longleftrightarrow> (\<forall>w. P w \<longrightarrow> (b \<longrightarrow> faults w = []) \<longrightarrow> post b Q E K (m w))"

lemma hoareD: "hoare b P m Q E K \<Longrightarrow> P w \<Longrightarrow> (b \<Longrightarrow> faults w = []) \<Longrightarrow> post b Q E K (m w)"
  by (simp add: hoare_def)

lemma hoareI: "(\<And>w. P w \<Longrightarrow> (b \<Longrightarrow> faults w = []) \<Longrightarrow> post b Q E K (m w)) \<Longrightarrow> hoare b P m Q E K"
  by (simp add: hoare_def)

lemma post_mono:
  assumes "post b Q' E' K' x" and "\<And>a w. Q' a w \<Longrightarrow> Q a w" and "\<And>e w. E' e w \<Longrightarrow> E e w"
    and "\<And>w. \<not> b \<Longrightarrow> K' w \<Longrightarrow> K w"
  shows "post b Q E K x"
proof (cases x)
  case (Pair r w)
  then show ?thesis using assms by (cases r) auto
qed

lemma hoare_pre: "hoare b P' m Q E K \<Longrightarrow> (\<And>w. P w \<Longrightarrow> P' w) \<Longrightarrow> hoare b P m Q E K"
  by (simp add: hoare_def)

lemma hoare_post:
  "hoare b P m Q' E' K' \<Longrightarrow> (\<And>a w. Q' a w \<Longrightarrow> Q a w) \<Longrightarrow> (\<And>e w. E' e w \<Longrightarrow> E e w) \<Longrightarrow>
     (\<And>w. \<not> b \<Longrightarrow> K' w \<Longrightarrow> K w) \<Longrightarrow> hoare b P m Q E K"
  unfolding hoare_def using post_mono [of b Q' E' K' _ Q E K] by blast

lemma hoare_ret: "(\<And>w. P w \<Longrightarrow> Q a w) \<Longrightarrow> hoare b P (ret a) Q E K"
  by (simp add: hoare_def ret_def)

lemma hoare_fail: "(\<And>w. P w \<Longrightarrow> E e w) \<Longrightarrow> hoare b P (fail e) Q E K"
  by (simp add: hoare_def fail_def)

lemma hoare_bind:
  assumes "hoare b P m R E K" and "\<And>a. hoare b (R a) (f a) Q E K"
  shows "hoare b P (bind_io m f) Q E K"
proof (rule hoareI)
  fix w assume "P w" "b \<Longrightarrow> faults w = []"
  note * = hoareD [OF assms(1) this]
  show "post b Q E K (bind_io m f w)"
  proof (cases "m w")
    case (Pair r w')
    then show ?thesis
      using * hoareD [OF assms(2), of _ w'] by (cases r) (simp_all add: bind_io_def)
  qed
qed

lemma hoare_attempt:
  assumes "hoare b P m Q' E' K"
    and "\<And>a w. Q' a w \<Longrightarrow> Q (Inr a) w" and "\<And>e w. E' e w \<Longrightarrow> Q (Inl e) w"
  shows "hoare b P (attempt m) Q E K"
proof (rule hoareI)
  fix w assume "P w" "b \<Longrightarrow> faults w = []"
  note * = hoareD [OF assms(1) this]
  show "post b Q E K (attempt m w)"
  proof (cases "m w")
    case (Pair r w')
    then show ?thesis using * assms(2,3) by (cases r) (simp_all add: attempt_def)
  qed
qed

lemma hoare_case_sum:
  "(\<And>e. r = Inl e \<Longrightarrow> hoare b P (f e) Q E K) \<Longrightarrow> (\<And>a. r = Inr a \<Longrightarrow> hoare b P (g a) Q E K) \<Longrightarrow>
     hoare b P (case r of Inl e \<Rightarrow> f e | Inr a \<Rightarrow> g a) Q E K"
  by (cases r) simp_all

lemma hoare_if:
  "(c \<Longrightarrow> hoare b P m Q E K) \<Longrightarrow> (\<not> c \<Longrightarrow> hoare b P n Q E K) \<Longrightarrow>
     hoare b P (if c then m else n) Q E K"
  by simp

text \<open>Calls: \<open>full\<close> is run on a state that differs from the current one in the faults only.\<close>

definition fault_closed :: "(world \<Rightarrow> bool) \<Rightarrow> bool" where
  "fault_closed P \<longleftrightarrow> (\<forall>w fs. P (w\<lparr>faults := fs\<rparr>) = P w)"

lemma fault_closed_inv_view [simp]: "fault_closed (\<lambda>w. wf_world C w \<and> P (view w))"
  by (simp add: fault_closed_def)

lemma hoare_syscall:
  assumes cl: "fault_closed P"
    and full: "hoare b P full Q E K"
    and part: "\<And>w k. \<not> b \<Longrightarrow> P w \<Longrightarrow> E Io (part k w) \<and> K (part k w)"
  shows "hoare b P (syscall part full) Q E K"
proof (rule hoareI)
  fix w assume w: "P w" "b \<Longrightarrow> faults w = []"
  show "post b Q E K (syscall part full w)"
  proof (cases "faults w")
    case Nil
    with hoareD [OF full w] show ?thesis by (simp add: syscall_def)
  next
    case (Cons f fs)
    with w have nb: "\<not> b" by auto
    let ?w = "w\<lparr>faults := fs\<rparr>"
    from w(1) cl have P: "P ?w" by (simp add: fault_closed_def)
    have "b \<Longrightarrow> faults ?w = []" using nb by simp
    from hoareD [OF full P this] part [OF nb P] nb Cons show ?thesis
      by (cases f) (auto simp: syscall_def Let_def)
  qed
qed

lemma hoare_no_effect:
  "fault_closed P \<Longrightarrow> (\<And>w. P w \<Longrightarrow> Q () w) \<Longrightarrow> (\<And>w. \<not> b \<Longrightarrow> P w \<Longrightarrow> E Io w \<and> K w) \<Longrightarrow>
     hoare b P no_effect Q E K"
  unfolding no_effect_def atomic_call_def by (intro hoare_syscall hoare_ret) auto

section \<open>Rules for the file operations\<close>

definition vw :: "codec \<Rightarrow> ((path \<Rightarrow> byte list option) \<Rightarrow> bool) \<Rightarrow> world \<Rightarrow> bool" where
  "vw C P w \<longleftrightarrow> wf_world C w \<and> P (view w)"

definition tmp_holds :: "path \<Rightarrow> (byte list \<Rightarrow> bool) \<Rightarrow> world \<Rightarrow> bool" where
  "tmp_holds t D w \<longleftrightarrow> (\<exists>f. files w t = Some f \<and> D (data f))"

lemma fault_closed_vw [simp]: "fault_closed (vw C P)"
  by (simp add: fault_closed_def vw_def)

lemma fault_closed_tmp [simp]: "fault_closed (\<lambda>w. vw C P w \<and> tmp_holds t D w)"
  by (simp add: fault_closed_def vw_def tmp_holds_def)

lemma hoare_fetch_seq: "hoare b (vw C P) fetch_seq (\<lambda>_. vw C P) E K"
  by (simp add: hoare_def fetch_seq_def vw_def)

lemma hoare_get_pid: "hoare b P get_pid (\<lambda>_. P) E K"
  by (simp add: hoare_def get_pid_def)

lemma hoare_create:
  assumes "is_tmp t" and "\<And>w. \<not> b \<Longrightarrow> vw C P w \<Longrightarrow> E Io w \<and> K w"
  shows "hoare b (vw C P) (create_file t) (\<lambda>_ w. vw C P w \<and> tmp_holds t (\<lambda>_. True) w) E K"
  unfolding create_file_def atomic_call_def
proof (rule hoare_syscall)
  show "hoare b (vw C P) (\<lambda>w. (Ok (), case files w t of
     Some f \<Rightarrow> set_file t (Some (f\<lparr>data := []\<rparr>)) w
   | None \<Rightarrow> set_file t (Some \<lparr>data = [], ino = next_ino w, mtime = clock w\<rparr>)
               (w\<lparr>next_ino := Suc (next_ino w)\<rparr>))) (\<lambda>_ w. vw C P w \<and> tmp_holds t (\<lambda>_. True) w) E K"
    using assms(1)
    by (auto simp: hoare_def vw_def tmp_holds_def inv_create inv_rewrite_tmp split: option.split)
qed (use assms in auto)

lemma vw_put_bytes: "is_tmp t \<Longrightarrow> vw C P w \<Longrightarrow> vw C P (put_bytes t bs w)"
  by (auto simp: vw_def put_bytes_def inv_rewrite_tmp split: option.split)

lemma hoare_write_all:
  assumes "is_tmp t" and "\<And>w. \<not> b \<Longrightarrow> vw C P w \<Longrightarrow> E Io w \<and> K w"
  shows "hoare b (\<lambda>w. vw C P w \<and> tmp_holds t D w) (write_all t bytes)
           (\<lambda>_ w. vw C P w \<and> tmp_holds t (\<lambda>d. d = bytes) w) E K"
  unfolding write_all_def
proof (rule hoare_syscall)
  have "tmp_holds t D w \<Longrightarrow> tmp_holds t (\<lambda>d. d = bytes) (put_bytes t bytes w)" for w
    by (auto simp: tmp_holds_def put_bytes_def)
  moreover have "faults (put_bytes t bytes w) = faults w" for w
    by (simp add: put_bytes_def split: option.split)
  ultimately show "hoare b (\<lambda>w. vw C P w \<and> tmp_holds t D w) (\<lambda>w. (Ok (), put_bytes t bytes w))
           (\<lambda>_ w. vw C P w \<and> tmp_holds t (\<lambda>d. d = bytes) w) E K"
    using assms(1) by (auto simp: hoare_def vw_put_bytes)
qed (use assms vw_put_bytes in auto)

lemma hoare_rename_tmp:
  assumes "is_tmp t" "\<not> is_tmp p"
  shows "hoare b (\<lambda>w. vw C P w \<and> tmp_holds t (\<lambda>d. d = bytes) w) (rename_file t p)
           (\<lambda>_. vw C (\<lambda>v'. \<exists>v. P v \<and> v' = v(p \<mapsto> bytes))) (\<lambda>_ w. vw C P w \<and> \<not> b) (vw C P)"
  unfolding rename_file_def atomic_call_def
proof (rule hoare_syscall)
  show "hoare b (\<lambda>w. vw C P w \<and> tmp_holds t (\<lambda>d. d = bytes) w)
     (\<lambda>w. case files w t of None \<Rightarrow> (Err NotFound, w)
        | Some f \<Rightarrow> (Ok (), set_file t None (set_file p (Some f) w)))
     (\<lambda>_. vw C (\<lambda>v'. \<exists>v. P v \<and> v' = v(p \<mapsto> bytes))) (\<lambda>_ w. vw C P w \<and> \<not> b) (vw C P)"
    using assms by (auto simp: hoare_def vw_def tmp_holds_def inv_move view_set)
qed auto

lemma hoare_remove_file:
  assumes "\<And>v. P v \<Longrightarrow> Q () (v(p := None))"
    and "\<And>v. P v \<Longrightarrow> (is_tmp p \<or> v p = None) \<Longrightarrow> E NotFound v"
    and "\<And>v. \<not> b \<Longrightarrow> P v \<Longrightarrow> E Io v \<and> K v"
  shows "hoare b (vw C P) (remove_file p) (\<lambda>r. vw C (Q r)) (\<lambda>e. vw C (E e)) (vw C K)"
  unfolding remove_file_def atomic_call_def
proof (rule hoare_syscall)
  have "view (set_file p None w) = (view w)(p := None)" for w
    by (rule ext) (simp add: view_def)
  then show "hoare b (vw C P) (\<lambda>w. case files w p of None \<Rightarrow> (Err NotFound, w)
        | Some _ \<Rightarrow> (Ok (), set_file p None w)) (\<lambda>r. vw C (Q r)) (\<lambda>e. vw C (E e)) (vw C K)"
    using assms(1,2) by (auto simp: hoare_def vw_def inv_remove view_def split: option.split)
qed (use assms(3) in \<open>auto simp: vw_def\<close>)

lemma hoare_read_file:
  assumes "\<And>v bs. P v \<Longrightarrow> v p = Some bs \<Longrightarrow> Q bs v" and "\<not> is_tmp p"
    and "\<And>v. P v \<Longrightarrow> v p = None \<Longrightarrow> E NotFound v"
    and "\<And>v. \<not> b \<Longrightarrow> P v \<Longrightarrow> E Io v \<and> K v"
  shows "hoare b (vw C P) (read_file p) (\<lambda>r. vw C (Q r)) (\<lambda>e. vw C (E e)) (vw C K)"
  unfolding read_file_def atomic_call_def
proof (rule hoare_syscall)
  show "hoare b (vw C P) (\<lambda>w. case files w p of None \<Rightarrow> (Err NotFound, w)
        | Some f \<Rightarrow> (Ok (data f), w)) (\<lambda>r. vw C (Q r)) (\<lambda>e. vw C (E e)) (vw C K)"
    using assms(1-3) by (auto simp: hoare_def vw_def view_def split: option.split)
qed (use assms(4) in \<open>auto simp: vw_def\<close>)

lemma hoare_exists:
  assumes "\<not> is_tmp p" and "\<And>v. P v \<Longrightarrow> Q (v p \<noteq> None) v"
  shows "hoare b (vw C P) (exists_file p) (\<lambda>r. vw C (Q r)) E K"
proof -
  have "(files w p \<noteq> None) = (view w p \<noteq> None)" for w using assms(1) by (simp add: view_def)
  with assms(2) show ?thesis by (simp add: hoare_def exists_file_def vw_def)
qed

text \<open>
  The contract of the two durable operations: all or nothing on the visible files,
  an error or a crash leaving either the old or the new contents.
\<close>

lemma hoare_atomic_write:
  assumes tmp: "\<not> is_tmp p" and ok: "\<And>v. P v \<Longrightarrow> Q () (v(p \<mapsto> bytes))"
    and bad: "\<And>v e. \<not> b \<Longrightarrow> P v \<Longrightarrow> E e v \<and> E e (v(p \<mapsto> bytes)) \<and> K v \<and> K (v(p \<mapsto> bytes))"
  shows "hoare b (vw C P) (atomic_write p bytes) (\<lambda>r. vw C (Q r)) (\<lambda>e. vw C (E e)) (vw C K)"
proof -
  define W where "W = vw C (\<lambda>v'. \<exists>v. P v \<and> v' = v(p \<mapsto> bytes))"
  let ?E = "\<lambda>e. vw C (E e)" and ?K = "vw C K"
  have same: "\<not> b \<Longrightarrow> vw C P w \<Longrightarrow> vw C (E e) w \<and> vw C K w" for e w
    using bad by (auto simp: vw_def)
  have written: "\<not> b \<Longrightarrow> W w \<Longrightarrow> vw C (E e) w \<and> vw C K w" for e w
    using bad by (auto simp: vw_def W_def)
  have rm: "hoare b (\<lambda>w. vw C P w \<and> \<not> b) (bind_io (attempt (remove_file (tmp_path p pd s))) (\<lambda>_. fail e))
      (\<lambda>r. vw C (Q r)) ?E ?K" for pd s e
  proof (cases b)
    case False
    show ?thesis
    proof (rule hoare_bind [where R = "\<lambda>_. vw C P"])
      show "hoare b (\<lambda>w. vw C P w \<and> \<not> b) (attempt (remove_file (tmp_path p pd s))) (\<lambda>_. vw C P) ?E ?K"
      proof (rule hoare_attempt [where Q' = "\<lambda>_. vw C P" and E' = "\<lambda>_. vw C P"])
        have "view (set_file (tmp_path p pd s) None w) = view w" for w by simp
        then show "hoare b (\<lambda>w. vw C P w \<and> \<not> b) (remove_file (tmp_path p pd s)) (\<lambda>_. vw C P) (\<lambda>_. vw C P) ?K"
          unfolding remove_file_def atomic_call_def
          by (intro hoare_syscall)
             (use same in \<open>auto simp: hoare_def vw_def inv_remove fault_closed_def split: option.split\<close>)
      qed auto
    qed (rule hoare_fail, use same False in auto)
  qed (simp add: hoare_def)
  have tl: "hoare b (\<lambda>w. case r of Inr _ \<Rightarrow> W w | Inl _ \<Rightarrow> vw C P w \<and> \<not> b)
      (case r of Inl e \<Rightarrow> bind_io (attempt (remove_file (tmp_path p pd s))) (\<lambda>_. fail e)
               | Inr _ \<Rightarrow> no_effect) (\<lambda>r. vw C (Q r)) ?E ?K" for pd s and r :: "io_error + unit"
  proof (cases r)
    case (Inr u)
    have "hoare b W no_effect (\<lambda>r. vw C (Q r)) ?E ?K"
      by (rule hoare_no_effect) (use ok written in \<open>auto simp: vw_def W_def\<close>)
    with Inr show ?thesis by simp
  qed (use rm in simp)
  show ?thesis
    unfolding atomic_write_def Let_def sync_dir_def replace_atomic_def
    apply (rule hoare_bind [where R = "\<lambda>_. vw C P"])
     apply (rule hoare_no_effect; use same in auto)
    apply (rule hoare_bind [OF hoare_fetch_seq])
    apply (rule hoare_bind [OF hoare_get_pid])
    subgoal for _ s pd
      apply (rule hoare_bind [OF hoare_create], simp, use same in blast)
      apply (rule hoare_bind [OF hoare_write_all], simp, use same in blast)
      apply (rule hoare_bind [where R = "\<lambda>_ w. vw C P w \<and> tmp_holds (tmp_path p pd s) (\<lambda>d. d = bytes) w"])
       apply (rule hoare_no_effect; use same in auto)
      apply (rule hoare_bind [where R = "\<lambda>r w. case r of
          Inr _ \<Rightarrow> W w | Inl _ \<Rightarrow> vw C P w \<and> \<not> b"])
       apply (rule hoare_attempt [OF hoare_post [OF hoare_rename_tmp [where P = P and p = p and bytes = bytes, folded W_def]]])
            apply (use tmp same in \<open>auto simp: W_def simp del: fun_upd_apply\<close>)[7]
      apply (rule tl)
      done
    done
qed

lemma hoare_remove_durable:
  assumes ok: "\<And>v. P v \<Longrightarrow> Q () (v(p := None))"
    and bad: "\<And>v e. \<not> b \<Longrightarrow> P v \<Longrightarrow> E e v \<and> E e (v(p := None)) \<and> K v \<and> K (v(p := None))"
    and tmp: "\<not> is_tmp p"
  shows "hoare b (vw C P) (remove_durable p) (\<lambda>r. vw C (Q r)) (\<lambda>e. vw C (E e)) (vw C K)"
  unfolding remove_durable_def sync_dir_def
proof (rule hoare_bind)
  show "hoare b (vw C P) (attempt (remove_file p))
     (\<lambda>r. vw C (case r of Inr _ \<Rightarrow> (\<lambda>v'. \<exists>v. P v \<and> v' = v(p := None))
                        | Inl e \<Rightarrow> (\<lambda>v. P v \<and> (if e = NotFound then v p = None else \<not> b)))) (\<lambda>e. vw C (E e)) (vw C K)"
    by (rule hoare_attempt [OF hoare_remove_file [where P = P
          and Q = "\<lambda>_ v'. \<exists>v. P v \<and> v' = v(p := None)"
          and E = "\<lambda>e v. P v \<and> (if e = NotFound then v p = None else \<not> b)"]])
       (use bad tmp in auto)
  fix r :: "io_error + unit"
  show "hoare b (vw C (case r of Inr _ \<Rightarrow> (\<lambda>v'. \<exists>v. P v \<and> v' = v(p := None))
                        | Inl e \<Rightarrow> (\<lambda>v. P v \<and> (if e = NotFound then v p = None else \<not> b))))
      (case r of Inl e \<Rightarrow> if e = NotFound then ret () else fail e | Inr _ \<Rightarrow> no_effect)
      (\<lambda>r. vw C (Q r)) (\<lambda>e. vw C (E e)) (vw C K)"
  proof (cases r)
    case (Inl e)
    have "P v \<Longrightarrow> v p = None \<Longrightarrow> Q () v" for v
      using ok [of v] by (metis fun_upd_triv)
    with Inl bad show ?thesis by (auto intro!: hoare_ret hoare_fail simp: vw_def)
  next
    case (Inr u)
    have "hoare b (vw C (\<lambda>v'. \<exists>v. P v \<and> v' = v(p := None))) no_effect (\<lambda>r. vw C (Q r))
        (\<lambda>e. vw C (E e)) (vw C K)"
      by (rule hoare_no_effect) (use ok bad in \<open>auto simp: vw_def\<close>)
    with Inr show ?thesis by simp
  qed
qed

lemma hoare_write_json:
  assumes "ser x = Some bytes" and "\<not> is_tmp p" and "\<And>v. P v \<Longrightarrow> Q () (v(p \<mapsto> bytes))"
    and "\<And>v e. \<not> b \<Longrightarrow> P v \<Longrightarrow> E e v \<and> E e (v(p \<mapsto> bytes)) \<and> K v \<and> K (v(p \<mapsto> bytes))"
  shows "hoare b (vw C P) (write_json ser p x) (\<lambda>r. vw C (Q r)) (\<lambda>e. vw C (E e)) (vw C K)"
  using assms by (simp add: write_json_def) (rule hoare_atomic_write)

text \<open>Reading a JSON file: its parse, absence, or an error on corruption or a fault.\<close>

definition parsed :: "(byte list \<Rightarrow> 'v option) \<Rightarrow> path \<Rightarrow> world \<Rightarrow> 'v option \<Rightarrow> bool" where
  "parsed de p w r \<longleftrightarrow> (case files w p of
     None \<Rightarrow> r = None | Some f \<Rightarrow> r = de (data f) \<and> r \<noteq> None)"

definition load_error :: "bool \<Rightarrow> (byte list \<Rightarrow> 'v option) \<Rightarrow> path \<Rightarrow> io_error \<Rightarrow> world \<Rightarrow> bool" where
  "load_error b de p e w \<longleftrightarrow>
     e = Corrupt \<and> (\<exists>f. files w p = Some f \<and> de (data f) = None) \<or> e = Io \<and> \<not> b"

lemma read_json_keeps:
  assumes "fault_closed I"
  shows "hoare b I (read_json de p) (\<lambda>r w. I w \<and> parsed de p w r) (\<lambda>e w. I w \<and> load_error b de p e w) I"
  unfolding read_json_def
proof (rule hoare_bind)
  let ?R = "\<lambda>r w. I w \<and> (case r of Inr bs \<Rightarrow> (\<exists>f. files w p = Some f \<and> data f = bs)
                        | Inl e \<Rightarrow> if e = NotFound then files w p = None else e = Io \<and> \<not> b)"
  show "hoare b I (attempt (read_file p)) ?R (\<lambda>e w. I w \<and> load_error b de p e w) I"
  proof (rule hoare_attempt)
    show "hoare b I (read_file p) (\<lambda>bs w. ?R (Inr bs) w) (\<lambda>e w. ?R (Inl e) w) I"
      unfolding read_file_def atomic_call_def
      by (rule hoare_syscall) (use assms in \<open>auto simp: hoare_def split: option.split\<close>)
  qed auto
  fix r :: "io_error + byte list"
  show "hoare b (?R r)
      (case r of Inl e \<Rightarrow> if e = NotFound then ret None else fail e
        | Inr bytes \<Rightarrow> (case de bytes of None \<Rightarrow> fail Corrupt | Some v \<Rightarrow> ret (Some v)))
      (\<lambda>r w. I w \<and> parsed de p w r) (\<lambda>e w. I w \<and> load_error b de p e w) I"
    by (cases r)
       (auto intro!: hoare_ret hoare_fail simp: parsed_def load_error_def split: option.split)
qed

lemma hoare_read_json:
  assumes tmp: "\<not> is_tmp p"
    and ok: "\<And>v bs x. P v \<Longrightarrow> v p = Some bs \<Longrightarrow> de bs = Some x \<Longrightarrow> Q (Some x) v"
    and none: "\<And>v. P v \<Longrightarrow> v p = None \<Longrightarrow> Q None v"
    and bad: "\<And>v bs. P v \<Longrightarrow> v p = Some bs \<Longrightarrow> de bs = None \<Longrightarrow> E Corrupt v"
    and flt: "\<And>v. \<not> b \<Longrightarrow> P v \<Longrightarrow> E Io v \<and> K v"
  shows "hoare b (vw C P) (read_json de p) (\<lambda>r. vw C (Q r)) (\<lambda>e. vw C (E e)) (vw C K)"
  by (rule hoare_post [OF read_json_keeps [of "vw C P"]])
     (use assms in \<open>auto simp: vw_def view_def parsed_def load_error_def split: option.splits\<close>)

text \<open>
  The parse cache is transparent: from a coherent state a lookup answers what a
  fresh parse of the file would, and stays coherent.
\<close>

definition cache_iface ::
  "codec \<Rightarrow> (byte list \<Rightarrow> 'v option) \<Rightarrow> (world \<Rightarrow> path \<Rightarrow> (stamp \<times> 'v) option)
   \<Rightarrow> ((path \<Rightarrow> (stamp \<times> 'v) option) \<Rightarrow> world \<Rightarrow> world) \<Rightarrow> bool" where
  "cache_iface C de rd wr \<longleftrightarrow>
     (\<forall>w. wf_world C w \<longrightarrow> cache_ok de (rd w) w) \<and>
     (\<forall>w c. wf_world C w \<longrightarrow> cache_ok de c w \<longrightarrow> wf_world C (wr c w)) \<and>
     (\<forall>w c. view (wr c w) = view w \<and> faults (wr c w) = faults w)"

lemma cache_hit:
  "inodes_ok w \<Longrightarrow> cache_ok de c w \<Longrightarrow> c p = Some (stamp_of f, v) \<Longrightarrow> files w p = Some f \<Longrightarrow>
     de (data f) = Some v"
  by (auto simp: cache_ok_def stamp_of_def)

lemma cache_ok_insert:
  "inodes_ok w \<Longrightarrow> cache_ok de c w \<Longrightarrow> files w p = Some f \<Longrightarrow> de (data f) = Some v \<Longrightarrow> \<not> is_tmp p \<Longrightarrow>
     cache_ok de (c(p \<mapsto> (stamp_of f, v))) w"
  unfolding cache_ok_def inodes_ok_def
  by (auto simp: stamp_of_def split: if_splits) (metis option.inject)

lemma cache_ok_drop: "cache_ok de c w \<Longrightarrow> cache_ok de (c(p := None)) w"
  unfolding cache_ok_def by (simp split: if_splits)

lemma hoare_cache_get:
  assumes ci: "cache_iface C de rd wr" and tmp: "\<not> is_tmp p"
    and ok: "\<And>v bs x. P v \<Longrightarrow> v p = Some bs \<Longrightarrow> de bs = Some x \<Longrightarrow> Q (Some x) v"
    and none: "\<And>v. P v \<Longrightarrow> v p = None \<Longrightarrow> Q None v"
    and bad: "\<And>v bs. P v \<Longrightarrow> v p = Some bs \<Longrightarrow> de bs = None \<Longrightarrow> E Corrupt v"
    and flt: "\<And>v. \<not> b \<Longrightarrow> P v \<Longrightarrow> E Io v \<and> K v"
  shows "hoare b (vw C P) (cache_get rd wr p (read_json de p)) (\<lambda>r. vw C (Q r)) (\<lambda>e. vw C (E e)) (vw C K)"
proof (rule hoareI)
  fix w assume w: "vw C P w" "b \<Longrightarrow> faults w = []"
  define load where "load f = bind_io (read_json de p) (\<lambda>loaded w. (Ok loaded, wr ((rd w)(p := f loaded)) w))"
    for f :: "'a option \<Rightarrow> (stamp \<times> 'a) option"
  have ins: "post b (\<lambda>r. vw C (Q r)) (\<lambda>e. vw C (E e)) (vw C K) (load f w)"
    if f: "\<And>w' r. files w' p = files w p \<Longrightarrow> vw C P w' \<Longrightarrow> parsed de p w' r \<Longrightarrow>
         cache_ok de ((rd w')(p := f r)) w'" for f
  proof -
    let ?I = "\<lambda>w'. vw C P w' \<and> files w' p = files w p"
    have "fault_closed ?I" by (simp add: fault_closed_def vw_def)
    note rj = read_json_keeps [OF this, of b de p]
    have "hoare b ?I (load f) (\<lambda>r. vw C (Q r)) (\<lambda>e. vw C (E e)) (vw C K)"
      unfolding load_def
    proof (rule hoare_bind [where R = "\<lambda>r w'. ?I w' \<and> parsed de p w' r", OF hoare_post [OF rj]])
      fix e w' assume "?I w' \<and> load_error b de p e w'"
      then show "vw C (E e) w'" using bad [of "view w'"] flt tmp
        by (auto simp: load_error_def vw_def view_def) metis
    next
      fix w' assume "\<not> b" "?I w'"
      then show "vw C K w'" using flt by (auto simp: vw_def)
    next
      fix r
      show "hoare b (\<lambda>w'. ?I w' \<and> parsed de p w' r) (\<lambda>w. (Ok r, wr ((rd w)(p := f r)) w))
         (\<lambda>r. vw C (Q r)) (\<lambda>e. vw C (E e)) (vw C K)"
      proof (rule hoareI)
        fix w' assume a: "?I w' \<and> parsed de p w' r" "b \<Longrightarrow> faults w' = []"
        with f have "cache_ok de ((rd w')(p := f r)) w'" by blast
        with ci a(1) have "wf_world C (wr ((rd w')(p := f r)) w')" by (simp add: cache_iface_def vw_def)
        moreover have "Q r (view w')"
          using a(1) ok none tmp by (auto simp: parsed_def vw_def view_def split: option.splits)
        ultimately show "post b (\<lambda>r. vw C (Q r)) (\<lambda>e. vw C (E e)) (vw C K) (Ok r, wr ((rd w')(p := f r)) w')"
          using ci a(2) by (simp add: cache_iface_def vw_def)
      qed
    qed auto
    from hoareD [OF this] w show ?thesis by blast
  qed
  have base: "wf_world C w' \<Longrightarrow> cache_ok de (rd w') w' \<and> inodes_ok w'" for w'
    using ci by (simp add: cache_iface_def wf_world_def)
  show "post b (\<lambda>r. vw C (Q r)) (\<lambda>e. vw C (E e)) (vw C K) (cache_get rd wr p (read_json de p) w)"
  proof (cases "files w p")
    case None
    have "post b (\<lambda>r. vw C (Q r)) (\<lambda>e. vw C (E e)) (vw C K) (load (\<lambda>_. None) w)"
      by (rule ins) (use base in \<open>auto simp: vw_def cache_ok_drop\<close>)
    with None show ?thesis by (simp add: cache_get_def read_stamp_def bind_io_def load_def)
  next
    case (Some f)
    have miss: "post b (\<lambda>r. vw C (Q r)) (\<lambda>e. vw C (E e)) (vw C K)
        (load (\<lambda>l. case l of Some v \<Rightarrow> Some (stamp_of f, v) | None \<Rightarrow> None) w)"
      by (rule ins)
         (use base Some tmp in \<open>auto simp: vw_def parsed_def cache_ok_insert cache_ok_drop split: option.splits\<close>)
    have hit: "vw C (Q (Some v)) w" if "rd w p = Some (stamp_of f, v)" for v
    proof -
      from w base have "inodes_ok w" "cache_ok de (rd w) w" by (auto simp: vw_def)
      from cache_hit [OF this that Some] have "de (data f) = Some v" .
      with w ok Some tmp show ?thesis by (auto simp: vw_def view_def)
    qed
    show ?thesis
      using Some miss hit w(2)
      by (auto simp: cache_get_def read_stamp_def bind_io_def load_def split: option.splits)
  qed
qed

end
