(* ===== verification/Store.thy ===== *)
theory Store
  imports Fs
begin

text \<open>
  The state store of \<^verbatim>\<open>crates/amber-core/src/state.rs\<close>: where each artifact of a session
  lives, reading, writing, listing and removing sessions, the journalled rename with
  its rollback and its recovery at startup, and the bounded recovery-event journal.
\<close>

section \<open>Paths\<close>

definition session_path :: "string \<Rightarrow> path" where
  "session_path name = Path SessionsDir (name @ ''.json'')"

definition claude_path :: "string \<Rightarrow> path" where
  "claude_path name = Path ClaudeDir (name @ ''.json'')"

definition claude_settings_path :: "string \<Rightarrow> path" where
  "claude_settings_path name = Path ClaudeDir (name @ ''.settings.json'')"

definition scrollback_path :: "string \<Rightarrow> path" where
  "scrollback_path name = Path ScrollbackDir (name @ ''.bin'')"

definition rename_journal_path :: path where
  "rename_journal_path = Path RootDir ''rename.json''"

definition recovery_events_path :: path where
  "recovery_events_path = Path RootDir ''recovery-events.json''"

lemmas path_defs = session_path_def claude_path_def claude_settings_path_def scrollback_path_def
  rename_journal_path_def recovery_events_path_def

section \<open>Sessions\<close>

definition write_session :: "codec \<Rightarrow> session_meta \<Rightarrow> unit io" where
  "write_session C m = write_json (ser_session C) (session_path (sm_name m)) m"

definition get_session :: "codec \<Rightarrow> path \<Rightarrow> session_meta option io" where
  "get_session C p =
     cache_get session_cache (\<lambda>c w. w\<lparr>session_cache := c\<rparr>) p (read_json (de_session C) p)"

definition read_session :: "codec \<Rightarrow> string \<Rightarrow> session_meta option io" where
  "read_session C name = get_session C (session_path name)"

text \<open>\<^verbatim>\<open>Path::extension\<close> of a file name.\<close>

definition extension :: "string \<Rightarrow> string option" where
  "extension f =
     (let ext = rev (takeWhile (\<lambda>c. c \<noteq> CHR ''.'') (rev f));
          stem_len = length f - length ext
      in if stem_len \<le> 1 then None else Some ext)"

text \<open>\<open>entries\<close> is what \<^verbatim>\<open>read_dir\<close> lists, in its order.\<close>

fun list_entries :: "codec \<Rightarrow> string list \<Rightarrow> session_meta list io" where
  "list_entries C [] = ret []"
| "list_entries C (f # fs) =
     (if extension f \<noteq> Some ''json'' then list_entries C fs
      else bind_io (attempt (get_session C (Path SessionsDir f))) (\<lambda>r.
           bind_io (list_entries C fs) (\<lambda>rest.
             ret ((case r of Inr (Some meta) \<Rightarrow> [meta] | _ \<Rightarrow> []) @ rest))))"

definition list_sessions :: "codec \<Rightarrow> string list \<Rightarrow> session_meta list io" where
  "list_sessions C entries = bind_io no_effect (\<lambda>_. list_entries C entries)"

definition remove_session :: "string \<Rightarrow> unit io" where
  "remove_session name =
     bind_io (remove_if_exists (claude_path name)) (\<lambda>_.
     bind_io (remove_if_exists (claude_settings_path name)) (\<lambda>_.
     bind_io (remove_if_exists (scrollback_path name)) (\<lambda>_.
       remove_if_exists (session_path name))))"

definition write_scrollback :: "string \<Rightarrow> byte list \<Rightarrow> unit io" where
  "write_scrollback name bytes = atomic_write (scrollback_path name) bytes"

definition read_scrollback :: "string \<Rightarrow> byte list option io" where
  "read_scrollback name =
     bind_io (attempt (read_file (scrollback_path name))) (\<lambda>r.
       case r of
         Inr bytes \<Rightarrow> ret (Some bytes)
       | Inl e \<Rightarrow> if e = NotFound then ret None else fail e)"

definition write_claude :: "codec \<Rightarrow> string \<Rightarrow> claude_meta \<Rightarrow> unit io" where
  "write_claude C name m = write_json (ser_claude C) (claude_path name) m"

definition read_claude :: "codec \<Rightarrow> string \<Rightarrow> claude_meta option io" where
  "read_claude C name =
     cache_get claude_cache (\<lambda>c w. w\<lparr>claude_cache := c\<rparr>) (claude_path name)
       (read_json (de_claude C) (claude_path name))"

definition remove_claude :: "string \<Rightarrow> unit io" where
  "remove_claude name = remove_if_exists (claude_path name)"

section \<open>Renaming\<close>

text \<open>Rollback of what was created so far, newest first.\<close>

fun rollback :: "path list \<Rightarrow> unit io" where
  "rollback [] = ret ()"
| "rollback (p # ps) =
     bind_io (attempt (remove_durable p)) (\<lambda>r.
       case r of Inl _ \<Rightarrow> fail RollbackFailed | Inr _ \<Rightarrow> rollback ps)"

definition rename_precommit_error :: "io_error \<Rightarrow> path list \<Rightarrow> 'a io" where
  "rename_precommit_error e paths = bind_io (rollback (rev paths)) (\<lambda>_. fail e)"

text \<open>The copy loop; the result is the list of created paths.\<close>

fun copy_artifacts ::
  "(nat \<Rightarrow> unit io) \<Rightarrow> nat \<Rightarrow> (path \<times> path) list \<Rightarrow> path list \<Rightarrow> path list io" where
  "copy_artifacts checkpoint i [] created = ret created"
| "copy_artifacts checkpoint i ((old, new) # rest) created =
     bind_io (attempt (read_file old)) (\<lambda>r.
       case r of
         Inl e \<Rightarrow> if e = NotFound then copy_artifacts checkpoint (i + 1) rest created
                  else rename_precommit_error e created
       | Inr bytes \<Rightarrow>
           bind_io (attempt (atomic_write new bytes)) (\<lambda>r.
             case r of
               Inl e \<Rightarrow>
                 bind_io (exists_file new) (\<lambda>ex.
                   rename_precommit_error e (if ex then created @ [new] else created))
             | Inr _ \<Rightarrow>
                 bind_io (checkpoint (i + 1)) (\<lambda>_.
                   copy_artifacts checkpoint (i + 1) rest (created @ [new]))))"

text \<open>Post-commit collection of the old artifacts; the result tells whether one failed.\<close>

fun remove_old :: "(nat \<Rightarrow> unit io) \<Rightarrow> nat \<Rightarrow> (path \<times> path) list \<Rightarrow> bool \<Rightarrow> bool io" where
  "remove_old checkpoint i [] failed = ret failed"
| "remove_old checkpoint i ((old, _) # rest) failed =
     bind_io (attempt (remove_durable old)) (\<lambda>r.
     bind_io (checkpoint i) (\<lambda>_.
       remove_old checkpoint (i + 1) rest (failed \<or> (case r of Inl _ \<Rightarrow> True | Inr _ \<Rightarrow> False))))"

fun find_existing :: "path list \<Rightarrow> path option io" where
  "find_existing [] = ret None"
| "find_existing (p # ps) =
     bind_io (exists_file p) (\<lambda>ex. if ex then ret (Some p) else find_existing ps)"

definition copies :: "string \<Rightarrow> string \<Rightarrow> (path \<times> path) list" where
  "copies from to =
     [(claude_path from, claude_path to),
      (claude_settings_path from, claude_settings_path to),
      (scrollback_path from, scrollback_path to)]"

definition rename_commit ::
  "codec \<Rightarrow> (nat \<Rightarrow> unit io) \<Rightarrow> string \<Rightarrow> string \<Rightarrow> session_meta \<Rightarrow> path list \<Rightarrow> unit io" where
  "rename_commit C checkpoint from to meta created =
     bind_io (attempt (write_session C (meta\<lparr>sm_name := to\<rparr>))) (\<lambda>r.
       case r of
         Inl e \<Rightarrow>
           bind_io (exists_file (session_path to)) (\<lambda>ex.
             rename_precommit_error e (if ex then created @ [session_path to] else created))
       | Inr _ \<Rightarrow>
     bind_io (checkpoint 4) (\<lambda>_.
     bind_io (attempt (remove_durable (session_path from))) (\<lambda>r.
       case r of
         Inl e \<Rightarrow>
           bind_io (exists_file (session_path from)) (\<lambda>ex.
             if ex then rename_precommit_error e (created @ [session_path to]) else ret ())
       | Inr _ \<Rightarrow> ret ())))"

definition rename_collect :: "(nat \<Rightarrow> unit io) \<Rightarrow> string \<Rightarrow> string \<Rightarrow> unit io" where
  "rename_collect checkpoint from to =
     bind_io (checkpoint 5) (\<lambda>_.
     bind_io (remove_old checkpoint 6 (copies from to) False) (\<lambda>failed.
     bind_io (if failed then ret (Inr ()) else attempt (remove_durable rename_journal_path)) (\<lambda>_.
       checkpoint 9)))"

definition rename_session_with_checkpoint ::
  "codec \<Rightarrow> string \<Rightarrow> string \<Rightarrow> (nat \<Rightarrow> unit io) \<Rightarrow> unit io" where
  "rename_session_with_checkpoint C from to checkpoint =
     bind_io (read_session C from) (\<lambda>m.
       case m of
         None \<Rightarrow> fail (NoSuchSession from)
       | Some meta \<Rightarrow>
     bind_io (exists_file rename_journal_path) (\<lambda>pending.
       if pending then fail RenamePending else
     bind_io (exists_file (session_path to)) (\<lambda>taken.
       if taken then fail (TargetExists (session_path to)) else
     bind_io (find_existing (map snd (copies from to))) (\<lambda>hit.
       case hit of
         Some p \<Rightarrow> fail (TargetExists p)
       | None \<Rightarrow>
     bind_io (attempt (write_json (ser_journal C) rename_journal_path
                \<lparr>rj_from = from, rj_to = to, rj_source = meta\<rparr>)) (\<lambda>r.
       case r of
         Inl e \<Rightarrow>
           bind_io (exists_file rename_journal_path) (\<lambda>ex.
             rename_precommit_error e (if ex then [rename_journal_path] else []))
       | Inr _ \<Rightarrow>
     bind_io (checkpoint 0) (\<lambda>_.
     bind_io (copy_artifacts checkpoint 0 (copies from to) [rename_journal_path]) (\<lambda>created.
     bind_io (rename_commit C checkpoint from to meta created) (\<lambda>_.
       rename_collect checkpoint from to))))))))"

definition rename_session :: "codec \<Rightarrow> string \<Rightarrow> string \<Rightarrow> unit io" where
  "rename_session C from to = rename_session_with_checkpoint C from to (\<lambda>_. ret ())"

section \<open>Recovery of an interrupted rename\<close>

fun remove_each :: "path list \<Rightarrow> io_error option \<Rightarrow> unit io" where
  "remove_each [] first_error = (case first_error of None \<Rightarrow> ret () | Some e \<Rightarrow> fail e)"
| "remove_each (p # ps) first_error =
     bind_io (attempt (remove_durable p)) (\<lambda>r.
       remove_each ps (case (first_error, r) of
                         (None, Inl e) \<Rightarrow> Some e | _ \<Rightarrow> first_error))"

definition cleanup_rename_artifacts :: "string \<Rightarrow> unit io" where
  "cleanup_rename_artifacts name =
     remove_each [claude_path name, claude_settings_path name, scrollback_path name] None"

definition journal_name_ok :: "string \<Rightarrow> bool" where
  "journal_name_ok name \<longleftrightarrow> name \<noteq> [] \<and> length name \<le> 200 \<and> name \<noteq> ''.'' \<and> name \<noteq> ''..''
     \<and> CHR ''/'' \<notin> set name \<and> CHR 0x00 \<notin> set name"

definition finish_recovery :: "bool io" where
  "finish_recovery =
     bind_io (attempt (remove_durable rename_journal_path)) (\<lambda>r.
       ret (case r of Inr _ \<Rightarrow> True | Inl _ \<Rightarrow> False))"

definition cleanup_then_finish :: "string \<Rightarrow> bool io" where
  "cleanup_then_finish name =
     bind_io (attempt (cleanup_rename_artifacts name)) (\<lambda>r.
       case r of Inl _ \<Rightarrow> ret False | Inr _ \<Rightarrow> finish_recovery)"

definition recover_journal :: "codec \<Rightarrow> rename_journal \<Rightarrow> bool io" where
  "recover_journal C j =
     bind_io (read_session C (rj_from j)) (\<lambda>from.
     bind_io (read_session C (rj_to j)) (\<lambda>to.
       if (case from of Some m \<Rightarrow> m \<noteq> rj_source j | None \<Rightarrow> False)
          \<or> (case to of Some m \<Rightarrow> m \<noteq> (rj_source j)\<lparr>sm_name := rj_to j\<rparr> | None \<Rightarrow> False)
       then fail JournalMismatch
       else case (from, to) of
         (_, Some _) \<Rightarrow>
           bind_io (attempt (remove_durable (session_path (rj_from j)))) (\<lambda>r.
             case r of
               Inl e \<Rightarrow>
                 bind_io (read_session C (rj_from j)) (\<lambda>still.
                   case still of
                     Some _ \<Rightarrow> fail e
                   | None \<Rightarrow> cleanup_then_finish (rj_from j))
             | Inr _ \<Rightarrow> cleanup_then_finish (rj_from j))
       | (Some _, None) \<Rightarrow> cleanup_then_finish (rj_to j)
       | (None, None) \<Rightarrow> fail NoMetadata))"

definition recover_pending_rename :: "codec \<Rightarrow> bool io" where
  "recover_pending_rename C =
     bind_io (read_json (de_journal C) rename_journal_path) (\<lambda>journal.
       case journal of
         None \<Rightarrow> ret True
       | Some j \<Rightarrow>
           if rj_from j = rj_to j \<or> sm_name (rj_source j) \<noteq> rj_from j
              \<or> \<not> journal_name_ok (rj_from j) \<or> \<not> journal_name_ok (rj_to j)
           then fail InvalidJournal
           else recover_journal C j)"

end
