(* ===== verification/Rename.thy ===== *)
theory Rename
  imports Store
begin

text \<open>
  Crash safety of the journalled rename. The visible files during a rename are
  always the initial ones overlaid with some of the files the rename publishes, less
  some of the source's: five phases, from untouched to done. Every error, rollback
  and crash of the rename and of the recovery leaves one of the phases, and a
  fault-free recovery turns each phase into either the complete source or the
  complete destination.
\<close>

section \<open>Phases of a rename\<close>

text \<open>
  The parameters of one rename: the names, the files before it, the metadata it
  reads and the bytes of the journal and of the new metadata.
\<close>

record renaming =
  r_codec :: codec
  r_from :: string
  r_to :: string
  r_files :: "path \<Rightarrow> byte list option"
  r_meta :: session_meta
  r_journal :: "byte list"
  r_newmeta :: "byte list"

abbreviation "J \<equiv> rename_journal_path"

definition r_entry :: "renaming \<Rightarrow> rename_journal" where
  "r_entry x = \<lparr>rj_from = r_from x, rj_to = r_to x, rj_source = r_meta x\<rparr>"

definition sf :: "renaming \<Rightarrow> path" where "sf x = session_path (r_from x)"
definition st :: "renaming \<Rightarrow> path" where "st x = session_path (r_to x)"

definition srcs :: "renaming \<Rightarrow> path list" where "srcs x = map fst (copies (r_from x) (r_to x))"
definition dsts :: "renaming \<Rightarrow> path list" where "dsts x = map snd (copies (r_from x) (r_to x))"

text \<open>
  The situation a rename starts from: a source session, a free destination, no
  pending rename, names the recovery accepts and that are no \<open>.settings\<close> extension of
  one another, and a serializer that reads back what it wrote.
\<close>

definition ready :: "renaming \<Rightarrow> bool" where
  "ready x \<longleftrightarrow>
     r_from x \<noteq> r_to x \<and> r_from x \<noteq> r_to x @ ''.settings'' \<and> r_to x \<noteq> r_from x @ ''.settings''
   \<and> journal_name_ok (r_from x) \<and> journal_name_ok (r_to x) \<and> sm_name (r_meta x) = r_from x
   \<and> Option.bind (r_files x (sf x)) (de_session (r_codec x)) = Some (r_meta x)
   \<and> r_files x J = None \<and> r_files x (st x) = None \<and> list_all (\<lambda>p. r_files x p = None) (dsts x)
   \<and> ser_journal (r_codec x) (r_entry x) = Some (r_journal x)
   \<and> de_journal (r_codec x) (r_journal x) = Some (r_entry x)
   \<and> ser_session (r_codec x) ((r_meta x)\<lparr>sm_name := r_to x\<rparr>) = Some (r_newmeta x)
   \<and> de_session (r_codec x) (r_newmeta x) = Some ((r_meta x)\<lparr>sm_name := r_to x\<rparr>)"

definition published :: "renaming \<Rightarrow> path \<Rightarrow> byte list option" where
  "published x p = (if p = J then Some (r_journal x) else if p = st x then Some (r_newmeta x)
     else case map_of (zip (dsts x) (srcs x)) p of Some q \<Rightarrow> r_files x q | None \<Rightarrow> r_files x p)"

definition overlay :: "renaming \<Rightarrow> path set \<Rightarrow> path \<Rightarrow> byte list option" where
  "overlay x S p = (if p \<in> S then published x p else r_files x p)"

definition without :: "path set \<Rightarrow> (path \<Rightarrow> byte list option) \<Rightarrow> path \<Rightarrow> byte list option" where
  "without D v p = (if p \<in> D then None else v p)"

definition full :: "renaming \<Rightarrow> path \<Rightarrow> byte list option" where
  "full x = overlay x ({J, st x} \<union> set (dsts x))"

definition old_session :: "renaming \<Rightarrow> (path \<Rightarrow> byte list option) \<Rightarrow> bool" where
  "old_session x v \<longleftrightarrow> v = r_files x"

definition copying :: "renaming \<Rightarrow> (path \<Rightarrow> byte list option) \<Rightarrow> bool" where
  "copying x v \<longleftrightarrow> (\<exists>S. S \<subseteq> set (dsts x) \<and> v = overlay x (insert J S))"

definition both :: "renaming \<Rightarrow> (path \<Rightarrow> byte list option) \<Rightarrow> bool" where
  "both x v \<longleftrightarrow> v = full x"

definition collecting :: "renaming \<Rightarrow> (path \<Rightarrow> byte list option) \<Rightarrow> bool" where
  "collecting x v \<longleftrightarrow> (\<exists>D. D \<subseteq> set (srcs x) \<and> v = without (insert (sf x) D) (full x))"

definition new_session :: "renaming \<Rightarrow> (path \<Rightarrow> byte list option) \<Rightarrow> bool" where
  "new_session x v \<longleftrightarrow> v = without (insert (sf x) (set (srcs x))) (overlay x (insert (st x) (set (dsts x))))"

definition precommit :: "renaming \<Rightarrow> (path \<Rightarrow> byte list option) \<Rightarrow> bool" where
  "precommit x v \<longleftrightarrow> old_session x v \<or> copying x v \<or> both x v"

definition recoverable :: "renaming \<Rightarrow> (path \<Rightarrow> byte list option) \<Rightarrow> bool" where
  "recoverable x v \<longleftrightarrow> precommit x v \<or> collecting x v \<or> new_session x v"

section \<open>Paths\<close>

lemma not_tmp_paths [simp]:
  "\<not> is_tmp (session_path n)" "\<not> is_tmp (claude_path n)" "\<not> is_tmp (claude_settings_path n)"
  "\<not> is_tmp (scrollback_path n)" "\<not> is_tmp rename_journal_path" "\<not> is_tmp recovery_events_path"
  by (simp_all add: is_tmp_def path_defs suffix_to_prefix)

lemma settings_json:
  "a @ ''.settings.json'' = b @ ''.json'' \<longleftrightarrow> b = a @ ''.settings''"
  "b @ ''.json'' = a @ ''.settings.json'' \<longleftrightarrow> b = a @ ''.settings''"
proof -
  have "a @ ''.settings.json'' = (a @ ''.settings'') @ ''.json''" by simp
  then show "a @ ''.settings.json'' = b @ ''.json'' \<longleftrightarrow> b = a @ ''.settings''"
    "b @ ''.json'' = a @ ''.settings.json'' \<longleftrightarrow> b = a @ ''.settings''"
    by (metis append_same_eq)+
qed

lemma ready_distinct:
  assumes "ready x"
  shows "distinct (J # sf x # st x # srcs x @ dsts x)"
proof -
  have "r_from x \<noteq> r_to x" "r_from x \<noteq> r_to x @ ''.settings''" "r_to x \<noteq> r_from x @ ''.settings''"
    using assms by (auto simp: ready_def)
  then show ?thesis
    by (simp add: sf_def st_def srcs_def dsts_def copies_def path_defs settings_json)
qed

lemma ready_free: "ready x \<Longrightarrow> p \<in> {J, st x} \<union> set (dsts x) \<Longrightarrow> r_files x p = None"
  by (auto simp: ready_def list_all_iff)

lemma srcs_dsts: "srcs x = [claude_path (r_from x), claude_settings_path (r_from x), scrollback_path (r_from x)]"
  "dsts x = [claude_path (r_to x), claude_settings_path (r_to x), scrollback_path (r_to x)]"
  by (simp_all add: srcs_def dsts_def copies_def)

lemma not_tmp_members:
  "p \<in> set (srcs x) \<Longrightarrow> \<not> is_tmp p" "p \<in> set (dsts x) \<Longrightarrow> \<not> is_tmp p"
  "\<not> is_tmp (sf x)" "\<not> is_tmp (st x)"
  by (auto simp: srcs_dsts sf_def st_def)

lemma published_copy:
  assumes "ready x" and "(old, new) \<in> set (copies (r_from x) (r_to x))"
  shows "published x new = r_files x old" and "old \<in> set (srcs x)" and "new \<in> set (dsts x)"
proof -
  note d = ready_distinct [OF assms(1)]
  from assms(2) have m: "(new, old) \<in> set (zip (dsts x) (srcs x))"
    by (auto simp: copies_def srcs_dsts)
  show "old \<in> set (srcs x)" "new \<in> set (dsts x)" using m by (auto dest: set_zip_leftD set_zip_rightD)
  have "map_of (zip (dsts x) (srcs x)) new = Some old"
    by (rule map_of_is_SomeI) (use d m in \<open>auto simp: srcs_dsts\<close>)
  moreover have "new \<noteq> J" "new \<noteq> st x" using d \<open>new \<in> set (dsts x)\<close> by auto
  ultimately show "published x new = r_files x old" by (simp add: published_def)
qed

lemma published_J [simp]: "published x J = Some (r_journal x)"
  by (simp add: published_def)

lemma published_st: "ready x \<Longrightarrow> published x (st x) = Some (r_newmeta x)"
  using ready_distinct [of x] by (auto simp: published_def)

lemma overlay_empty [simp]: "overlay x {} = r_files x"
  by (simp add: overlay_def fun_eq_iff)

lemma overlay_add: "(overlay x S)(p := published x p) = overlay x (insert p S)"
  by (simp add: overlay_def fun_eq_iff)

lemma overlay_remove:
  "p \<notin> S \<Longrightarrow> r_files x p = None \<Longrightarrow> (overlay x (insert p S))(p := None) = overlay x S"
  by (simp add: overlay_def fun_eq_iff)

lemma overlay_skip: "published x p = r_files x p \<Longrightarrow> overlay x (insert p S) = overlay x S"
  by (auto simp: overlay_def fun_eq_iff)

lemma without_add: "(without D v)(p := None) = without (insert p D) v"
  by (simp add: without_def fun_eq_iff)

lemma overlay_out: "p \<notin> S \<Longrightarrow> overlay x S p = r_files x p"
  by (simp add: overlay_def)

section \<open>Rollback\<close>

lemma rollback_spec:
  assumes "distinct ps" and "\<And>p. p \<in> set ps \<Longrightarrow> r_files x p = None \<and> \<not> is_tmp p"
    and "\<And>s. suffix s ps \<Longrightarrow> R (overlay x (set s))"
  shows "hoare b (vw C (\<lambda>v. v = overlay x (set ps))) (rollback ps) (\<lambda>_. vw C (\<lambda>v. v = r_files x))
           (\<lambda>_. vw C R) (vw C R)"
  using assms
proof (induction ps)
  case Nil
  then show ?case by (simp add: hoare_ret)
next
  case (Cons p ps)
  have step: "(overlay x (set (p # ps)))(p := None) = overlay x (set ps)"
    using Cons.prems(1,2) by (simp add: overlay_remove)
  have R: "R (overlay x (set (p # ps)))" "R (overlay x (set ps))"
    using Cons.prems(3) [of "p # ps"] Cons.prems(3) [of ps] by (auto simp: suffix_Cons)
  have IH: "hoare b (vw C (\<lambda>v. v = overlay x (set ps))) (rollback ps) (\<lambda>_. vw C (\<lambda>v. v = r_files x))
           (\<lambda>_. vw C R) (vw C R)"
    using Cons.prems by (intro Cons.IH) (auto simp: suffix_Cons)
  show ?case
    unfolding rollback.simps
  proof (rule hoare_bind [where R = "\<lambda>r. vw C (\<lambda>v. if isl r then R v else v = overlay x (set ps))"])
    show "hoare b (vw C (\<lambda>v. v = overlay x (set (p # ps)))) (attempt (remove_durable p))
        (\<lambda>r. vw C (\<lambda>v. if isl r then R v else v = overlay x (set ps))) (\<lambda>_. vw C R) (vw C R)"
      by (rule hoare_attempt [OF hoare_remove_durable [where Q = "\<lambda>_ v. v = overlay x (set ps)" and E = "\<lambda>_. R"]])
         (use R step Cons.prems(2) in auto)
    fix r :: "io_error + unit"
    show "hoare b (vw C (\<lambda>v. if isl r then R v else v = overlay x (set ps)))
        (case r of Inl _ \<Rightarrow> fail RollbackFailed | Inr _ \<Rightarrow> rollback ps)
        (\<lambda>_. vw C (\<lambda>v. v = r_files x)) (\<lambda>_. vw C R) (vw C R)"
      using IH by (cases r) (auto intro: hoare_fail)
  qed
qed

lemma precommit_suffix:
  assumes "set cs \<subseteq> set (dsts x)" and "suffix s (rev (J # cs))"
  shows "precommit x (overlay x (set s))"
proof (cases "s = []")
  case True
  then show ?thesis by (simp add: precommit_def old_session_def)
next
  case False
  from assms(2) obtain a where "rev cs @ [J] = a @ s" by (auto simp: suffix_def)
  with False obtain s' where s: "s = s' @ [J]" "rev cs = a @ s'"
    by (metis append_butlast_last_id append_assoc last_appendR last_snoc butlast_append butlast_snoc)
  have "set cs = set a \<union> set s'" by (metis s(2) set_append set_rev)
  with s(1) assms(1) have "set s = insert J (set s')" "set s' \<subseteq> set (dsts x)" by auto
  then show ?thesis unfolding precommit_def copying_def by metis
qed

lemma rollback_fail:
  assumes "hoare b P (rollback (rev ps)) (\<lambda>_. vw C (\<lambda>v. v = r_files x)) (\<lambda>_. vw C (precommit x)) (vw C (precommit x))"
  shows "hoare b P (rename_precommit_error e ps) Q (\<lambda>_. vw C (precommit x)) (vw C (precommit x))"
  unfolding rename_precommit_error_def
  by (rule hoare_bind [OF assms hoare_fail]) (simp add: vw_def precommit_def old_session_def)

lemma precommit_error_spec:
  assumes "ready x" and "distinct (J # cs)" and "set cs \<subseteq> set (dsts x)"
  shows "hoare b (vw C (\<lambda>v. v = overlay x (set (J # cs)))) (rename_precommit_error e (J # cs)) Q
           (\<lambda>_. vw C (precommit x)) (vw C (precommit x))"
proof (rule rollback_fail)
  have "hoare b (vw C (\<lambda>v. v = overlay x (set (rev (J # cs))))) (rollback (rev (J # cs)))
      (\<lambda>_. vw C (\<lambda>v. v = r_files x)) (\<lambda>_. vw C (precommit x)) (vw C (precommit x))"
  proof (rule rollback_spec)
    show "distinct (rev (J # cs))" using assms(2) by simp
    show "r_files x p = None \<and> \<not> is_tmp p" if "p \<in> set (rev (J # cs))" for p
      using that assms(3) ready_free [OF assms(1), of p] not_tmp_members(2) by auto
  qed (rule precommit_suffix [OF assms(3)])
  then show "hoare b (vw C (\<lambda>v. v = overlay x (set (J # cs)))) (rollback (rev (J # cs)))
      (\<lambda>_. vw C (\<lambda>v. v = r_files x)) (\<lambda>_. vw C (precommit x)) (vw C (precommit x))"
    by (simp add: insert_commute)
qed

lemma full_overlay:
  "overlay x (set (J # cs)) = overlay x (insert J (set (dsts x))) \<Longrightarrow>
     overlay x (insert (st x) (set (J # cs))) = full x"
  by (metis full_def overlay_add insert_is_Un insert_commute Un_insert_left sup_bot_left)

lemma precommit_error_both:
  assumes "ready x" and "distinct (J # cs)" and "set cs \<subseteq> set (dsts x)"
    and "overlay x (set (J # cs)) = overlay x (insert J (set (dsts x)))"
  shows "hoare b (vw C (\<lambda>v. v = full x)) (rename_precommit_error e ((J # cs) @ [st x])) Q
           (\<lambda>_. vw C (precommit x)) (vw C (precommit x))"
proof (rule rollback_fail)
  let ?ps = "st x # rev (J # cs)"
  have f: "overlay x (set ?ps) = full x"
    using full_overlay [OF assms(4)] by simp
  have "hoare b (vw C (\<lambda>v. v = overlay x (set ?ps))) (rollback ?ps) (\<lambda>_. vw C (\<lambda>v. v = r_files x))
      (\<lambda>_. vw C (precommit x)) (vw C (precommit x))"
  proof (rule rollback_spec)
    show "distinct ?ps" using assms(2,3) ready_distinct [OF assms(1)] by auto
    show "r_files x p = None \<and> \<not> is_tmp p" if "p \<in> set ?ps" for p
      using that assms(3) ready_free [OF assms(1), of p] not_tmp_members(2,4) by auto
    show "precommit x (overlay x (set s))" if "suffix s ?ps" for s
      using that f precommit_suffix [OF assms(3)] by (auto simp: suffix_Cons precommit_def both_def)
  qed
  with f show "hoare b (vw C (\<lambda>v. v = full x)) (rollback (rev ((J # cs) @ [st x])))
      (\<lambda>_. vw C (\<lambda>v. v = r_files x)) (\<lambda>_. vw C (precommit x)) (vw C (precommit x))" by simp
qed

section \<open>Copying the artifacts\<close>

definition copied :: "renaming \<Rightarrow> path list \<Rightarrow> path list \<Rightarrow> (path \<Rightarrow> byte list option) \<Rightarrow> bool" where
  "copied x ps created v \<longleftrightarrow> (\<exists>cs. created = J # cs \<and> distinct (J # cs) \<and> set cs \<subseteq> set ps
     \<and> v = overlay x (set created) \<and> v = overlay x (insert J (set ps)))"

lemma copied_precommit: "copied x ps created v \<Longrightarrow> set ps \<subseteq> set (dsts x) \<Longrightarrow> precommit x v"
  unfolding copied_def precommit_def copying_def by blast

lemma copied_Nil: "copied x [] [J] (overlay x {J})"
  by (simp add: copied_def)

lemma copied_skip:
  "copied x ps created v \<Longrightarrow> published x p = None \<Longrightarrow> r_files x p = None \<Longrightarrow> copied x (ps @ [p]) created v"
  unfolding copied_def by (auto simp: insert_commute [of J p] overlay_skip)

lemma copied_add:
  assumes "copied x ps created v" and "p \<notin> set ps" and "p \<noteq> J"
  shows "copied x (ps @ [p]) (created @ [p]) (v(p := published x p))"
proof -
  from assms(1) obtain cs where cs: "created = J # cs" "distinct (J # cs)" "set cs \<subseteq> set ps"
    "v = overlay x (set created)" "v = overlay x (insert J (set ps))" by (auto simp: copied_def)
  have "v(p := published x p) = overlay x (set (created @ [p]))"
    unfolding cs(4) overlay_add by simp
  moreover have "v(p := published x p) = overlay x (insert J (set (ps @ [p])))"
    unfolding cs(5) overlay_add by (simp add: insert_commute)
  ultimately show ?thesis
    using cs(1-3) assms(2,3) by (auto simp: copied_def)
qed

lemma copied_error:
  assumes "ready x" and "set ps \<subseteq> set (dsts x)"
  shows "hoare b (vw C (copied x ps created)) (rename_precommit_error e created) Q
           (\<lambda>_. vw C (precommit x)) (vw C (precommit x))"
proof (cases "\<exists>cs. created = J # cs \<and> distinct (J # cs) \<and> set cs \<subseteq> set ps")
  case True
  then obtain cs where cs: "created = J # cs" "distinct (J # cs)" "set cs \<subseteq> set (dsts x)"
    using assms(2) by auto
  from precommit_error_spec [OF assms(1) cs(2,3)] show ?thesis
    unfolding cs(1) by (rule hoare_pre) (auto simp: vw_def copied_def)
next
  case False
  then show ?thesis by (auto simp: hoare_def vw_def copied_def)
qed

text \<open>The error branch of one copy: the destination is rolled back when it is visible.\<close>

definition maybe_copied where
  "maybe_copied x ps created p v \<longleftrightarrow>
     (if v p = None then copied x ps created v else copied x (ps @ [p]) (created @ [p]) v)"

lemma copy_error_spec:
  assumes "ready x" and "set (ps @ [p]) \<subseteq> set (dsts x)"
  shows "hoare b (vw C (maybe_copied x ps created p))
     (bind_io (exists_file p) (\<lambda>ex. rename_precommit_error e (if ex then created @ [p] else created)))
     Q (\<lambda>_. vw C (precommit x)) (vw C (precommit x))"
proof (rule hoare_bind [OF hoare_exists [where Q = "\<lambda>ex. if ex
       then copied x (ps @ [p]) (created @ [p]) else copied x ps created"]])
  fix ex :: bool
  have ps: "set ps \<subseteq> set (dsts x)" using assms(2) by simp
  show "hoare b (vw C (if ex then copied x (ps @ [p]) (created @ [p]) else copied x ps created))
      (rename_precommit_error e (if ex then created @ [p] else created)) Q
      (\<lambda>_. vw C (precommit x)) (vw C (precommit x))"
    by (cases ex) (simp_all only: if_True if_False copied_error [OF assms(1) assms(2)]
        copied_error [OF assms(1) ps])
qed (use assms not_tmp_members(2) in \<open>auto simp: maybe_copied_def\<close>)

text \<open>What only happens after a fault.\<close>

lemma hoare_faulty:
  "(\<not> b \<Longrightarrow> hoare b (vw C P) m Q (\<lambda>_. vw C E) K) \<Longrightarrow>
     hoare b (vw C (\<lambda>v. P v \<and> \<not> b)) m Q (\<lambda>_. vw C (\<lambda>v. E v \<and> \<not> b)) K"
  by (cases b) (simp_all add: hoare_def vw_def)

text \<open>Publishing one copy.\<close>

lemma copy_write_spec:
  assumes x: "ready x" and pc: "published x p = Some bytes" and sub: "set (ps @ [p]) \<subseteq> set (dsts x)"
    and fresh: "p \<notin> set ps"
  shows "hoare b (vw C (copied x ps created)) (attempt (atomic_write p bytes))
     (\<lambda>r. vw C (case r of Inr _ \<Rightarrow> copied x (ps @ [p]) (created @ [p]) | Inl _ \<Rightarrow> (\<lambda>v. maybe_copied x ps created p v \<and> \<not> b)))
     (\<lambda>_. vw C (\<lambda>v. precommit x v \<and> \<not> b)) (vw C (precommit x))"
proof -
  have J: "p \<noteq> J" and t: "\<not> is_tmp p" and free: "r_files x p = None"
    using ready_distinct [OF x] sub not_tmp_members(2) ready_free [OF x] by auto
  have add: "copied x (ps @ [p]) (created @ [p]) (v(p \<mapsto> bytes))" if "copied x ps created v" for v
    using copied_add [OF that fresh J] pc by simp
  have pre: "precommit x v" "precommit x (v(p \<mapsto> bytes))" if "copied x ps created v" for v
    using copied_precommit [OF that] copied_precommit [OF add [OF that] sub] sub by auto
  have nn: "v p = None" if "copied x ps created v" for v
    using that fresh J free by (auto simp: copied_def overlay_def)
  show ?thesis
    by (rule hoare_attempt [OF hoare_atomic_write [where
          Q = "\<lambda>_. copied x (ps @ [p]) (created @ [p])" and E = "\<lambda>_ v. maybe_copied x ps created p v \<and> \<not> b"]])
       (use add pre nn t in \<open>auto simp: maybe_copied_def\<close>)
qed

lemma copy_one_spec:
  assumes x: "ready x" and mem: "(old, new) \<in> set (copies (r_from x) (r_to x))"
    and sub: "set ps \<subseteq> set (dsts x)" and fresh: "new \<notin> set ps"
    and k: "\<And>cr. hoare b (vw C (copied x (ps @ [new]) cr)) (k cr) Q
               (\<lambda>_. vw C (\<lambda>v. precommit x v \<and> \<not> b)) (vw C (precommit x))"
  shows "hoare b (vw C (copied x ps created))
     (bind_io (attempt (read_file old)) (\<lambda>r. case r of
         Inl e \<Rightarrow> if e = NotFound then k created else rename_precommit_error e created
       | Inr bytes \<Rightarrow> bind_io (attempt (atomic_write new bytes)) (\<lambda>r. case r of
           Inl e \<Rightarrow> bind_io (exists_file new) (\<lambda>ex.
                     rename_precommit_error e (if ex then created @ [new] else created))
         | Inr _ \<Rightarrow> bind_io (ret ()) (\<lambda>_. k (created @ [new])))))
     Q (\<lambda>_. vw C (\<lambda>v. precommit x v \<and> \<not> b)) (vw C (precommit x))"
proof -
  note pc = published_copy [OF x mem]
  have sub': "set (ps @ [new]) \<subseteq> set (dsts x)" using sub pc(3) by simp
  have free: "r_files x new = None" using ready_free [OF x] pc(3) by blast
  have src: "v old = r_files x old" if "copied x ps created v" for v
  proof -
    from that have "v = overlay x (insert J (set ps))" "old \<notin> insert J (set ps)"
      using ready_distinct [OF x] pc(2) sub by (auto simp: copied_def)
    then show ?thesis by (simp add: overlay_out)
  qed
  have skip: "copied x (ps @ [new]) created v" if "copied x ps created v" "r_files x old = None" for v
    using that pc(1) free by (simp add: copied_skip)
  have wr: "hoare b (vw C (copied x ps created)) (bind_io (attempt (atomic_write new bytes)) (\<lambda>r. case r of
           Inl e \<Rightarrow> bind_io (exists_file new) (\<lambda>ex.
                     rename_precommit_error e (if ex then created @ [new] else created))
         | Inr _ \<Rightarrow> bind_io (ret ()) (\<lambda>_. k (created @ [new]))))
      Q (\<lambda>_. vw C (\<lambda>v. precommit x v \<and> \<not> b)) (vw C (precommit x))" if "r_files x old = Some bytes" for bytes
  proof (rule hoare_bind [OF copy_write_spec [OF x _ sub' fresh]])
    fix r :: "io_error + unit"
    show "hoare b (vw C (case r of Inr _ \<Rightarrow> copied x (ps @ [new]) (created @ [new])
               | Inl _ \<Rightarrow> (\<lambda>v. maybe_copied x ps created new v \<and> \<not> b)))
       (case r of Inl e \<Rightarrow> bind_io (exists_file new) (\<lambda>ex.
                     rename_precommit_error e (if ex then created @ [new] else created))
         | Inr _ \<Rightarrow> bind_io (ret ()) (\<lambda>_. k (created @ [new])))
      Q (\<lambda>_. vw C (\<lambda>v. precommit x v \<and> \<not> b)) (vw C (precommit x))"
      by (cases r) (simp_all add: hoare_faulty [OF copy_error_spec [OF x sub']] k)
  qed (use that pc(1) in simp)
  let ?R = "\<lambda>r v. copied x ps created v \<and> (case r of
      Inr bytes \<Rightarrow> r_files x old = Some bytes | Inl e \<Rightarrow> if e = NotFound then r_files x old = None else \<not> b)"
  show ?thesis
  proof (rule hoare_bind [where R = "\<lambda>r. vw C (?R r)"])
    show "hoare b (vw C (copied x ps created)) (attempt (read_file old)) (\<lambda>r. vw C (?R r))
        (\<lambda>_. vw C (\<lambda>v. precommit x v \<and> \<not> b)) (vw C (precommit x))"
      by (rule hoare_attempt [OF hoare_read_file [where
            Q = "\<lambda>bytes. ?R (Inr bytes)" and E = "\<lambda>e. ?R (Inl e)"]])
         (use src copied_precommit [OF _ sub] not_tmp_members(1) [OF pc(2)] in auto)
    fix r
    show "hoare b (vw C (?R r)) (case r of
         Inl e \<Rightarrow> if e = NotFound then k created else rename_precommit_error e created
       | Inr bytes \<Rightarrow> bind_io (attempt (atomic_write new bytes)) (\<lambda>r. case r of
           Inl e \<Rightarrow> bind_io (exists_file new) (\<lambda>ex.
                     rename_precommit_error e (if ex then created @ [new] else created))
         | Inr _ \<Rightarrow> bind_io (ret ()) (\<lambda>_. k (created @ [new]))))
       Q (\<lambda>_. vw C (\<lambda>v. precommit x v \<and> \<not> b)) (vw C (precommit x))"
    proof (cases r)
      case (Inl e)
      then show ?thesis
        using skip by (auto intro: hoare_pre [OF k] hoare_faulty [OF copied_error [OF x sub]] simp: vw_def)
    next
      case (Inr bytes)
      show ?thesis
      proof (cases "r_files x old = Some bytes")
        case True
        with Inr show ?thesis using wr by simp
      next
        case False
        with Inr show ?thesis by (simp add: hoare_def vw_def)
      qed
    qed
  qed
qed

lemma copy_artifacts_spec:
  assumes "ready x" and "copies (r_from x) (r_to x) = dn @ rest"
  shows "hoare b (vw C (copied x (map snd dn) created)) (copy_artifacts (\<lambda>_. ret ()) i rest created)
     (\<lambda>r. vw C (copied x (dsts x) r)) (\<lambda>_. vw C (\<lambda>v. precommit x v \<and> \<not> b)) (vw C (precommit x))"
  using assms(2)
proof (induction rest arbitrary: dn created i)
  case Nil
  then show ?case by (auto simp: dsts_def intro: hoare_ret)
next
  case (Cons on rest)
  obtain old new where on: "on = (old, new)" by fastforce
  have dd: "distinct (map snd (dn @ on # rest))" "set (map snd dn) \<subseteq> set (dsts x)"
    using ready_distinct [OF assms(1)] Cons.prems by (auto simp: dsts_def)
  show ?case
    unfolding on copy_artifacts.simps
    using Cons.IH [of "dn @ [on]"] Cons.prems on dd
    by (intro copy_one_spec [OF assms(1)]) auto
qed

section \<open>Commit and collection\<close>

lemma collecting_precommit_free: "collecting x v \<Longrightarrow> recoverable x v" "precommit x v \<Longrightarrow> recoverable x v"
  "new_session x v \<Longrightarrow> recoverable x v"
  by (auto simp: recoverable_def)

lemma full_sf: "ready x \<Longrightarrow> full x (sf x) = r_files x (sf x) \<and> r_files x (sf x) \<noteq> None"
  using ready_distinct [of x] by (auto simp: full_def overlay_def ready_def)

lemma remove_sf: "(full x)(sf x := None) = without {sf x} (full x)"
  by (simp add: without_def fun_eq_iff)

lemma collecting_sf: "collecting x (without {sf x} (full x))"
  unfolding collecting_def by (intro exI [of _ "{}"]) simp

text \<open>Publishing the new metadata: before it, or after it with both names complete.\<close>

lemma publish_spec:
  assumes "ready x" and "copied x (dsts x) created v0"
  shows "hoare b (vw (r_codec x) (\<lambda>v. v = v0))
     (attempt (write_session (r_codec x) ((r_meta x)\<lparr>sm_name := r_to x\<rparr>)))
     (\<lambda>r. vw (r_codec x) (\<lambda>v. case r of Inr _ \<Rightarrow> v = full x
        | Inl _ \<Rightarrow> (if v (st x) = None then v = v0 else v = full x) \<and> \<not> b))
     (\<lambda>_. vw (r_codec x) (\<lambda>v. precommit x v \<and> \<not> b)) (vw (r_codec x) (precommit x))"
proof -
  from assms(2) obtain cs where cs: "created = J # cs" "distinct (J # cs)" "set cs \<subseteq> set (dsts x)"
    "v0 = overlay x (set created)" "v0 = overlay x (insert J (set (dsts x)))" by (auto simp: copied_def)
  have up: "v0(st x \<mapsto> r_newmeta x) = full x"
    unfolding cs(5) published_st [OF assms(1), symmetric] overlay_add by (simp add: full_def insert_commute)
  have st: "full x (st x) = Some (r_newmeta x)" using up by (metis fun_upd_same)
  have none: "v0 (st x) = None"
    using ready_distinct [OF assms(1)] ready_free [OF assms(1), of "st x"]
    by (auto simp: cs(5) overlay_def)
  have pre: "precommit x v0" "precommit x (full x)"
    using copied_precommit [OF assms(2)] by (auto simp: precommit_def both_def)
  have ser: "ser_session (r_codec x) ((r_meta x)\<lparr>sm_name := r_to x\<rparr>) = Some (r_newmeta x)"
    using assms(1) by (simp add: ready_def)
  show ?thesis
    unfolding write_session_def
    by (rule hoare_attempt [OF hoare_write_json [where ser = "ser_session (r_codec x)"
          and x = "(r_meta x)\<lparr>sm_name := r_to x\<rparr>", OF ser, where
          Q = "\<lambda>_ v. v = full x" and E = "\<lambda>_ v. (if v (st x) = None then v = v0 else v = full x) \<and> \<not> b"]])
       (use up st none pre in \<open>auto simp: st_def [symmetric] not_tmp_members\<close>)
qed

lemma rename_commit_spec:
  assumes "ready x" and "copied x (dsts x) created v0"
  shows "hoare b (vw (r_codec x) (\<lambda>v. v = v0))
     (rename_commit (r_codec x) (\<lambda>_. ret ()) (r_from x) (r_to x) (r_meta x) created)
     (\<lambda>_. vw (r_codec x) (\<lambda>v. v = without {sf x} (full x)))
     (\<lambda>_. vw (r_codec x) (\<lambda>v. precommit x v \<and> \<not> b)) (vw (r_codec x) (recoverable x))"
proof -
  let ?C = "r_codec x"
  from assms(2) obtain cs where cs: "created = J # cs" "distinct (J # cs)" "set cs \<subseteq> set (dsts x)"
    "v0 = overlay x (set created)" "overlay x (set (J # cs)) = overlay x (insert J (set (dsts x)))"
    by (auto simp: copied_def)
  have weak: "hoare b P m Q E (vw ?C (precommit x)) \<Longrightarrow> hoare b P m Q E (vw ?C (recoverable x))"
    for P Q E and m :: "'z io" by (erule hoare_post) (auto simp: vw_def recoverable_def)
  have err: "hoare b (vw ?C (\<lambda>v. v = v0)) (rename_precommit_error e created) Q
      (\<lambda>_. vw ?C (precommit x)) (vw ?C (precommit x))" for e and Q :: "unit \<Rightarrow> world \<Rightarrow> bool"
    using precommit_error_spec [OF assms(1) cs(2,3)] cs(1,4) by simp
  have errb: "hoare b (vw ?C (\<lambda>v. v = full x)) (rename_precommit_error e (created @ [st x])) Q
      (\<lambda>_. vw ?C (precommit x)) (vw ?C (precommit x))" for e and Q :: "unit \<Rightarrow> world \<Rightarrow> bool"
    using precommit_error_both [OF assms(1) cs(2,3,5)] cs(1) by simp
  have e1: "hoare b (vw ?C (\<lambda>v. if v (st x) = None then v = v0 else v = full x))
     (bind_io (exists_file (st x)) (\<lambda>ex. rename_precommit_error e (if ex then created @ [st x] else created)))
     Q (\<lambda>_. vw ?C (precommit x)) (vw ?C (precommit x))" for e and Q :: "unit \<Rightarrow> world \<Rightarrow> bool"
    by (rule hoare_bind [OF hoare_exists [where Q = "\<lambda>ex v. if ex then v = full x else v = v0"]])
       (use err errb not_tmp_members(4) [of x] in auto)
  have e2: "hoare b (vw ?C (\<lambda>v. v = (if v (sf x) = None then without {sf x} (full x) else full x)))
     (bind_io (exists_file (sf x)) (\<lambda>ex. if ex then rename_precommit_error e (created @ [st x]) else ret ()))
     (\<lambda>_. vw ?C (\<lambda>v. v = without {sf x} (full x)))
     (\<lambda>_. vw ?C (precommit x)) (vw ?C (precommit x))" for e
    by (rule hoare_bind [OF hoare_exists [where Q = "\<lambda>ex v. if ex then v = full x else v = without {sf x} (full x)"]])
       (use errb not_tmp_members(3) [of x] in \<open>auto intro: hoare_ret\<close>)
  have rm: "hoare b (vw ?C (\<lambda>v. v = full x)) (attempt (remove_durable (sf x)))
     (\<lambda>r. vw ?C (\<lambda>v. case r of Inr _ \<Rightarrow> v = without {sf x} (full x)
        | Inl _ \<Rightarrow> v = (if v (sf x) = None then without {sf x} (full x) else full x) \<and> \<not> b))
     (\<lambda>_. vw ?C (\<lambda>v. precommit x v \<and> \<not> b)) (vw ?C (recoverable x))"
    by (rule hoare_attempt [OF hoare_remove_durable [where Q = "\<lambda>_ v. v = without {sf x} (full x)"
          and E = "\<lambda>_ v. v = (if v (sf x) = None then without {sf x} (full x) else full x) \<and> \<not> b"]])
       (use full_sf [OF assms(1)] remove_sf [of x] collecting_sf [of x] not_tmp_members(3) [of x] in
         \<open>auto simp: recoverable_def precommit_def both_def without_def\<close>)
  have fin: "hoare b (vw ?C (\<lambda>v. v = full x)) (bind_io (attempt (remove_durable (sf x))) (\<lambda>r. case r of
         Inl e \<Rightarrow> bind_io (exists_file (sf x)) (\<lambda>ex.
             if ex then rename_precommit_error e (created @ [st x]) else ret ())
       | Inr _ \<Rightarrow> ret ())) (\<lambda>_. vw ?C (\<lambda>v. v = without {sf x} (full x)))
     (\<lambda>_. vw ?C (\<lambda>v. precommit x v \<and> \<not> b)) (vw ?C (recoverable x))"
  proof (rule hoare_bind [OF rm])
    fix r :: "io_error + unit"
    show "hoare b (vw ?C (\<lambda>v. case r of Inr _ \<Rightarrow> v = without {sf x} (full x)
        | Inl _ \<Rightarrow> v = (if v (sf x) = None then without {sf x} (full x) else full x) \<and> \<not> b))
      (case r of Inl e \<Rightarrow> bind_io (exists_file (sf x)) (\<lambda>ex.
             if ex then rename_precommit_error e (created @ [st x]) else ret ())
       | Inr _ \<Rightarrow> ret ()) (\<lambda>_. vw ?C (\<lambda>v. v = without {sf x} (full x)))
      (\<lambda>_. vw ?C (\<lambda>v. precommit x v \<and> \<not> b)) (vw ?C (recoverable x))"
      using weak [OF hoare_faulty [OF e2]] by (cases r) (auto intro: hoare_ret)
  qed
  show ?thesis
    unfolding rename_commit_def st_def [symmetric] sf_def [symmetric]
  proof (rule hoare_bind [OF weak [OF publish_spec [OF assms]]])
    fix r :: "io_error + unit"
    show "hoare b (vw ?C (\<lambda>v. case r of Inr _ \<Rightarrow> v = full x
        | Inl _ \<Rightarrow> (if v (st x) = None then v = v0 else v = full x) \<and> \<not> b))
      (case r of Inl e \<Rightarrow> bind_io (exists_file (st x)) (\<lambda>ex.
             rename_precommit_error e (if ex then created @ [st x] else created))
       | Inr _ \<Rightarrow> bind_io (ret ()) (\<lambda>_. bind_io (attempt (remove_durable (sf x))) (\<lambda>r. case r of
         Inl e \<Rightarrow> bind_io (exists_file (sf x)) (\<lambda>ex.
             if ex then rename_precommit_error e (created @ [st x]) else ret ())
       | Inr _ \<Rightarrow> ret ()))) (\<lambda>_. vw ?C (\<lambda>v. v = without {sf x} (full x)))
      (\<lambda>_. vw ?C (\<lambda>v. precommit x v \<and> \<not> b)) (vw ?C (recoverable x))"
      using weak [OF hoare_faulty [OF e1]] fin by (cases r) (auto split del: if_split)
  qed
qed

definition collected :: "renaming \<Rightarrow> path list \<Rightarrow> bool \<Rightarrow> (path \<Rightarrow> byte list option) \<Rightarrow> bool" where
  "collected x ps failed v \<longleftrightarrow> (\<exists>D. D \<subseteq> set (srcs x) \<and> v = without (insert (sf x) D) (full x)
     \<and> (failed \<or> set ps \<subseteq> D))"

lemma collected_collecting: "collected x ps failed v \<Longrightarrow> collecting x v"
  by (auto simp: collected_def collecting_def)

lemma collected_all:
  "collected x (srcs x) False v \<Longrightarrow> v = without (insert (sf x) (set (srcs x))) (full x)"
  by (auto simp: collected_def dest: subset_antisym)

lemma collected_remove:
  "collected x ps failed v \<Longrightarrow> p \<in> set (srcs x) \<Longrightarrow> collected x (ps @ [p]) failed (v(p := None))"
  unfolding collected_def
  by (elim exE conjE, rule_tac x = "insert p D" in exI) (auto simp: without_add insert_commute)

lemma collected_fail: "collected x ps failed v \<Longrightarrow> collected x qs True v"
  by (auto simp: collected_def)

text \<open>Removing one source artifact, keeping the count of what is surely gone.\<close>

lemma remove_src_spec:
  assumes "p \<in> set (srcs x)"
  shows "hoare b (vw C (collected x ps failed)) (attempt (remove_durable p))
     (\<lambda>r. vw C (\<lambda>v. collected x (ps @ [p]) (failed \<or> isl r) v \<and> (isl r \<longrightarrow> \<not> b)))
     (\<lambda>_. vw C (\<lambda>_. False)) (vw C (collecting x))"
proof -
  have c: "collected x (ps @ [p]) failed (v(p := None))" "collected x (ps @ [p]) True v"
    "collected x (ps @ [p]) True (v(p := None))" "collecting x v" "collecting x (v(p := None))"
    if "collected x ps failed v" for v
    using that collected_remove [OF that assms] by (auto dest: collected_fail collected_collecting)
  show ?thesis
    by (rule hoare_attempt [OF hoare_remove_durable [where
          Q = "\<lambda>_. collected x (ps @ [p]) failed" and E = "\<lambda>_ v. collected x (ps @ [p]) True v \<and> \<not> b"]])
       (use c not_tmp_members(1) [OF assms] in \<open>auto simp: vw_def\<close>)
qed

lemma remove_old_spec:
  assumes "copies (r_from x) (r_to x) = dn @ rest"
  shows "hoare b (vw C (\<lambda>v. collected x (map fst dn) failed v \<and> (failed \<longrightarrow> \<not> b)))
     (remove_old (\<lambda>_. ret ()) i rest failed)
     (\<lambda>r. vw C (\<lambda>v. collected x (srcs x) r v \<and> (r \<longrightarrow> \<not> b))) (\<lambda>_. vw C (\<lambda>_. False)) (vw C (collecting x))"
  using assms
proof (induction rest arbitrary: dn failed i)
  case Nil
  then show ?case by (auto simp: srcs_def intro: hoare_ret)
next
  case (Cons on rest)
  obtain old new where on: "on = (old, new)" by fastforce
  have mem: "old \<in> set (srcs x)" using Cons.prems on by (auto simp: srcs_def)
  show ?case
    unfolding on remove_old.simps
  proof (rule hoare_bind)
    show "hoare b (vw C (\<lambda>v. collected x (map fst dn) failed v \<and> (failed \<longrightarrow> \<not> b)))
       (attempt (remove_durable old)) (\<lambda>r. vw C (\<lambda>v. collected x (map fst dn @ [old]) (failed \<or> isl r) v
          \<and> (failed \<or> isl r \<longrightarrow> \<not> b))) (\<lambda>_. vw C (\<lambda>_. False)) (vw C (collecting x))"
    proof (cases "failed \<and> b")
      case False
      show ?thesis
        by (rule hoare_post [OF hoare_pre [OF remove_src_spec [OF mem]]]) (use False in \<open>auto simp: vw_def\<close>)
    qed (simp add: hoare_def vw_def)
    fix r :: "io_error + unit"
    show "hoare b (vw C (\<lambda>v. collected x (map fst dn @ [old]) (failed \<or> isl r) v \<and> (failed \<or> isl r \<longrightarrow> \<not> b)))
      (bind_io (ret ()) (\<lambda>_. remove_old (\<lambda>_. ret ()) (i + 1) rest
         (failed \<or> (case r of Inl _ \<Rightarrow> True | Inr _ \<Rightarrow> False))))
      (\<lambda>r. vw C (\<lambda>v. collected x (srcs x) r v \<and> (r \<longrightarrow> \<not> b))) (\<lambda>_. vw C (\<lambda>_. False)) (vw C (collecting x))"
      using Cons.IH [of "dn @ [on]" "failed \<or> isl r" "i + 1"] Cons.prems on
      by (cases r) simp_all
  qed
qed

lemma remove_journal:
  assumes "ready x"
  shows "new_session x ((without (insert (sf x) (set (srcs x))) (full x))(J := None))"
proof -
  have "r_files x J = None" using ready_free [OF assms] by simp
  then show ?thesis
    using ready_distinct [OF assms]
    by (auto simp: new_session_def without_def full_def overlay_def fun_eq_iff)
qed

lemma rename_collect_spec:
  assumes "ready x"
  shows "hoare b (vw C (\<lambda>v. v = without {sf x} (full x)))
     (rename_collect (\<lambda>_. ret ()) (r_from x) (r_to x))
     (\<lambda>_. vw C (\<lambda>v. new_session x v \<or> \<not> b \<and> collecting x v)) (\<lambda>_. vw C (\<lambda>_. False)) (vw C (recoverable x))"
proof -
  let ?v = "without (insert (sf x) (set (srcs x))) (full x)"
  have col: "collecting x ?v" by (auto simp: collecting_def)
  have "hoare b (vw C (\<lambda>v. v = ?v)) (attempt (remove_durable J))
      (\<lambda>_. vw C (\<lambda>v. new_session x v \<or> \<not> b \<and> collecting x v)) (\<lambda>_. vw C (\<lambda>_. False)) (vw C (recoverable x))"
    by (rule hoare_attempt [OF hoare_remove_durable [where Q = "\<lambda>_. new_session x"
          and E = "\<lambda>_ v. new_session x v \<or> \<not> b \<and> collecting x v"]])
       (use remove_journal [OF assms] col in \<open>auto simp: recoverable_def vw_def\<close>)
  then have j: "hoare b (vw C (\<lambda>v. collected x (srcs x) failed v \<and> (failed \<longrightarrow> \<not> b)))
     (if failed then ret (Inr ()) else attempt (remove_durable J))
     (\<lambda>_. vw C (\<lambda>v. new_session x v \<or> \<not> b \<and> collecting x v)) (\<lambda>_. vw C (\<lambda>_. False)) (vw C (recoverable x))" for failed
    by (cases failed) (auto intro!: hoare_ret elim!: hoare_pre simp: vw_def
        dest: collected_all collected_collecting)
  have st: "hoare b (vw C (\<lambda>v. v = without {sf x} (full x)))
     (remove_old (\<lambda>_. ret ()) 6 (copies (r_from x) (r_to x)) False)
     (\<lambda>r. vw C (\<lambda>v. collected x (srcs x) r v \<and> (r \<longrightarrow> \<not> b))) (\<lambda>_. vw C (\<lambda>_. False)) (vw C (recoverable x))"
    by (rule hoare_post [OF hoare_pre [OF remove_old_spec [of x "[]"]]])
       (auto simp: vw_def collected_def recoverable_def intro: exI [of _ "{}"])
  show ?thesis
    unfolding rename_collect_def bind_ret
    by (rule hoare_bind [OF st], rule hoare_bind [OF j], rule hoare_ret) simp
qed

section \<open>The whole rename\<close>

lemma session_iface: "cache_iface C (de_session C) session_cache (\<lambda>c w. w\<lparr>session_cache := c\<rparr>)"
proof -
  have "cache_ok de c (w\<lparr>session_cache := d\<rparr>) = cache_ok de c w" for de :: "byte list \<Rightarrow> 'v option" and c d w
    by (rule cache_ok_cong) simp_all
  moreover have "inodes_ok (w\<lparr>session_cache := d\<rparr>) = inodes_ok w" for d w
    by (rule inodes_ok_cong) simp_all
  ultimately show ?thesis by (simp add: cache_iface_def wf_world_def cache_ok_def inodes_ok_def)
qed

lemma hoare_read_session:
  assumes "\<And>v. P v \<Longrightarrow> (case v (session_path n) of None \<Rightarrow> Q None v
              | Some bs \<Rightarrow> (case de_session C bs of None \<Rightarrow> E Corrupt v | Some m \<Rightarrow> Q (Some m) v))"
    and "\<And>v. \<not> b \<Longrightarrow> P v \<Longrightarrow> E Io v \<and> K v"
  shows "hoare b (vw C P) (read_session C n) (\<lambda>r. vw C (Q r)) (\<lambda>e. vw C (E e)) (vw C K)"
  unfolding read_session_def get_session_def
proof (rule hoare_cache_get [OF session_iface])
  fix v bs m assume "P v" "v (session_path n) = Some bs" "de_session C bs = Some m"
  with assms(1) [of v] show "Q (Some m) v" by simp
next
  fix v assume "P v" "v (session_path n) = None"
  with assms(1) [of v] show "Q None v" by simp
next
  fix v bs assume "P v" "v (session_path n) = Some bs" "de_session C bs = None"
  with assms(1) [of v] show "E Corrupt v" by simp
qed (use assms(2) in auto)

lemma find_existing_none:
  assumes "\<And>p. p \<in> set ps \<Longrightarrow> v0 p = None \<and> \<not> is_tmp p"
  shows "hoare b (vw C (\<lambda>v. v = v0)) (find_existing ps) (\<lambda>r. vw C (\<lambda>v. v = v0 \<and> r = None)) E K"
  using assms
proof (induction ps)
  case (Cons p ps)
  have IH: "hoare b (vw C (\<lambda>v. v = v0)) (find_existing ps) (\<lambda>r. vw C (\<lambda>v. v = v0 \<and> r = None)) E K"
    using Cons by simp
  show ?case
    unfolding find_existing.simps
  proof (rule hoare_bind [OF hoare_exists [where Q = "\<lambda>ex v. v = v0 \<and> \<not> ex"]])
    fix ex
    show "hoare b (vw C (\<lambda>v. v = v0 \<and> \<not> ex)) (if ex then ret (Some p) else find_existing ps)
        (\<lambda>r. vw C (\<lambda>v. v = v0 \<and> r = None)) E K"
      using IH by (cases ex) (simp_all add: hoare_def vw_def)
  qed (use Cons.prems in auto)
qed (simp add: hoare_def ret_def vw_def)

lemma hoare_exists_known:
  "\<not> is_tmp p \<Longrightarrow> v0 p = None \<Longrightarrow>
     hoare b (vw C (\<lambda>v. v = v0)) (exists_file p) (\<lambda>ex. vw C (\<lambda>v. v = v0 \<and> ex = False)) E K"
  using hoare_exists [of p "\<lambda>v. v = v0" "\<lambda>ex v. v = v0 \<and> ex = False"] by auto

lemma hoare_known:
  "hoare b (vw C P) (f c) Q E K \<Longrightarrow> hoare b (vw C (\<lambda>v. P v \<and> r = c)) (f r) Q E K"
  by (cases "r = c") (simp_all add: hoare_def vw_def)

definition done_ok :: "bool \<Rightarrow> renaming \<Rightarrow> (path \<Rightarrow> byte list option) \<Rightarrow> bool" where
  "done_ok b x v \<longleftrightarrow> new_session x v \<or> \<not> b \<and> collecting x v"

text \<open>The journal is the first file the rename publishes.\<close>

lemma journal_spec:
  assumes "ready x"
  shows "hoare b (vw (r_codec x) (\<lambda>v. v = r_files x))
     (attempt (write_json (ser_journal (r_codec x)) J (r_entry x)))
     (\<lambda>r. vw (r_codec x) (\<lambda>v. case r of Inr _ \<Rightarrow> copied x [] [J] v
        | Inl _ \<Rightarrow> (if v J = None then v = r_files x else copied x [] [J] v) \<and> \<not> b))
     (\<lambda>_. vw (r_codec x) (\<lambda>v. precommit x v \<and> \<not> b)) (vw (r_codec x) (precommit x))"
proof -
  have ser: "ser_journal (r_codec x) (r_entry x) = Some (r_journal x)"
    using assms by (simp add: ready_def)
  have J: "(r_files x)(J \<mapsto> r_journal x) = overlay x {J}"
    using overlay_add [of x "{}" J] by simp
  have none: "r_files x J = None" using ready_free [OF assms] by simp
  have pre: "precommit x (overlay x {J})" "precommit x (r_files x)"
    using copied_precommit [OF copied_Nil] by (auto simp: precommit_def old_session_def)
  show ?thesis
    by (rule hoare_attempt [OF hoare_write_json [where ser = "ser_journal (r_codec x)" and x = "r_entry x",
            OF ser, where Q = "\<lambda>_. copied x [] [J]"
            and E = "\<lambda>_ v. (if v J = None then v = r_files x else copied x [] [J] v) \<and> \<not> b"]])
       (use J none pre copied_Nil [of x] in \<open>auto simp: published_J overlay_def\<close>)
qed

lemma journal_error_spec:
  assumes "ready x"
  shows "hoare b (vw C (\<lambda>v. if v J = None then v = r_files x else copied x [] [J] v))
     (bind_io (exists_file J) (\<lambda>ex. rename_precommit_error e (if ex then [J] else [])))
     Q (\<lambda>_. vw C (precommit x)) (vw C (precommit x))"
proof (rule hoare_bind [OF hoare_exists [where Q = "\<lambda>ex v. if ex then copied x [] [J] v else v = r_files x"]])
  fix ex :: bool
  have c: "hoare b (vw C (copied x [] [J])) (rename_precommit_error e [J]) Q
      (\<lambda>_. vw C (precommit x)) (vw C (precommit x))"
    by (rule copied_error [OF assms]) simp
  have n: "hoare b (vw C (\<lambda>v. v = r_files x)) (rename_precommit_error e []) Q
      (\<lambda>_. vw C (precommit x)) (vw C (precommit x))"
    by (simp add: rename_precommit_error_def hoare_def fail_def vw_def precommit_def old_session_def)
  show "hoare b (vw C (\<lambda>v. if ex then copied x [] [J] v else v = r_files x))
      (rename_precommit_error e (if ex then [J] else [])) Q (\<lambda>_. vw C (precommit x)) (vw C (precommit x))"
    using c n by (cases ex) simp_all
qed auto

lemma rename_body_spec:
  assumes "ready x"
  shows "hoare b (vw (r_codec x) (copied x [] [J]))
     (bind_io (copy_artifacts (\<lambda>_. ret ()) 0 (copies (r_from x) (r_to x)) [J]) (\<lambda>created.
      bind_io (rename_commit (r_codec x) (\<lambda>_. ret ()) (r_from x) (r_to x) (r_meta x) created) (\<lambda>_.
        rename_collect (\<lambda>_. ret ()) (r_from x) (r_to x))))
     (\<lambda>_. vw (r_codec x) (done_ok b x)) (\<lambda>_. vw (r_codec x) (\<lambda>v. precommit x v \<and> \<not> b)) (vw (r_codec x) (recoverable x))"
proof (rule hoare_bind)
  show "hoare b (vw (r_codec x) (copied x [] [J]))
     (copy_artifacts (\<lambda>_. ret ()) 0 (copies (r_from x) (r_to x)) [J])
     (\<lambda>r. vw (r_codec x) (copied x (dsts x) r)) (\<lambda>_. vw (r_codec x) (\<lambda>v. precommit x v \<and> \<not> b)) (vw (r_codec x) (recoverable x))"
    using copy_artifacts_spec [OF assms, of "[]" "copies (r_from x) (r_to x)" b "r_codec x" "[J]" 0]
    by (auto elim!: hoare_post simp: vw_def recoverable_def)
  fix created
  have c: "hoare b (vw (r_codec x) (copied x (dsts x) created))
      (rename_commit (r_codec x) (\<lambda>_. ret ()) (r_from x) (r_to x) (r_meta x) created)
      (\<lambda>_. vw (r_codec x) (\<lambda>v. v = without {sf x} (full x)))
      (\<lambda>_. vw (r_codec x) (\<lambda>v. precommit x v \<and> \<not> b)) (vw (r_codec x) (recoverable x))"
    using rename_commit_spec [OF assms, of created] by (fastforce simp: hoare_def vw_def)
  show "hoare b (vw (r_codec x) (copied x (dsts x) created))
     (bind_io (rename_commit (r_codec x) (\<lambda>_. ret ()) (r_from x) (r_to x) (r_meta x) created) (\<lambda>_.
        rename_collect (\<lambda>_. ret ()) (r_from x) (r_to x)))
     (\<lambda>_. vw (r_codec x) (done_ok b x)) (\<lambda>_. vw (r_codec x) (\<lambda>v. precommit x v \<and> \<not> b)) (vw (r_codec x) (recoverable x))"
    by (rule hoare_bind [OF c], rule hoare_post [OF rename_collect_spec [OF assms]])
       (auto simp: vw_def done_ok_def)
qed

lemma rename_session_spec:
  assumes "ready x"
  shows "hoare b (vw (r_codec x) (\<lambda>v. v = r_files x)) (rename_session (r_codec x) (r_from x) (r_to x))
     (\<lambda>_. vw (r_codec x) (done_ok b x)) (\<lambda>_. vw (r_codec x) (\<lambda>v. precommit x v \<and> \<not> b)) (vw (r_codec x) (recoverable x))"
proof -
  let ?C = "r_codec x" and ?v = "\<lambda>v. v = r_files x"
  let ?E = "\<lambda>_. vw ?C (\<lambda>v. precommit x v \<and> \<not> b)" and ?K = "vw ?C (recoverable x)"
  have weak: "hoare b P m Q E (vw ?C (precommit x)) \<Longrightarrow> hoare b P m Q E ?K"
    for P Q E and m :: "'z io" by (erule hoare_post) (auto simp: vw_def recoverable_def)
  have ps: "r_files x J = None" "r_files x (session_path (r_to x)) = None"
    "\<And>p. p \<in> set (map snd (copies (r_from x) (r_to x))) \<Longrightarrow> r_files x p = None \<and> \<not> is_tmp p"
    using ready_free [OF assms] not_tmp_members(2) [of _ x] by (auto simp: st_def dsts_def)
  have rd: "hoare b (vw ?C ?v) (read_session ?C (r_from x)) (\<lambda>m. vw ?C (\<lambda>v. ?v v \<and> m = Some (r_meta x))) ?E ?K"
    by (rule hoare_read_session [where E = "\<lambda>_ v. precommit x v \<and> \<not> b" and Q = "\<lambda>m v. ?v v \<and> m = Some (r_meta x)"])
       (use assms in \<open>auto simp: ready_def sf_def bind_eq_Some_conv recoverable_def precommit_def old_session_def\<close>)
  have jr: "hoare b (vw ?C ?v) (attempt (write_json (ser_journal ?C) J (r_entry x)))
      (\<lambda>r. vw ?C (\<lambda>v. case r of Inr _ \<Rightarrow> copied x [] [J] v
        | Inl _ \<Rightarrow> (if v J = None then v = r_files x else copied x [] [J] v) \<and> \<not> b)) ?E ?K"
    by (rule weak [OF journal_spec [OF assms]])
  show ?thesis
    unfolding rename_session_def rename_session_with_checkpoint_def
    apply (rule hoare_bind [OF rd], rule hoare_known, simp)
    apply (rule hoare_bind [OF hoare_exists_known], simp, simp add: ps, rule hoare_known, simp)
    apply (rule hoare_bind [OF hoare_exists_known], simp, simp add: ps, rule hoare_known, simp)
    apply (rule hoare_bind [OF find_existing_none], use ps(3) in blast, rule hoare_known, simp)
    apply (rule hoare_bind [OF jr [unfolded r_entry_def]])
    subgoal for r
      using weak [OF hoare_faulty [OF journal_error_spec [OF assms]]] rename_body_spec [OF assms]
      by (cases r) (simp_all split del: if_split)
    done
qed

section \<open>Recovery\<close>

text \<open>
  Removing a list of files, in terms of a family of states \<open>G ps f\<close>: the files \<open>ps\<close> are gone
  unless one removal has failed (\<open>f\<close>). Every state of the family has \<open>N\<close>.
\<close>

locale removal =
  fixes L :: "path list"
    and G :: "path list \<Rightarrow> bool \<Rightarrow> (path \<Rightarrow> byte list option) \<Rightarrow> bool"
    and N :: "(path \<Rightarrow> byte list option) \<Rightarrow> bool"
  assumes rm: "p \<in> set L \<Longrightarrow> G ps f v \<Longrightarrow> G (ps @ [p]) f (v(p := None))"
    and weak: "G ps f v \<Longrightarrow> G qs True v"
    and crash: "G ps f v \<Longrightarrow> N v"
    and tmp: "p \<in> set L \<Longrightarrow> \<not> is_tmp p"
begin

lemma remove_each_spec:
  "L = dn @ rest \<Longrightarrow> hoare b (vw C (\<lambda>v. G dn (fe \<noteq> None) v \<and> (fe \<noteq> None \<longrightarrow> \<not> b)))
     (remove_each rest fe) (\<lambda>_. vw C (G L False)) (\<lambda>_. vw C (\<lambda>v. N v \<and> \<not> b)) (vw C N)"
proof (induction rest arbitrary: dn fe)
  case Nil
  then show ?case
    using crash by (cases fe) (auto intro!: hoare_ret hoare_fail simp: vw_def)
next
  case (Cons p rest)
  have p: "p \<in> set L" using Cons.prems by simp
  let ?fe = "\<lambda>r. case (fe, r) of (None, Inl e) \<Rightarrow> Some e | _ \<Rightarrow> fe"
  show ?case
    unfolding remove_each.simps
  proof (rule hoare_bind [where R = "\<lambda>r. vw C (\<lambda>v. G (dn @ [p]) (?fe r \<noteq> None) v \<and> (?fe r \<noteq> None \<longrightarrow> \<not> b))"])
    show "hoare b (vw C (\<lambda>v. G dn (fe \<noteq> None) v \<and> (fe \<noteq> None \<longrightarrow> \<not> b))) (attempt (remove_durable p))
      (\<lambda>r. vw C (\<lambda>v. G (dn @ [p]) (?fe r \<noteq> None) v \<and> (?fe r \<noteq> None \<longrightarrow> \<not> b)))
      (\<lambda>_. vw C (\<lambda>v. N v \<and> \<not> b)) (vw C N)"
    proof (rule hoare_attempt [OF hoare_remove_durable [where
          Q = "\<lambda>_ v. G (dn @ [p]) (fe \<noteq> None) v \<and> (fe \<noteq> None \<longrightarrow> \<not> b)" and
          E = "\<lambda>_ v. G (dn @ [p]) True v \<and> \<not> b"]])
      fix v e assume nb: "\<not> b" and "G dn (fe \<noteq> None) v \<and> (fe \<noteq> None \<longrightarrow> \<not> b)"
      then have g: "G dn (fe \<noteq> None) v" by blast
      note g' = rm [OF p g]
      from nb weak [OF g] weak [OF g'] crash [OF g] crash [OF g']
      show "(G (dn @ [p]) True v \<and> \<not> b) \<and> (G (dn @ [p]) True (v(p := None)) \<and> \<not> b) \<and> N v \<and> N (v(p := None))"
        by blast
    qed (use rm [OF p] tmp [OF p] in \<open>auto simp: vw_def split: option.splits\<close>)
    show "hoare b (vw C (\<lambda>v. G (dn @ [p]) (?fe r \<noteq> None) v \<and> (?fe r \<noteq> None \<longrightarrow> \<not> b)))
        (remove_each rest (?fe r)) (\<lambda>_. vw C (G L False)) (\<lambda>_. vw C (\<lambda>v. N v \<and> \<not> b)) (vw C N)" for r
      using Cons.IH [of "dn @ [p]"] Cons.prems by simp
  qed
qed

text \<open>Cleaning up and then removing the journal, when that completes the recovery.\<close>

lemma finish_spec:
  assumes fin: "\<And>v. G L False v \<Longrightarrow> D (v(J := None))" and DN: "\<And>v. D v \<Longrightarrow> N v"
  shows "hoare b (vw C (G L False)) finish_recovery (\<lambda>r. vw C (\<lambda>v. if r then D v else N v \<and> \<not> b))
     (\<lambda>_. vw C (\<lambda>v. N v \<and> \<not> b)) (vw C N)"
  unfolding finish_recovery_def
proof (rule hoare_bind [where R = "\<lambda>r. vw C (\<lambda>v. if isl r then N v \<and> \<not> b else D v)"])
  show "hoare b (vw C (G L False)) (attempt (remove_durable J))
      (\<lambda>r. vw C (\<lambda>v. if isl r then N v \<and> \<not> b else D v)) (\<lambda>_. vw C (\<lambda>v. N v \<and> \<not> b)) (vw C N)"
    by (rule hoare_attempt [OF hoare_remove_durable [where Q = "\<lambda>_. D" and E = "\<lambda>_ v. N v \<and> \<not> b"]])
       (use fin DN crash in auto)
  show "hoare b (vw C (\<lambda>v. if isl r then N v \<and> \<not> b else D v))
      (ret (case r of Inl _ \<Rightarrow> False | Inr _ \<Rightarrow> True)) (\<lambda>r. vw C (\<lambda>v. if r then D v else N v \<and> \<not> b))
      (\<lambda>_. vw C (\<lambda>v. N v \<and> \<not> b)) (vw C N)" for r :: "io_error + unit"
    by (rule hoare_ret) (cases r; simp)
qed

lemma cleanup_then_finish_spec:
  assumes L: "L = [claude_path n, claude_settings_path n, scrollback_path n]"
    and fin: "\<And>v. G L False v \<Longrightarrow> D (v(J := None))" and DN: "\<And>v. D v \<Longrightarrow> N v"
  shows "hoare b (vw C (G [] False)) (cleanup_then_finish n) (\<lambda>r. vw C (\<lambda>v. if r then D v else N v \<and> \<not> b))
     (\<lambda>_. vw C (\<lambda>v. N v \<and> \<not> b)) (vw C N)"
  unfolding cleanup_then_finish_def
proof (rule hoare_bind)
  have "hoare b (vw C (G [] False)) (cleanup_rename_artifacts n) (\<lambda>_. vw C (G L False))
      (\<lambda>_. vw C (\<lambda>v. N v \<and> \<not> b)) (vw C N)"
    using remove_each_spec [of "[]" L b C None] by (simp add: cleanup_rename_artifacts_def L)
  then show "hoare b (vw C (G [] False)) (attempt (cleanup_rename_artifacts n))
      (\<lambda>r. vw C (case r of Inr _ \<Rightarrow> G L False | Inl _ \<Rightarrow> (\<lambda>v. N v \<and> \<not> b)))
      (\<lambda>_. vw C (\<lambda>v. N v \<and> \<not> b)) (vw C N)"
    by (rule hoare_attempt) auto
  show "hoare b (vw C (case r of Inr _ \<Rightarrow> G L False | Inl _ \<Rightarrow> (\<lambda>v. N v \<and> \<not> b)))
      (case r of Inl _ \<Rightarrow> ret False | Inr _ \<Rightarrow> finish_recovery)
      (\<lambda>r. vw C (\<lambda>v. if r then D v else N v \<and> \<not> b)) (\<lambda>_. vw C (\<lambda>v. N v \<and> \<not> b)) (vw C N)"
    for r :: "io_error + unit"
    using finish_spec [where D = D, OF fin DN] by (cases r) (auto intro: hoare_ret split del: if_split)
qed

end

definition uncopied :: "renaming \<Rightarrow> path list \<Rightarrow> bool \<Rightarrow> (path \<Rightarrow> byte list option) \<Rightarrow> bool" where
  "uncopied x ps failed v \<longleftrightarrow> ready x \<and> (\<exists>S. S \<subseteq> set (dsts x) \<and> v = overlay x (insert J S)
     \<and> (failed \<or> set ps \<inter> S = {}))"

lemma overlay_drop:
  "p \<noteq> J \<Longrightarrow> r_files x p = None \<Longrightarrow> (overlay x (insert J S))(p := None) = overlay x (insert J (S - {p}))"
  by (auto simp: overlay_def fun_eq_iff)

lemma uncopied_remove:
  assumes "p \<in> set (dsts x)" and "uncopied x ps failed v"
  shows "uncopied x (ps @ [p]) failed (v(p := None))"
proof -
  from assms(2) obtain S where S: "ready x" "S \<subseteq> set (dsts x)" "v = overlay x (insert J S)"
    "failed \<or> set ps \<inter> S = {}" by (auto simp: uncopied_def)
  have "p \<noteq> J" "r_files x p = None"
    using ready_distinct [OF S(1)] ready_free [OF S(1), of p] assms(1) by auto
  then have "v(p := None) = overlay x (insert J (S - {p}))" by (simp add: S(3) overlay_drop)
  with S show ?thesis unfolding uncopied_def by (intro conjI exI [of _ "S - {p}"]) auto
qed

interpretation dst: removal "dsts x" "uncopied x" "recoverable x" for x
proof
  show "p \<in> set (dsts x) \<Longrightarrow> uncopied x ps f v \<Longrightarrow> uncopied x (ps @ [p]) f (v(p := None))" for p ps f v
    by (rule uncopied_remove)
  show "uncopied x ps f v \<Longrightarrow> uncopied x qs True v" for ps f v qs by (auto simp: uncopied_def)
  show "uncopied x ps f v \<Longrightarrow> recoverable x v" for ps f v
    unfolding uncopied_def recoverable_def precommit_def copying_def by blast
qed (rule not_tmp_members(2))

interpretation src: removal "srcs x" "collected x" "recoverable x" for x
proof
  show "p \<in> set (srcs x) \<Longrightarrow> collected x ps f v \<Longrightarrow> collected x (ps @ [p]) f (v(p := None))" for p ps f v
    by (rule collected_remove)
  show "collected x ps f v \<Longrightarrow> collected x qs True v" for ps f v qs by (rule collected_fail)
  show "collected x ps f v \<Longrightarrow> recoverable x v" for ps f v
    by (simp add: recoverable_def collected_collecting)
qed (rule not_tmp_members(1))

text \<open>How recovery may end: \<open>True\<close> with one complete session, otherwise still recoverable.\<close>

definition recovered :: "bool \<Rightarrow> renaming \<Rightarrow> bool \<Rightarrow> (path \<Rightarrow> byte list option) \<Rightarrow> bool" where
  "recovered b x r v \<longleftrightarrow> (if r then old_session x v \<or> new_session x v else recoverable x v \<and> \<not> b)"

lemma finish_old:
  assumes "ready x"
  shows "hoare b (vw C (copying x)) (cleanup_then_finish (r_to x)) (\<lambda>r. vw C (recovered b x r))
     (\<lambda>_. vw C (\<lambda>v. recoverable x v \<and> \<not> b)) (vw C (recoverable x))"
proof -
  have fin: "old_session x (v(J := None))" if "uncopied x (dsts x) False v" for v
  proof -
    from that have "v = overlay x {J}" by (auto simp: uncopied_def Int_absorb1)
    with overlay_remove [of J "{}" x] ready_free [OF assms, of J] show ?thesis
      by (simp add: old_session_def)
  qed
  have "hoare b (vw C (uncopied x [] False)) (cleanup_then_finish (r_to x))
      (\<lambda>r. vw C (\<lambda>v. if r then old_session x v else recoverable x v \<and> \<not> b))
      (\<lambda>_. vw C (\<lambda>v. recoverable x v \<and> \<not> b)) (vw C (recoverable x))"
    by (rule dst.cleanup_then_finish_spec [OF srcs_dsts(2)])
       (use fin in \<open>auto simp: recoverable_def precommit_def\<close>)
  then show ?thesis
    by (rule hoare_post [OF hoare_pre])
       (use assms in \<open>auto simp: vw_def recovered_def uncopied_def copying_def split: if_splits\<close>)
qed

lemma finish_new:
  assumes "ready x"
  shows "hoare b (vw C (collecting x)) (cleanup_then_finish (r_from x)) (\<lambda>r. vw C (recovered b x r))
     (\<lambda>_. vw C (\<lambda>v. recoverable x v \<and> \<not> b)) (vw C (recoverable x))"
proof -
  have "hoare b (vw C (collected x [] False)) (cleanup_then_finish (r_from x))
      (\<lambda>r. vw C (\<lambda>v. if r then new_session x v else recoverable x v \<and> \<not> b))
      (\<lambda>_. vw C (\<lambda>v. recoverable x v \<and> \<not> b)) (vw C (recoverable x))"
    by (rule src.cleanup_then_finish_spec [OF srcs_dsts(1)])
       (use remove_journal [OF assms] in \<open>auto simp: recoverable_def dest!: collected_all\<close>)
  then show ?thesis
    by (rule hoare_post [OF hoare_pre])
       (auto simp: vw_def recovered_def collected_def collecting_def split: if_splits)
qed

lemma hoare_cases:
  "(\<And>v. P v \<Longrightarrow> P1 v \<or> P2 v) \<Longrightarrow> hoare b (vw C P1) m Q E K \<Longrightarrow> hoare b (vw C P2) m Q E K \<Longrightarrow>
     hoare b (vw C P) m Q E K"
  by (auto simp: hoare_def vw_def)

lemma phase_metas:
  assumes "ready x"
  shows "copying x v \<Longrightarrow> v (st x) = None \<and> v (sf x) = r_files x (sf x)"
    and "both x v \<Longrightarrow> v (st x) = Some (r_newmeta x) \<and> v (sf x) = r_files x (sf x)"
    and "collecting x v \<Longrightarrow> v (st x) = Some (r_newmeta x) \<and> v (sf x) = None"
    and "copying x v \<or> both x v \<or> collecting x v \<Longrightarrow> v J = Some (r_journal x)"
    and "old_session x v \<or> new_session x v \<Longrightarrow> v J = None"
proof -
  note d = ready_distinct [OF assms] and f = ready_free [OF assms] and p = published_st [OF assms]
  show "copying x v \<Longrightarrow> v (st x) = None \<and> v (sf x) = r_files x (sf x)"
    using d f by (auto simp: copying_def overlay_def)
  show "both x v \<Longrightarrow> v (st x) = Some (r_newmeta x) \<and> v (sf x) = r_files x (sf x)"
    using d p by (auto simp: both_def full_def overlay_def)
  show "collecting x v \<Longrightarrow> v (st x) = Some (r_newmeta x) \<and> v (sf x) = None"
    using d p by (auto simp: collecting_def without_def full_def overlay_def)
  show "copying x v \<or> both x v \<or> collecting x v \<Longrightarrow> v J = Some (r_journal x)"
    using d by (auto simp: copying_def both_def collecting_def without_def full_def overlay_def)
  show "old_session x v \<or> new_session x v \<Longrightarrow> v J = None"
    using d f by (auto simp: old_session_def new_session_def without_def overlay_def)
qed

text \<open>Reading the two metadata files in each phase.\<close>

lemma read_known:
  assumes P: "\<And>v. P v \<Longrightarrow> recoverable x v \<and> v (session_path n) = fo"
    and r: "case fo of None \<Rightarrow> r = None | Some bs \<Rightarrow> r = de_session C bs \<and> r \<noteq> None"
  shows "hoare b (vw C P) (read_session C n) (\<lambda>m. vw C (\<lambda>v. P v \<and> m = r))
     (\<lambda>_. vw C (\<lambda>v. recoverable x v \<and> \<not> b)) (vw C (recoverable x))"
proof (rule hoare_read_session [where E = "\<lambda>_ v. recoverable x v \<and> \<not> b" and Q = "\<lambda>m v. P v \<and> m = r"])
  fix v assume "P v"
  with P have "v (session_path n) = fo" by blast
  with \<open>P v\<close> r show "case v (session_path n) of None \<Rightarrow> P v \<and> None = r
      | Some bs \<Rightarrow> (case de_session C bs of None \<Rightarrow> recoverable x v \<and> \<not> b | Some m \<Rightarrow> P v \<and> Some m = r)"
    by (auto split: option.splits)
qed (use P in blast)

lemma ready_metas:
  assumes "ready x"
  shows "\<exists>bs. r_files x (sf x) = Some bs \<and> de_session (r_codec x) bs = Some (r_meta x)"
    and "de_session (r_codec x) (r_newmeta x) = Some ((r_meta x)\<lparr>sm_name := r_to x\<rparr>)"
  using assms by (auto simp: ready_def bind_eq_Some_conv)

text \<open>With the destination published, the source metadata goes and collection follows.\<close>

definition committed :: "renaming \<Rightarrow> (path \<Rightarrow> byte list option) \<Rightarrow> bool" where
  "committed x v \<longleftrightarrow> both x v \<or> collecting x v"

lemma committed_remove: "committed x v \<Longrightarrow> collecting x (v(sf x := None))"
  unfolding committed_def
proof (elim disjE)
  assume "both x v"
  then show ?thesis using collecting_sf [of x] by (simp only: both_def remove_sf)
next
  assume "collecting x v"
  then obtain D where D: "D \<subseteq> set (srcs x)" "v = without (insert (sf x) D) (full x)"
    by (auto simp: collecting_def)
  have "v(sf x := None) = v" unfolding D(2) by (simp add: without_def fun_eq_iff)
  with \<open>collecting x v\<close> show ?thesis by simp
qed

lemma recover_to:
  assumes "ready x"
  shows "hoare b (vw (r_codec x) (committed x))
     (bind_io (attempt (remove_durable (sf x))) (\<lambda>r.
        case r of
          Inl e \<Rightarrow> bind_io (read_session (r_codec x) (r_from x)) (\<lambda>still.
             case still of Some _ \<Rightarrow> fail e | None \<Rightarrow> cleanup_then_finish (r_from x))
        | Inr _ \<Rightarrow> cleanup_then_finish (r_from x)))
     (\<lambda>r. vw (r_codec x) (recovered b x r))
     (\<lambda>_. vw (r_codec x) (\<lambda>v. recoverable x v \<and> \<not> b)) (vw (r_codec x) (recoverable x))"
proof (rule hoare_bind)
  let ?C = "r_codec x"
  let ?Q = "\<lambda>r. vw ?C (recovered b x r)" and ?E = "\<lambda>_. vw ?C (\<lambda>v. recoverable x v \<and> \<not> b)" and ?K = "vw ?C (recoverable x)"
  have cr: "committed x v \<Longrightarrow> recoverable x v" for v
    by (auto simp: committed_def recoverable_def precommit_def)
  show "hoare b (vw ?C (committed x)) (attempt (remove_durable (sf x)))
      (\<lambda>r. vw ?C (\<lambda>v. if isl r then committed x v \<and> \<not> b else collecting x v)) ?E ?K"
    by (rule hoare_attempt [OF hoare_remove_durable [where Q = "\<lambda>_. collecting x"
          and E = "\<lambda>_ v. committed x v \<and> \<not> b"]])
       (use committed_remove cr not_tmp_members(3) [of x] in \<open>auto simp: committed_def recoverable_def\<close>)
  obtain bs where bs: "r_files x (sf x) = Some bs" "de_session ?C bs = Some (r_meta x)"
    using ready_metas(1) [OF assms] by blast
  have both: "hoare b (vw ?C (both x)) (bind_io (read_session ?C (r_from x)) (\<lambda>still.
             case still of Some _ \<Rightarrow> fail e | None \<Rightarrow> cleanup_then_finish (r_from x))) ?Q ?E ?K" if "\<not> b" for e
    by (rule hoare_bind [OF read_known [where x = x and r = "Some (r_meta x)" and fo = "Some bs"]])
       (use that bs phase_metas(2) [OF assms] in \<open>auto simp: sf_def recoverable_def precommit_def
          intro!: hoare_known [where f = "\<lambda>m. case m of Some _ \<Rightarrow> fail e | None \<Rightarrow> cleanup_then_finish (r_from x)"] hoare_fail
          simp: vw_def\<close>)
  have coll: "hoare b (vw ?C (collecting x)) (bind_io (read_session ?C (r_from x)) (\<lambda>still.
             case still of Some _ \<Rightarrow> fail e | None \<Rightarrow> cleanup_then_finish (r_from x))) ?Q ?E ?K" for e
    by (rule hoare_bind [OF read_known [where x = x and r = None and fo = None]])
       (use phase_metas(3) [OF assms] finish_new [OF assms] in \<open>auto simp: sf_def recoverable_def
          intro!: hoare_known [where f = "\<lambda>m. case m of Some _ \<Rightarrow> fail e | None \<Rightarrow> cleanup_then_finish (r_from x)"]\<close>)
  have err: "hoare b (vw ?C (\<lambda>v. committed x v \<and> \<not> b)) (bind_io (read_session ?C (r_from x)) (\<lambda>still.
             case still of Some _ \<Rightarrow> fail e | None \<Rightarrow> cleanup_then_finish (r_from x))) ?Q ?E ?K" for e
  proof (cases b)
    case False
    have "hoare b (vw ?C (committed x)) (bind_io (read_session ?C (r_from x)) (\<lambda>still.
             case still of Some _ \<Rightarrow> fail e | None \<Rightarrow> cleanup_then_finish (r_from x))) ?Q ?E ?K"
      by (rule hoare_cases [OF _ both [OF False] coll]) (simp add: committed_def)
    then show ?thesis by (rule hoare_pre) (simp add: vw_def)
  qed (simp add: hoare_def vw_def)
  show "hoare b (vw ?C (\<lambda>v. if isl r then committed x v \<and> \<not> b else collecting x v)) (case r of
          Inl e \<Rightarrow> bind_io (read_session (r_codec x) (r_from x)) (\<lambda>still.
             case still of Some _ \<Rightarrow> fail e | None \<Rightarrow> cleanup_then_finish (r_from x))
        | Inr _ \<Rightarrow> cleanup_then_finish (r_from x)) ?Q ?E ?K" for r :: "io_error + unit"
    using err finish_new [OF assms] by (cases r) simp_all
qed

lemma recover_copying:
  assumes "ready x"
  shows "hoare b (vw (r_codec x) (copying x)) (recover_journal (r_codec x) (r_entry x))
     (\<lambda>r. vw (r_codec x) (recovered b x r))
     (\<lambda>_. vw (r_codec x) (\<lambda>v. recoverable x v \<and> \<not> b)) (vw (r_codec x) (recoverable x))"
proof -
  obtain bs where bs: "r_files x (sf x) = Some bs" "de_session (r_codec x) bs = Some (r_meta x)"
    using ready_metas(1) [OF assms] by blast
  have P: "copying x v \<Longrightarrow> recoverable x v \<and> v (session_path (r_from x)) = Some bs"
    "copying x v \<Longrightarrow> recoverable x v \<and> v (session_path (r_to x)) = None" for v
    using phase_metas(1) [OF assms, of v] bs by (auto simp: recoverable_def precommit_def sf_def st_def)
  show ?thesis
    unfolding recover_journal_def
    apply (rule hoare_bind [OF read_known [where x = x and r = "Some (r_meta x)" and fo = "Some bs"]])
      apply (use P(1) in \<open>simp add: r_entry_def\<close>, use bs in simp, rule hoare_known)
    apply (rule hoare_bind [OF read_known [where x = x and r = None and fo = None]])
      apply (use P(2) in \<open>simp add: r_entry_def\<close>, simp, rule hoare_known)
    using finish_old [OF assms] by (simp add: r_entry_def)
qed

lemma recover_committed:
  assumes "ready x" and P: "\<And>v. P v \<Longrightarrow> committed x v"
    and fo: "\<And>v. P v \<Longrightarrow> v (sf x) = fo" and r: "case fo of None \<Rightarrow> r = None
       | Some bs \<Rightarrow> r = de_session (r_codec x) bs \<and> r = Some (r_meta x)"
  shows "hoare b (vw (r_codec x) P) (recover_journal (r_codec x) (r_entry x))
     (\<lambda>r. vw (r_codec x) (recovered b x r))
     (\<lambda>_. vw (r_codec x) (\<lambda>v. recoverable x v \<and> \<not> b)) (vw (r_codec x) (recoverable x))"
proof -
  have rc: "P v \<Longrightarrow> recoverable x v \<and> v (session_path (r_from x)) = fo"
    "P v \<Longrightarrow> recoverable x v \<and> v (session_path (r_to x)) = Some (r_newmeta x)" for v
    using P [of v] fo [of v] phase_metas(2,3) [OF assms(1), of v]
    by (auto simp: committed_def recoverable_def precommit_def sf_def st_def)
  have to: "hoare b (vw (r_codec x) P) (bind_io (attempt (remove_durable (sf x))) (\<lambda>r.
        case r of
          Inl e \<Rightarrow> bind_io (read_session (r_codec x) (r_from x)) (\<lambda>still.
             case still of Some _ \<Rightarrow> fail e | None \<Rightarrow> cleanup_then_finish (r_from x))
        | Inr _ \<Rightarrow> cleanup_then_finish (r_from x)))
     (\<lambda>r. vw (r_codec x) (recovered b x r))
     (\<lambda>_. vw (r_codec x) (\<lambda>v. recoverable x v \<and> \<not> b)) (vw (r_codec x) (recoverable x))"
    by (rule hoare_pre [OF recover_to [OF assms(1)]]) (use P in \<open>auto simp: vw_def\<close>)
  have rr: "r = None \<or> r = Some (r_meta x)" using r by (auto split: option.splits)
  show ?thesis
    unfolding recover_journal_def
    apply (rule hoare_bind [OF read_known [where x = x and r = r and fo = fo]])
      apply (use rc(1) in \<open>simp add: r_entry_def\<close>, use r in \<open>auto split: option.splits\<close>)[2]
    apply (rule hoare_known)
    apply (rule hoare_bind [OF read_known [where x = x and r = "Some ((r_meta x)\<lparr>sm_name := r_to x\<rparr>)"
            and fo = "Some (r_newmeta x)"]])
      apply (use rc(2) in \<open>simp add: r_entry_def\<close>, use ready_metas(2) [OF assms(1)] in simp)
    apply (rule hoare_known)
    using rr to by (auto simp: r_entry_def sf_def)
qed

lemma recover_spec:
  assumes "ready x"
  shows "hoare b (vw (r_codec x) (recoverable x)) (recover_pending_rename (r_codec x))
     (\<lambda>r. vw (r_codec x) (recovered b x r))
     (\<lambda>_. vw (r_codec x) (\<lambda>v. recoverable x v \<and> \<not> b)) (vw (r_codec x) (recoverable x))"
proof -
  let ?C = "r_codec x"
  let ?T = "\<lambda>P. hoare b (vw ?C P) (recover_pending_rename ?C) (\<lambda>r. vw ?C (recovered b x r))
     (\<lambda>_. vw ?C (\<lambda>v. recoverable x v \<and> \<not> b)) (vw ?C (recoverable x))"
  obtain bs where bs: "r_files x (sf x) = Some bs" "de_session ?C bs = Some (r_meta x)"
    using ready_metas(1) [OF assms] by blast
  have nj: "old_session x v \<Longrightarrow> v J \<noteq> Some bs" "new_session x v \<Longrightarrow> v J \<noteq> Some bs" for v bs
    using phase_metas(5) [OF assms, of v] by auto
  have none: "?T (\<lambda>v. old_session x v \<or> new_session x v)"
    unfolding recover_pending_rename_def
    by (rule hoare_bind [OF hoare_read_json [where E = "\<lambda>_ v. recoverable x v \<and> \<not> b"
          and Q = "\<lambda>m v. (old_session x v \<or> new_session x v) \<and> m = None"]])
       (use nj in \<open>auto simp: recoverable_def precommit_def recovered_def vw_def
          intro!: hoare_known [where c = None] hoare_ret\<close>)
  have some: "?T P" if P: "\<And>v. P v \<Longrightarrow> copying x v \<or> both x v \<or> collecting x v"
    and run: "hoare b (vw ?C P) (recover_journal ?C (r_entry x)) (\<lambda>r. vw ?C (recovered b x r))
     (\<lambda>_. vw ?C (\<lambda>v. recoverable x v \<and> \<not> b)) (vw ?C (recoverable x))" for P
  proof -
    have valid: "\<not> (rj_from (r_entry x) = rj_to (r_entry x) \<or> sm_name (rj_source (r_entry x)) \<noteq> rj_from (r_entry x)
        \<or> \<not> journal_name_ok (rj_from (r_entry x)) \<or> \<not> journal_name_ok (rj_to (r_entry x)))"
      and de: "de_journal ?C (r_journal x) = Some (r_entry x)"
      using assms by (auto simp: ready_def r_entry_def)
    have J: "P v \<Longrightarrow> v J = Some (r_journal x) \<and> recoverable x v" for v
      using P [of v] phase_metas(4) [OF assms, of v] by (auto simp: recoverable_def precommit_def)
    show ?thesis
      unfolding recover_pending_rename_def
    proof (rule hoare_bind [OF hoare_read_json [where E = "\<lambda>_ v. recoverable x v \<and> \<not> b"
          and Q = "\<lambda>m v. P v \<and> m = Some (r_entry x)"]])
      fix m
      show "hoare b (vw ?C (\<lambda>v. P v \<and> m = Some (r_entry x))) (case m of None \<Rightarrow> ret True | Some j \<Rightarrow>
           if rj_from j = rj_to j \<or> sm_name (rj_source j) \<noteq> rj_from j
              \<or> \<not> journal_name_ok (rj_from j) \<or> \<not> journal_name_ok (rj_to j)
           then fail InvalidJournal else recover_journal ?C j) (\<lambda>r. vw ?C (recovered b x r))
         (\<lambda>_. vw ?C (\<lambda>v. recoverable x v \<and> \<not> b)) (vw ?C (recoverable x))"
        using valid run by (intro hoare_known) simp
    qed (use J de in fastforce)+
  qed
  have "?T (copying x)" by (rule some [OF _ recover_copying [OF assms]]) simp
  moreover have "?T (both x)"
    by (rule some [OF _ recover_committed [OF assms, where fo = "Some bs" and r = "Some (r_meta x)"]])
       (use bs phase_metas(2) [OF assms] in \<open>auto simp: committed_def\<close>)
  moreover have "?T (collecting x)"
    by (rule some [OF _ recover_committed [OF assms, where fo = None and r = None]])
       (use phase_metas(3) [OF assms] in \<open>auto simp: committed_def\<close>)
  ultimately show ?thesis using none
    by (fastforce simp: hoare_def vw_def recoverable_def precommit_def)
qed

section \<open>Properties of the store\<close>

text \<open>The daemon restarting: the caches and the file counter are new, the files stay.\<close>

definition restart :: "nat \<Rightarrow> fault list \<Rightarrow> world \<Rightarrow> world" where
  "restart p fs w = w\<lparr>session_cache := (\<lambda>_. None), claude_cache := (\<lambda>_. None),
     seq := 0, pid := p, faults := fs\<rparr>"

text \<open>Startup recoveries in a row, each in a new process and each with its own faults.\<close>

fun recoveries :: "codec \<Rightarrow> (nat \<times> fault list) list \<Rightarrow> world \<Rightarrow> world" where
  "recoveries C [] w = w"
| "recoveries C ((p, fs) # rs) w =
     recoveries C rs (snd (recover_pending_rename C (restart p fs w)))"

lemma vw_restart: "vw C P w \<Longrightarrow> vw C P (restart p fs w)"
  by (auto simp: vw_def restart_def wf_world_def inodes_ok_def cache_ok_def view_def fun_eq_iff
      elim!: back_subst [of P])

lemma post_snd: "post False (\<lambda>a. vw C (Q a)) (\<lambda>e. vw C (E e)) (vw C K) x \<Longrightarrow>
    (\<And>a v. Q a v \<Longrightarrow> R v) \<Longrightarrow> (\<And>e v. E e v \<Longrightarrow> R v) \<Longrightarrow> (\<And>v. K v \<Longrightarrow> R v) \<Longrightarrow> vw C R (snd x)"
  by (cases x; cases "fst x") (auto simp: vw_def)

lemma recoveries_recoverable:
  assumes "ready x"
  shows "vw (r_codec x) (recoverable x) w \<Longrightarrow> vw (r_codec x) (recoverable x) (recoveries (r_codec x) rs w)"
proof (induction rs arbitrary: w)
  case (Cons pf rs)
  obtain p fs where pf: "pf = (p, fs)" by fastforce
  let ?w = "restart p fs w"
  from hoareD [OF recover_spec [OF assms, of False] vw_restart [OF Cons.prems, of p fs]]
  have "post False (\<lambda>r. vw (r_codec x) (recovered False x r)) (\<lambda>_. vw (r_codec x) (\<lambda>v. recoverable x v \<and> \<not> False))
      (vw (r_codec x) (recoverable x)) (recover_pending_rename (r_codec x) ?w)" by simp
  then have "vw (r_codec x) (recoverable x) (snd (recover_pending_rename (r_codec x) ?w))"
    by (rule post_snd) (auto simp: recovered_def recoverable_def precommit_def split: if_splits)
  from Cons.IH [OF this] pf show ?case by simp
qed simp

lemma recover_completes:
  assumes "ready x" and "vw (r_codec x) (recoverable x) w"
  shows "\<exists>w'. recover_pending_rename (r_codec x) (restart p [] w) = (Ok True, w')
           \<and> (old_session x (view w') \<or> new_session x (view w'))"
proof -
  have "post True (\<lambda>r. vw (r_codec x) (recovered True x r)) (\<lambda>_. vw (r_codec x) (\<lambda>v. recoverable x v \<and> \<not> True))
      (vw (r_codec x) (recoverable x)) (recover_pending_rename (r_codec x) (restart p [] w))"
    by (rule hoareD [OF recover_spec [OF assms(1)] vw_restart [OF assms(2)]]) (simp add: restart_def)
  then show ?thesis
    by (cases "recover_pending_rename (r_codec x) (restart p [] w)";
        cases "fst (recover_pending_rename (r_codec x) (restart p [] w))")
       (auto simp: vw_def recovered_def split: if_splits)
qed

lemma rename_recoverable:
  assumes "ready x" and "wf_world (r_codec x) w" and "view w = r_files x"
  shows "vw (r_codec x) (recoverable x) (snd (rename_session (r_codec x) (r_from x) (r_to x) w))"
proof -
  have "vw (r_codec x) (\<lambda>v. v = r_files x) w" using assms by (simp add: vw_def)
  from hoareD [OF rename_session_spec [OF assms(1), of False] this]
  have "post False (\<lambda>_. vw (r_codec x) (done_ok False x)) (\<lambda>_. vw (r_codec x) (\<lambda>v. precommit x v \<and> \<not> False))
      (vw (r_codec x) (recoverable x)) (rename_session (r_codec x) (r_from x) (r_to x) w)" by simp
  then show ?thesis
    by (rule post_snd) (auto simp: done_ok_def recoverable_def)
qed


text \<open>A concrete store with one agent session.\<close>

definition sample_meta :: "string \<Rightarrow> session_meta" where
  "sample_meta n = \<lparr>sm_name = n, sm_cwd = ''/'', sm_kind = Claude, sm_updated = 1, sm_title = None,
     sm_resume_as_claude = False, sm_resume_as_muse = False, sm_run_state = None, sm_slot = 1\<rparr>"

definition sample_codec :: "string \<Rightarrow> string \<Rightarrow> codec" where
  "sample_codec a b =
     \<lparr>ser_session = (\<lambda>m. if m = sample_meta a then Some [1] else if m = sample_meta b then Some [2] else None),
      de_session = (\<lambda>bs. if bs = [1] then Some (sample_meta a) else if bs = [2] then Some (sample_meta b) else None),
      ser_claude = (\<lambda>_. None), de_claude = (\<lambda>_. None),
      ser_journal = (\<lambda>_. Some [3]),
      de_journal = (\<lambda>bs. if bs = [3] then Some \<lparr>rj_from = a, rj_to = b, rj_source = sample_meta a\<rparr> else None),
      ser_events = (\<lambda>_. None), de_events = (\<lambda>_. None)\<rparr>"

definition sample_world :: "string \<Rightarrow> fault list \<Rightarrow> world" where
  "sample_world a fs =
     \<lparr>files = [session_path a \<mapsto> \<lparr>data = [1], ino = 0, mtime = 0\<rparr>,
               claude_path a \<mapsto> \<lparr>data = [9, 9], ino = 1, mtime = 0\<rparr>],
      next_ino = 2, clock = 0, pid = 10, seq = 0, faults = fs,
      session_cache = (\<lambda>_. None), claude_cache = (\<lambda>_. None)\<rparr>"

definition sample_renaming :: "string \<Rightarrow> string \<Rightarrow> renaming" where
  "sample_renaming a b =
     \<lparr>r_codec = sample_codec a b, r_from = a, r_to = b,
      r_files = [session_path a \<mapsto> [1], claude_path a \<mapsto> [9, 9]],
      r_meta = sample_meta a, r_journal = [3], r_newmeta = [2]\<rparr>"

lemma sample_ready: "ready (sample_renaming ''a'' ''b'')"
  by (simp add: ready_def sample_renaming_def sample_codec_def sample_meta_def r_entry_def
      journal_name_ok_def sf_def st_def dsts_def copies_def path_defs)

lemma sample_wf: "wf_world C (sample_world ''a'' fs)"
  by (auto simp: wf_world_def inodes_ok_def cache_ok_def sample_world_def path_defs split: if_splits)

lemma sample_view: "view (sample_world ''a'' fs) = r_files (sample_renaming ''a'' ''b'')"
  by (rule ext) (auto simp: view_def sample_world_def sample_renaming_def)




end
