(* ===== verification/StoreLaws.thy ===== *)
theory StoreLaws
  imports Rename "HOL-Library.Countable"
begin

text \<open>
  Laws of the state store's remaining operations: all-or-nothing writes, metadata
  read back through the parse cache, the sessions a rename endangers by their names,
  and the bounded journal of recovery events.
\<close>

section \<open>Writes and reads\<close>

text \<open>C12: an atomic write replaces the visible contents of exactly one file or of none: when it
  returns an error or the process dies inside it, the file holds its old or its new contents,
  and no other file changes.\<close>

theorem atomic_write_all_or_nothing:
  assumes "wf_world C w" and "\<not> is_tmp p"
  shows "case atomic_write p bytes w of
           (Ok _, w') \<Rightarrow> view w' = (view w)(p \<mapsto> bytes)
         | (_, w') \<Rightarrow> view w' = view w \<or> view w' = (view w)(p \<mapsto> bytes)"
proof -
  let ?v = "view w"
  have "hoare False (vw C (\<lambda>v. v = ?v)) (atomic_write p bytes) (\<lambda>_. vw C (\<lambda>v. v = ?v(p \<mapsto> bytes)))
      (\<lambda>_. vw C (\<lambda>v. v = ?v \<or> v = ?v(p \<mapsto> bytes))) (vw C (\<lambda>v. v = ?v \<or> v = ?v(p \<mapsto> bytes)))"
    by (rule hoare_atomic_write) (use assms(2) in auto)
  from hoareD [OF this, of w] assms(1) show ?thesis
    by (auto simp: vw_def post_def split: prod.splits outcome.splits)
qed

theorem atomic_write_all_or_nothing_witness:
  "case atomic_write (session_path ''a'') [7] (sample_world ''a'' [NoFault, NoFault, NoFault, NoFault, Fails 0]) of
     (Ok _, w') \<Rightarrow> view w' = (view (sample_world ''a'' []))(session_path ''a'' \<mapsto> [7])
   | (_, w') \<Rightarrow> view w' = view (sample_world ''a'' [])
       \<or> view w' = (view (sample_world ''a'' []))(session_path ''a'' \<mapsto> [7])"
proof -
  have v: "view (sample_world ''a'' [NoFault, NoFault, NoFault, NoFault, Fails 0]) = view (sample_world ''a'' [])"
    by (simp add: sample_view)
  show ?thesis
    using atomic_write_all_or_nothing [OF sample_wf [of undefined "[NoFault, NoFault, NoFault, NoFault, Fails 0]"],
        where p = "session_path ''a''" and bytes = "[7]"]
    by (simp only: v not_tmp_paths simp_thms)
qed

definition sess_roundtrip :: "codec \<Rightarrow> session_meta \<Rightarrow> bool" where
  "sess_roundtrip C m \<longleftrightarrow> (case ser_session C m of None \<Rightarrow> False | Some bs \<Rightarrow> de_session C bs = Some m)"



section \<open>Names that end in .settings\<close>

lemma settings_collision: "claude_path (a @ ''.settings'') = claude_settings_path a"
  by (simp add: path_defs)

text \<open>
  Deterministic runs: from the visible files \<open>v\<close> and without faults, \<open>m\<close> returns \<open>r\<close> and
  leaves \<open>v'\<close>.
\<close>

definition does :: "codec \<Rightarrow> 'a io \<Rightarrow> (path \<Rightarrow> byte list option) \<Rightarrow> 'a \<Rightarrow> (path \<Rightarrow> byte list option) \<Rightarrow> bool" where
  "does C m v r v' \<longleftrightarrow> hoare True (vw C (\<lambda>u. u = v)) m (\<lambda>a. vw C (\<lambda>u. u = v' \<and> a = r))
     (\<lambda>_ _. False) (\<lambda>_. False)"

lemma does_ret: "does C (ret r) v r v"
  by (simp add: does_def hoare_def ret_def vw_def)

lemma does_bind: "does C m v r v' \<Longrightarrow> does C (f r) v' s v'' \<Longrightarrow> does C (bind_io m f) v s v''"
  unfolding does_def
  by (erule hoare_bind) (auto simp: hoare_def vw_def)

lemma does_attempt: "does C m v r v' \<Longrightarrow> does C (attempt m) v (Inr r) v'"
  unfolding does_def by (erule hoare_attempt) (auto simp: vw_def)

lemma does_write: "\<not> is_tmp p \<Longrightarrow> does C (atomic_write p bs) v () (v(p \<mapsto> bs))"
  unfolding does_def
  by (rule hoare_post [OF hoare_atomic_write [where Q = "\<lambda>_ u. u = v(p \<mapsto> bs)" and E = "\<lambda>_ _. False"
          and K = "\<lambda>_. False"]]) (auto simp: vw_def)

lemma does_write_json:
  "ser x = Some bs \<Longrightarrow> \<not> is_tmp p \<Longrightarrow> does C (write_json ser p x) v () (v(p \<mapsto> bs))"
  by (simp add: write_json_def does_write)

lemma does_remove: "\<not> is_tmp p \<Longrightarrow> does C (remove_durable p) v () (v(p := None))"
  unfolding does_def
  by (rule hoare_post [OF hoare_remove_durable [where Q = "\<lambda>_ u. u = v(p := None)" and E = "\<lambda>_ _. False"
          and K = "\<lambda>_. False"]]) (auto simp: vw_def)

lemma does_exists: "\<not> is_tmp p \<Longrightarrow> does C (exists_file p) v (v p \<noteq> None) v"
  unfolding does_def
  by (rule hoare_exists) auto

lemma does_read:
  "\<not> is_tmp p \<Longrightarrow> does C (attempt (read_file p)) v (case v p of None \<Rightarrow> Inl NotFound | Some bs \<Rightarrow> Inr bs) v"
  unfolding does_def
  by (rule hoare_attempt [OF hoare_post [OF hoare_read_file [where P = "\<lambda>u. u = v"
          and Q = "\<lambda>bs u. u = v \<and> v p = Some bs" and E = "\<lambda>e u. u = v \<and> v p = None \<and> e = NotFound"
          and K = "\<lambda>_. False"]]]) (auto simp: vw_def)

lemma does_read_session:
  "v (session_path n) = Some bs \<Longrightarrow> de_session C bs = Some m \<Longrightarrow> does C (read_session C n) v (Some m) v"
  unfolding does_def
  by (rule hoare_post [OF hoare_read_session [where P = "\<lambda>u. u = v" and Q = "\<lambda>r u. u = v \<and> r = Some m"
          and E = "\<lambda>_ _. False" and K = "\<lambda>_. False"]]) (auto simp: vw_def)

lemma does_remove_each: "\<not> is_tmp p \<Longrightarrow> does C (attempt (remove_durable p)) v (Inr ()) (v(p := None))"
  by (rule does_attempt [OF does_remove])

lemma doesD:
  "does C m v r v' \<Longrightarrow> wf_world C w \<Longrightarrow> faults w = [] \<Longrightarrow> view w = v \<Longrightarrow>
     \<exists>w'. m w = (Ok r, w') \<and> view w' = v' \<and> wf_world C w' \<and> faults w' = []"
  unfolding does_def
  by (drule hoareD [of _ _ _ _ _ _ w])
     (auto simp: vw_def post_def split: prod.splits outcome.splits)

lemma does_copy_hit:
  "v old = Some bs \<Longrightarrow> \<not> is_tmp old \<Longrightarrow> \<not> is_tmp new \<Longrightarrow>
     does C (copy_artifacts (\<lambda>_. ret ()) (i + 1) rest (created @ [new])) (v(new \<mapsto> bs)) r v' \<Longrightarrow>
     does C (copy_artifacts (\<lambda>_. ret ()) i ((old, new) # rest) created) v r v'"
  unfolding copy_artifacts.simps
  by (rule does_bind [OF does_read]) (auto intro!: does_bind [OF does_attempt [OF does_write]])

lemma does_copy_miss:
  "v old = None \<Longrightarrow> \<not> is_tmp old \<Longrightarrow>
     does C (copy_artifacts (\<lambda>_. ret ()) (i + 1) rest created) v r v' \<Longrightarrow>
     does C (copy_artifacts (\<lambda>_. ret ()) i ((old, new) # rest) created) v r v'"
  unfolding copy_artifacts.simps by (rule does_bind [OF does_read]) auto

lemma does_remove_old:
  "\<not> is_tmp old \<Longrightarrow> does C (remove_old (\<lambda>_. ret ()) (i + 1) rest failed) (v(old := None)) r v' \<Longrightarrow>
     does C (remove_old (\<lambda>_. ret ()) i ((old, new) # rest) failed) v r v'"
  unfolding remove_old.simps by (rule does_bind [OF does_remove_each]) auto

lemma does_find_none:
  "list_all (\<lambda>p. v p = None \<and> \<not> is_tmp p) ps \<Longrightarrow> does C (find_existing ps) v None v"
  by (induction ps) (auto intro: does_ret does_bind [OF does_exists])

lemma does_commit:
  assumes "ser_session C (meta\<lparr>sm_name := to\<rparr>) = Some bs"
  shows "does C (rename_commit C (\<lambda>_. ret ()) from to meta created) v ()
           ((v(session_path to \<mapsto> bs))(session_path from := None))"
  unfolding rename_commit_def write_session_def
  by (rule does_bind [OF does_attempt [OF does_write_json [where ser = "ser_session C" and x = "meta\<lparr>sm_name := to\<rparr>", OF assms]]])
     (auto intro!: does_bind [OF does_remove_each] does_ret)

text \<open>The run of a rename of an agent session without settings and scrollback to its \<open>.settings\<close> name.\<close>

lemma does_rename_settings:
  assumes v: "v (session_path a) = Some mb" "v (claude_path a) = Some rec" "v (claude_settings_path a) = None"
      "v (scrollback_path a) = None" "v rename_journal_path = None"
      "v (session_path b) = None" "v (claude_settings_path b) = None" "v (scrollback_path b) = None"
    and b: "b = a @ ''.settings''" and meta: "de_session C mb = Some meta"
    and ser: "ser_journal C \<lparr>rj_from = a, rj_to = b, rj_source = meta\<rparr> = Some jb"
      "ser_session C (meta\<lparr>sm_name := b\<rparr>) = Some tb"
  shows "\<exists>v'. does C (rename_session C a b) v () v' \<and> v' (session_path b) = Some tb
           \<and> v' (claude_path a) = None \<and> v' (claude_path b) = None"
proof -
  have cb: "claude_path b = claude_settings_path a" by (simp add: b settings_collision)
  have ne: "session_path a \<noteq> session_path b" "claude_path a \<noteq> claude_settings_path a"
    "claude_settings_path a \<noteq> claude_settings_path b" "claude_path a \<noteq> claude_settings_path b"
    by (simp_all add: b path_defs)
  let ?v1 = "v(rename_journal_path \<mapsto> jb)"
  let ?v2 = "?v1(claude_settings_path a \<mapsto> rec)"
  let ?v3 = "?v2(claude_settings_path b \<mapsto> rec)"
  let ?v4 = "(?v3(session_path b \<mapsto> tb))(session_path a := None)"
  let ?v5 = "?v4(claude_path a := None)"
  let ?v6 = "?v5(claude_settings_path a := None)"
  let ?v7 = "?v6(scrollback_path a := None)"
  define vf where "vf = ?v7(rename_journal_path := None)"
  have copy: "\<exists>cs. does C (copy_artifacts (\<lambda>_. ret ()) 0 (copies a b) [rename_journal_path]) ?v1 cs ?v3"
    unfolding copies_def cb
    apply (rule exI, rule does_copy_hit [where bs = rec], use v ne in \<open>simp add: path_defs\<close>, simp, simp)
    apply (rule does_copy_hit [where bs = rec], simp, simp, simp)
    apply (rule does_copy_miss, use v ne in \<open>simp add: path_defs\<close>, simp)
    by (simp, rule does_ret)
  then obtain cs where copy: "does C (copy_artifacts (\<lambda>_. ret ()) 0 (copies a b) [rename_journal_path]) ?v1 cs ?v3"
    by blast
  have collect: "does C (rename_collect (\<lambda>_. ret ()) a b) ?v4 () vf"
    unfolding rename_collect_def bind_ret vf_def
    apply (rule does_bind)
     apply (unfold copies_def)
     apply (rule does_remove_old, simp)+
     apply (simp only: remove_old.simps, rule does_ret)
    apply (simp only: if_False, rule does_bind [OF does_remove_each], simp)
    by (rule does_ret)
  have run: "does C (rename_session C a b) v () vf"
    unfolding rename_session_def rename_session_with_checkpoint_def
    apply (rule does_bind [OF does_read_session [where v = v, OF v(1) meta]])
    apply (simp, rule does_bind [OF does_exists], simp, simp add: v)
    apply (rule does_bind [OF does_exists], simp, simp add: v)
    apply (rule does_bind [OF does_find_none], use v in \<open>simp add: copies_def cb\<close>, simp)
    apply (rule does_bind [OF does_attempt [OF does_write_json [where ser = "ser_journal C"
          and x = "\<lparr>rj_from = a, rj_to = b, rj_source = meta\<rparr>", OF ser(1)]]], simp, simp)
    by (rule does_bind [OF copy], rule does_bind [OF does_commit [OF ser(2)]], rule collect)
  show ?thesis
    by (intro exI conjI, rule run) (use ne b in \<open>simp_all add: vf_def cb path_defs\<close>)
qed

text \<open>The agent record of a session named \<open>a.settings\<close> is the settings file of session \<open>a\<close>: renaming
  the agent session \<open>a\<close> to \<open>a.settings\<close> reports success and removes the agent record, under the
  old name and under the new one.\<close>

theorem rename_loses_agent_record:
  "case rename_session (sample_codec ''a'' ''a.settings'') ''a'' ''a.settings'' (sample_world ''a'' []) of
     (r, w') \<Rightarrow> r = Ok () \<and> view (sample_world ''a'' []) (claude_path ''a'') = Some [9, 9]
       \<and> view w' (session_path ''a.settings'') = Some [2]
       \<and> view w' (claude_path ''a'') = None \<and> view w' (claude_path ''a.settings'') = None"
proof -
  let ?C = "sample_codec ''a'' ''a.settings''" and ?w = "sample_world ''a'' []"
  have "\<exists>v'. does ?C (rename_session ?C ''a'' ''a.settings'') (view ?w) () v' \<and> v' (session_path ''a.settings'') = Some [2]
      \<and> v' (claude_path ''a'') = None \<and> v' (claude_path ''a.settings'') = None"
    by (rule does_rename_settings [where mb = "[1]" and rec = "[9, 9]" and jb = "[3]" and meta = "sample_meta ''a''"])
       (simp_all add: sample_view sample_renaming_def sample_codec_def sample_meta_def path_defs)
  then obtain v' where v': "does ?C (rename_session ?C ''a'' ''a.settings'') (view ?w) () v'"
    "v' (session_path ''a.settings'') = Some [2]" "v' (claude_path ''a'') = None" "v' (claude_path ''a.settings'') = None"
    by blast
  have "faults ?w = []" by (simp add: sample_world_def)
  from doesD [OF v'(1) sample_wf this refl] obtain w' where
    "rename_session ?C ''a'' ''a.settings'' ?w = (Ok (), w')" "view w' = v'" by blast
  with v' show ?thesis by (simp add: sample_view sample_renaming_def path_defs)
qed

section \<open>The journal of recovery events\<close>

definition RECOVERY_EVENT_CAP :: nat where "RECOVERY_EVENT_CAP = 500"
definition RECOVERY_DETAIL_CAP :: nat where "RECOVERY_DETAIL_CAP = 512"

text \<open>\<^verbatim>\<open>chars().take(n).collect()\<close>: the bytes of the first \<open>n\<close> characters.\<close>

fun take_chars :: "nat \<Rightarrow> string \<Rightarrow> string" where
  "take_chars 0 s = []"
| "take_chars (Suc n) s =
     (case utf8_head (map of_char s) of
        None \<Rightarrow> []
      | Some (_, k) \<Rightarrow> take k s @ take_chars n (drop k s))"

definition next_sequence :: "recovery_event list \<Rightarrow> nat" where
  "next_sequence events =
     (if events = [] then 1 else max ((ev_sequence (last events) + 1) mod 2 ^ 32) 1)"

definition normalize_event :: "recovery_event list \<Rightarrow> recovery_event \<Rightarrow> recovery_event" where
  "normalize_event events e =
     e\<lparr>ev_sequence := next_sequence events,
       ev_level := (if ev_level e \<in> {''warning'', ''error''} then ev_level e else ''info''),
       ev_event := take_chars 80 (ev_event e),
       ev_session := map_option (take_chars 200) (ev_session e),
       ev_detail := take_chars RECOVERY_DETAIL_CAP (ev_detail e)\<rparr>"

definition read_events :: "codec \<Rightarrow> recovery_event list io" where
  "read_events C = bind_io (read_json (de_events C) recovery_events_path) (\<lambda>r.
     ret (case r of None \<Rightarrow> [] | Some es \<Rightarrow> es))"

definition append_recovery_event :: "codec \<Rightarrow> recovery_event \<Rightarrow> recovery_event io" where
  "append_recovery_event C e =
     bind_io (read_events C) (\<lambda>events.
       let e' = normalize_event events e;
           events' = events @ [e'];
           kept = (if length events' > RECOVERY_EVENT_CAP
                   then drop (length events' - RECOVERY_EVENT_CAP) events' else events')
       in bind_io (write_json (ser_events C) recovery_events_path kept) (\<lambda>_. ret e'))"

definition list_recovery_events :: "codec \<Rightarrow> nat \<Rightarrow> recovery_event list io" where
  "list_recovery_events C limit =
     bind_io (read_events C) (\<lambda>events.
       let n = (if limit = 0 then 200 else min limit RECOVERY_EVENT_CAP)
       in ret (drop (length events - n) events))"

definition clear_recovery_events :: "codec \<Rightarrow> unit io" where
  "clear_recovery_events C = write_json (ser_events C) recovery_events_path []"

text \<open>
  The serializer writes every list of events and reads back what it wrote. The journal of a
  store is then the list its file holds.
\<close>

definition events_codec :: "codec \<Rightarrow> bool" where
  "events_codec C \<longleftrightarrow> (\<forall>es. \<exists>bs. ser_events C es = Some bs \<and> de_events C bs = Some es)"

definition journal_of :: "codec \<Rightarrow> (path \<Rightarrow> byte list option) \<Rightarrow> recovery_event list option" where
  "journal_of C v = (case v recovery_events_path of None \<Rightarrow> Some [] | Some bs \<Rightarrow> de_events C bs)"

definition kept_events :: "recovery_event list \<Rightarrow> recovery_event \<Rightarrow> recovery_event list" where
  "kept_events es e = last_n RECOVERY_EVENT_CAP (es @ [normalize_event es e])"

lemma does_read_events:
  assumes "journal_of C v = Some es"
  shows "does C (read_events C) v es v"
  unfolding read_events_def
proof (rule does_bind)
  show "does C (read_json (de_events C) recovery_events_path) v (map_option (\<lambda>_. es) (v recovery_events_path)) v"
    unfolding does_def
    by (rule hoare_post [OF hoare_read_json [where P = "\<lambda>u. u = v" and E = "\<lambda>_ _. False" and K = "\<lambda>_. False"
            and Q = "\<lambda>r u. u = v \<and> r = map_option (\<lambda>_. es) (v recovery_events_path)"]])
       (use assms in \<open>auto simp: vw_def journal_of_def split: option.splits\<close>)
  show "does C (ret (case map_option (\<lambda>_. es) (v recovery_events_path) of None \<Rightarrow> [] | Some es \<Rightarrow> es)) v es v"
    using assms by (auto simp: journal_of_def does_ret split: option.splits)
qed

lemma does_append_event:
  assumes "events_codec C" and "journal_of C v = Some es"
  shows "\<exists>v'. does C (append_recovery_event C e) v (normalize_event es e) v'
           \<and> journal_of C v' = Some (kept_events es e)
           \<and> (\<forall>p. p \<noteq> recovery_events_path \<longrightarrow> v' p = v p)"
proof -
  obtain bs where bs: "ser_events C (kept_events es e) = Some bs" "de_events C bs = Some (kept_events es e)"
    using assms(1) by (auto simp: events_codec_def)
  have k: "(if length (es @ [normalize_event es e]) > RECOVERY_EVENT_CAP
      then drop (length (es @ [normalize_event es e]) - RECOVERY_EVENT_CAP) (es @ [normalize_event es e])
      else es @ [normalize_event es e]) = kept_events es e"
    by (simp add: kept_events_def last_n_def)
  have "does C (append_recovery_event C e) v (normalize_event es e) (v(recovery_events_path \<mapsto> bs))"
    unfolding append_recovery_event_def Let_def
    apply (rule does_bind [OF does_read_events [OF assms(2)]])
    apply (subst k)
    by (rule does_bind [OF does_write_json [where ser = "ser_events C", OF bs(1)]]) (simp, rule does_ret)
  with bs(2) show ?thesis by (intro exI conjI) (auto simp: journal_of_def)
qed

subsection \<open>The journal as a bounded log\<close>

definition log_append :: "codec \<Rightarrow> recovery_event \<Rightarrow> world \<Rightarrow> world option" where
  "log_append C e w = (case append_recovery_event C e w of (Ok _, w') \<Rightarrow> Some w' | _ \<Rightarrow> None)"

definition log_contents :: "codec \<Rightarrow> world \<Rightarrow> recovery_event list" where
  "log_contents C w = (case journal_of C (view w) of None \<Rightarrow> [] | Some es \<Rightarrow> es)"

definition log_wf :: "codec \<Rightarrow> world \<Rightarrow> bool" where
  "log_wf C w \<longleftrightarrow> events_codec C \<and> wf_world C w \<and> faults w = []
     \<and> (case journal_of C (view w) of None \<Rightarrow> False | Some es \<Rightarrow> length es \<le> RECOVERY_EVENT_CAP)"

lemma log_append_step:
  assumes "log_wf C w"
  shows "\<exists>w'. log_append C e w = Some w' \<and> log_wf C w' \<and> log_contents C w' = kept_events (log_contents C w) e"
proof -
  from assms obtain es where es: "journal_of C (view w) = Some es" "events_codec C" "wf_world C w" "faults w = []"
    by (auto simp: log_wf_def split: option.splits)
  from does_append_event [OF es(2,1), of e] obtain v' where
    v': "does C (append_recovery_event C e) (view w) (normalize_event es e) v'"
        "journal_of C v' = Some (kept_events es e)" by blast
  from doesD [OF v'(1) es(3,4) refl] obtain w' where
    w': "append_recovery_event C e w = (Ok (normalize_event es e), w')" "view w' = v'" "wf_world C w'" "faults w' = []"
    by blast
  have "length (kept_events es e) \<le> RECOVERY_EVENT_CAP" by (simp add: kept_events_def)
  with w' v' es show ?thesis by (simp add: log_append_def log_wf_def log_contents_def)
qed

interpretation events: bounded_log "log_append C" "log_contents C"
  "\<lambda>w e. [normalize_event (log_contents C w) e]" "\<lambda>_. RECOVERY_EVENT_CAP" "log_wf C"
  for C
proof
  fix w e assume w: "log_wf C w"
  from log_append_step [OF w] show "\<exists>w'. log_append C e w = Some w'" by blast
  fix w' assume a: "log_append C e w = Some w'"
  from a log_append_step [OF w, of e] show "log_wf C w'" by auto
  show "log_contents C w' = last_n RECOVERY_EVENT_CAP (log_contents C w @ [normalize_event (log_contents C w) e])"
    using a log_append_step [OF w, of e] by (auto simp: kept_events_def)
next
  fix w assume "log_wf C w"
  then show "length (log_contents C w) \<le> RECOVERY_EVENT_CAP"
    by (auto simp: log_wf_def log_contents_def split: option.splits)
qed simp

lemma last_n_upt: "last_n k [a..<b] = [max a (b - k)..<b]"
proof -
  have "a + (b - a - k) = max a (b - k)" by (auto simp: max_def)
  then show ?thesis by (simp add: last_n_def)
qed

lemma map_last_n: "map f (last_n k xs) = last_n k (map f xs)"
  by (simp add: last_n_def drop_map)

lemma kept_sequences:
  assumes "map ev_sequence es = [Suc n - min RECOVERY_EVENT_CAP n..<Suc n]" and "n + 1 < 2 ^ 32"
  shows "map ev_sequence (kept_events es e)
           = [Suc (Suc n) - min RECOVERY_EVENT_CAP (Suc n)..<Suc (Suc n)]"
proof -
  have "next_sequence es = Suc n"
  proof (cases n)
    case 0
    with assms(1) have "es = []" by simp
    with 0 show ?thesis by (simp add: next_sequence_def)
  next
    case (Suc m)
    with assms(1) have ne: "es \<noteq> []" by (auto simp: RECOVERY_EVENT_CAP_def)
    then have "ev_sequence (last es) = last (map ev_sequence es)" by (simp add: last_map)
    also have "\<dots> = n" unfolding assms(1) using Suc by (simp add: RECOVERY_EVENT_CAP_def)
    finally show ?thesis using ne assms(2) by (simp add: next_sequence_def)
  qed
  then have "map ev_sequence (kept_events es e)
      = last_n RECOVERY_EVENT_CAP ([Suc n - min RECOVERY_EVENT_CAP n..<Suc n] @ [Suc n])"
    by (simp only: kept_events_def map_last_n map_append assms(1)) (simp add: normalize_event_def)
  also have "[Suc n - min RECOVERY_EVENT_CAP n..<Suc n] @ [Suc n] = [Suc n - min RECOVERY_EVENT_CAP n..<Suc (Suc n)]"
    by simp
  also have "last_n RECOVERY_EVENT_CAP \<dots> = [max (Suc n - min RECOVERY_EVENT_CAP n) (Suc (Suc n) - RECOVERY_EVENT_CAP)..<Suc (Suc n)]"
    by (rule last_n_upt)
  also have "max (Suc n - min RECOVERY_EVENT_CAP n) (Suc (Suc n) - RECOVERY_EVENT_CAP)
      = Suc (Suc n) - min RECOVERY_EVENT_CAP (Suc n)"
    by (auto simp: RECOVERY_EVENT_CAP_def max_def min_def)
  finally show ?thesis .
qed

text \<open>Starting from a store without a journal, any sequence of appended recovery events (short of
  the 32-bit counter) is accepted, and the journal then holds exactly the newest 500 of them under
  consecutive sequence numbers that end at the number of events ever appended.\<close>

theorem recovery_journal_newest:
  assumes "events_codec C" and "wf_world C w" and "faults w = []" and "view w recovery_events_path = None"
    and "length es + 1 < 2 ^ 32"
  shows "\<exists>w'. run_opt (log_append C) es w = Some w' \<and> map ev_sequence (log_contents C w')
           = [Suc (length es) - min RECOVERY_EVENT_CAP (length es)..<Suc (length es)]"
proof -
  have wf: "log_wf C w" using assms by (simp add: log_wf_def journal_of_def)
  show ?thesis
    using assms(5)
  proof (induction es rule: rev_induct)
    case Nil
    show ?case using assms(4) by (simp add: log_contents_def journal_of_def RECOVERY_EVENT_CAP_def)
  next
    case (snoc e es)
    then obtain w1 where w1: "run_opt (log_append C) es w = Some w1"
      "map ev_sequence (log_contents C w1) = [Suc (length es) - min RECOVERY_EVENT_CAP (length es)..<Suc (length es)]"
      by auto
    from events.run_invar [OF wf w1(1)] have "log_wf C w1" by blast
    from log_append_step [OF this, of e] obtain w2 where
      w2: "log_append C e w1 = Some w2" "log_contents C w2 = kept_events (log_contents C w1) e" by blast
    have "map ev_sequence (log_contents C w2) = [Suc (Suc (length es)) - min RECOVERY_EVENT_CAP (Suc (length es))..<Suc (Suc (length es))]"
      unfolding w2(2) by (rule kept_sequences [OF w1(2)]) (use snoc.prems in simp)
    with w1(1) w2(1) show ?case by (simp add: run_opt_append)
  qed
qed

text \<open>A serializer for all event lists: the length of the text numbers the list.\<close>

definition event_tuple :: "recovery_event \<Rightarrow> nat \<times> nat \<times> string \<times> string \<times> string option \<times> string \<times> int option" where
  "event_tuple e = (ev_at e, ev_sequence e, ev_level e, ev_event e, ev_session e, ev_detail e, ev_code e)"

definition tuple_event :: "nat \<times> nat \<times> string \<times> string \<times> string option \<times> string \<times> int option \<Rightarrow> recovery_event" where
  "tuple_event t = (case t of (a, s, l, ev, se, d, c) \<Rightarrow>
     \<lparr>ev_at = a, ev_sequence = s, ev_level = l, ev_event = ev, ev_session = se, ev_detail = d, ev_code = c\<rparr>)"

definition counting_codec :: codec where
  "counting_codec = (sample_codec ''a'' ''b'')
     \<lparr>ser_events := (\<lambda>es. Some (replicate (to_nat (map event_tuple es)) 0)),
      de_events := (\<lambda>bs. Some (map tuple_event (from_nat (length bs))))\<rparr>"

lemma counting_codec_ok: "events_codec counting_codec"
  by (auto simp: events_codec_def counting_codec_def event_tuple_def tuple_event_def comp_def intro!: map_idI)

theorem recovery_journal_newest_witness:
  "\<exists>w'. run_opt (log_append counting_codec) [tuple_event (5, 0, ''odd'', ''kill'', None, ''x'', None)] (sample_world ''a'' [])
       = Some w' \<and> map ev_sequence (log_contents counting_codec w') = [1]"
proof -
  have "faults (sample_world ''a'' []) = []" by (simp add: sample_world_def)
  moreover have "view (sample_world ''a'' []) recovery_events_path = None"
    by (simp add: sample_view sample_renaming_def path_defs)
  ultimately show ?thesis
    using recovery_journal_newest [OF counting_codec_ok sample_wf [of counting_codec "[]"],
        of "[tuple_event (5, 0, ''odd'', ''kill'', None, ''x'', None)]"]
    by (simp add: RECOVERY_EVENT_CAP_def)
qed

end
