(* ===== verification/RouterConfig.thy ===== *)
theory RouterConfig
  imports Text
begin

text \<open>
  The configuration of the model router: \<^verbatim>\<open>crates/router-core/src/config.rs\<close> (the parsed
  configuration, variable interpolation and validation), \<^verbatim>\<open>registry.rs\<close> (the failover chains
  and the flat numbering of the keys) and \<^verbatim>\<open>crates/amber-router/src/slots.rs\<close> (the flat list
  of slots that the editor shows, and its translation to and from a configuration).
  The TOML parser is a parameter. A panic is the result \<open>None\<close>.
\<close>

section \<open>Configuration\<close>

datatype config_error =
    Toml string
  | UnresolvedVar string
  | UnknownProvider string string
  | EmptyChain string
  | NoKeys string
  | DuplicateAlias string

record server_config =
  sc_bind :: string
  sc_auth_token :: "string option"
  sc_max_body_bytes :: nat
  sc_queue_capacity :: nat

record provider_config =
  pc_name :: string
  pc_id :: string
  pc_base_url :: string
  pc_keys :: "string list"
  pc_max_inflight :: nat
  pc_drop_params :: "string list"
  pc_connect_ms :: nat
  pc_first_byte_ms :: nat
  pc_total_ms :: nat
  pc_cooldown_ms :: nat
  pc_max_cooldown_ms :: nat

record chain_entry =
  ce_provider :: string
  ce_model :: string

record alias_config =
  ac_name :: string
  ac_chain :: "chain_entry list"

record router_config =
  rc_server :: server_config
  rc_providers :: "provider_config list"
  rc_aliases :: "alias_config list"

section \<open>Interpolation of environment variables\<close>

text \<open>\<^verbatim>\<open>find("${")\<close> and \<^verbatim>\<open>find('}')\<close>, as the text before and after the match.\<close>

fun split_open :: "string \<Rightarrow> (string \<times> string) option" where
  "split_open (c # d # rest) =
     (if c = CHR ''$'' \<and> d = CHR ''{'' then Some ([], rest)
      else map_option (\<lambda>(a, b). (c # a, b)) (split_open (d # rest)))"
| "split_open _ = None"

fun split_close :: "string \<Rightarrow> (string \<times> string) option" where
  "split_close [] = None"
| "split_close (c # rest) =
     (if c = CHR ''}'' then Some ([], rest)
      else map_option (\<lambda>(a, b). (c # a, b)) (split_close rest))"

lemma split_open_eq: "split_open s = Some (a, b) \<Longrightarrow> s = a @ ''${'' @ b"
  by (induction s arbitrary: a b rule: split_open.induct) (auto split: if_splits)

lemma split_close_eq: "split_close s = Some (a, b) \<Longrightarrow> s = a @ CHR ''}'' # b \<and> CHR ''}'' \<notin> set a"
  by (induction s arbitrary: a b) (auto split: if_splits)

lemma split_close_none: "split_close s = None \<longleftrightarrow> CHR ''}'' \<notin> set s"
  by (induction s) auto

function interpolate_loop :: "(string \<Rightarrow> string option) \<Rightarrow> string \<Rightarrow> string \<Rightarrow> config_error + string" where
  "interpolate_loop lookup out rest =
     (case split_open rest of
        None \<Rightarrow> Inr (out @ rest)
      | Some (before, after) \<Rightarrow>
          (case split_close after of
             None \<Rightarrow> Inr (out @ before @ ''${'' @ after)
           | Some (name, rest') \<Rightarrow>
               (case lookup name of
                  Some v \<Rightarrow> interpolate_loop lookup (out @ before @ v) rest'
                | None \<Rightarrow> Inl (UnresolvedVar name))))"
  by pat_completeness auto

termination
  by (relation "measure (\<lambda>(_, _, rest). length rest)") (auto dest!: split_open_eq split_close_eq)

declare interpolate_loop.simps [simp del]

definition interpolate :: "string \<Rightarrow> (string \<Rightarrow> string option) \<Rightarrow> config_error + string" where
  "interpolate input lookup = interpolate_loop lookup [] input"

section \<open>Loading and validation\<close>

fun map_result :: "('a \<Rightarrow> 'e + 'b) \<Rightarrow> 'a list \<Rightarrow> 'e + 'b list" where
  "map_result f [] = Inr []"
| "map_result f (x # xs) =
     (case f x of Inl e \<Rightarrow> Inl e
      | Inr y \<Rightarrow> (case map_result f xs of Inl e \<Rightarrow> Inl e | Inr ys \<Rightarrow> Inr (y # ys)))"

definition interpolate_provider :: "(string \<Rightarrow> string option) \<Rightarrow> provider_config \<Rightarrow> config_error + provider_config" where
  "interpolate_provider lookup p =
     (case interpolate (pc_base_url p) lookup of
        Inl e \<Rightarrow> Inl e
      | Inr url \<Rightarrow>
          (case map_result (\<lambda>k. interpolate k lookup) (pc_keys p) of
             Inl e \<Rightarrow> Inl e
           | Inr ks \<Rightarrow> Inr (p\<lparr>pc_base_url := url, pc_keys := ks\<rparr>)))"

fun check_keys :: "provider_config list \<Rightarrow> config_error + unit" where
  "check_keys [] = Inr ()"
| "check_keys (p # ps) = (if pc_keys p = [] then Inl (NoKeys (pc_name p)) else check_keys ps)"

fun check_chain :: "provider_config list \<Rightarrow> string \<Rightarrow> chain_entry list \<Rightarrow> config_error + unit" where
  "check_chain ps a [] = Inr ()"
| "check_chain ps a (e # es) =
     (if \<not> list_ex (\<lambda>p. pc_name p = ce_provider e) ps then Inl (UnknownProvider a (ce_provider e))
      else check_chain ps a es)"

fun check_aliases :: "provider_config list \<Rightarrow> string list \<Rightarrow> alias_config list \<Rightarrow> config_error + unit" where
  "check_aliases ps seen [] = Inr ()"
| "check_aliases ps seen (a # as) =
     (if ac_name a \<in> set seen then Inl (DuplicateAlias (ac_name a))
      else if ac_chain a = [] then Inl (EmptyChain (ac_name a))
      else case check_chain ps (ac_name a) (ac_chain a) of
             Inl e \<Rightarrow> Inl e
           | Inr _ \<Rightarrow> check_aliases ps (ac_name a # seen) as)"

definition validate_config :: "router_config \<Rightarrow> config_error + unit" where
  "validate_config cfg =
     (case check_keys (rc_providers cfg) of
        Inl e \<Rightarrow> Inl e
      | Inr _ \<Rightarrow> check_aliases (rc_providers cfg) [] (rc_aliases cfg))"

definition interpolate_token :: "(string \<Rightarrow> string option) \<Rightarrow> server_config \<Rightarrow> config_error + server_config" where
  "interpolate_token lookup s =
     (case sc_auth_token s of
        None \<Rightarrow> Inr s
      | Some tok \<Rightarrow>
          (case interpolate tok lookup of
             Inl e \<Rightarrow> Inl e
           | Inr t \<Rightarrow> Inr (s\<lparr>sc_auth_token := if t = [] then None else Some t\<rparr>)))"

definition load_str :: "(string \<Rightarrow> string + router_config) \<Rightarrow> string \<Rightarrow> (string \<Rightarrow> string option)
    \<Rightarrow> config_error + router_config" where
  "load_str toml src lookup =
     (case toml src of
        Inl e \<Rightarrow> Inl (Toml e)
      | Inr cfg \<Rightarrow>
          (case interpolate_token lookup (rc_server cfg) of
             Inl e \<Rightarrow> Inl e
           | Inr server \<Rightarrow>
               (case map_result (interpolate_provider lookup) (rc_providers cfg) of
                  Inl e \<Rightarrow> Inl e
                | Inr ps \<Rightarrow>
                    (let cfg' = cfg\<lparr>rc_server := server, rc_providers := ps\<rparr>
                     in case validate_config cfg' of Inl e \<Rightarrow> Inl e | Inr _ \<Rightarrow> Inr cfg'))))"

section \<open>The registry of chains and keys\<close>

record endpoint =
  ep_provider_idx :: nat
  ep_key_idx :: nat
  ep_model_id :: string

record registry =
  rg_cfg :: router_config
  rg_chains :: "string \<rightharpoonup> endpoint list"
  rg_key_base :: "nat list"
  rg_key_total :: nat

fun key_bases :: "nat \<Rightarrow> provider_config list \<Rightarrow> nat list \<times> nat" where
  "key_bases running [] = ([], running)"
| "key_bases running (p # ps) =
     (let (bs, total) = key_bases (running + length (pc_keys p)) ps in (running # bs, total))"

fun position :: "('a \<Rightarrow> bool) \<Rightarrow> 'a list \<Rightarrow> nat option" where
  "position P [] = None"
| "position P (x # xs) = (if P x then Some 0 else map_option Suc (position P xs))"

definition entry_endpoints :: "provider_config list \<Rightarrow> chain_entry \<Rightarrow> endpoint list option" where
  "entry_endpoints ps e =
     (case position (\<lambda>p. pc_name p = ce_provider e) ps of
        None \<Rightarrow> None
      | Some i \<Rightarrow> Some (map (\<lambda>k. \<lparr>ep_provider_idx = i, ep_key_idx = k, ep_model_id = ce_model e\<rparr>)
                         [0..<length (pc_keys (ps ! i))]))"

fun chain_endpoints :: "provider_config list \<Rightarrow> chain_entry list \<Rightarrow> endpoint list option" where
  "chain_endpoints ps [] = Some []"
| "chain_endpoints ps (e # es) =
     (case entry_endpoints ps e of
        None \<Rightarrow> None
      | Some xs \<Rightarrow> map_option ((@) xs) (chain_endpoints ps es))"

fun build_chains :: "provider_config list \<Rightarrow> alias_config list \<Rightarrow> (string \<rightharpoonup> endpoint list)
    \<Rightarrow> (string \<rightharpoonup> endpoint list) option" where
  "build_chains ps [] m = Some m"
| "build_chains ps (a # as) m =
     (case chain_endpoints ps (ac_chain a) of
        None \<Rightarrow> None
      | Some es \<Rightarrow> build_chains ps as (m(ac_name a \<mapsto> es)))"

definition registry_build :: "router_config \<Rightarrow> registry option" where
  "registry_build cfg =
     (case build_chains (rc_providers cfg) (rc_aliases cfg) Map.empty of
        None \<Rightarrow> None
      | Some cs \<Rightarrow>
          (let (bases, total) = key_bases 0 (rc_providers cfg)
           in Some \<lparr>rg_cfg = cfg, rg_chains = cs, rg_key_base = bases, rg_key_total = total\<rparr>))"

definition registry_chain :: "registry \<Rightarrow> string \<Rightarrow> endpoint list option" where
  "registry_chain r alias = rg_chains r alias"

text \<open>Indexing a \<^verbatim>\<open>Vec\<close>: out of range is a panic.\<close>

definition index_opt :: "'a list \<Rightarrow> nat \<Rightarrow> 'a option" where
  "index_opt xs i = (if i < length xs then Some (xs ! i) else None)"

definition registry_provider :: "registry \<Rightarrow> nat \<Rightarrow> provider_config option" where
  "registry_provider r i = index_opt (rc_providers (rg_cfg r)) i"

definition registry_key :: "registry \<Rightarrow> endpoint \<Rightarrow> string option" where
  "registry_key r e = Option.bind (registry_provider r (ep_provider_idx e))
     (\<lambda>p. index_opt (pc_keys p) (ep_key_idx e))"

definition key_label :: "registry \<Rightarrow> endpoint \<Rightarrow> string option" where
  "key_label r e = map_option (\<lambda>p. pc_name p @ ''#'' @ map char_of (dec (ep_key_idx e)))
     (registry_provider r (ep_provider_idx e))"

definition flat_key_index :: "registry \<Rightarrow> nat \<Rightarrow> nat \<Rightarrow> nat option" where
  "flat_key_index r p k = map_option (\<lambda>b. b + k) (index_opt (rg_key_base r) p)"

section \<open>Slots\<close>

definition DEFAULT_ALIAS :: string where "DEFAULT_ALIAS = ''auto''"

record slot =
  sl_id :: string
  sl_name :: string
  sl_base_url :: string
  sl_api_key :: string
  sl_model :: string
  sl_enabled :: bool

record slot_view =
  sv_id :: string
  sv_name :: string
  sv_base_url :: string
  sv_model :: string
  sv_enabled :: bool
  sv_has_key :: bool
  sv_key_hint :: string

text \<open>The four bullets of the mask are the bytes \<open>E2 80 A2\<close> each.\<close>

definition mask_bullets :: string where
  "mask_bullets = concat (replicate 4 (map char_of [226, 128, 162 :: nat]))"

definition mask_key :: "string \<Rightarrow> string" where
  "mask_key key = (if key = [] then [] else mask_bullets @ concat (last_n 4 (str_chars key)))"

definition slot_view_of :: "slot \<Rightarrow> slot_view" where
  "slot_view_of s =
     \<lparr>sv_id = sl_id s, sv_name = sl_name s, sv_base_url = sl_base_url s, sv_model = sl_model s,
      sv_enabled = sl_enabled s, sv_has_key = (sl_api_key s \<noteq> []), sv_key_hint = mask_key (sl_api_key s)\<rparr>"

definition move_slot :: "slot list \<Rightarrow> nat \<Rightarrow> nat \<Rightarrow> slot list" where
  "move_slot slots from to =
     (if from \<ge> length slots \<or> to \<ge> length slots \<or> from = to then slots
      else let item = slots ! from; rest = take from slots @ drop (Suc from) slots
           in take to rest @ item # drop to rest)"

datatype slot_error =
    EmptyName | ReservedName | BadName string | DuplicateSlot string
  | BadUrl string | NoModel string | NoApiKey string

definition blank :: "string \<Rightarrow> bool" where
  "blank s \<longleftrightarrow> trim_chars (chars s) = []"

definition slot_name_char :: "nat \<Rightarrow> bool" where
  "slot_name_char c \<longleftrightarrow> in_rng 48 57 c \<or> in_rng 65 90 c \<or> in_rng 97 122 c \<or> c = 45 \<or> c = 95"

definition check_slot :: "string list \<Rightarrow> slot \<Rightarrow> slot_error + unit" where
  "check_slot seen s =
     (if blank (sl_name s) then Inl EmptyName
      else if sl_name s = DEFAULT_ALIAS then Inl ReservedName
      else if \<not> list_all slot_name_char (chars (sl_name s)) then Inl (BadName (sl_name s))
      else if sl_name s \<in> set seen then Inl (DuplicateSlot (sl_name s))
      else if \<not> prefix ''http://'' (sl_base_url s) \<and> \<not> prefix ''https://'' (sl_base_url s)
        then Inl (BadUrl (sl_name s))
      else if blank (sl_model s) then Inl (NoModel (sl_name s))
      else if sl_api_key s = [] then Inl (NoApiKey (sl_name s))
      else Inr ())"

fun check_slots :: "string list \<Rightarrow> slot list \<Rightarrow> slot_error + unit" where
  "check_slots seen [] = Inr ()"
| "check_slots seen (s # ss) =
     (case check_slot seen s of
        Inl e \<Rightarrow> Inl e | Inr _ \<Rightarrow> check_slots (seen @ [sl_name s]) ss)"

definition validate_slots :: "slot list \<Rightarrow> slot_error + unit" where
  "validate_slots slots = check_slots [] slots"

text \<open>The provider that the \<^verbatim>\<open>serde\<close> defaults of every optional field give.\<close>

definition provider_defaults :: provider_config where
  "provider_defaults =
     \<lparr>pc_name = [], pc_id = [], pc_base_url = [], pc_keys = [], pc_max_inflight = 4,
      pc_drop_params = [], pc_connect_ms = 3000, pc_first_byte_ms = 20000, pc_total_ms = 300000,
      pc_cooldown_ms = 30000, pc_max_cooldown_ms = 21600000\<rparr>"

definition slot_provider :: "slot \<Rightarrow> provider_config" where
  "slot_provider s = provider_defaults
     \<lparr>pc_name := sl_name s, pc_id := sl_id s, pc_base_url := sl_base_url s,
      pc_keys := if sl_api_key s = [] then [] else [sl_api_key s]\<rparr>"

definition slot_entry :: "slot \<Rightarrow> chain_entry" where
  "slot_entry s = \<lparr>ce_provider = sl_name s, ce_model = sl_model s\<rparr>"

definition to_config :: "server_config \<Rightarrow> slot list \<Rightarrow> router_config" where
  "to_config server slots =
     (let enabled = filter sl_enabled slots;
          auto = (if enabled = [] then []
                  else [\<lparr>ac_name = DEFAULT_ALIAS, ac_chain = map slot_entry enabled\<rparr>])
      in \<lparr>rc_server = server, rc_providers = map slot_provider slots,
          rc_aliases = auto @ map (\<lambda>s. \<lparr>ac_name = sl_name s, ac_chain = [slot_entry s]\<rparr>) slots\<rparr>)"

definition find_alias :: "router_config \<Rightarrow> string \<Rightarrow> alias_config option" where
  "find_alias cfg n = List.find (\<lambda>a. ac_name a = n) (rc_aliases cfg)"

definition first_model :: "alias_config option \<Rightarrow> string" where
  "first_model a = (case a of
       Some a \<Rightarrow> (case ac_chain a of e # _ \<Rightarrow> ce_model e | [] \<Rightarrow> [])
     | None \<Rightarrow> [])"

definition from_config :: "router_config \<Rightarrow> slot list" where
  "from_config cfg =
     (let enabled = (case find_alias cfg DEFAULT_ALIAS of
                       Some a \<Rightarrow> map ce_provider (ac_chain a) | None \<Rightarrow> [])
      in map (\<lambda>p. \<lparr>sl_id = pc_id p, sl_name = pc_name p, sl_base_url = pc_base_url p,
                   sl_api_key = (case pc_keys p of k # _ \<Rightarrow> k | [] \<Rightarrow> []),
                   sl_model = first_model (find_alias cfg (pc_name p)),
                   sl_enabled = (pc_name p \<in> set enabled)\<rparr>) (rc_providers cfg))"

definition merge_key :: "slot list \<Rightarrow> slot \<Rightarrow> slot" where
  "merge_key stored s =
     (if sl_api_key s \<noteq> [] \<or> sl_id s = [] then s
      else case List.find (\<lambda>p. sl_id p = sl_id s) stored of
             Some prev \<Rightarrow> s\<lparr>sl_api_key := sl_api_key prev\<rparr>
           | None \<Rightarrow> s)"

definition merge_keys :: "slot list \<Rightarrow> slot list \<Rightarrow> slot list" where
  "merge_keys incoming stored = map (merge_key stored) incoming"

section \<open>Templates\<close>

text \<open>
  A template is a sequence of literal texts and variable references. Its rendering is what a user
  writes, its expansion what the router should read.
\<close>

type_synonym template = "(string \<times> string) list \<times> string"

definition template_ok :: "template \<Rightarrow> bool" where
  "template_ok t \<longleftrightarrow> (\<forall>(lit, var) \<in> set (fst t). split_open lit = None \<and> CHR ''}'' \<notin> set var)
     \<and> (split_open (snd t) = None)"

definition render :: "template \<Rightarrow> string" where
  "render t = concat (map (\<lambda>(lit, var). lit @ ''${'' @ var @ ''}'') (fst t)) @ snd t"

definition prepend :: "string \<Rightarrow> config_error + string \<Rightarrow> config_error + string" where
  "prepend out r = (case r of Inl e \<Rightarrow> Inl e | Inr s \<Rightarrow> Inr (out @ s))"

lemma prepend_simps [simp]:
  "prepend out (Inl e) = Inl e" "prepend out (Inr s) = Inr (out @ s)"
  "prepend [] r = r" "prepend a (prepend b r) = prepend (a @ b) r"
  by (simp_all add: prepend_def split: sum.splits)

fun expand :: "(string \<Rightarrow> string option) \<Rightarrow> (string \<times> string) list \<Rightarrow> string \<Rightarrow> config_error + string" where
  "expand lookup [] tail = Inr tail"
| "expand lookup ((lit, var) # ps) tail =
     (case lookup var of
        None \<Rightarrow> Inl (UnresolvedVar var)
      | Some v \<Rightarrow> prepend (lit @ v) (expand lookup ps tail))"

lemma split_open_literal: "split_open lit = None \<Longrightarrow> split_open (lit @ ''${'' @ s) = Some (lit, s)"
  by (induction lit rule: split_open.induct) (auto split: if_splits)

lemma split_close_literal: "CHR ''}'' \<notin> set var \<Longrightarrow> split_close (var @ CHR ''}'' # s) = Some (var, s)"
  by (induction var) auto

lemma interpolate_loop_template:
  "(\<forall>(lit, var) \<in> set ps. split_open lit = None \<and> CHR ''}'' \<notin> set var) \<Longrightarrow> split_open tail = None \<Longrightarrow>
   interpolate_loop lookup out (concat (map (\<lambda>(lit, var). lit @ ''${'' @ var @ ''}'') ps) @ tail)
     = prepend out (expand lookup ps tail)"
proof (induction ps arbitrary: out)
  case Nil
  then show ?case by (simp add: interpolate_loop.simps)
next
  case (Cons p ps)
  obtain lit var where p: "p = (lit, var)" by (cases p)
  let ?rest = "concat (map (\<lambda>(lit, var). lit @ ''${'' @ var @ ''}'') ps) @ tail"
  from Cons.prems p have o: "split_open (lit @ ''${'' @ var @ CHR ''}'' # ?rest) = Some (lit, var @ CHR ''}'' # ?rest)"
    and c: "split_close (var @ CHR ''}'' # ?rest) = Some (var, ?rest)"
    using split_open_literal [of lit] split_close_literal [of var] by auto
  have "interpolate_loop lookup out (lit @ ''${'' @ var @ CHR ''}'' # ?rest)
      = (case lookup var of None \<Rightarrow> Inl (UnresolvedVar var)
         | Some v \<Rightarrow> interpolate_loop lookup (out @ lit @ v) ?rest)"
    by (subst interpolate_loop.simps) (simp only: o c option.case prod.case)
  with Cons.IH Cons.prems p show ?case
    by (auto split: option.splits)
qed

text \<open>Interpolation replaces exactly the variable references of the input, left to right: for
  a text written from literals and references the result is the literals with the values in place,
  or the error of the first unset variable. Values that contain \<^verbatim>\<open>${\<close> are not interpolated again.\<close>

theorem interpolate_expands:
  assumes "template_ok t"
  shows "interpolate (render t) lookup = expand lookup (fst t) (snd t)"
proof -
  have "interpolate (render t) lookup = prepend [] (expand lookup (fst t) (snd t))"
    unfolding interpolate_def render_def
    by (rule interpolate_loop_template) (use assms in \<open>auto simp: template_ok_def\<close>)
  then show ?thesis by simp
qed

theorem interpolate_expands_witness:
  "template_ok ([(''a$'', ''K'')], ''/v1'') \<and>
   interpolate ''a$${K}/v1'' (\<lambda>v. if v = ''K'' then Some ''${K}'' else None) = Inr ''a$${K}/v1''"
proof -
  have ok: "template_ok ([(''a$'', ''K'')], ''/v1'')" by (simp add: template_ok_def)
  from interpolate_expands [OF this, of "\<lambda>v. if v = ''K'' then Some ''${K}'' else None"] ok
  show ?thesis by (simp add: render_def)
qed

section \<open>Slots survive the configuration file\<close>

lemma check_slots_ok:
  "check_slots seen ss = Inr () \<Longrightarrow>
     distinct (map sl_name ss) \<and> set (map sl_name ss) \<inter> set seen = {}
     \<and> (\<forall>s\<in>set ss. sl_name s \<noteq> DEFAULT_ALIAS \<and> sl_api_key s \<noteq> [])"
proof (induction ss arbitrary: seen)
  case Nil
  then show ?case by simp
next
  case (Cons s ss)
  from Cons.prems have c: "check_slot seen s = Inr ()" and r: "check_slots (seen @ [sl_name s]) ss = Inr ()"
    by (auto split: sum.splits)
  from c have "sl_name s \<noteq> DEFAULT_ALIAS" "sl_name s \<notin> set seen" "sl_api_key s \<noteq> []"
    by (auto simp: check_slot_def split: if_splits)
  with Cons.IH [OF r] show ?case by auto
qed

lemma find_single_alias:
  "distinct (map sl_name ss) \<Longrightarrow> s \<in> set ss \<Longrightarrow>
   List.find (\<lambda>a. ac_name a = sl_name s) (map (\<lambda>s. \<lparr>ac_name = sl_name s, ac_chain = [slot_entry s]\<rparr>) ss)
     = Some \<lparr>ac_name = sl_name s, ac_chain = [slot_entry s]\<rparr>"
  by (induction ss) (auto simp: image_iff)

lemma find_not_alias:
  "n \<notin> sl_name ` set ss \<Longrightarrow>
   List.find (\<lambda>a. ac_name a = n) (map (\<lambda>s. \<lparr>ac_name = sl_name s, ac_chain = [slot_entry s]\<rparr>) ss) = None"
  by (induction ss) auto

lemma find_append: "List.find P (xs @ ys) = (case List.find P xs of None \<Rightarrow> List.find P ys | r \<Rightarrow> r)"
  by (induction xs) auto

lemma slots_alias:
  assumes "distinct (map sl_name ss)" and "\<forall>s\<in>set ss. sl_name s \<noteq> DEFAULT_ALIAS" and "s \<in> set ss"
  shows "find_alias (to_config server ss) (sl_name s) = Some \<lparr>ac_name = sl_name s, ac_chain = [slot_entry s]\<rparr>"
proof -
  have "DEFAULT_ALIAS \<noteq> sl_name s" using assms(2,3) by metis
  with find_single_alias [OF assms(1,3)] show ?thesis
    by (simp add: find_alias_def to_config_def find_append Let_def)
qed

lemma slots_enabled:
  assumes "\<forall>s\<in>set ss. sl_name s \<noteq> DEFAULT_ALIAS"
  shows "(case find_alias (to_config server ss) DEFAULT_ALIAS of
            Some a \<Rightarrow> map ce_provider (ac_chain a) | None \<Rightarrow> []) = map sl_name (filter sl_enabled ss)"
proof -
  have "DEFAULT_ALIAS \<notin> sl_name ` set ss" using assms by auto
  from find_not_alias [OF this] show ?thesis
    by (cases "filter sl_enabled ss = []")
       (auto simp: find_alias_def to_config_def find_append Let_def slot_entry_def filter_empty_conv)
qed

text \<open>Saving a valid slot list as a configuration and reading it back gives the same slots, in the
  same order, with their keys, models and enabled flags.\<close>

theorem slots_roundtrip:
  assumes "validate_slots slots = Inr ()"
  shows "from_config (to_config server slots) = slots"
proof -
  from check_slots_ok [OF assms [unfolded validate_slots_def]]
  have d: "distinct (map sl_name slots)" and a: "\<forall>s\<in>set slots. sl_name s \<noteq> DEFAULT_ALIAS"
    and k: "\<forall>s\<in>set slots. sl_api_key s \<noteq> []" by auto
  have en: "sl_name s \<in> sl_name ` {x \<in> set slots. sl_enabled x} \<longleftrightarrow> sl_enabled s" if "s \<in> set slots" for s
    using d that by (auto simp: distinct_map inj_on_def)
  have "rc_providers (to_config server slots) = map slot_provider slots"
    by (simp add: to_config_def Let_def)
  then show ?thesis
    unfolding from_config_def Let_def slots_enabled [OF a]
    by (simp, intro map_idI)
       (simp add: slot_provider_def provider_defaults_def slots_alias [OF d a] first_model_def slot_entry_def k en)
qed

definition sample_slots :: "slot list" where
  "sample_slots =
     [\<lparr>sl_id = ''1'', sl_name = ''groq'', sl_base_url = ''https://a'', sl_api_key = ''k1'', sl_model = ''m'', sl_enabled = True\<rparr>,
      \<lparr>sl_id = ''2'', sl_name = ''local'', sl_base_url = ''http://b'', sl_api_key = ''k2'', sl_model = ''n'', sl_enabled = False\<rparr>]"

lemma sample_slots_valid: "validate_slots sample_slots = Inr ()"
  by (simp add: validate_slots_def sample_slots_def check_slot_def blank_def DEFAULT_ALIAS_def chars_def
      trim_chars_def is_whitespace_def slot_name_char_def in_rng_def)

theorem slots_roundtrip_witness:
  "validate_slots sample_slots = Inr () \<and> (\<forall>server. from_config (to_config server sample_slots) = sample_slots)"
  using slots_roundtrip [OF sample_slots_valid] sample_slots_valid by simp

section \<open>The registry of a loaded configuration\<close>

text \<open>The pairs of provider and key in the order in which the selector numbers them.\<close>

fun key_slots :: "nat \<Rightarrow> provider_config list \<Rightarrow> (nat \<times> nat) list" where
  "key_slots i [] = []"
| "key_slots i (p # ps) = map (Pair i) [0..<length (pc_keys p)] @ key_slots (Suc i) ps"

lemma key_bases_slots:
  "key_bases run ps = (bs, t) \<Longrightarrow>
     length bs = length ps \<and> t = run + length (key_slots n ps) \<and>
     (\<forall>i k. i < length ps \<longrightarrow> k < length (pc_keys (ps ! i)) \<longrightarrow>
        run \<le> bs ! i \<and> bs ! i + k < t \<and> key_slots n ps ! (bs ! i + k - run) = (n + i, k))"
proof (induction ps arbitrary: run bs t n)
  case Nil
  then show ?case by simp
next
  case (Cons p ps)
  let ?l = "length (pc_keys p)"
  obtain bs' where bs: "bs = run # bs'" and rec: "key_bases (run + ?l) ps = (bs', t)"
    using Cons.prems by (auto simp: Let_def split: prod.splits)
  note IH = Cons.IH [OF rec, of "Suc n"]
  have "run \<le> bs ! i \<and> bs ! i + k < t \<and> key_slots n (p # ps) ! (bs ! i + k - run) = (n + i, k)"
    if i: "i < length (p # ps)" and k: "k < length (pc_keys ((p # ps) ! i))" for i k
  proof (cases i)
    case 0
    with k IH show ?thesis by (simp add: bs nth_append)
  next
    case (Suc j)
    with i k IH have "run + ?l \<le> bs' ! j" "bs' ! j + k < t"
      and "key_slots (Suc n) ps ! (bs' ! j + k - (run + ?l)) = (n + i, k)" by auto
    moreover from this have "\<not> bs' ! j + k - run < ?l" by linarith
    ultimately show ?thesis using Suc by (simp add: bs nth_append diff_diff_left)
  qed
  with IH show ?case by (simp add: bs)
qed

definition endpoint_ok :: "registry \<Rightarrow> endpoint \<Rightarrow> bool" where
  "endpoint_ok r e \<longleftrightarrow> ep_provider_idx e < length (rc_providers (rg_cfg r))
     \<and> ep_key_idx e < length (pc_keys (rc_providers (rg_cfg r) ! ep_provider_idx e))"

definition registry_ok :: "registry \<Rightarrow> bool" where
  "registry_ok r \<longleftrightarrow> key_bases 0 (rc_providers (rg_cfg r)) = (rg_key_base r, rg_key_total r)
     \<and> (\<forall>ch\<in>ran (rg_chains r). \<forall>e\<in>set ch. endpoint_ok r e)"

lemma flat_key_index_slot:
  assumes "registry_ok r" and "endpoint_ok r e"
  obtains n where "flat_key_index r (ep_provider_idx e) (ep_key_idx e) = Some n"
    and "n < length (key_slots 0 (rc_providers (rg_cfg r)))" and "n < rg_key_total r"
    and "key_slots 0 (rc_providers (rg_cfg r)) ! n = (ep_provider_idx e, ep_key_idx e)"
proof -
  from assms(1) have "key_bases 0 (rc_providers (rg_cfg r)) = (rg_key_base r, rg_key_total r)"
    by (simp add: registry_ok_def)
  from key_bases_slots [OF this, of 0] assms(2) show ?thesis
    by (intro that [of "rg_key_base r ! ep_provider_idx e + ep_key_idx e"])
       (auto simp: endpoint_ok_def flat_key_index_def index_opt_def)
qed

lemma flat_key_index_inj:
  assumes "registry_ok r" and "endpoint_ok r e" and "endpoint_ok r e'"
    and "flat_key_index r (ep_provider_idx e) (ep_key_idx e) = flat_key_index r (ep_provider_idx e') (ep_key_idx e')"
  shows "ep_provider_idx e = ep_provider_idx e' \<and> ep_key_idx e = ep_key_idx e'"
  using flat_key_index_slot [OF assms(1,2)] flat_key_index_slot [OF assms(1,3)] assms(4)
  by (metis option.inject prod.inject)

lemma position_some:
  "list_ex P xs \<Longrightarrow> \<exists>i. position P xs = Some i \<and> i < length xs \<and> P (xs ! i)"
  by (induction xs) auto

lemma check_keys_ok: "check_keys ps = Inr () \<Longrightarrow> \<forall>p\<in>set ps. pc_keys p \<noteq> []"
  by (induction ps) (auto split: if_splits)

lemma check_chain_ok:
  "check_chain ps a es = Inr () \<Longrightarrow> \<forall>p\<in>set ps. pc_keys p \<noteq> [] \<Longrightarrow>
     \<exists>xs. chain_endpoints ps es = Some xs \<and> (es \<noteq> [] \<longrightarrow> xs \<noteq> [])
       \<and> (\<forall>x\<in>set xs. ep_provider_idx x < length ps \<and> ep_key_idx x < length (pc_keys (ps ! ep_provider_idx x)))"
proof (induction es)
  case Nil
  then show ?case by simp
next
  case (Cons e es)
  from Cons.prems have "list_ex (\<lambda>p. pc_name p = ce_provider e) ps" and r: "check_chain ps a es = Inr ()"
    by (auto split: if_splits)
  from position_some [OF this(1)] obtain i where i: "position (\<lambda>p. pc_name p = ce_provider e) ps = Some i" "i < length ps"
    by blast
  with Cons.prems(2) have "pc_keys (ps ! i) \<noteq> []" by simp
  with Cons.IH [OF r Cons.prems(2)] i show ?case by (auto simp: entry_endpoints_def)
qed

lemma build_chains_ok:
  assumes "\<forall>p\<in>set ps. pc_keys p \<noteq> []"
  shows "check_aliases ps seen as = Inr () \<Longrightarrow>
     \<exists>m'. build_chains ps as m = Some m' \<and> dom m' = dom m \<union> ac_name ` set as
       \<and> (\<forall>ch\<in>ran m'. ch \<in> ran m \<or> ch \<noteq> [] \<and> (\<forall>x\<in>set ch. ep_provider_idx x < length ps
              \<and> ep_key_idx x < length (pc_keys (ps ! ep_provider_idx x))))"
proof (induction "as" arbitrary: seen m)
  case Nil
  then show ?case by simp
next
  case (Cons a "as")
  from Cons.prems have n: "ac_chain a \<noteq> []" and c: "check_chain ps (ac_name a) (ac_chain a) = Inr ()"
    and r: "check_aliases ps (ac_name a # seen) as = Inr ()"
    by (auto split: if_splits sum.splits)
  from check_chain_ok [OF c assms] n obtain xs where
    xs: "chain_endpoints ps (ac_chain a) = Some xs" "xs \<noteq> []"
        "\<forall>x\<in>set xs. ep_provider_idx x < length ps \<and> ep_key_idx x < length (pc_keys (ps ! ep_provider_idx x))"
    by blast
  have sub: "ch = xs \<or> ch \<in> ran m" if "ch \<in> ran (m(ac_name a \<mapsto> xs))" for ch
    using that by (auto simp: ran_def split: if_splits)
  from Cons.IH [OF r, of "m(ac_name a \<mapsto> xs)"] obtain m' where
    m': "build_chains ps as (m(ac_name a \<mapsto> xs)) = Some m'"
        "dom m' = dom (m(ac_name a \<mapsto> xs)) \<union> ac_name ` set as"
        "\<forall>ch\<in>ran m'. ch \<in> ran (m(ac_name a \<mapsto> xs)) \<or> ch \<noteq> [] \<and> (\<forall>x\<in>set ch. ep_provider_idx x < length ps
            \<and> ep_key_idx x < length (pc_keys (ps ! ep_provider_idx x)))" by blast
  have "\<forall>ch\<in>ran m'. ch \<in> ran m \<or> ch \<noteq> [] \<and> (\<forall>x\<in>set ch. ep_provider_idx x < length ps
            \<and> ep_key_idx x < length (pc_keys (ps ! ep_provider_idx x)))"
    using m'(3) sub xs(2,3) by blast
  with m'(1,2) xs(1) show ?case by (intro exI [of _ m']) auto
qed

lemma validated_registry:
  assumes "validate_config cfg = Inr ()"
  shows "\<exists>r. registry_build cfg = Some r \<and> registry_ok r \<and> rg_cfg r = cfg
           \<and> dom (rg_chains r) = ac_name ` set (rc_aliases cfg) \<and> (\<forall>ch\<in>ran (rg_chains r). ch \<noteq> [])"
proof -
  from assms have k: "check_keys (rc_providers cfg) = Inr ()"
    and a: "check_aliases (rc_providers cfg) [] (rc_aliases cfg) = Inr ()"
    by (auto simp: validate_config_def split: sum.splits)
  from build_chains_ok [OF check_keys_ok [OF k] a, of Map.empty] show ?thesis
    by (auto simp: registry_build_def registry_ok_def endpoint_ok_def Let_def split: prod.splits)
qed

lemma load_str_validated: "load_str toml src lookup = Inr cfg \<Longrightarrow> validate_config cfg = Inr ()"
  by (auto simp: load_str_def Let_def split: sum.splits)

text \<open>C35: every configuration that the loader accepts gives a registry without a panic: each alias has
  a chain, no chain is empty, every endpoint of a chain names an existing provider and key, and the
  flat index of a key is in range and identifies it.\<close>

theorem loaded_registry:
  assumes "load_str toml src lookup = Inr cfg"
  shows "\<exists>r. registry_build cfg = Some r
     \<and> (\<forall>a\<in>set (rc_aliases cfg). \<exists>ch. registry_chain r (ac_name a) = Some ch)
     \<and> (\<forall>alias ch. registry_chain r alias = Some ch \<longrightarrow> ch \<noteq> [] \<and>
          (\<forall>e\<in>set ch. registry_key r e \<noteq> None
             \<and> (\<exists>n < rg_key_total r. flat_key_index r (ep_provider_idx e) (ep_key_idx e) = Some n)
             \<and> (\<forall>e'\<in>set ch. flat_key_index r (ep_provider_idx e') (ep_key_idx e')
                    = flat_key_index r (ep_provider_idx e) (ep_key_idx e) \<longrightarrow> registry_key r e' = registry_key r e)))"
proof -
  from validated_registry [OF load_str_validated [OF assms]] obtain r where
    r: "registry_build cfg = Some r" "registry_ok r" "rg_cfg r = cfg"
       "dom (rg_chains r) = ac_name ` set (rc_aliases cfg)" "\<forall>ch\<in>ran (rg_chains r). ch \<noteq> []" by blast
  have ok: "endpoint_ok r e" if "registry_chain r al = Some ch" "e \<in> set ch" for al ch e
    using r(2) that by (auto simp: registry_ok_def registry_chain_def ran_def)
  have key: "registry_key r e \<noteq> None" if "endpoint_ok r e" for e
    using that by (simp add: endpoint_ok_def registry_key_def registry_provider_def index_opt_def)
  have same: "registry_key r e' = registry_key r e"
    if "endpoint_ok r e" "endpoint_ok r e'"
      "flat_key_index r (ep_provider_idx e') (ep_key_idx e') = flat_key_index r (ep_provider_idx e) (ep_key_idx e)" for e e'
    using flat_key_index_inj [OF r(2) that(2,1) that(3)] by (simp add: registry_key_def)
  have "\<exists>ch. registry_chain r (ac_name a) = Some ch" if "a \<in> set (rc_aliases cfg)" for a
    using r(4) that by (metis domD imageI registry_chain_def)
  moreover have "ch \<noteq> []" if "registry_chain r al = Some ch" for al ch
    using r(5) that by (auto simp: registry_chain_def ran_def)
  moreover have "\<exists>n < rg_key_total r. flat_key_index r (ep_provider_idx e) (ep_key_idx e) = Some n"
    if "endpoint_ok r e" for e
    using flat_key_index_slot [OF r(2) that] by metis
  ultimately show ?thesis
    using key same ok by (intro exI [of _ r] conjI r(1) ballI allI impI) blast+
qed

definition sample_config :: router_config where
  "sample_config = to_config \<lparr>sc_bind = ''127.0.0.1:4000'', sc_auth_token = None, sc_max_body_bytes = 4000000,
      sc_queue_capacity = 256\<rparr> sample_slots"

lemma sample_loads: "load_str (\<lambda>_. Inr sample_config) [] (\<lambda>_. None) = Inr sample_config"
  by (simp add: load_str_def sample_config_def to_config_def sample_slots_def Let_def interpolate_token_def
      interpolate_provider_def slot_provider_def provider_defaults_def interpolate_def interpolate_loop.simps
      validate_config_def slot_entry_def DEFAULT_ALIAS_def)

theorem loaded_registry_witness:
  "load_str (\<lambda>_. Inr sample_config) [] (\<lambda>_. None) = Inr sample_config \<and>
   (\<exists>r. registry_build sample_config = Some r \<and> (\<exists>ch. registry_chain r ''local'' = Some ch \<and> ch \<noteq> []))"
proof -
  have "\<exists>a\<in>set (rc_aliases sample_config). ac_name a = ''local''"
    by (simp add: sample_config_def to_config_def sample_slots_def Let_def)
  with loaded_registry [OF sample_loads] sample_loads show ?thesis by metis
qed

section \<open>Keys and the editor\<close>

text \<open>The editor is shown masked keys and sends blank ones. For stored slots with distinct ids, however
  they are renamed, reordered or otherwise edited, every slot sent back with its id and no key
  gets the stored key of that id, and a slot sent with a key keeps the one sent.\<close>

theorem edited_slots_keep_keys:
  assumes "distinct (map sl_id stored)" and "[] \<notin> set (map sl_id stored)"
    and "old \<in> set stored" and "sent \<in> set incoming" and "sl_id sent = sl_id old"
  shows "\<exists>merged\<in>set (merge_keys incoming stored). merged = sent\<lparr>sl_api_key :=
           if sl_api_key sent = [] then sl_api_key old else sl_api_key sent\<rparr>"
proof -
  have "List.find (\<lambda>p. sl_id p = sl_id old) stored = Some old"
    using assms(1,3) by (induction stored) (auto simp: image_iff)
  moreover have "sl_id old \<noteq> []" using assms(2,3) by (auto simp: image_iff)
  ultimately have "merge_key stored sent = sent\<lparr>sl_api_key :=
           if sl_api_key sent = [] then sl_api_key old else sl_api_key sent\<rparr>"
    using assms(5) by (simp add: merge_key_def)
  with assms(4) show ?thesis by (force simp: merge_keys_def)
qed

theorem edited_slots_keep_keys_witness:
  "\<exists>merged\<in>set (merge_keys [(sample_slots ! 1)\<lparr>sl_name := ''renamed'', sl_api_key := []\<rparr>] sample_slots).
     sl_name merged = ''renamed'' \<and> sl_api_key merged = ''k2''"
proof -
  let ?sent = "(sample_slots ! 1)\<lparr>sl_name := ''renamed'', sl_api_key := []\<rparr>"
  have "\<exists>merged\<in>set (merge_keys [?sent] sample_slots). merged = ?sent\<lparr>sl_api_key :=
           if sl_api_key ?sent = [] then sl_api_key (sample_slots ! 1) else sl_api_key ?sent\<rparr>"
    by (rule edited_slots_keep_keys) (simp_all add: sample_slots_def)
  then obtain m where "m \<in> set (merge_keys [?sent] sample_slots)"
    and "m = ?sent\<lparr>sl_api_key := if sl_api_key ?sent = [] then sl_api_key (sample_slots ! 1) else sl_api_key ?sent\<rparr>"
    by blast
  then show ?thesis by (intro bexI [of _ m]) (simp_all add: sample_slots_def)
qed

lemma view_hides_key:
  assumes "sl_api_key s \<noteq> []" and "k \<noteq> []" and "last_n 4 (str_chars k) = last_n 4 (str_chars (sl_api_key s))"
  shows "slot_view_of (s\<lparr>sl_api_key := k\<rparr>) = slot_view_of s"
  using assms by (simp add: slot_view_of_def mask_key_def)

lemma str_chars_ascii: "is_ascii s \<Longrightarrow> str_chars s = map (\<lambda>c. [c]) s"
proof (induction s)
  case Nil
  then show ?case by (simp add: str_chars.simps)
next
  case (Cons c s)
  then show ?case by (subst str_chars.simps) (simp add: is_ascii_def utf8_head_def)
qed

end
