(* ===== verification/RouterSelect.thy ===== *)
theory RouterSelect
  imports RouterConfig
begin

text \<open>
  The health of the router's keys and their selection: \<^verbatim>\<open>router-core/src/taxonomy.rs\<close> (what an
  upstream answer means), \<^verbatim>\<open>health.rs\<close> (cool-down and death of a key) and
  \<^verbatim>\<open>amber-router/src/selector.rs\<close> (leases on keys, bounded by a semaphore per key).

  Instants and durations are nanoseconds. An \<^verbatim>\<open>Instant\<close> is a 64-bit signed count of seconds, so
  adding a duration to it can panic; a panic is the result \<open>None\<close>, and a panic under the health lock
  of a key poisons that lock, which makes every later use of it panic too.
  The tasks of other requests run while one task waits: what they do to the selector in that
  time is a function of the model's environment.
\<close>

section \<open>Time\<close>

definition NS_PER_SEC :: nat where "NS_PER_SEC = 1000000000"
definition NS_PER_MS :: nat where "NS_PER_MS = 1000000"
definition INSTANT_LIMIT :: nat where "INSTANT_LIMIT = 2 ^ 63 * NS_PER_SEC"

definition instant_add :: "nat \<Rightarrow> nat \<Rightarrow> nat option" where
  "instant_add t d = (if t + d < INSTANT_LIMIT then Some (t + d) else None)"

section \<open>What an answer means\<close>

datatype verdict = Success | CoolDown "nat option" | DeadKey | Fatal

definition CONSECUTIVE_CLIENT_ERRORS_LIMIT :: nat where "CONSECUTIVE_CLIENT_ERRORS_LIMIT = 3"

definition client_error_stops_chain :: "nat \<Rightarrow> bool" where
  "client_error_stops_chain n \<longleftrightarrow> n \<ge> CONSECUTIVE_CLIENT_ERRORS_LIMIT"

definition parse_retry_after :: "string \<Rightarrow> nat option" where
  "parse_retry_after raw = map_option (\<lambda>s. s * NS_PER_SEC) (parse_uint u64_max (trim_chars (chars raw)))"

definition classify_status :: "nat \<Rightarrow> string option \<Rightarrow> verdict" where
  "classify_status status retry_after =
     (if 200 \<le> status \<and> status \<le> 299 then Success
      else if status = 400 \<or> status = 422 then Fatal
      else if status = 401 \<or> status = 403 then DeadKey
      else if status = 429 then CoolDown (Option.bind retry_after parse_retry_after)
      else CoolDown None)"

section \<open>The health of a key\<close>

datatype key_state = Live | Cooling nat | Dead

record key_health =
  kh_dead :: bool
  kh_cooling_until :: "nat option"
  kh_failures :: nat
  kh_requests :: nat
  kh_errors :: nat
  kh_last_error :: "string option"

definition health_new :: key_health where
  "health_new = \<lparr>kh_dead = False, kh_cooling_until = None, kh_failures = 0, kh_requests = 0,
                 kh_errors = 0, kh_last_error = None\<rparr>"

definition health_state :: "key_health \<Rightarrow> nat \<Rightarrow> key_state" where
  "health_state h now =
     (if kh_dead h then Dead
      else case kh_cooling_until h of
             Some until \<Rightarrow> if until > now then Cooling until else Live
           | None \<Rightarrow> Live)"

definition record_success :: "key_health \<Rightarrow> key_health" where
  "record_success h = h\<lparr>kh_failures := 0, kh_cooling_until := None, kh_requests := kh_requests h + 1\<rparr>"

definition record_error :: "string \<Rightarrow> key_health \<Rightarrow> key_health" where
  "record_error msg h =
     h\<lparr>kh_requests := kh_requests h + 1, kh_errors := kh_errors h + 1, kh_last_error := Some msg\<rparr>"

definition mark_dead :: "key_health \<Rightarrow> key_health" where
  "mark_dead h = h\<lparr>kh_dead := True\<rparr>"

definition u32_max :: nat where "u32_max = 2 ^ 32 - 1"

definition cooldown_wait :: "nat \<Rightarrow> nat option \<Rightarrow> nat \<Rightarrow> nat \<Rightarrow> nat" where
  "cooldown_wait failures retry_after default_ms max_ms =
     (case retry_after of
        Some d \<Rightarrow> d
      | None \<Rightarrow>
          (let shift = min (failures - 1) 6;
               ms = min (sat64 (default_ms * 2 ^ shift)) max_ms
           in ms * NS_PER_MS))"

text \<open>The addition to the clock panics after the failure was counted.\<close>

definition cool_down :: "nat \<Rightarrow> nat option \<Rightarrow> nat \<Rightarrow> nat \<Rightarrow> key_health \<Rightarrow> key_health \<times> bool" where
  "cool_down now retry_after default_ms max_ms h =
     (if kh_dead h then (h, True)
      else let h' = h\<lparr>kh_failures := min (kh_failures h + 1) u32_max\<rparr>
           in case instant_add now (cooldown_wait (kh_failures h') retry_after default_ms max_ms) of
                Some until \<Rightarrow> (h'\<lparr>kh_cooling_until := Some until\<rparr>, True)
              | None \<Rightarrow> (h', False))"

section \<open>The selector\<close>

definition MAX_PERMITS :: nat where "MAX_PERMITS = 2 ^ 61 - 1"

definition semaphore_new :: "nat \<Rightarrow> nat option" where
  "semaphore_new n = (if n \<le> MAX_PERMITS then Some n else None)"

record key_runtime =
  kr_provider_idx :: nat
  kr_key_idx :: nat
  kr_permits :: nat
  kr_in_flight :: nat
  kr_health :: key_health
  kr_poisoned :: bool

type_synonym selector = "key_runtime list"

text \<open>\<^verbatim>\<open>Selector::new\<close>, with its assertion that a key is stored at its flat index.\<close>

fun add_keys :: "registry \<Rightarrow> nat \<Rightarrow> provider_config \<Rightarrow> nat list \<Rightarrow> selector \<Rightarrow> selector option" where
  "add_keys r p pc [] ks = Some ks"
| "add_keys r p pc (k # rest) ks =
     (if flat_key_index r p k \<noteq> Some (length ks) then None
      else case semaphore_new (pc_max_inflight pc) of
             None \<Rightarrow> None
           | Some n \<Rightarrow> add_keys r p pc rest
               (ks @ [\<lparr>kr_provider_idx = p, kr_key_idx = k, kr_permits = n, kr_in_flight = 0,
                       kr_health = health_new, kr_poisoned = False\<rparr>]))"

fun add_providers :: "registry \<Rightarrow> nat list \<Rightarrow> selector \<Rightarrow> selector option" where
  "add_providers r [] ks = Some ks"
| "add_providers r (p # ps) ks =
     (case registry_provider r p of
        None \<Rightarrow> None
      | Some pc \<Rightarrow> Option.bind (add_keys r p pc [0..<length (pc_keys pc)] ks) (add_providers r ps))"

definition selector_new :: "registry \<Rightarrow> selector option" where
  "selector_new r =
     (case add_providers r [0..<length (rc_providers (rg_cfg r))] [] of
        None \<Rightarrow> None
      | Some ks \<Rightarrow> if length ks = rg_key_total r then Some ks else None)"

text \<open>The index of an endpoint's key, \<open>None\<close> where \<^verbatim>\<open>self.keys[...]\<close> would panic.\<close>

definition slot_of :: "registry \<Rightarrow> selector \<Rightarrow> endpoint \<Rightarrow> nat option" where
  "slot_of r s e = (case flat_key_index r (ep_provider_idx e) (ep_key_idx e) of
       Some i \<Rightarrow> if i < length s then Some i else None
     | None \<Rightarrow> None)"

datatype acquire_error = AllDead | AcquireTimeout

datatype scan_result = Found endpoint nat | NoneFree bool "nat option"

definition earlier :: "nat option \<Rightarrow> nat \<Rightarrow> nat option" where
  "earlier cur until = Some (case cur of Some c \<Rightarrow> if c \<le> until then c else until | None \<Rightarrow> until)"

fun scan :: "registry \<Rightarrow> selector \<Rightarrow> nat \<Rightarrow> endpoint list \<Rightarrow> bool \<Rightarrow> nat option \<Rightarrow> scan_result option" where
  "scan r s now [] any_live earliest = Some (NoneFree any_live earliest)"
| "scan r s now (e # es) any_live earliest =
     (case slot_of r s e of
        None \<Rightarrow> None
      | Some i \<Rightarrow>
          if kr_poisoned (s ! i) then None
          else case health_state (kr_health (s ! i)) now of
                 Dead \<Rightarrow> scan r s now es any_live earliest
               | Cooling until \<Rightarrow> scan r s now es any_live (earlier earliest until)
               | Live \<Rightarrow> if kr_permits (s ! i) > 0 then Some (Found e i)
                         else scan r s now es True earliest)"

definition take_permit :: "key_runtime \<Rightarrow> key_runtime" where
  "take_permit k = k\<lparr>kr_permits := kr_permits k - 1, kr_in_flight := (kr_in_flight k + 1) mod 2 ^ 64\<rparr>"

text \<open>Dropping a lease returns the permit and decrements the counter with wrap-around.\<close>

definition drop_lease :: "nat \<Rightarrow> selector \<Rightarrow> selector" where
  "drop_lease i s = s[i := (s ! i)\<lparr>kr_permits := kr_permits (s ! i) + 1,
                                    kr_in_flight := (kr_in_flight (s ! i) + (2 ^ 64 - 1)) mod 2 ^ 64\<rparr>]"

text \<open>One turn of the loop of \<^verbatim>\<open>Selector::acquire\<close>: a lease, an error, or a wait until an instant.\<close>

datatype turn = Leased endpoint nat | Failed acquire_error | Sleep nat

definition acquire_turn :: "registry \<Rightarrow> endpoint list \<Rightarrow> nat \<Rightarrow> nat \<Rightarrow> selector \<Rightarrow> (turn \<times> selector) option" where
  "acquire_turn r chain deadline now s =
     (if now \<ge> deadline then Some (Failed AcquireTimeout, s)
      else case scan r s now chain False None of
             None \<Rightarrow> None
           | Some (Found e i) \<Rightarrow> Some (Leased e i, s[i := take_permit (s ! i)])
           | Some (NoneFree any_live earliest) \<Rightarrow>
               if \<not> any_live \<and> earliest = None then Some (Failed AllDead, s)
               else if any_live
                 then map_option (\<lambda>t. (Sleep (min t deadline), s)) (instant_add now (50 * NS_PER_MS))
               else Some (Sleep (min (case earliest of Some t \<Rightarrow> t | None \<Rightarrow> deadline) deadline), s))"

text \<open>
  The loop. Each element of \<open>waits\<close> is a reading of the clock and what the other tasks do to the
  selector while this one sleeps. The result \<open>Waiting\<close> is a task that sleeps for longer than
  the given sequence lasts. A returned lease carries the instant at which it was taken.
\<close>

datatype 'a async = Ready 'a | Waiting | Panicked

fun acquire :: "registry \<Rightarrow> endpoint list \<Rightarrow> nat \<Rightarrow> (nat \<times> (selector \<Rightarrow> selector)) list \<Rightarrow> selector
    \<Rightarrow> (acquire_error + endpoint \<times> nat \<times> nat) async \<times> selector" where
  "acquire r chain deadline [] s = (Waiting, s)"
| "acquire r chain deadline ((now, others) # waits) s =
     (case acquire_turn r chain deadline now s of
        None \<Rightarrow> (Panicked, s)
      | Some (Leased e i, s') \<Rightarrow> (Ready (Inr (e, i, now)), s')
      | Some (Failed err, s') \<Rightarrow> (Ready (Inl err), s')
      | Some (Sleep _, s') \<Rightarrow> acquire r chain deadline waits (others s'))"

text \<open>
  Reports. The flag says whether the call returned; a report that panics under the lock leaves
  it poisoned.
\<close>

definition report_success :: "registry \<Rightarrow> endpoint \<Rightarrow> selector \<Rightarrow> selector \<times> bool" where
  "report_success r e s =
     (case slot_of r s e of
        None \<Rightarrow> (s, False)
      | Some i \<Rightarrow> if kr_poisoned (s ! i) then (s, False)
                 else (s[i := (s ! i)\<lparr>kr_health := record_success (kr_health (s ! i))\<rparr>], True))"

definition report_cooldown :: "registry \<Rightarrow> nat \<Rightarrow> endpoint \<Rightarrow> nat option \<Rightarrow> string \<Rightarrow> selector \<Rightarrow> selector \<times> bool" where
  "report_cooldown r now e retry_after msg s =
     (case registry_provider r (ep_provider_idx e) of
        None \<Rightarrow> (s, False)
      | Some pc \<Rightarrow>
          (case slot_of r s e of
             None \<Rightarrow> (s, False)
           | Some i \<Rightarrow>
               if kr_poisoned (s ! i) then (s, False)
               else let (h, ok) = cool_down now retry_after (pc_cooldown_ms pc) (pc_max_cooldown_ms pc)
                                    (record_error msg (kr_health (s ! i)))
                    in (s[i := (s ! i)\<lparr>kr_health := h, kr_poisoned := \<not> ok\<rparr>], ok)))"

definition report_dead :: "registry \<Rightarrow> endpoint \<Rightarrow> string \<Rightarrow> selector \<Rightarrow> selector \<times> bool" where
  "report_dead r e msg s =
     (case slot_of r s e of
        None \<Rightarrow> (s, False)
      | Some i \<Rightarrow> if kr_poisoned (s ! i) then (s, False)
                 else (s[i := (s ! i)\<lparr>kr_health := mark_dead (record_error msg (kr_health (s ! i)))\<rparr>], True))"

record key_snapshot =
  ks_label :: string
  ks_state :: string
  ks_cooling_secs :: "nat option"
  ks_in_flight :: nat
  ks_requests :: nat
  ks_errors :: nat
  ks_last_error :: "string option"

definition snapshot_key :: "registry \<Rightarrow> nat \<Rightarrow> key_runtime \<Rightarrow> key_snapshot option" where
  "snapshot_key r now k =
     (if kr_poisoned k then None
      else let (st, secs) = (case health_state (kr_health k) now of
                 Live \<Rightarrow> (''live'', None)
               | Dead \<Rightarrow> (''dead'', None)
               | Cooling until \<Rightarrow> (''cooling'', Some ((until - now) div NS_PER_SEC)))
           in map_option (\<lambda>label.
                \<lparr>ks_label = label, ks_state = st, ks_cooling_secs = secs, ks_in_flight = kr_in_flight k,
                 ks_requests = kh_requests (kr_health k), ks_errors = kh_errors (kr_health k),
                 ks_last_error = kh_last_error (kr_health k)\<rparr>)
              (key_label r \<lparr>ep_provider_idx = kr_provider_idx k, ep_key_idx = kr_key_idx k, ep_model_id = []\<rparr>))"

definition snapshot :: "registry \<Rightarrow> nat \<Rightarrow> selector \<Rightarrow> key_snapshot list option" where
  "snapshot r now s = those (map (snapshot_key r now) s)"

section \<open>Back-off\<close>

text \<open>A key that fails without a retry hint is withheld for exactly the default cool-down doubled
  once per earlier consecutive failure, at most six times, and never for more than the maximum:
  it cools until that instant and is live from it on. Saturation never shows.\<close>

theorem cooldown_backoff:
  assumes "\<not> kh_dead h" and "max_ms \<le> u64_max" and "now + max_ms * NS_PER_MS < INSTANT_LIMIT"
    and "kh_failures h \<le> u32_max"
  shows "\<exists>h'. cool_down now None default_ms max_ms h = (h', True) \<and>
     (\<forall>t. health_state h' t =
        (let until = now + min (default_ms * 2 ^ min (kh_failures h) 6) max_ms * NS_PER_MS
         in if t < until then Cooling until else Live))"
proof -
  let ?f = "min (Suc (kh_failures h)) u32_max"
  let ?ms = "min (default_ms * 2 ^ min (kh_failures h) 6) max_ms"
  have "min (?f - 1) 6 = min (kh_failures h) 6"
    using assms(4) by (auto simp: min_def u32_max_def)
  moreover have "min (sat64 n) max_ms = min n max_ms" for n
    using assms(2) by (auto simp: sat64_def)
  ultimately have w: "cooldown_wait ?f None default_ms max_ms = ?ms * NS_PER_MS"
    by (simp add: cooldown_wait_def Let_def)
  have "?ms * NS_PER_MS \<le> max_ms * NS_PER_MS" by (intro mult_right_mono) simp_all
  with assms(3) have "now + ?ms * NS_PER_MS < INSTANT_LIMIT" by linarith
  then have "instant_add now (?ms * NS_PER_MS) = Some (now + ?ms * NS_PER_MS)"
    by (simp add: instant_add_def)
  with assms(1) show ?thesis
    by (simp add: cool_down_def Let_def w health_state_def)
qed

theorem cooldown_backoff_witness:
  "\<exists>h'. cool_down 7 None 30000 21600000 (health_new\<lparr>kh_failures := 9\<rparr>) = (h', True) \<and>
     (\<forall>t. health_state h' t = (if t < 1920000000007 then Cooling 1920000000007 else Live))"
  using cooldown_backoff [of "health_new\<lparr>kh_failures := 9\<rparr>" 21600000 7 30000]
  by (simp add: health_new_def u64_max_def u32_max_def NS_PER_MS_def NS_PER_SEC_def INSTANT_LIMIT_def Let_def
      split del: if_split)

section \<open>A retry hint that stops the clock\<close>

definition MAX_RETRY_AFTER :: string where "MAX_RETRY_AFTER = ''18446744073709551615''"

lemma classify_max_retry: "classify_status 429 (Some MAX_RETRY_AFTER) = CoolDown (Some (u64_max * NS_PER_SEC))"
proof -
  have "chars MAX_RETRY_AFTER = map of_char MAX_RETRY_AFTER"
    by (rule ascii_chars) (simp add: MAX_RETRY_AFTER_def is_ascii_def)
  then have "parse_retry_after MAX_RETRY_AFTER = Some (u64_max * NS_PER_SEC)"
    by (simp add: parse_retry_after_def MAX_RETRY_AFTER_def trim_chars_def is_whitespace_def in_rng_def
        parse_uint_def u64_max_def)
  then show ?thesis by (simp add: classify_status_def)
qed

lemma slot_of_bound: "slot_of r s e = Some i \<Longrightarrow> i < length s"
  by (auto simp: slot_of_def split: option.splits if_splits)

lemma slot_of_upd [simp]: "slot_of r (s[i := k]) e = slot_of r s e"
  by (simp add: slot_of_def split: option.splits)

text \<open>An upstream that answers 429 with the largest retry hint a \<^verbatim>\<open>u64\<close> holds makes the report
  panic while it holds the health lock of the key. From then on every attempt to lease from a chain
  whose first endpoint uses that key panics.\<close>

theorem retry_after_poisons_key:
  assumes "slot_of r s e = Some i" and "registry_provider r (ep_provider_idx e) \<noteq> None"
    and "\<not> kr_poisoned (s ! i)" and "\<not> kh_dead (kr_health (s ! i))"
  shows "\<exists>d s'. classify_status 429 (Some MAX_RETRY_AFTER) = CoolDown (Some d)
     \<and> report_cooldown r now e (Some d) msg s = (s', False)
     \<and> (\<forall>rest deadline t. t < deadline \<longrightarrow> acquire_turn r (e # rest) deadline t s' = None)"
proof -
  let ?d = "u64_max * NS_PER_SEC"
  have "instant_add now ?d = None"
    by (simp add: instant_add_def u64_max_def NS_PER_SEC_def INSTANT_LIMIT_def)
  with assms obtain h where "report_cooldown r now e (Some ?d) msg s
      = (s[i := (s ! i)\<lparr>kr_health := h, kr_poisoned := True\<rparr>], False)"
    by (auto simp: report_cooldown_def cool_down_def cooldown_wait_def record_error_def Let_def)
  with assms(1) slot_of_bound [OF assms(1)] classify_max_retry show ?thesis
    by (intro exI [of _ ?d] exI conjI) (auto simp: acquire_turn_def)
qed

definition sample_registry :: registry where
  "sample_registry = the (registry_build sample_config)"

definition sample_selector :: selector where
  "sample_selector = the (selector_new sample_registry)"

definition sample_endpoint :: endpoint where
  "sample_endpoint = \<lparr>ep_provider_idx = 0, ep_key_idx = 0, ep_model_id = ''m''\<rparr>"

lemma sample_registry_eq:
  "sample_registry = \<lparr>rg_cfg = sample_config,
     rg_chains = [''auto'' \<mapsto> [sample_endpoint], ''groq'' \<mapsto> [sample_endpoint],
                  ''local'' \<mapsto> [\<lparr>ep_provider_idx = 1, ep_key_idx = 0, ep_model_id = ''n''\<rparr>]],
     rg_key_base = [0, 1], rg_key_total = 2\<rparr>"
  by (simp add: sample_registry_def registry_build_def sample_config_def to_config_def sample_slots_def Let_def
      entry_endpoints_def slot_entry_def slot_provider_def provider_defaults_def DEFAULT_ALIAS_def sample_endpoint_def)

lemma sample_selector_eq:
  "sample_selector =
     [\<lparr>kr_provider_idx = 0, kr_key_idx = 0, kr_permits = 4, kr_in_flight = 0, kr_health = health_new, kr_poisoned = False\<rparr>,
      \<lparr>kr_provider_idx = 1, kr_key_idx = 0, kr_permits = 4, kr_in_flight = 0, kr_health = health_new, kr_poisoned = False\<rparr>]"
  by (simp add: sample_selector_def selector_new_def sample_registry_eq sample_config_def to_config_def sample_slots_def
      Let_def slot_provider_def provider_defaults_def upt_rec registry_provider_def index_opt_def flat_key_index_def
      semaphore_new_def MAX_PERMITS_def)

lemma sample_slot: "slot_of sample_registry sample_selector sample_endpoint = Some 0"
  by (simp add: slot_of_def flat_key_index_def sample_registry_eq sample_selector_eq index_opt_def sample_endpoint_def)

lemma sample_provider: "registry_provider sample_registry (ep_provider_idx sample_endpoint) \<noteq> None"
  by (simp add: registry_provider_def index_opt_def sample_registry_eq sample_endpoint_def sample_config_def
      to_config_def sample_slots_def Let_def)

theorem retry_after_poisons_key_witness:
  "\<exists>d s'. classify_status 429 (Some MAX_RETRY_AFTER) = CoolDown (Some d)
     \<and> report_cooldown sample_registry 5 sample_endpoint (Some d) ''HTTP 429'' sample_selector = (s', False)
     \<and> acquire_turn sample_registry [sample_endpoint] 100 10 s' = None"
proof -
  have "\<not> kr_poisoned (sample_selector ! 0) \<and> \<not> kh_dead (kr_health (sample_selector ! 0))"
    by (simp add: sample_selector_eq health_new_def)
  then have "\<exists>d s'. classify_status 429 (Some MAX_RETRY_AFTER) = CoolDown (Some d)
     \<and> report_cooldown sample_registry 5 sample_endpoint (Some d) ''HTTP 429'' sample_selector = (s', False)
     \<and> (\<forall>rest deadline t. t < deadline \<longrightarrow> acquire_turn sample_registry (sample_endpoint # rest) deadline t s' = None)"
    by (intro retry_after_poisons_key [OF sample_slot sample_provider]) auto
  then obtain d s' where *: "classify_status 429 (Some MAX_RETRY_AFTER) = CoolDown (Some d)"
    "report_cooldown sample_registry 5 sample_endpoint (Some d) ''HTTP 429'' sample_selector = (s', False)"
    "\<forall>rest deadline t. t < deadline \<longrightarrow> acquire_turn sample_registry (sample_endpoint # rest) deadline t s' = None"
    by blast
  from *(3) have "acquire_turn sample_registry [sample_endpoint] 100 10 s' = None" by simp
  with *(1,2) show ?thesis by blast
qed

section \<open>Selection\<close>

text \<open>What a scan may use: keys in range whose lock is intact.\<close>

definition chain_ok :: "registry \<Rightarrow> selector \<Rightarrow> endpoint list \<Rightarrow> bool" where
  "chain_ok r s chain \<longleftrightarrow> (\<forall>e\<in>set chain. \<exists>i. slot_of r s e = Some i \<and> \<not> kr_poisoned (s ! i))"

definition key_of :: "registry \<Rightarrow> selector \<Rightarrow> endpoint \<Rightarrow> key_runtime" where
  "key_of r s e = s ! the (slot_of r s e)"

definition key_status :: "registry \<Rightarrow> selector \<Rightarrow> nat \<Rightarrow> endpoint \<Rightarrow> key_state" where
  "key_status r s now e = health_state (kr_health (key_of r s e)) now"

definition available :: "registry \<Rightarrow> selector \<Rightarrow> nat \<Rightarrow> endpoint \<Rightarrow> bool" where
  "available r s now e \<longleftrightarrow> key_status r s now e = Live \<and> kr_permits (key_of r s e) > 0"

definition cooling_ends :: "registry \<Rightarrow> selector \<Rightarrow> nat \<Rightarrow> endpoint list \<Rightarrow> nat list" where
  "cooling_ends r s now chain =
     concat (map (\<lambda>e. case key_status r s now e of Cooling t \<Rightarrow> [t] | _ \<Rightarrow> []) chain)"

lemma earlier_fold: "earlier cur until = Some (case cur of None \<Rightarrow> until | Some c \<Rightarrow> min c until)"
  by (simp add: earlier_def min_def split: option.splits)

lemma scan_spec:
  "chain_ok r s es \<Longrightarrow>
   scan r s now es any early =
     Some (case List.find (available r s now) es of
             Some e \<Rightarrow> Found e (the (slot_of r s e))
           | None \<Rightarrow> NoneFree (any \<or> (\<exists>e\<in>set es. key_status r s now e = Live))
               (fold (\<lambda>t cur. earlier cur t) (cooling_ends r s now es) early))"
proof (induction es arbitrary: any early)
  case Nil
  then show ?case by (simp add: cooling_ends_def)
next
  case (Cons e es)
  then obtain i where "slot_of r s e = Some i" "\<not> kr_poisoned (s ! i)" and "chain_ok r s es"
    by (auto simp: chain_ok_def)
  with Cons.IH show ?case
    by (auto simp: available_def key_status_def key_of_def cooling_ends_def split: key_state.splits option.splits)
qed

lemma cooling_in_future: "t \<in> set (cooling_ends r s now chain) \<Longrightarrow> now < t"
  by (auto simp: cooling_ends_def key_status_def health_state_def split: key_state.splits option.splits if_splits)

lemma fold_earlier:
  "fold (\<lambda>t cur. earlier cur t) ts early = (case early of
      None \<Rightarrow> if ts = [] then None else Some (Min (set ts))
    | Some c \<Rightarrow> Some (Min (insert c (set ts))))"
proof (induction ts arbitrary: early)
  case Nil
  then show ?case by (simp split: option.splits)
next
  case (Cons t ts)
  have "Min (insert (min c t) (set ts)) = Min (insert c (insert t (set ts)))" for c
    by (cases "ts = []") (simp_all add: Min_insert min.assoc)
  with Cons show ?case by (simp add: earlier_fold split: option.splits)
qed

text \<open>C13: one turn of the lease loop decides as the specification says: it times out at the deadline,
  otherwise leases the first endpoint of the chain that is live and has a free permit, reports
  that all keys are dead exactly when they are, and else sleeps: for 50 ms when some key is merely
  busy, until the first cool-down ends when none is live, never past the deadline and never for no time.\<close>

theorem acquire_turn_spec:
  assumes "chain_ok r s chain" and "now + 50 * NS_PER_MS < INSTANT_LIMIT"
  shows "acquire_turn r chain deadline now s =
    (if now \<ge> deadline then Some (Failed AcquireTimeout, s)
     else case List.find (available r s now) chain of
            Some e \<Rightarrow> (let i = the (slot_of r s e) in Some (Leased e i, s[i := take_permit (s ! i)]))
          | None \<Rightarrow>
              if \<forall>e\<in>set chain. key_status r s now e = Dead then Some (Failed AllDead, s)
              else if \<exists>e\<in>set chain. key_status r s now e = Live
                then Some (Sleep (min (now + 50 * NS_PER_MS) deadline), s)
              else Some (Sleep (min (Min (set (cooling_ends r s now chain))) deadline), s))"
proof -
  have dead: "cooling_ends r s now chain = [] \<and> (\<forall>e\<in>set chain. key_status r s now e \<noteq> Live)
      \<longleftrightarrow> (\<forall>e\<in>set chain. key_status r s now e = Dead)"
    by (auto simp: cooling_ends_def split: key_state.splits) (metis key_state.exhaust)+
  show ?thesis
    using assms(2) dead
    by (auto simp: acquire_turn_def scan_spec [OF assms(1)] fold_earlier instant_add_def Let_def
        split: option.splits)
qed

theorem acquire_turn_spec_witness:
  "acquire_turn sample_registry [sample_endpoint] 100 10 sample_selector
     = Some (Leased sample_endpoint 0, sample_selector[0 := take_permit (sample_selector ! 0)])"
proof -
  have ok: "chain_ok sample_registry sample_selector [sample_endpoint]"
    by (simp add: chain_ok_def sample_slot) (simp add: sample_selector_eq)
  have "available sample_registry sample_selector 10 sample_endpoint"
    by (simp add: available_def key_status_def key_of_def sample_slot)
       (simp add: sample_selector_eq health_new_def health_state_def)
  then show ?thesis
    by (subst acquire_turn_spec [OF ok])
       (simp_all add: sample_slot INSTANT_LIMIT_def NS_PER_SEC_def NS_PER_MS_def)
qed

end
