(* ===== verification/RouterProxy.thy ===== *)
theory RouterProxy
  imports RouterSelect Messages
begin

text \<open>
  The failover walk of the model router: \<^verbatim>\<open>amber-router/src/upstream.rs\<close> (what is sent to a
  provider), \<^verbatim>\<open>sse.rs\<close> (the gate in front of a streamed answer), \<^verbatim>\<open>proxy.rs\<close> (the walk over
  a chain of endpoints, buffered and streamed) and \<^verbatim>\<open>state.rs\<close>.

  The environment of a request gives, for each attempt, the clock readings of the lease loop, when
  and how the upstream answers, and what other tasks do to the selector meanwhile. Delays are
  explicit, so the timeouts of the code are computed; computation itself takes no time.
\<close>

section \<open>Requests to a provider\<close>

text \<open>A \<^verbatim>\<open>serde_json\<close> object is a sorted map: insertion keeps its members in byte order.\<close>

fun str_less :: "string \<Rightarrow> string \<Rightarrow> bool" where
  "str_less _ [] = False"
| "str_less [] (_ # _) = True"
| "str_less (c # cs) (d # ds) =
     ((of_char c :: nat) < of_char d \<or> c = d \<and> str_less cs ds)"

fun obj_insert :: "string \<Rightarrow> json \<Rightarrow> (string \<times> json) list \<Rightarrow> (string \<times> json) list" where
  "obj_insert k v [] = [(k, v)]"
| "obj_insert k v ((k', v') # ms) =
     (if k = k' then (k, v) # ms
      else if str_less k k' then (k, v) # (k', v') # ms
      else (k', v') # obj_insert k v ms)"

definition obj_remove :: "string \<Rightarrow> (string \<times> json) list \<Rightarrow> (string \<times> json) list" where
  "obj_remove k ms = filter (\<lambda>m. fst m \<noteq> k) ms"

definition prepare_body :: "json \<Rightarrow> string \<Rightarrow> string list \<Rightarrow> json" where
  "prepare_body original model_id drop_params =
     (case original of
        JObject ms \<Rightarrow> JObject (fold obj_remove drop_params (obj_insert ''model'' (JString model_id) ms))
      | _ \<Rightarrow> original)"

definition is_stream_requested :: "json \<Rightarrow> bool" where
  "is_stream_requested body = (case json_get body ''stream'' of Some (JBool b) \<Rightarrow> b | _ \<Rightarrow> False)"

definition chat_completions_url :: "string \<Rightarrow> string" where
  "chat_completions_url base_url = rev (dropWhile (\<lambda>c. c = CHR ''/'') (rev base_url)) @ ''/chat/completions''"

record sent_request =
  sq_url :: string
  sq_key :: string
  sq_body :: json
  sq_connect_ms :: nat

section \<open>The gate of a streamed answer\<close>

text \<open>
  The events of a stream, each with the time since the gate opened at which it arrives;
  \<open>None\<close> is an event that does not decode. \<open>ended\<close> is when the stream ends, if it does.
\<close>

type_synonym events = "(nat \<times> string option) list"

datatype gate_failure = UpstreamError string | GateTimeout | GateEmpty

definition first_frame_is_error :: "(string \<Rightarrow> json option) \<Rightarrow> string \<Rightarrow> bool" where
  "first_frame_is_error parse frame =
     (let trimmed = str_trim frame
      in if trimmed = [] \<or> trimmed = ''[DONE]'' then False
         else case parse trimmed of Some v \<Rightarrow> json_get v ''error'' \<noteq> None | None \<Rightarrow> False)"

fun gate_stream :: "(string \<Rightarrow> json option) \<Rightarrow> nat \<Rightarrow> events \<Rightarrow> nat option
    \<Rightarrow> (gate_failure + string \<times> events) \<times> nat" where
  "gate_stream parse first_byte [] ended =
     (case ended of
        Some t \<Rightarrow> if t \<le> first_byte then (Inl GateEmpty, t) else (Inl GateTimeout, first_byte)
      | None \<Rightarrow> (Inl GateTimeout, first_byte))"
| "gate_stream parse first_byte ((t, ev) # evs) ended =
     (if t > first_byte then (Inl GateTimeout, first_byte)
      else case ev of
             None \<Rightarrow> (Inl GateEmpty, t)
           | Some data \<Rightarrow>
               if str_trim data = [] then gate_stream parse first_byte evs ended
               else if first_frame_is_error parse data then (Inl (UpstreamError data), t)
               else (Inr (data, evs), t))"

definition frame_text :: "string \<Rightarrow> string" where
  "frame_text data = ''data: '' @ data @ [CHR 0x0A, CHR 0x0A]"

text \<open>What the client receives: the frame the gate let through, then the rest; \<open>None\<close> is a broken stream.\<close>

definition into_body_stream :: "string \<times> events \<Rightarrow> string option list" where
  "into_body_stream g = Some (frame_text (fst g)) # map (map_option frame_text \<circ> snd) (snd g)"

section \<open>The environment of an attempt\<close>

record response =
  rs_status :: nat
  rs_retry_after :: "string option"
  rs_content_type :: "string option"
  rs_body_delay :: "nat option"
  rs_body :: "(bool \<times> string) + byte list"
  rs_events :: events
  rs_ended :: "nat option"

datatype reply = SendError bool string | Answer response

record upstream_turn =
  ut_waits :: "(nat \<times> (selector \<Rightarrow> selector)) list"
  ut_delay :: "nat option"
  ut_reply :: reply
  ut_others :: "selector \<Rightarrow> selector"
  ut_later :: "selector \<Rightarrow> selector"

text \<open>\<^verbatim>\<open>tokio::time::timeout\<close>: the value if it arrives in time, and the time spent.\<close>

definition timeout :: "nat \<Rightarrow> nat option \<Rightarrow> 'a \<Rightarrow> 'a option \<times> nat" where
  "timeout limit delay v = (case delay of
      Some t \<Rightarrow> if t \<le> limit then (Some v, t) else (None, limit)
    | None \<Rightarrow> (None, limit))"

section \<open>The state of a walk\<close>

record attempt =
  at_label :: string
  at_model :: string
  at_outcome :: string
  at_status :: "nat option"
  at_latency_ms :: nat

record proxy_outcome =
  po_status :: nat
  po_body :: "byte list"
  po_content_type :: string
  po_attempts :: "attempt list"

datatype proxy_error =
    UnknownAlias
  | QueueFull
  | AllKeysDead "attempt list"
  | Exhausted "attempt list" nat "byte list"
  | DeadlineExceeded "attempt list"

record 'f walk =
  wk_sel :: selector
  wk_now :: nat
  wk_attempts :: "attempt list"
  wk_errors :: "(nat \<times> byte list) option list"
  wk_streak :: nat
  wk_first :: "'f option"
  wk_log :: "sent_request list"

definition pick_reportable :: "attempt list \<Rightarrow> nat" where
  "pick_reportable attempts =
     (case position (\<lambda>a. at_status a \<noteq> Some 429 \<and> at_status a \<noteq> None) attempts of
        Some i \<Rightarrow> i | None \<Rightarrow> length attempts - 1)"

definition last_error :: "(nat \<times> byte list) option list \<Rightarrow> (nat \<times> byte list) option" where
  "last_error errors = (case List.find (\<lambda>e. e \<noteq> None) (rev errors) of Some e \<Rightarrow> e | None \<Rightarrow> None)"

definition EXHAUSTED_TEXT :: "byte list" where
  "EXHAUSTED_TEXT = bytes_of ''router: all endpoints exhausted''"

definition most_informative :: "attempt list \<Rightarrow> (nat \<times> byte list) option list \<Rightarrow> nat \<times> byte list" where
  "most_informative attempts errors =
     (case Option.bind (index_opt errors (pick_reportable attempts)) id of
        Some e \<Rightarrow> e
      | None \<Rightarrow> (case last_error errors of Some e \<Rightarrow> e | None \<Rightarrow> (502, EXHAUSTED_TEXT)))"

definition remaining_endpoints :: "endpoint list \<Rightarrow> endpoint list \<Rightarrow> endpoint list" where
  "remaining_endpoints chain tried = filter (\<lambda>e. e \<notin> set tried) chain"

definition exhausted :: "'f walk \<Rightarrow> proxy_error" where
  "exhausted w = (let (status, body) = most_informative (wk_attempts w) (wk_errors w)
                  in Exhausted (wk_attempts w) status body)"

text \<open>How an attempt ends: the walk goes on, returns, never comes back, or panics.\<close>

datatype ('f, 'r) step_result =
    Continue "'f walk" | Return 'r "'f walk" | Hang "'f walk" | Panic "'f walk"

text \<open>
  Report to the selector, then go on. A panic unwinds through the lease, which gives its permit back.
\<close>

definition reporting :: "nat \<Rightarrow> (selector \<Rightarrow> selector \<times> bool) \<Rightarrow> 'f walk \<Rightarrow> ('f walk \<Rightarrow> ('f, 'r) step_result)
    \<Rightarrow> ('f, 'r) step_result" where
  "reporting i report w k =
     (let (s, ok) = report (wk_sel w)
      in if ok then k (w\<lparr>wk_sel := s\<rparr>) else Panic (w\<lparr>wk_sel := drop_lease i s\<rparr>))"

definition push_attempt :: "string \<Rightarrow> endpoint \<Rightarrow> string \<Rightarrow> nat option \<Rightarrow> nat \<Rightarrow> 'f walk \<Rightarrow> 'f walk" where
  "push_attempt label e outcome status started w =
     w\<lparr>wk_attempts := wk_attempts w @
        [\<lparr>at_label = label, at_model = ep_model_id e, at_outcome = outcome, at_status = status,
          at_latency_ms = ((wk_now w - started) div NS_PER_MS) mod 2 ^ 64\<rparr>]\<rparr>"

definition release :: "nat \<Rightarrow> 'f walk \<Rightarrow> 'f walk" where
  "release i w = w\<lparr>wk_sel := drop_lease i (wk_sel w)\<rparr>"

text \<open>The common end of a failed attempt: the answer is noted, the streak of client errors is over, the
  lease is dropped, and the walk stops once every endpoint had its turn.\<close>

definition end_attempt :: "nat \<Rightarrow> nat \<Rightarrow> (nat \<times> byte list) option \<Rightarrow> 'f walk \<Rightarrow> ('f, proxy_error + 'o) step_result" where
  "end_attempt chain_len i err w =
     (let w' = release i (w\<lparr>wk_errors := wk_errors w @ [err], wk_streak := 0, wk_first := None\<rparr>)
      in if length (wk_attempts w') \<ge> chain_len then Return (Inl (exhausted w')) w' else Continue w')"

definition no_answer :: "registry \<Rightarrow> nat \<Rightarrow> endpoint \<Rightarrow> nat \<Rightarrow> string \<Rightarrow> string \<Rightarrow> string \<Rightarrow> nat \<Rightarrow> 'f walk
    \<Rightarrow> ('f, proxy_error + 'o) step_result" where
  "no_answer r chain_len e i label outcome msg started w =
     reporting i (report_cooldown r (wk_now w) e None msg) (push_attempt label e outcome None started w)
       (end_attempt chain_len i None)"

definition failure_kind :: "bool \<Rightarrow> string" where
  "failure_kind is_timeout = (if is_timeout then ''timeout'' else ''transport'')"

definition http_text :: "nat \<Rightarrow> string" where
  "http_text status = ''HTTP '' @ map char_of (dec status)"

section \<open>The walk\<close>

text \<open>
  The loop shared by both forms of the proxy: lease the first free endpoint not yet tried and
  attempt it. \<open>fin\<close>, \<open>late\<close> and \<open>dead\<close> are what the loop returns when no endpoint is left, when the
  deadline passes in the lease loop and when every remaining key is dead.
\<close>

lemma acquire_turn_in: "acquire_turn r chain deadline now s = Some (Leased e i, s') \<Longrightarrow> e \<in> set chain"
proof -
  have "scan r s now es any early = Some (Found e i) \<Longrightarrow> e \<in> set es" for es any early
    by (induction es arbitrary: any early) (auto split: option.splits if_splits key_state.splits)
  then show "acquire_turn r chain deadline now s = Some (Leased e i, s') \<Longrightarrow> e \<in> set chain"
    by (auto simp: acquire_turn_def split: if_splits option.splits scan_result.splits)
qed

lemma acquire_in: "acquire r chain deadline waits s = (Ready (Inr (e, i, t)), s') \<Longrightarrow> e \<in> set chain"
  by (induction r chain deadline waits s rule: acquire.induct)
     (auto split: option.splits turn.splits prod.splits dest: acquire_turn_in)

lemma remaining_shrinks:
  "e \<in> set (remaining_endpoints chain tried) \<Longrightarrow>
     length (remaining_endpoints chain (tried @ [e])) < length (remaining_endpoints chain tried)"
proof -
  assume e: "e \<in> set (remaining_endpoints chain tried)"
  have "remaining_endpoints chain (tried @ [e]) = filter (\<lambda>x. x \<noteq> e) (remaining_endpoints chain tried)"
    by (auto simp: remaining_endpoints_def intro: filter_cong)
  with e show ?thesis by (simp add: length_filter_less)
qed

type_synonym ('f, 'r) attempt_fn =
  "endpoint \<Rightarrow> nat \<Rightarrow> upstream_turn \<Rightarrow> 'f walk \<Rightarrow> ('f, 'r) step_result"

function failover :: "('f walk \<Rightarrow> 'r) \<Rightarrow> ('f walk \<Rightarrow> 'r) \<Rightarrow> ('f walk \<Rightarrow> 'r) \<Rightarrow> ('f, 'r) attempt_fn \<Rightarrow> registry
    \<Rightarrow> endpoint list \<Rightarrow> nat \<Rightarrow> (nat \<Rightarrow> upstream_turn) \<Rightarrow> endpoint list \<Rightarrow> 'f walk \<Rightarrow> 'r async \<times> 'f walk" where
  "failover fin late dead attempt r chain deadline env tried w =
     (let remaining = remaining_endpoints chain tried; t = env (length tried)
      in if remaining = [] then (Ready (fin w), w)
         else case acquire r remaining deadline (ut_waits t) (wk_sel w) of
                (Waiting, s) \<Rightarrow> (Waiting, w\<lparr>wk_sel := s\<rparr>)
              | (Panicked, s) \<Rightarrow> (Panicked, w\<lparr>wk_sel := s\<rparr>)
              | (Ready (Inl AllDead), s) \<Rightarrow> (Ready (dead (w\<lparr>wk_sel := s\<rparr>)), w\<lparr>wk_sel := s\<rparr>)
              | (Ready (Inl AcquireTimeout), s) \<Rightarrow> (Ready (late (w\<lparr>wk_sel := s\<rparr>)), w\<lparr>wk_sel := s\<rparr>)
              | (Ready (Inr (e, i, now)), s) \<Rightarrow>
                  (case attempt e i t (w\<lparr>wk_sel := s, wk_now := now\<rparr>) of
                     Continue w' \<Rightarrow> failover fin late dead attempt r chain deadline env (tried @ [e]) w'
                   | Return x w' \<Rightarrow> (Ready x, w')
                   | Hang w' \<Rightarrow> (Waiting, w')
                   | Panic w' \<Rightarrow> (Panicked, w')))"
  by pat_completeness auto

termination
  by (relation "measure (\<lambda>(_, _, _, _, _, chain, _, _, tried, _). length (remaining_endpoints chain tried))")
     (auto intro!: remaining_shrinks dest: acquire_in [OF sym])

declare failover.simps [simp del]

text \<open>The proof rule of the walk: \<open>P\<close> holds between attempts, \<open>Q\<close> where the walk stops.\<close>

fun step_ok :: "('f walk \<Rightarrow> bool) \<Rightarrow> ('r async \<times> 'f walk \<Rightarrow> bool) \<Rightarrow> ('f, 'r) step_result \<Rightarrow> bool" where
  "step_ok P Q (Continue w) = P w"
| "step_ok P Q (Return x w) = Q (Ready x, w)"
| "step_ok P Q (Hang w) = Q (Waiting, w)"
| "step_ok P Q (Panic w) = Q (Panicked, w)"

lemma failover_rule:
  assumes start: "P tried w"
    and finish: "\<And>tried w. P tried w \<Longrightarrow> remaining_endpoints chain tried = [] \<Longrightarrow> Q (Ready (fin w), w)"
    and give_up: "\<And>tried w x s. P tried w \<Longrightarrow>
        acquire r (remaining_endpoints chain tried) deadline (ut_waits (env (length tried))) (wk_sel w) = (x, s) \<Longrightarrow>
        (case x of Ready (Inl AllDead) \<Rightarrow> Q (Ready (dead (w\<lparr>wk_sel := s\<rparr>)), w\<lparr>wk_sel := s\<rparr>)
         | Ready (Inl AcquireTimeout) \<Rightarrow> Q (Ready (late (w\<lparr>wk_sel := s\<rparr>)), w\<lparr>wk_sel := s\<rparr>)
         | Ready (Inr _) \<Rightarrow> True
         | Waiting \<Rightarrow> Q (Waiting, w\<lparr>wk_sel := s\<rparr>)
         | Panicked \<Rightarrow> Q (Panicked, w\<lparr>wk_sel := s\<rparr>))"
    and step: "\<And>tried w e i now s. P tried w \<Longrightarrow> e \<in> set (remaining_endpoints chain tried) \<Longrightarrow>
        acquire r (remaining_endpoints chain tried) deadline (ut_waits (env (length tried))) (wk_sel w)
          = (Ready (Inr (e, i, now)), s) \<Longrightarrow>
        step_ok (P (tried @ [e])) Q (attempt e i (env (length tried)) (w\<lparr>wk_sel := s, wk_now := now\<rparr>))"
  shows "Q (failover fin late dead attempt r chain deadline env tried w)"
  using start
proof (induction "length (remaining_endpoints chain tried)" arbitrary: tried w rule: less_induct)
  case less
  let ?rem = "remaining_endpoints chain tried" and ?t = "env (length tried)"
  obtain res s where acq: "acquire r ?rem deadline (ut_waits ?t) (wk_sel w) = (res, s)"
    by (cases "acquire r ?rem deadline (ut_waits ?t) (wk_sel w)")
  show ?case
  proof (cases "?rem = []")
    case True
    with finish [OF less.prems] show ?thesis by (subst failover.simps) simp
  next
    case ne: False
    show ?thesis
    proof (cases "\<exists>e i now. res = Ready (Inr (e, i, now))")
      case False
      with ne acq give_up [OF less.prems acq] show ?thesis
        by (subst failover.simps) (auto simp: Let_def split: async.splits sum.splits acquire_error.splits)
    next
      case True
      then obtain e i now where res: "res = Ready (Inr (e, i, now))" by blast
      let ?w = "w\<lparr>wk_sel := s, wk_now := now\<rparr>"
      from acq res have e: "e \<in> set ?rem" by (auto dest: acquire_in)
      from step [OF less.prems e acq [unfolded res]] less.hyps [OF remaining_shrinks [OF e]] show ?thesis
        by (subst failover.simps) (use acq res ne in \<open>cases "attempt e i ?t ?w"; auto simp: Let_def\<close>)
    qed
  qed
qed

section \<open>The buffered proxy\<close>

type_synonym client_error = "nat \<times> byte list \<times> string"

definition client_answer :: "client_error \<Rightarrow> 'f walk \<Rightarrow> proxy_outcome" where
  "client_answer c w = (case c of (status, body, content_type) \<Rightarrow>
     \<lparr>po_status = status, po_body = body, po_content_type = content_type, po_attempts = wk_attempts w\<rparr>)"

definition once_exhausted :: "client_error walk \<Rightarrow> proxy_error + proxy_outcome" where
  "once_exhausted w = (case wk_first w of Some c \<Rightarrow> Inr (client_answer c w) | None \<Rightarrow> Inl (exhausted w))"

definition once_late :: "client_error walk \<Rightarrow> proxy_error + proxy_outcome" where
  "once_late w = (if wk_attempts w = [] then Inl (DeadlineExceeded (wk_attempts w)) else once_exhausted w)"

definition all_keys_dead :: "'f walk \<Rightarrow> proxy_error + 'o" where
  "all_keys_dead w = Inl (AllKeysDead (wk_attempts w))"

text \<open>What follows an answer with an error status. The streak and its first answer are the proxy's
  memory of client errors; other errors clear it.\<close>

definition once_rejected :: "registry \<Rightarrow> nat \<Rightarrow> endpoint \<Rightarrow> nat \<Rightarrow> verdict \<Rightarrow> nat \<Rightarrow> byte list \<Rightarrow> string
    \<Rightarrow> client_error walk \<Rightarrow> (client_error, proxy_error + proxy_outcome) step_result" where
  "once_rejected r chain_len e i verdict status body content_type w =
     (case verdict of
        Fatal \<Rightarrow>
          (let first = (case wk_first w of None \<Rightarrow> (status, body, content_type) | Some c \<Rightarrow> c);
               w' = w\<lparr>wk_streak := wk_streak w + 1, wk_first := Some first\<rparr>
           in reporting i (report_success r e) w' (\<lambda>w.
                let w' = release i (w\<lparr>wk_errors := wk_errors w @ [Some (status, body)]\<rparr>)
                in if client_error_stops_chain (wk_streak w') then Return (Inr (client_answer first w')) w'
                   else Continue w'))
      | DeadKey \<Rightarrow> reporting i (report_dead r e (http_text status)) w (end_attempt chain_len i (Some (status, body)))
      | CoolDown retry_after \<Rightarrow> reporting i (report_cooldown r (wk_now w) e retry_after (http_text status)) w
                                  (end_attempt chain_len i (Some (status, body)))
      | Success \<Rightarrow> Panic (release i w))"

definition verdict_outcome :: "verdict \<Rightarrow> string" where
  "verdict_outcome v = (case v of CoolDown _ \<Rightarrow> ''cooldown'' | DeadKey \<Rightarrow> ''dead_key'' | Fatal \<Rightarrow> ''fatal'' | Success \<Rightarrow> [])"

definition once_answered :: "registry \<Rightarrow> nat \<Rightarrow> endpoint \<Rightarrow> nat \<Rightarrow> provider_config \<Rightarrow> string \<Rightarrow> nat \<Rightarrow> nat \<Rightarrow> response
    \<Rightarrow> (selector \<Rightarrow> selector) \<Rightarrow> client_error walk \<Rightarrow> (client_error, proxy_error + proxy_outcome) step_result" where
  "once_answered r chain_len e i pc label started deadline resp later w =
     (let status = rs_status resp;
          content_type = (case rs_content_type resp of Some c \<Rightarrow> c | None \<Rightarrow> ''application/json'');
          verdict = classify_status status (rs_retry_after resp);
          budget = min (deadline - wk_now w) (pc_total_ms pc * NS_PER_MS - (wk_now w - started));
          (result, spent) = timeout budget (rs_body_delay resp) (rs_body resp);
          w' = w\<lparr>wk_now := wk_now w + spent, wk_sel := later (wk_sel w)\<rparr>
      in if verdict = Success then
           (case result of
              Some (Inr body) \<Rightarrow>
                reporting i (report_success r e) (push_attempt label e ''success'' (Some status) started w') (\<lambda>w.
                  let w' = release i w
                  in Return (Inr (client_answer (status, body, content_type) w')) w')
            | Some (Inl (is_timeout, msg)) \<Rightarrow>
                no_answer r chain_len e i label (failure_kind is_timeout)
                  (failure_kind is_timeout @ '': '' @ msg) started w'
            | None \<Rightarrow> no_answer r chain_len e i label ''timeout'' ''timeout reading body'' started w')
         else
           once_rejected r chain_len e i verdict status
             (case result of Some (Inr body) \<Rightarrow> body | _ \<Rightarrow> []) content_type
             (push_attempt label e (verdict_outcome verdict) (Some status) started w'))"

definition sending :: "registry \<Rightarrow> json \<Rightarrow> endpoint \<Rightarrow> provider_config \<Rightarrow> string \<Rightarrow> 'f walk \<Rightarrow> 'f walk" where
  "sending r body e pc key w = w\<lparr>wk_log := wk_log w @
     [\<lparr>sq_url = chat_completions_url (pc_base_url pc), sq_key = key,
       sq_body = prepare_body body (ep_model_id e) (pc_drop_params pc), sq_connect_ms = pc_connect_ms pc\<rparr>]\<rparr>"

text \<open>The lookups of the registry for an endpoint; a missing one panics and drops the lease.\<close>

definition endpoint_data :: "registry \<Rightarrow> endpoint \<Rightarrow> (provider_config \<times> string \<times> string) option" where
  "endpoint_data r e =
     (case registry_provider r (ep_provider_idx e) of
        None \<Rightarrow> None
      | Some pc \<Rightarrow> (case key_label r e of
          None \<Rightarrow> None
        | Some label \<Rightarrow> map_option (\<lambda>key. (pc, label, key)) (registry_key r e)))"

definition once_attempt :: "registry \<Rightarrow> json \<Rightarrow> nat \<Rightarrow> nat \<Rightarrow> (client_error, proxy_error + proxy_outcome) attempt_fn" where
  "once_attempt r body chain_len deadline e i t w =
     (case endpoint_data r e of
        None \<Rightarrow> Panic (release i w)
      | Some (pc, label, key) \<Rightarrow>
          (let started = wk_now w;
               first_byte = min (pc_first_byte_ms pc * NS_PER_MS) (deadline - started);
               (result, spent) = timeout first_byte (ut_delay t) (ut_reply t);
               w' = (sending r body e pc key w)\<lparr>wk_now := started + spent, wk_sel := ut_others t (wk_sel w)\<rparr>
           in case result of
                Some (Answer resp) \<Rightarrow> once_answered r chain_len e i pc label started deadline resp (ut_later t) w'
              | Some (SendError is_timeout msg) \<Rightarrow>
                  no_answer r chain_len e i label (failure_kind is_timeout)
                    (failure_kind is_timeout @ '': '' @ msg) started w'
              | None \<Rightarrow> no_answer r chain_len e i label ''timeout'' ''timeout waiting for headers'' started w'))"

record app_state =
  ap_registry :: registry
  ap_selector :: selector
  ap_admission :: nat
  ap_auth_token :: "string option"
  ap_max_body_bytes :: nat

definition app_new :: "router_config \<Rightarrow> app_state option" where
  "app_new cfg =
     (case registry_build cfg of
        None \<Rightarrow> None
      | Some r \<Rightarrow> (case selector_new r of
          None \<Rightarrow> None
        | Some s \<Rightarrow> map_option (\<lambda>n.
            \<lparr>ap_registry = r, ap_selector = s, ap_admission = n, ap_auth_token = sc_auth_token (rc_server cfg),
             ap_max_body_bytes = sc_max_body_bytes (rc_server cfg)\<rparr>)
            (semaphore_new (sc_queue_capacity (rc_server cfg)))))"

text \<open>The total timeout of a chain is the longest of its providers.\<close>

definition total_timeout :: "registry \<Rightarrow> endpoint list \<Rightarrow> nat option" where
  "total_timeout r chain =
     map_option (\<lambda>ps. if ps = [] then 300000 else Max (set (map pc_total_ms ps)))
       (those (map (\<lambda>e. registry_provider r (ep_provider_idx e)) chain))"

definition walk_start :: "selector \<Rightarrow> nat \<Rightarrow> 'f walk" where
  "walk_start s now = \<lparr>wk_sel = s, wk_now = now, wk_attempts = [], wk_errors = [], wk_streak = 0,
                       wk_first = None, wk_log = []\<rparr>"

definition deadline_of :: "registry \<Rightarrow> endpoint list \<Rightarrow> nat \<Rightarrow> nat option" where
  "deadline_of r chain now = Option.bind (total_timeout r chain) (\<lambda>ms. instant_add now (ms * NS_PER_MS))"

text \<open>
  The walk of one request with the walk's final state, whose selector the application keeps. A
  request that is admitted holds one admission permit until it returns or unwinds.
\<close>

definition proxy_once :: "app_state \<Rightarrow> string \<Rightarrow> json \<Rightarrow> nat \<Rightarrow> (nat \<Rightarrow> upstream_turn)
    \<Rightarrow> (proxy_error + proxy_outcome) async \<times> client_error walk" where
  "proxy_once st alias body now env =
     (let w = walk_start (ap_selector st) now; r = ap_registry st
      in case registry_chain r alias of
           None \<Rightarrow> (Ready (Inl UnknownAlias), w)
         | Some chain \<Rightarrow>
             if ap_admission st = 0 then (Ready (Inl QueueFull), w)
             else case deadline_of r chain now of
                    None \<Rightarrow> (Panicked, w)
                  | Some deadline \<Rightarrow>
                      failover once_exhausted once_late all_keys_dead
                        (once_attempt r body (length chain) deadline) r chain deadline env [] w)"

section \<open>The streamed proxy\<close>

type_synonym stream_error = "nat \<times> byte list"

record stream_response =
  sr_attempts :: "attempt list"
  sr_stream :: "string \<times> events"
  sr_lease :: nat

definition stream_exhausted :: "stream_error walk \<Rightarrow> proxy_error + stream_response" where
  "stream_exhausted w = Inl (case wk_first w of
      Some (status, body) \<Rightarrow> Exhausted (wk_attempts w) status body | None \<Rightarrow> exhausted w)"

definition stream_late :: "stream_error walk \<Rightarrow> proxy_error + stream_response" where
  "stream_late w = (if wk_attempts w = [] then Inl (DeadlineExceeded (wk_attempts w)) else stream_exhausted w)"

definition stream_rejected :: "registry \<Rightarrow> nat \<Rightarrow> endpoint \<Rightarrow> nat \<Rightarrow> verdict \<Rightarrow> nat \<Rightarrow> byte list
    \<Rightarrow> stream_error walk \<Rightarrow> (stream_error, proxy_error + stream_response) step_result" where
  "stream_rejected r chain_len e i verdict status body w =
     (case verdict of
        Fatal \<Rightarrow>
          (let first = (case wk_first w of None \<Rightarrow> (status, body) | Some c \<Rightarrow> c);
               w' = w\<lparr>wk_streak := wk_streak w + 1, wk_first := Some first\<rparr>
           in reporting i (report_success r e) w' (\<lambda>w.
                let w' = release i (w\<lparr>wk_errors := wk_errors w @ [Some (status, body)]\<rparr>)
                in if client_error_stops_chain (wk_streak w')
                   then Return (Inl (Exhausted (wk_attempts w') (fst first) (snd first))) w'
                   else Continue w'))
      | DeadKey \<Rightarrow> reporting i (report_dead r e (http_text status)) w (end_attempt chain_len i (Some (status, body)))
      | CoolDown retry_after \<Rightarrow> reporting i (report_cooldown r (wk_now w) e retry_after (http_text status)) w
                                  (end_attempt chain_len i (Some (status, body)))
      | Success \<Rightarrow> Panic (release i w))"

definition gate_report :: "gate_failure \<Rightarrow> string \<times> string" where
  "gate_report f = (case f of
      UpstreamError body \<Rightarrow> (''sse_error'', body)
    | GateTimeout \<Rightarrow> (''timeout'', ''no first token'')
    | GateEmpty \<Rightarrow> (''empty_stream'', ''stream ended''))"

text \<open>
  An error status is followed by an unbounded read of its body. A committed stream keeps the lease.
\<close>

definition stream_answered :: "(string \<Rightarrow> json option) \<Rightarrow> registry \<Rightarrow> nat \<Rightarrow> endpoint \<Rightarrow> nat \<Rightarrow> string \<Rightarrow> nat \<Rightarrow> nat \<Rightarrow> response
    \<Rightarrow> (selector \<Rightarrow> selector) \<Rightarrow> stream_error walk \<Rightarrow> (stream_error, proxy_error + stream_response) step_result" where
  "stream_answered parse r chain_len e i label started first_byte resp later w =
     (let status = rs_status resp; verdict = classify_status status (rs_retry_after resp)
      in if verdict \<noteq> Success then
           (case rs_body_delay resp of
              None \<Rightarrow> Hang (w\<lparr>wk_sel := later (wk_sel w)\<rparr>)
            | Some d \<Rightarrow>
                (let w' = w\<lparr>wk_now := wk_now w + d, wk_sel := later (wk_sel w)\<rparr>;
                     body = (case rs_body resp of Inr b \<Rightarrow> b | Inl _ \<Rightarrow> [])
                 in stream_rejected r chain_len e i verdict status body
                      (push_attempt label e (verdict_outcome verdict) (Some status) started w')))
         else
           (let (gate, spent) = gate_stream parse first_byte (rs_events resp) (rs_ended resp);
                w' = w\<lparr>wk_now := wk_now w + spent, wk_sel := later (wk_sel w)\<rparr>
            in case gate of
                 Inr gated \<Rightarrow>
                   reporting i (report_success r e) (push_attempt label e ''success'' (Some 200) started w') (\<lambda>w.
                     Return (Inr \<lparr>sr_attempts = wk_attempts w, sr_stream = gated, sr_lease = i\<rparr>) w)
               | Inl failure \<Rightarrow>
                   (let (outcome, text) = gate_report failure
                    in reporting i (report_cooldown r (wk_now w') e None outcome)
                         (push_attempt label e outcome (Some 200) started w')
                         (end_attempt chain_len i (Some (502, bytes_of text))))))"

definition stream_attempt :: "(string \<Rightarrow> json option) \<Rightarrow> registry \<Rightarrow> json \<Rightarrow> nat
    \<Rightarrow> (stream_error, proxy_error + stream_response) attempt_fn" where
  "stream_attempt parse r body chain_len e i t w =
     (case endpoint_data r e of
        None \<Rightarrow> Panic (release i w)
      | Some (pc, label, key) \<Rightarrow>
          (let started = wk_now w;
               first_byte = pc_first_byte_ms pc * NS_PER_MS;
               (result, spent) = timeout first_byte (ut_delay t) (ut_reply t);
               w' = (sending r body e pc key w)\<lparr>wk_now := started + spent, wk_sel := ut_others t (wk_sel w)\<rparr>
           in case result of
                Some (Answer resp) \<Rightarrow> stream_answered parse r chain_len e i label started first_byte resp (ut_later t) w'
              | Some (SendError is_timeout msg) \<Rightarrow>
                  no_answer r chain_len e i label (failure_kind is_timeout) msg started w'
              | None \<Rightarrow> no_answer r chain_len e i label ''timeout'' ''timeout waiting for headers'' started w'))"

definition proxy_stream :: "(string \<Rightarrow> json option) \<Rightarrow> app_state \<Rightarrow> string \<Rightarrow> json \<Rightarrow> nat \<Rightarrow> (nat \<Rightarrow> upstream_turn)
    \<Rightarrow> (proxy_error + stream_response) async \<times> stream_error walk" where
  "proxy_stream parse st alias body now env =
     (let w = walk_start (ap_selector st) now; r = ap_registry st
      in case registry_chain r alias of
           None \<Rightarrow> (Ready (Inl UnknownAlias), w)
         | Some chain \<Rightarrow>
             if ap_admission st = 0 then (Ready (Inl QueueFull), w)
             else case deadline_of r chain now of
                    None \<Rightarrow> (Panicked, w)
                  | Some deadline \<Rightarrow>
                      failover stream_exhausted stream_late all_keys_dead
                        (stream_attempt parse r body (length chain)) r chain deadline env [] w)"

end
