(* ===== verification/RouterLaws.thy ===== *)
theory RouterLaws
  imports RouterProxy
begin

text \<open>
  What the router guarantees. A request takes leases on keys while other requests do the same; the
  interface \<open>lease_keeper\<close> is what a property of the selector must satisfy to survive any
  request, and the two proxies are shown once to keep every such property. Its interpretations are the
  conservation of permits and the absence of leaks. The remaining sections are about the walk
  itself: which endpoints it contacts, how long it takes, what it answers.
\<close>

section \<open>Interface: properties that leases keep\<close>

text \<open>\<open>I h s\<close> speaks of a selector while this request holds a lease on key \<open>h\<close>, or none.\<close>

definition keeps :: "(nat option \<Rightarrow> selector \<Rightarrow> bool) \<Rightarrow> (selector \<Rightarrow> selector) \<Rightarrow> bool" where
  "keeps I f \<longleftrightarrow> (\<forall>h s. I h s \<longrightarrow> I h (f s))"

definition env_keeps :: "(nat option \<Rightarrow> selector \<Rightarrow> bool) \<Rightarrow> (nat \<Rightarrow> upstream_turn) \<Rightarrow> bool" where
  "env_keeps I env \<longleftrightarrow> (\<forall>n. (\<forall>w\<in>set (ut_waits (env n)). keeps I (snd w))
     \<and> keeps I (ut_others (env n)) \<and> keeps I (ut_later (env n)))"

fun kept :: "(nat option \<Rightarrow> selector \<Rightarrow> bool) \<Rightarrow> ('r \<Rightarrow> nat option) \<Rightarrow> ('f, 'r) step_result \<Rightarrow> bool" where
  "kept I held (Continue w) = I None (wk_sel w)"
| "kept I held (Return x w) = I (held x) (wk_sel w)"
| "kept I held (Hang w) = (\<exists>i. I (Some i) (wk_sel w))"
| "kept I held (Panic w) = I None (wk_sel w)"

definition held_once :: "proxy_error + proxy_outcome \<Rightarrow> nat option" where
  "held_once x = None"

definition held_stream :: "proxy_error + stream_response \<Rightarrow> nat option" where
  "held_stream x = (case x of Inr sr \<Rightarrow> Some (sr_lease sr) | Inl _ \<Rightarrow> None)"

text \<open>What holds when a walk stops: a returned value may carry a lease, and a task that never comes
  back may hold one.\<close>

fun stopped :: "(nat option \<Rightarrow> selector \<Rightarrow> bool) \<Rightarrow> ('r \<Rightarrow> nat option) \<Rightarrow> 'r async \<times> 'f walk \<Rightarrow> bool" where
  "stopped I held (Ready x, w) = I (held x) (wk_sel w)"
| "stopped I held (Waiting, w) = (\<exists>h. I h (wk_sel w))"
| "stopped I held (Panicked, w) = I None (wk_sel w)"

lemma walk_upd_simps [simp]:
  "wk_sel (push_attempt label e outcome status started w) = wk_sel w"
  "wk_sel (sending r body e pc key w) = wk_sel w"
  "wk_sel (release i w) = drop_lease i (wk_sel w)"
  by (simp_all add: push_attempt_def sending_def release_def)

lemma scan_found:
  "scan r s now es any early = Some (Found e i) \<Longrightarrow> slot_of r s e = Some i \<and> 0 < kr_permits (s ! i)"
  by (induction es arbitrary: any early) (auto split: option.splits if_splits key_state.splits)

lemma acquire_turn_cases:
  assumes "acquire_turn r chain deadline now s = Some (t, s')"
  obtains e i where "t = Leased e i" "slot_of r s e = Some i" "0 < kr_permits (s ! i)" "s' = s[i := take_permit (s ! i)]"
  | err where "t = Failed err" "s' = s"
  | u where "t = Sleep u" "s' = s"
proof (cases "deadline \<le> now")
  case True
  with assms show ?thesis by (intro that(2)) (auto simp: acquire_turn_def)
next
  case False
  with assms obtain sr where sr: "scan r s now chain False None = Some sr"
    by (auto simp: acquire_turn_def split: option.splits)
  show ?thesis
  proof (cases sr)
    case (Found e i)
    with False sr assms scan_found [of r s now chain False None e i] show ?thesis
      by (intro that(1)) (auto simp: acquire_turn_def)
  next
    case (NoneFree any early)
    with False sr assms that(2,3) show ?thesis
      by (auto simp: acquire_turn_def split: if_splits)
  qed
qed

locale lease_keeper =
  fixes I :: "nat option \<Rightarrow> selector \<Rightarrow> bool"
  assumes take: "I None s \<Longrightarrow> i < length s \<Longrightarrow> 0 < kr_permits (s ! i) \<Longrightarrow> I (Some i) (s[i := take_permit (s ! i)])"
    and give: "I (Some i) s \<Longrightarrow> I None (drop_lease i s)"
    and report: "I h s \<Longrightarrow> j < length s \<Longrightarrow> I h (s[j := (s ! j)\<lparr>kr_health := x, kr_poisoned := p\<rparr>])"
begin

lemma acquire_keeps:
  "\<forall>w\<in>set waits. keeps I (snd w) \<Longrightarrow> I None s \<Longrightarrow> acquire r chain deadline waits s = (res, s') \<Longrightarrow>
     (case res of Ready (Inr (e, i, t)) \<Rightarrow> I (Some i) s' | _ \<Rightarrow> I None s')"
proof (induction r chain deadline waits s rule: acquire.induct)
  case (1 r chain deadline s)
  then show ?case by auto
next
  case (2 r chain deadline now others waits s)
  show ?case
  proof (cases "acquire_turn r chain deadline now s")
    case None
    with 2 show ?thesis by auto
  next
    case (Some a)
    obtain t s1 where a: "a = (t, s1)" by (cases a)
    from acquire_turn_cases [OF Some [unfolded a]] show ?thesis
    proof cases
      case (1 e i)
      with "2.prems" Some a take [OF "2.prems"(2) slot_of_bound] show ?thesis by auto
    next
      case (2 err)
      with "2.prems" Some a show ?thesis by auto
    next
      case (3 u)
      with "2.prems" have "I None (others s1)" by (auto simp: keeps_def)
      with "2.IH" [OF Some a [symmetric] 3(1)] "2.prems" 3 Some a show ?thesis by auto
    qed
  qed
qed

lemma report_health: "I h s \<Longrightarrow> j < length s \<Longrightarrow> I h (s[j := (s ! j)\<lparr>kr_health := x\<rparr>])"
  using report [where h = h and s = s and j = j and x = x and p = "kr_poisoned (s ! j)"] by simp

lemma reports_keep:
  assumes "I h s"
  shows "I h (fst (report_success r e s))" "I h (fst (report_dead r e msg s))"
    "I h (fst (report_cooldown r now e ra msg s))"
  using assms
  by (auto simp: report_success_def report_dead_def report_cooldown_def Let_def
      split: option.splits prod.splits intro!: report report_health dest: slot_of_bound)

lemma reporting_keeps:
  assumes "I (Some i) (wk_sel w)" and "\<And>s. I (Some i) s \<Longrightarrow> I (Some i) (fst (rep s))"
    and "\<And>s. I (Some i) s \<Longrightarrow> kept I held (k (w\<lparr>wk_sel := s\<rparr>))"
  shows "kept I held (reporting i rep w k)"
proof (cases "rep (wk_sel w)")
  case (Pair s ok)
  with assms(2) [OF assms(1)] have "I (Some i) s" by simp
  with assms(3) Pair give show ?thesis by (simp add: reporting_def)
qed

lemma end_attempt_keeps:
  "I (Some i) (wk_sel w) \<Longrightarrow> held (Inl (exhausted (release i (w\<lparr>wk_errors := wk_errors w @ [err], wk_streak := 0, wk_first := None\<rparr>)))) = None
     \<Longrightarrow> kept I held (end_attempt n i err w)"
  by (simp add: end_attempt_def Let_def give)

lemma no_answer_keeps:
  assumes "I (Some i) (wk_sel w)" and "\<And>x. held (Inl x) = None"
  shows "kept I held (no_answer r n e i label outcome msg started w)"
  unfolding no_answer_def
  by (rule reporting_keeps) (use assms in \<open>auto intro: reports_keep end_attempt_keeps\<close>)

lemma once_rejected_keeps:
  assumes "I (Some i) (wk_sel w)"
  shows "kept I held_once (once_rejected r n e i v status body ct w)"
  unfolding once_rejected_def
  by (cases v) (use assms in \<open>auto simp: Let_def held_once_def intro!: reporting_keeps reports_keep end_attempt_keeps give\<close>)

lemma once_attempt_keeps:
  assumes "I (Some i) (wk_sel w)" and "keeps I (ut_others t)" and "keeps I (ut_later t)"
  shows "kept I held_once (once_attempt r body n deadline e i t w)"
proof -
  have later: "I (Some i) (ut_later t (ut_others t (wk_sel w)))" and others: "I (Some i) (ut_others t (wk_sel w))"
    using assms by (auto simp: keeps_def)
  have answered: "kept I held_once (once_answered r n e i pc label started deadline resp (ut_later t) w')"
    if "wk_sel w' = ut_others t (wk_sel w)" for pc label started resp w'
    unfolding once_answered_def
    using later that
    by (auto simp: Let_def held_once_def split: prod.splits option.splits sum.splits
        intro!: once_rejected_keeps no_answer_keeps reporting_keeps reports_keep give)
  show ?thesis
    unfolding once_attempt_def
    using assms(1) others
    by (auto simp: Let_def held_once_def split: prod.splits option.splits reply.splits
        intro!: answered no_answer_keeps give)
qed

lemma stream_rejected_keeps:
  assumes "I (Some i) (wk_sel w)"
  shows "kept I held_stream (stream_rejected r n e i v status body w)"
  unfolding stream_rejected_def
  by (cases v) (use assms in \<open>auto simp: Let_def held_stream_def intro!: reporting_keeps reports_keep end_attempt_keeps give\<close>)

lemma stream_attempt_keeps:
  assumes "I (Some i) (wk_sel w)" and "keeps I (ut_others t)" and "keeps I (ut_later t)"
  shows "kept I held_stream (stream_attempt parse r body n e i t w)"
proof -
  have later: "I (Some i) (ut_later t (ut_others t (wk_sel w)))" and others: "I (Some i) (ut_others t (wk_sel w))"
    using assms by (auto simp: keeps_def)
  have answered: "kept I held_stream (stream_answered parse r n e i label started fb resp (ut_later t) w')"
    if "wk_sel w' = ut_others t (wk_sel w)" for label started fb resp w'
    unfolding stream_answered_def
    using later that
    by (auto simp: Let_def held_stream_def split: prod.splits option.splits sum.splits
        intro!: stream_rejected_keeps reporting_keeps reports_keep end_attempt_keeps give)
  show ?thesis
    unfolding stream_attempt_def
    using assms(1) others
    by (auto simp: Let_def held_stream_def split: prod.splits option.splits reply.splits
        intro!: answered no_answer_keeps give)
qed

lemma failover_keeps:
  fixes fin :: "'f walk \<Rightarrow> 'r"
  assumes "env_keeps I env"
    and "\<And>e i n w. I (Some i) (wk_sel w) \<Longrightarrow> kept I held (attempt e i (env n) w)"
    and "\<And>w. held (fin w) = None" "\<And>w. held (late w) = None" "\<And>w. held (dead w) = None"
    and "I None (wk_sel w)"
  shows "stopped I held (failover fin late dead attempt r chain deadline env tried w)"
proof (rule failover_rule [where P = "\<lambda>_ w. I None (wk_sel w)" and Q = "stopped I held"])
  show "I None (wk_sel w)" by fact
next
  fix tried and w :: "'f walk" and x s
  assume I: "I None (wk_sel w)"
    and acq: "acquire r (remaining_endpoints chain tried) deadline (ut_waits (env (length tried))) (wk_sel w) = (x, s)"
  have waits: "\<forall>x\<in>set (ut_waits (env (length tried))). keeps I (snd x)" using assms(1) by (auto simp: env_keeps_def)
  from acquire_keeps [OF waits I acq] assms(4,5)
  show "case x of Ready (Inl AllDead) \<Rightarrow> stopped I held (Ready (dead (w\<lparr>wk_sel := s\<rparr>)), w\<lparr>wk_sel := s\<rparr>)
      | Ready (Inl AcquireTimeout) \<Rightarrow> stopped I held (Ready (late (w\<lparr>wk_sel := s\<rparr>)), w\<lparr>wk_sel := s\<rparr>)
      | Ready (Inr _) \<Rightarrow> True | Waiting \<Rightarrow> stopped I held (Waiting, w\<lparr>wk_sel := s\<rparr>)
      | Panicked \<Rightarrow> stopped I held (Panicked, w\<lparr>wk_sel := s\<rparr>)"
    by (auto split: async.splits sum.splits acquire_error.splits)
next
  fix tried and w :: "'f walk" and e i now s
  assume I: "I None (wk_sel w)"
    and acq: "acquire r (remaining_endpoints chain tried) deadline (ut_waits (env (length tried))) (wk_sel w)
      = (Ready (Inr (e, i, now)), s)"
  have waits: "\<forall>x\<in>set (ut_waits (env (length tried))). keeps I (snd x)" using assms(1) by (auto simp: env_keeps_def)
  from acquire_keeps [OF waits I acq]
  have "kept I held (attempt e i (env (length tried)) (w\<lparr>wk_sel := s, wk_now := now\<rparr>))" by (intro assms(2)) simp
  then show "step_ok (\<lambda>w. I None (wk_sel w)) (stopped I held) (attempt e i (env (length tried)) (w\<lparr>wk_sel := s, wk_now := now\<rparr>))"
    by (cases "attempt e i (env (length tried)) (w\<lparr>wk_sel := s, wk_now := now\<rparr>)") auto
qed (use assms(3) in simp)

lemma proxy_once_keeps:
  assumes "env_keeps I env" and "I None (ap_selector st)"
  shows "stopped I held_once (proxy_once st alias body now env)"
proof -
  have "stopped I held_once (failover once_exhausted once_late all_keys_dead (once_attempt r body n deadline) r chain deadline
      env [] (walk_start (ap_selector st) now))" for r n deadline chain
    by (rule failover_keeps [OF assms(1)])
       (use assms in \<open>auto simp: held_once_def walk_start_def env_keeps_def intro!: once_attempt_keeps\<close>)
  with assms(2) show ?thesis
    by (auto simp: proxy_once_def Let_def walk_start_def held_once_def split: option.splits)
qed

lemma proxy_stream_keeps:
  assumes "env_keeps I env" and "I None (ap_selector st)"
  shows "stopped I held_stream (proxy_stream parse st alias body now env)"
proof -
  have "stopped I held_stream (failover stream_exhausted stream_late all_keys_dead (stream_attempt parse r body n) r chain deadline
      env [] (walk_start (ap_selector st) now))" for r n deadline chain
    by (rule failover_keeps [OF assms(1)])
       (use assms in \<open>auto simp: held_stream_def stream_exhausted_def stream_late_def all_keys_dead_def walk_start_def
          env_keeps_def intro!: stream_attempt_keeps\<close>)
  with assms(2) show ?thesis
    by (auto simp: proxy_stream_def Let_def walk_start_def held_stream_def split: option.splits)
qed

end

section \<open>Permits are conserved\<close>

text \<open>Every key has its capacity split into free permits and requests in flight.\<close>

definition conserved :: "nat list \<Rightarrow> nat option \<Rightarrow> selector \<Rightarrow> bool" where
  "conserved caps h s \<longleftrightarrow> length s = length caps
     \<and> (\<forall>i<length s. kr_permits (s ! i) + kr_in_flight (s ! i) = caps ! i \<and> caps ! i \<le> MAX_PERMITS)
     \<and> (case h of Some i \<Rightarrow> i < length s \<and> 0 < kr_in_flight (s ! i) | None \<Rightarrow> True)"

lemma in_flight_up: "0 < p \<Longrightarrow> p + n \<le> MAX_PERMITS \<Longrightarrow> (n + 1) mod 2 ^ 64 = n + 1"
  by (simp add: MAX_PERMITS_def)

lemma in_flight_down: "0 < n \<Longrightarrow> n \<le> MAX_PERMITS \<Longrightarrow> (n + (2 ^ 64 - 1)) mod 2 ^ 64 = n - 1"
proof -
  assume "0 < n" "n \<le> MAX_PERMITS"
  then have "n + (2 ^ 64 - 1) = (n - 1) + 2 ^ 64" and "n - 1 < 2 ^ 64" by (simp_all add: MAX_PERMITS_def)
  then show ?thesis by (simp only: mod_add_self2 mod_less)
qed

lemma conserved_take:
  assumes "conserved caps None s" and "i < length s" and "0 < kr_permits (s ! i)"
  shows "conserved caps (Some i) (s[i := take_permit (s ! i)])"
proof -
  from assms have "kr_permits (s ! i) + kr_in_flight (s ! i) = caps ! i" "caps ! i \<le> MAX_PERMITS"
    by (auto simp: conserved_def)
  with assms show ?thesis
    using in_flight_up [of "kr_permits (s ! i)" "kr_in_flight (s ! i)"]
    by (auto simp: conserved_def take_permit_def nth_list_update)
qed

lemma conserved_give:
  assumes "conserved caps (Some i) s"
  shows "conserved caps None (drop_lease i s)"
proof -
  from assms have i: "i < length s" "0 < kr_in_flight (s ! i)" "kr_permits (s ! i) + kr_in_flight (s ! i) = caps ! i"
    "caps ! i \<le> MAX_PERMITS" by (auto simp: conserved_def)
  with in_flight_down [of "kr_in_flight (s ! i)"] assms show ?thesis
    by (auto simp: conserved_def drop_lease_def nth_list_update)
qed

interpretation conservation: lease_keeper "conserved caps"
proof
  fix h s j x p
  assume "conserved caps h s" and "j < length s"
  then show "conserved caps h (s[j := (s ! j)\<lparr>kr_health := x, kr_poisoned := p\<rparr>])"
    by (auto simp: conserved_def nth_list_update split: option.splits)
qed (auto intro: conserved_take conserved_give)


section \<open>No lease leaks\<close>

text \<open>The selector differs from a base state exactly by the lease held.\<close>

definition balanced :: "selector \<Rightarrow> nat option \<Rightarrow> selector \<Rightarrow> bool" where
  "balanced base h s \<longleftrightarrow> length s = length base \<and> (case h of Some i \<Rightarrow> i < length s | None \<Rightarrow> True)
     \<and> (\<forall>j<length s. kr_permits (s ! j) + (if h = Some j then 1 else 0) = kr_permits (base ! j)
          \<and> kr_in_flight (s ! j) = kr_in_flight (base ! j) + (if h = Some j then 1 else 0)
          \<and> kr_in_flight (base ! j) < MAX_PERMITS)"

lemma balanced_take:
  assumes "balanced base None s" and "i < length s" and "0 < kr_permits (s ! i)"
  shows "balanced base (Some i) (s[i := take_permit (s ! i)])"
  using assms by (auto simp: balanced_def take_permit_def nth_list_update MAX_PERMITS_def)

lemma balanced_give:
  assumes "balanced base (Some i) s"
  shows "balanced base None (drop_lease i s)"
proof -
  from assms have "i < length s" "kr_in_flight (s ! i) = kr_in_flight (base ! i) + 1" "kr_in_flight (base ! i) < MAX_PERMITS"
    by (auto simp: balanced_def)
  with in_flight_down [of "kr_in_flight (s ! i)"] assms show ?thesis
    by (auto simp: balanced_def drop_lease_def nth_list_update)
qed

interpretation balance: lease_keeper "balanced base"
proof
  fix h s j x p
  assume "balanced base h s" and "j < length s"
  then show "balanced base h (s[j := (s ! j)\<lparr>kr_health := x, kr_poisoned := p\<rparr>])"
    by (auto simp: balanced_def nth_list_update split: option.splits)
qed (auto intro: balanced_take balanced_give)

text \<open>The load of each key, and an environment in which no other request takes or returns a lease.\<close>

definition load :: "selector \<Rightarrow> (nat \<times> nat) list" where
  "load s = map (\<lambda>k. (kr_permits k, kr_in_flight k)) s"

definition quiet :: "(nat \<Rightarrow> upstream_turn) \<Rightarrow> bool" where
  "quiet env \<longleftrightarrow> (\<forall>n. (\<forall>w\<in>set (ut_waits (env n)). \<forall>s. load (snd w s) = load s)
     \<and> (\<forall>s. load (ut_others (env n) s) = load s) \<and> (\<forall>s. load (ut_later (env n) s) = load s))"

lemma load_nth: "load s = load t \<longleftrightarrow> length s = length t \<and>
    (\<forall>j<length s. kr_permits (s ! j) = kr_permits (t ! j) \<and> kr_in_flight (s ! j) = kr_in_flight (t ! j))"
  by (auto simp: load_def list_eq_iff_nth_eq)

lemma balanced_load: "load t = load s \<Longrightarrow> balanced base h s = balanced base h t"
  by (cases h) (auto simp: balanced_def load_nth)

lemma quiet_balanced: "quiet env \<Longrightarrow> env_keeps (balanced base) env"
  unfolding quiet_def env_keeps_def keeps_def using balanced_load by blast

lemma balanced_None: "balanced base None s \<Longrightarrow> load s = load base"
  by (auto simp: balanced_def load_nth)

text \<open>C26: A request returns every lease it took. If other requests leave the load of the keys alone, then
  the load after a buffered request that returned or panicked is the load before it; after a streamed one
  it is that load once the stream that was handed out, if any, is dropped.\<close>

theorem requests_return_leases:
  assumes "quiet env" and "\<forall>k\<in>set (ap_selector st). kr_in_flight k < MAX_PERMITS"
  shows "(case proxy_once st alias body now env of
            (Waiting, w) \<Rightarrow> True | (_, w) \<Rightarrow> load (wk_sel w) = load (ap_selector st))
       \<and> (case proxy_stream parse st alias body now env of
            (Waiting, w) \<Rightarrow> True
          | (Panicked, w) \<Rightarrow> load (wk_sel w) = load (ap_selector st)
          | (Ready (Inl err), w) \<Rightarrow> load (wk_sel w) = load (ap_selector st)
          | (Ready (Inr sr), w) \<Rightarrow> load (drop_lease (sr_lease sr) (wk_sel w)) = load (ap_selector st))"
proof -
  have b: "balanced (ap_selector st) None (ap_selector st)" using assms(2) by (auto simp: balanced_def)
  from balance.proxy_once_keeps [OF quiet_balanced [OF assms(1)] b, of "alias" body now]
  have "case proxy_once st alias body now env of
            (Waiting, w) \<Rightarrow> True | (_, w) \<Rightarrow> load (wk_sel w) = load (ap_selector st)"
    by (cases "proxy_once st alias body now env"; cases "fst (proxy_once st alias body now env)")
       (auto simp: held_once_def balanced_None)
  moreover from balance.proxy_stream_keeps [OF quiet_balanced [OF assms(1)] b, of parse "alias" body now]
  have "case proxy_stream parse st alias body now env of
            (Waiting, w) \<Rightarrow> True
          | (Panicked, w) \<Rightarrow> load (wk_sel w) = load (ap_selector st)
          | (Ready (Inl err), w) \<Rightarrow> load (wk_sel w) = load (ap_selector st)
          | (Ready (Inr sr), w) \<Rightarrow> load (drop_lease (sr_lease sr) (wk_sel w)) = load (ap_selector st)"
    by (cases "proxy_stream parse st alias body now env"; cases "fst (proxy_stream parse st alias body now env)")
       (auto simp: held_stream_def balanced_None split: sum.splits dest: balanced_give)
  ultimately show ?thesis by blast
qed

section \<open>A concrete router\<close>

definition sample_app :: app_state where
  "sample_app = the (app_new sample_config)"

lemma sample_app_eq: "sample_app = \<lparr>ap_registry = sample_registry, ap_selector = sample_selector, ap_admission = 256,
    ap_auth_token = None, ap_max_body_bytes = 4000000\<rparr>"
proof -
  have r: "registry_build sample_config = Some sample_registry"
    using validated_registry [OF load_str_validated [OF sample_loads]] by (auto simp: sample_registry_def)
  have s: "selector_new sample_registry = Some sample_selector"
    by (simp add: sample_selector_def selector_new_def sample_registry_eq sample_config_def to_config_def sample_slots_def
      Let_def slot_provider_def provider_defaults_def upt_rec registry_provider_def index_opt_def flat_key_index_def
      semaphore_new_def MAX_PERMITS_def)
  show ?thesis
    by (simp add: sample_app_def app_new_def r s semaphore_new_def MAX_PERMITS_def)
       (simp add: sample_config_def to_config_def Let_def)
qed

text \<open>An upstream that answers at once, and a clock that stands still.\<close>

definition sample_answer :: "nat \<Rightarrow> response" where
  "sample_answer status = \<lparr>rs_status = status, rs_retry_after = None, rs_content_type = None, rs_body_delay = Some 1,
     rs_body = Inr [123, 125], rs_events = [(1, Some ''{}'')], rs_ended = Some 2\<rparr>"

definition sample_turn :: "nat \<Rightarrow> upstream_turn" where
  "sample_turn status = \<lparr>ut_waits = [(10, id)], ut_delay = Some 1, ut_reply = Answer (sample_answer status),
     ut_others = id, ut_later = id\<rparr>"

lemma sample_conserved: "conserved [4, 4] None (ap_selector sample_app)"
  by (simp add: conserved_def sample_app_eq sample_selector_eq nth_Cons MAX_PERMITS_def split: nat.splits)


theorem requests_return_leases_witness:
  "case proxy_once sample_app ''auto'' JNull 5 (\<lambda>_. sample_turn 200) of
     (Waiting, w) \<Rightarrow> True | (_, w) \<Rightarrow> load (wk_sel w) = [(4, 0), (4, 0)]"
proof -
  have q: "quiet (\<lambda>_. sample_turn 200)" by (simp add: quiet_def sample_turn_def)
  have m: "\<forall>k\<in>set (ap_selector sample_app). kr_in_flight k < MAX_PERMITS"
    by (simp add: sample_app_eq sample_selector_eq MAX_PERMITS_def)
  have l: "load (ap_selector sample_app) = [(4, 0), (4, 0)]" by (simp add: sample_app_eq sample_selector_eq load_def)
  from requests_return_leases [OF q m, of "''auto''" JNull 5] show ?thesis unfolding l by (rule conjunct1)
qed

end
