(* ===== verification/RouterWalk.thy ===== *)
theory RouterWalk
  imports RouterLaws
begin

text \<open>
  Properties of the failover walk itself: which providers a request contacts and with what, that
  it is over by its deadline, what it answers, and two ways in which the answer is not the one the
  comments promise.
\<close>

section \<open>Rules for one attempt\<close>

lemma reporting_ok:
  assumes "\<And>s. Q (Panicked, w\<lparr>wk_sel := s\<rparr>)" and "\<And>s. step_ok P Q (k (w\<lparr>wk_sel := s\<rparr>))"
  shows "step_ok P Q (reporting i rep w k)"
  using assms by (cases "rep (wk_sel w)") (simp add: reporting_def)

lemma end_attempt_ok:
  assumes "\<And>s. P (w\<lparr>wk_errors := wk_errors w @ [err], wk_streak := 0, wk_first := None, wk_sel := s\<rparr>)"
    and "\<And>s x. Q (Ready (Inl x), w\<lparr>wk_errors := wk_errors w @ [err], wk_streak := 0, wk_first := None, wk_sel := s\<rparr>)"
  shows "step_ok P Q (end_attempt n i err w)"
  using assms by (simp add: end_attempt_def Let_def release_def)

lemmas attempt_rules = reporting_ok end_attempt_ok

lemma timeout_bound: "timeout limit delay v = (x, spent) \<Longrightarrow> spent \<le> limit"
  by (auto simp: timeout_def split: option.splits if_splits)

lemma timeout_value: "timeout limit delay v = (Some x, spent) \<Longrightarrow> x = v"
  by (auto simp: timeout_def split: option.splits if_splits)

section \<open>Who is contacted\<close>

definition sent_to :: "registry \<Rightarrow> json \<Rightarrow> endpoint \<Rightarrow> sent_request \<Rightarrow> bool" where
  "sent_to r body e q \<longleftrightarrow> (\<exists>pc key. registry_provider r (ep_provider_idx e) = Some pc \<and> registry_key r e = Some key
     \<and> q = \<lparr>sq_url = chat_completions_url (pc_base_url pc), sq_key = key,
            sq_body = prepare_body body (ep_model_id e) (pc_drop_params pc), sq_connect_ms = pc_connect_ms pc\<rparr>)"

text \<open>The endpoints contacted so far, of which the first \<open>n\<close> have an entry in the list of attempts.\<close>

definition contacted :: "registry \<Rightarrow> json \<Rightarrow> endpoint list \<Rightarrow> endpoint list \<Rightarrow> nat \<Rightarrow> 'f walk \<Rightarrow> bool" where
  "contacted r body chain tried n w \<longleftrightarrow> distinct tried \<and> set tried \<subseteq> set chain
     \<and> list_all2 (sent_to r body) tried (wk_log w)
     \<and> map at_model (wk_attempts w) = map ep_model_id (take n tried)"

definition contacts_done :: "registry \<Rightarrow> json \<Rightarrow> endpoint list \<Rightarrow> 'r async \<times> 'f walk \<Rightarrow> bool" where
  "contacts_done r body chain a \<longleftrightarrow>
     (\<exists>tried n. contacted r body chain tried n (snd a) \<and> (\<forall>x. fst a = Ready x \<longrightarrow> n = length tried))"

lemma contacted_upd [simp]:
  "contacted r body chain tried n (w\<lparr>wk_sel := s\<rparr>) = contacted r body chain tried n w"
  "contacted r body chain tried n (w\<lparr>wk_now := t\<rparr>) = contacted r body chain tried n w"
  "contacted r body chain tried n (w\<lparr>wk_errors := es\<rparr>) = contacted r body chain tried n w"
  "contacted r body chain tried n (w\<lparr>wk_streak := k\<rparr>) = contacted r body chain tried n w"
  "contacted r body chain tried n (w\<lparr>wk_first := f\<rparr>) = contacted r body chain tried n w"
  "contacted r body chain tried n (release i w) = contacted r body chain tried n w"
  by (simp_all add: contacted_def release_def)

lemma contacted_push:
  "contacted r body chain (tried @ [e]) (length tried) w \<Longrightarrow>
     contacted r body chain (tried @ [e]) (length (tried @ [e])) (push_attempt label e outcome status started w)"
  by (simp add: contacted_def push_attempt_def)

lemma contacted_send:
  assumes "contacted r body chain tried (length tried) w" and "e \<in> set (remaining_endpoints chain tried)"
    and "endpoint_data r e = Some (pc, label, key)"
  shows "contacted r body chain (tried @ [e]) (length tried) (sending r body e pc key w)"
proof -
  have "sent_to r body e \<lparr>sq_url = chat_completions_url (pc_base_url pc), sq_key = key,
      sq_body = prepare_body body (ep_model_id e) (pc_drop_params pc), sq_connect_ms = pc_connect_ms pc\<rparr>"
    using assms(3) by (auto simp: sent_to_def endpoint_data_def split: option.splits)
  with assms(1,2) show ?thesis
    by (auto simp: contacted_def sending_def remaining_endpoints_def intro!: list_all2_appendI)
qed

lemma contacts_doneI: "contacted r body chain tried (length tried) w \<Longrightarrow> contacts_done r body chain (res, w)"
  by (auto simp: contacts_done_def)

lemma contacts_unreported: "contacted r body chain tried n w \<Longrightarrow> (\<And>x. res \<noteq> Ready x) \<Longrightarrow> contacts_done r body chain (res, w)"
  by (auto simp: contacts_done_def)

lemma pushed_done:
  assumes "contacted r body chain (tried @ [e]) (length tried) w"
  shows "contacts_done r body chain (res, (push_attempt label e outcome status started w)\<lparr>wk_sel := s\<rparr>)"
  by (rule contacts_doneI [where tried = "tried @ [e]"]) (use contacted_push [OF assms] in simp)

text \<open>After the attempt has been noted every ending is fine.\<close>

lemma noted_ok:
  assumes "contacted r body chain tried (length tried) w"
  shows "step_ok (\<lambda>w. contacted r body chain tried (length tried) w) (contacts_done r body chain)
           (reporting i rep w (end_attempt n i err))"
  by (intro attempt_rules) (use assms in \<open>simp_all add: contacts_doneI\<close>)

lemma no_answer_contacts:
  assumes "contacted r body chain (tried @ [e]) (length tried) w"
  shows "step_ok (contacted r body chain (tried @ [e]) (length (tried @ [e]))) (contacts_done r body chain)
           (no_answer r n e i label outcome msg started w)"
  unfolding no_answer_def by (rule noted_ok [OF contacted_push [OF assms]])

lemma once_rejected_contacts:
  assumes "contacted r body chain tried (length tried) w"
  shows "step_ok (contacted r body chain tried (length tried)) (contacts_done r body chain)
           (once_rejected r n e i v status text ct w)"
  unfolding once_rejected_def
  by (cases v) (use assms in \<open>auto simp: Let_def noted_ok contacts_doneI intro!: reporting_ok\<close>)

lemma stream_rejected_contacts:
  assumes "contacted r body chain tried (length tried) w"
  shows "step_ok (contacted r body chain tried (length tried)) (contacts_done r body chain)
           (stream_rejected r n e i v status text w)"
  unfolding stream_rejected_def
  by (cases v) (use assms in \<open>auto simp: Let_def noted_ok contacts_doneI intro!: reporting_ok\<close>)

lemma once_attempt_contacts:
  assumes "contacted r body chain tried (length tried) w" and "e \<in> set (remaining_endpoints chain tried)"
  shows "step_ok (contacted r body chain (tried @ [e]) (length (tried @ [e]))) (contacts_done r body chain)
           (once_attempt r body n deadline e i t w)"
proof (cases "endpoint_data r e")
  case None
  with assms(1) show ?thesis by (simp add: once_attempt_def contacts_doneI)
next
  case (Some a)
  obtain pc label key where a: "a = (pc, label, key)" by (cases a)
  note sent = contacted_send [OF assms Some [unfolded a]]
  have answered: "step_ok (contacted r body chain (tried @ [e]) (length (tried @ [e]))) (contacts_done r body chain)
      (once_answered r n e i pc label started deadline resp later w')"
    if w': "contacted r body chain (tried @ [e]) (length tried) w'" for started resp later w'
  proof -
    have u: "contacted r body chain (tried @ [e]) (length tried) (w'\<lparr>wk_now := x, wk_sel := y\<rparr>)" for x y
      using w' by simp
    show ?thesis
      unfolding once_answered_def Let_def
      by (auto split: prod.splits option.splits sum.splits intro!: reporting_ok no_answer_contacts [OF u]
          once_rejected_contacts [OF contacted_push [OF u]] pushed_done [OF u]
          simp del: length_append simp: release_def)
  qed
  have u: "contacted r body chain (tried @ [e]) (length tried) ((sending r body e pc key w)\<lparr>wk_now := x, wk_sel := y\<rparr>)" for x y
    using sent by simp
  show ?thesis
    unfolding once_attempt_def Let_def Some a option.case prod.case
    by (auto split: prod.splits option.splits reply.splits intro!: answered [OF u] no_answer_contacts [OF u]
        simp del: length_append)
qed

lemma stream_attempt_contacts:
  assumes "contacted r body chain tried (length tried) w" and "e \<in> set (remaining_endpoints chain tried)"
  shows "step_ok (contacted r body chain (tried @ [e]) (length (tried @ [e]))) (contacts_done r body chain)
           (stream_attempt parse r body n e i t w)"
proof (cases "endpoint_data r e")
  case None
  with assms(1) show ?thesis by (simp add: stream_attempt_def contacts_doneI)
next
  case (Some a)
  obtain pc label key where a: "a = (pc, label, key)" by (cases a)
  note sent = contacted_send [OF assms Some [unfolded a]]
  have answered: "step_ok (contacted r body chain (tried @ [e]) (length (tried @ [e]))) (contacts_done r body chain)
      (stream_answered parse r n e i label started fb resp later w')"
    if w': "contacted r body chain (tried @ [e]) (length tried) w'" for started fb resp later w'
  proof -
    have u: "contacted r body chain (tried @ [e]) (length tried) (w'\<lparr>wk_now := x, wk_sel := y\<rparr>)"
      "contacted r body chain (tried @ [e]) (length tried) (w'\<lparr>wk_sel := y\<rparr>)" for x y
      using w' by simp_all
    show ?thesis
      unfolding stream_answered_def Let_def
      by (auto split: prod.splits option.splits sum.splits intro!: reporting_ok noted_ok [OF contacted_push [OF u(1)]]
          stream_rejected_contacts [OF contacted_push [OF u(1)]] contacts_unreported [OF u(2)] pushed_done [OF u(1)]
          simp del: length_append)
  qed
  have u: "contacted r body chain (tried @ [e]) (length tried) ((sending r body e pc key w)\<lparr>wk_now := x, wk_sel := y\<rparr>)" for x y
    using sent by simp
  show ?thesis
    unfolding stream_attempt_def Let_def Some a option.case prod.case
    by (auto split: prod.splits option.splits reply.splits intro!: answered [OF u] no_answer_contacts [OF u]
        simp del: length_append)
qed

lemma failover_contacts:
  fixes attempt :: "('f, 'r) attempt_fn"
  assumes "\<And>tried w e i t. contacted r body chain tried (length tried) w \<Longrightarrow> e \<in> set (remaining_endpoints chain tried) \<Longrightarrow>
      step_ok (contacted r body chain (tried @ [e]) (length (tried @ [e]))) (contacts_done r body chain) (attempt e i t w)"
  shows "contacts_done r body chain (failover fin late dead attempt r chain deadline env [] (walk_start s now))"
proof (rule failover_rule [where P = "\<lambda>tried. contacted r body chain tried (length tried)"])
  fix tried and w :: "'f walk" and e i now s
  assume "contacted r body chain tried (length tried) w" and "e \<in> set (remaining_endpoints chain tried)"
  then show "step_ok (contacted r body chain (tried @ [e]) (length (tried @ [e]))) (contacts_done r body chain)
      (attempt e i (env (length tried)) (w\<lparr>wk_sel := s, wk_now := now\<rparr>))"
    by (intro assms) simp_all
qed (auto simp: contacted_def walk_start_def intro!: contacts_doneI split: async.splits sum.splits acquire_error.splits)

lemma start_contacts: "contacts_done r body chain (res, walk_start s now)"
  by (rule contacts_doneI [where tried = "[]"]) (simp add: contacted_def walk_start_def)



section \<open>How long a request takes\<close>

lemma acquire_turn_before: "acquire_turn r chain deadline now s = Some (Leased e i, s') \<Longrightarrow> now < deadline"
  by (auto simp: acquire_turn_def split: if_splits)

lemma acquire_before: "acquire r chain deadline waits s = (Ready (Inr (e, i, t)), s') \<Longrightarrow> t < deadline"
  by (induction r chain deadline waits s rule: acquire.induct)
     (auto split: option.splits turn.splits prod.splits dest: acquire_turn_before)

lemma acquire_returns: "\<exists>w\<in>set waits. deadline \<le> fst w \<Longrightarrow> fst (acquire r chain deadline waits s) \<noteq> Waiting"
proof (induction r chain deadline waits s rule: acquire.induct)
  case (1 r chain deadline s)
  then show ?case by simp
next
  case (2 r chain deadline now others waits s)
  show ?case
  proof (cases "deadline \<le> now")
    case True
    then show ?thesis by (simp add: acquire_turn_def)
  next
    case False
    with 2 show ?thesis by (auto split: option.splits turn.splits prod.splits)
  qed
qed

definition in_time :: "nat \<Rightarrow> 'r async \<times> 'f walk \<Rightarrow> bool" where
  "in_time deadline a \<longleftrightarrow> fst a \<noteq> Waiting \<and> wk_now (snd a) \<le> deadline"

lemma wk_now_simps [simp]:
  "wk_now (push_attempt label e outcome status started w) = wk_now w"
  "wk_now (sending r body e pc key w) = wk_now w"
  "wk_now (release i w) = wk_now w"
  by (simp_all add: push_attempt_def sending_def release_def)

lemma no_answer_in_time:
  "wk_now w \<le> deadline \<Longrightarrow> step_ok (\<lambda>w. wk_now w \<le> deadline) (in_time deadline) (no_answer r n e i label outcome msg started w)"
  unfolding no_answer_def by (intro attempt_rules) (simp_all add: in_time_def)

lemma once_rejected_in_time:
  "wk_now w \<le> deadline \<Longrightarrow> step_ok (\<lambda>w. wk_now w \<le> deadline) (in_time deadline) (once_rejected r n e i v status text ct w)"
  unfolding once_rejected_def by (cases v) (auto simp: Let_def in_time_def intro!: attempt_rules)

lemma once_answered_in_time:
  assumes "wk_now w \<le> deadline"
  shows "step_ok (\<lambda>w. wk_now w \<le> deadline) (in_time deadline) (once_answered r n e i pc label started deadline resp later w)"
proof -
  let ?budget = "min (deadline - wk_now w) (pc_total_ms pc * NS_PER_MS - (wk_now w - started))"
  obtain result spent where t: "timeout ?budget (rs_body_delay resp) (rs_body resp) = (result, spent)"
    by (cases "timeout ?budget (rs_body_delay resp) (rs_body resp)")
  with timeout_bound [OF t] assms have "wk_now w + spent \<le> deadline" by linarith
  then have u: "wk_now (w\<lparr>wk_now := wk_now w + spent, wk_sel := x\<rparr>) \<le> deadline" for x by simp
  show ?thesis
    unfolding once_answered_def Let_def t prod.case
    using u
    by (auto split: option.splits sum.splits prod.splits simp: in_time_def
        intro!: no_answer_in_time once_rejected_in_time reporting_ok)
qed

lemma once_attempt_in_time:
  assumes "wk_now w \<le> deadline"
  shows "step_ok (\<lambda>w. wk_now w \<le> deadline) (in_time deadline) (once_attempt r body n deadline e i t w)"
proof (cases "endpoint_data r e")
  case None
  with assms show ?thesis by (simp add: once_attempt_def in_time_def)
next
  case (Some a)
  obtain pc label key where a: "a = (pc, label, key)" by (cases a)
  let ?fb = "min (pc_first_byte_ms pc * NS_PER_MS) (deadline - wk_now w)"
  obtain result spent where t: "timeout ?fb (ut_delay t) (ut_reply t) = (result, spent)"
    by (cases "timeout ?fb (ut_delay t) (ut_reply t)")
  with timeout_bound [OF t] assms have "wk_now w + spent \<le> deadline" by linarith
  then show ?thesis
    unfolding once_attempt_def Some a option.case prod.case Let_def t
    by (auto split: option.splits reply.splits intro!: once_answered_in_time no_answer_in_time)
qed

text \<open>C18: A buffered request always comes to an end, and by its deadline: in every environment whose
  clock eventually passes the deadline while a lease is awaited, the request returns (or panics), and
  its last exchange with a provider is over by the deadline.\<close>

theorem buffered_request_in_time:
  assumes "registry_chain (ap_registry st) alias = Some chain" and "deadline_of (ap_registry st) chain now = Some deadline"
    and "\<forall>n. \<exists>w\<in>set (ut_waits (env n)). deadline \<le> fst w"
  shows "in_time deadline (proxy_once st alias body now env)"
proof -
  have now: "now \<le> deadline"
    using assms(2) by (auto simp: deadline_of_def instant_add_def bind_eq_Some_conv split: if_splits)
  have "in_time deadline (failover once_exhausted once_late all_keys_dead (once_attempt (ap_registry st) body n deadline)
      (ap_registry st) chain deadline env [] (walk_start (ap_selector st) now))" for n
  proof (rule failover_rule [where P = "\<lambda>_ w. wk_now w \<le> deadline"])
    fix tried and w :: "client_error walk" and x s
    assume "wk_now w \<le> deadline" and "acquire (ap_registry st) (remaining_endpoints chain tried) deadline
        (ut_waits (env (length tried))) (wk_sel w) = (x, s)"
    moreover have "fst (acquire (ap_registry st) (remaining_endpoints chain tried) deadline
        (ut_waits (env (length tried))) (wk_sel w)) \<noteq> Waiting"
      using assms(3) by (intro acquire_returns) blast
    ultimately show "case x of Ready (Inl AllDead) \<Rightarrow> in_time deadline (Ready (all_keys_dead (w\<lparr>wk_sel := s\<rparr>)), w\<lparr>wk_sel := s\<rparr>)
        | Ready (Inl AcquireTimeout) \<Rightarrow> in_time deadline (Ready (once_late (w\<lparr>wk_sel := s\<rparr>)), w\<lparr>wk_sel := s\<rparr>)
        | Ready (Inr _) \<Rightarrow> True | Waiting \<Rightarrow> in_time deadline (Waiting, w\<lparr>wk_sel := s\<rparr>)
        | Panicked \<Rightarrow> in_time deadline (Panicked, w\<lparr>wk_sel := s\<rparr>)"
      by (auto simp: in_time_def split: async.splits sum.splits acquire_error.splits)
  next
    fix tried and w :: "client_error walk" and e i t s
    assume "acquire (ap_registry st) (remaining_endpoints chain tried) deadline
        (ut_waits (env (length tried))) (wk_sel w) = (Ready (Inr (e, i, t)), s)"
    then have "t < deadline" by (rule acquire_before)
    then show "step_ok (\<lambda>w. wk_now w \<le> deadline) (in_time deadline)
        (once_attempt (ap_registry st) body n deadline e i (env (length tried)) (w\<lparr>wk_sel := s, wk_now := t\<rparr>))"
      by (intro once_attempt_in_time) simp
  qed (use now in \<open>simp_all add: walk_start_def in_time_def\<close>)
  with assms(1,2) now show ?thesis
    by (simp add: proxy_once_def Let_def in_time_def walk_start_def)
qed

definition sample_late_turn :: upstream_turn where
  "sample_late_turn = (sample_turn 500)\<lparr>ut_waits := [(10, id), (300000 * NS_PER_MS + 5, id)]\<rparr>"

theorem buffered_request_in_time_witness:
  "in_time (300000 * NS_PER_MS + 5) (proxy_once sample_app ''auto'' JNull 5 (\<lambda>_. sample_late_turn))"
proof (rule buffered_request_in_time)
  show "registry_chain (ap_registry sample_app) ''auto'' = Some [sample_endpoint]"
    by (simp add: sample_app_eq registry_chain_def sample_registry_eq)
  show "deadline_of (ap_registry sample_app) [sample_endpoint] 5 = Some (300000 * NS_PER_MS + 5)"
    by (simp add: deadline_of_def total_timeout_def sample_app_eq registry_provider_def index_opt_def sample_endpoint_def
        sample_registry_eq sample_config_def to_config_def sample_slots_def Let_def slot_provider_def provider_defaults_def
        instant_add_def INSTANT_LIMIT_def NS_PER_SEC_def NS_PER_MS_def)
qed (simp add: sample_late_turn_def sample_turn_def)

section \<open>What a buffered request answers\<close>

text \<open>An answer that some provider gave in this request: a success with its whole body, or a client
  error with its body where that arrived.\<close>

definition answered_by :: "response \<Rightarrow> nat \<Rightarrow> byte list \<Rightarrow> bool" where
  "answered_by resp status body \<longleftrightarrow> rs_status resp = status \<and>
     (case classify_status status (rs_retry_after resp) of
        Success \<Rightarrow> rs_body resp = Inr body
      | Fatal \<Rightarrow> rs_body resp = Inr body \<or> body = []
      | _ \<Rightarrow> False)"

definition from_provider :: "(nat \<Rightarrow> upstream_turn) \<Rightarrow> nat \<Rightarrow> byte list \<Rightarrow> bool" where
  "from_provider env status body \<longleftrightarrow> (\<exists>n resp. ut_reply (env n) = Answer resp \<and> answered_by resp status body)"

definition memory_ok :: "(nat \<Rightarrow> upstream_turn) \<Rightarrow> client_error walk \<Rightarrow> bool" where
  "memory_ok env w \<longleftrightarrow> (case wk_first w of None \<Rightarrow> True | Some (status, body, _) \<Rightarrow> from_provider env status body)"

definition answer_ok :: "(nat \<Rightarrow> upstream_turn) \<Rightarrow> (proxy_error + proxy_outcome) async \<times> client_error walk \<Rightarrow> bool" where
  "answer_ok env a \<longleftrightarrow> (case fst a of
      Ready (Inr out) \<Rightarrow> from_provider env (po_status out) (po_body out) \<and> po_attempts out = wk_attempts (snd a)
    | _ \<Rightarrow> True)"

lemma memory_upd [simp]:
  "memory_ok env (w\<lparr>wk_sel := s\<rparr>) = memory_ok env w" "memory_ok env (w\<lparr>wk_now := t\<rparr>) = memory_ok env w"
  "memory_ok env (w\<lparr>wk_errors := es\<rparr>) = memory_ok env w" "memory_ok env (w\<lparr>wk_streak := k\<rparr>) = memory_ok env w"
  "memory_ok env (w\<lparr>wk_first := None\<rparr>)" "memory_ok env (release i w) = memory_ok env w"
  "memory_ok env (push_attempt label e outcome status started w) = memory_ok env w"
  "memory_ok env (sending r body e pc key w) = memory_ok env w"
  "memory_ok env (walk_start s now)"
  by (simp_all add: memory_ok_def release_def push_attempt_def sending_def walk_start_def)

lemma answer_ok_simps [simp]:
  "answer_ok env (Panicked, w)" "answer_ok env (Ready (Inl x), w)" "answer_ok env (Waiting, w)"
  by (simp_all add: answer_ok_def)

lemma no_answer_answers: "step_ok (memory_ok env) (answer_ok env) (no_answer r n e i label outcome msg started w)"
  unfolding no_answer_def by (intro attempt_rules) simp_all

lemma once_rejected_answers:
  assumes "memory_ok env w" and "v = Fatal \<Longrightarrow> from_provider env status text"
  shows "step_ok (memory_ok env) (answer_ok env) (once_rejected r n e i v status text ct w)"
proof (cases v)
  case Fatal
  let ?first = "case wk_first w of None \<Rightarrow> (status, text, ct) | Some c \<Rightarrow> c"
  obtain a b c where f: "?first = (a, b, c)" by (cases ?first)
  with assms Fatal have "from_provider env a b" by (auto simp: memory_ok_def split: option.splits)
  with f Fatal show ?thesis
    unfolding once_rejected_def
    by (auto simp: Let_def memory_ok_def answer_ok_def client_answer_def release_def intro!: reporting_ok)
qed (use assms in \<open>auto simp: once_rejected_def intro!: attempt_rules\<close>)

lemma once_answered_answers:
  assumes "memory_ok env w" and "ut_reply (env n) = Answer resp"
  shows "step_ok (memory_ok env) (answer_ok env) (once_answered r m e i pc label started deadline resp later w)"
proof -
  let ?budget = "min (deadline - wk_now w) (pc_total_ms pc * NS_PER_MS - (wk_now w - started))"
  obtain result spent where t: "timeout ?budget (rs_body_delay resp) (rs_body resp) = (result, spent)"
    by (cases "timeout ?budget (rs_body_delay resp) (rs_body resp)")
  let ?v = "classify_status (rs_status resp) (rs_retry_after resp)"
  have good: "from_provider env (rs_status resp) b" if "result = Some (Inr b)" "?v = Success" for b
  proof -
    have "answered_by resp (rs_status resp) b"
      using timeout_value [of ?budget "rs_body_delay resp" "rs_body resp" "Inr b" spent] t that
      by (simp add: answered_by_def)
    with assms(2) show ?thesis by (auto simp: from_provider_def)
  qed
  have "from_provider env (rs_status resp) (case result of Some (Inr b) \<Rightarrow> b | _ \<Rightarrow> [])" if "?v = Fatal"
  proof -
    have "answered_by resp (rs_status resp) (case result of Some (Inr b) \<Rightarrow> b | _ \<Rightarrow> [])"
      using timeout_value [of ?budget "rs_body_delay resp" "rs_body resp" _ spent] t that
      by (auto simp: answered_by_def split: option.splits sum.splits)
    with assms(2) show ?thesis by (auto simp: from_provider_def)
  qed
  with good assms(1) show ?thesis
    unfolding once_answered_def Let_def t prod.case
    by (auto split: option.splits sum.splits prod.splits simp: answer_ok_def [of _ "(Ready (Inr _), _)"] client_answer_def release_def
        intro!: no_answer_answers once_rejected_answers reporting_ok)
qed

lemma once_attempt_answers:
  assumes "memory_ok env w"
  shows "step_ok (memory_ok env) (answer_ok env) (once_attempt r body m deadline e i (env n) w)"
proof (cases "endpoint_data r e")
  case None
  then show ?thesis by (simp add: once_attempt_def)
next
  case (Some a)
  obtain pc label key where a: "a = (pc, label, key)" by (cases a)
  let ?fb = "min (pc_first_byte_ms pc * NS_PER_MS) (deadline - wk_now w)"
  obtain result spent where t: "timeout ?fb (ut_delay (env n)) (ut_reply (env n)) = (result, spent)"
    by (cases "timeout ?fb (ut_delay (env n)) (ut_reply (env n))")
  with assms timeout_value [of ?fb "ut_delay (env n)" "ut_reply (env n)" _ spent] show ?thesis
    unfolding once_attempt_def Some a option.case prod.case Let_def t
    by (auto split: option.splits reply.splits intro!: once_answered_answers [where n = n] no_answer_answers)
qed

lemma once_exhausted_answers: "memory_ok env w \<Longrightarrow> answer_ok env (Ready (once_exhausted w), w)"
  by (auto simp: once_exhausted_def memory_ok_def answer_ok_def client_answer_def split: option.splits)

text \<open>What a buffered request answers to its client is the answer of a provider it contacted: either a
  success with that provider's complete body, never a truncated one, or a client error (400 or 422) with
  its body; and the attempts in the answer are all attempts made.\<close>

theorem buffered_answer_from_provider:
  "answer_ok env (proxy_once st alias body now env)"
proof -
  have "answer_ok env (failover once_exhausted once_late all_keys_dead (once_attempt (ap_registry st) body n deadline)
      (ap_registry st) chain deadline env [] (walk_start (ap_selector st) now))" for n deadline chain
  proof (rule failover_rule [where P = "\<lambda>_. memory_ok env"])
    fix tried and w :: "client_error walk" and x s
    assume "memory_ok env w"
    then have "answer_ok env (Ready (once_late (w\<lparr>wk_sel := s\<rparr>)), w\<lparr>wk_sel := s\<rparr>)"
      using once_exhausted_answers [of env "w\<lparr>wk_sel := s\<rparr>"] by (simp add: once_late_def)
    then show "case x of Ready (Inl AllDead) \<Rightarrow> answer_ok env (Ready (all_keys_dead (w\<lparr>wk_sel := s\<rparr>)), w\<lparr>wk_sel := s\<rparr>)
        | Ready (Inl AcquireTimeout) \<Rightarrow> answer_ok env (Ready (once_late (w\<lparr>wk_sel := s\<rparr>)), w\<lparr>wk_sel := s\<rparr>)
        | Ready (Inr _) \<Rightarrow> True | Waiting \<Rightarrow> answer_ok env (Waiting, w\<lparr>wk_sel := s\<rparr>)
        | Panicked \<Rightarrow> answer_ok env (Panicked, w\<lparr>wk_sel := s\<rparr>)"
      by (auto simp: all_keys_dead_def split: async.splits sum.splits acquire_error.splits)
  qed (auto simp: once_exhausted_answers intro!: once_attempt_answers)
  then show ?thesis
    by (auto simp: proxy_once_def Let_def split: option.splits)
qed

section \<open>Two answers that are not as documented\<close>

lemma sample_data: "endpoint_data sample_registry sample_endpoint
    = Some (slot_provider (sample_slots ! 0), ''groq#'' @ [char_of (48 :: nat)], ''k1'')"
  by (simp add: endpoint_data_def registry_provider_def key_label_def registry_key_def index_opt_def sample_registry_eq
      sample_endpoint_def sample_config_def to_config_def sample_slots_def Let_def slot_provider_def provider_defaults_def
      dec.simps)

lemma failover_attempt:
  "remaining_endpoints chain tried \<noteq> [] \<Longrightarrow>
   acquire r (remaining_endpoints chain tried) deadline (ut_waits (env (length tried))) (wk_sel w) = (Ready (Inr (e, i, now)), s) \<Longrightarrow>
   failover fin late dead attempt r chain deadline env tried w =
     (case attempt e i (env (length tried)) (w\<lparr>wk_sel := s, wk_now := now\<rparr>) of
        Continue w' \<Rightarrow> failover fin late dead attempt r chain deadline env (tried @ [e]) w'
      | Return x w' \<Rightarrow> (Ready x, w') | Hang w' \<Rightarrow> (Waiting, w') | Panic w' \<Rightarrow> (Panicked, w'))"
  by (subst failover.simps) (simp add: Let_def)

lemma failover_dead:
  "remaining_endpoints chain tried \<noteq> [] \<Longrightarrow>
   acquire r (remaining_endpoints chain tried) deadline (ut_waits (env (length tried))) (wk_sel w) = (Ready (Inl AllDead), s) \<Longrightarrow>
   failover fin late dead attempt r chain deadline env tried w = (Ready (dead (w\<lparr>wk_sel := s\<rparr>)), w\<lparr>wk_sel := s\<rparr>)"
  by (subst failover.simps) (simp add: Let_def)

definition hanging_turn :: upstream_turn where
  "hanging_turn = (sample_turn 500)\<lparr>ut_reply := Answer ((sample_answer 500)\<lparr>rs_body_delay := None\<rparr>)\<rparr>"

text \<open>The streamed proxy waits without a limit for the body of an error answer: a provider that
  answers 500 and then never finishes keeps the request, and the lease of its key, for ever.\<close>

theorem stream_error_body_unbounded:
  "case proxy_stream parse sample_app ''auto'' body 5 (\<lambda>_. hanging_turn) of
     (res, w) \<Rightarrow> res = Waiting \<and> load (wk_sel w) = [(3, 1), (4, 0)]"
proof -
  let ?s = "sample_selector[0 := take_permit (sample_selector ! 0)]"
  have chain: "registry_chain sample_registry ''auto'' = Some [sample_endpoint]"
    by (simp add: registry_chain_def sample_registry_eq)
  have deadline: "deadline_of sample_registry [sample_endpoint] 5 = Some 300000000005"
    by (simp add: deadline_of_def total_timeout_def registry_provider_def index_opt_def sample_endpoint_def
        sample_registry_eq sample_config_def to_config_def sample_slots_def Let_def slot_provider_def provider_defaults_def
        instant_add_def INSTANT_LIMIT_def NS_PER_SEC_def NS_PER_MS_def)
  have "scan sample_registry sample_selector 10 [sample_endpoint] False None = Some (Found sample_endpoint 0)"
    by (simp add: sample_slot) (simp add: sample_selector_eq health_new_def health_state_def)
  then have acq: "acquire sample_registry [sample_endpoint] 300000000005 [(10, id)] sample_selector
      = (Ready (Inr (sample_endpoint, 0, 10)), ?s)"
    by (simp add: acquire_turn_def)
  have "\<exists>w'. stream_attempt parse sample_registry body 1 sample_endpoint 0 hanging_turn w = Hang w' \<and> wk_sel w' = wk_sel w" for w
    by (simp add: stream_attempt_def sample_data Let_def slot_provider_def provider_defaults_def hanging_turn_def sample_turn_def
        sample_answer_def timeout_def NS_PER_MS_def stream_answered_def classify_status_def)
  then obtain w' where hang: "stream_attempt parse sample_registry body 1 sample_endpoint 0 hanging_turn
      ((walk_start sample_selector 5)\<lparr>wk_sel := ?s, wk_now := 10\<rparr>) = Hang w'" and sel: "wk_sel w' = ?s" by fastforce
  have "failover stream_exhausted stream_late all_keys_dead (stream_attempt parse sample_registry body 1) sample_registry
      [sample_endpoint] 300000000005 (\<lambda>_. hanging_turn) [] (walk_start sample_selector 5) = (Waiting, w')"
    by (subst failover_attempt [where e = sample_endpoint and i = 0 and now = 10 and s = ?s])
       (use acq hang in \<open>simp_all add: remaining_endpoints_def hanging_turn_def sample_turn_def walk_start_def del: acquire.simps\<close>)
  moreover have "load ?s = [(3, 1), (4, 0)]" by (simp add: sample_selector_eq take_permit_def load_def)
  ultimately show ?thesis
    using chain deadline sel by (simp add: proxy_stream_def Let_def sample_app_eq)
qed

text \<open>Two providers, of which the second has a dead key.\<close>

definition pair_registry :: registry where
  "pair_registry = the (registry_build (to_config (rc_server sample_config) (map (\<lambda>s. s\<lparr>sl_enabled := True\<rparr>) sample_slots)))"

definition second_endpoint :: endpoint where
  "second_endpoint = \<lparr>ep_provider_idx = 1, ep_key_idx = 0, ep_model_id = ''n''\<rparr>"

definition pair_app :: app_state where
  "pair_app = sample_app\<lparr>ap_registry := pair_registry,
     ap_selector := fst (report_dead pair_registry second_endpoint ''HTTP 401'' sample_selector)\<rparr>"

lemma pair_registry_eq:
  "registry_chain pair_registry ''auto'' = Some [sample_endpoint, second_endpoint]" "rg_key_base pair_registry = [0, 1]"
  "rc_providers (rg_cfg pair_registry) = map slot_provider (map (\<lambda>s. s\<lparr>sl_enabled := True\<rparr>) sample_slots)"
  by (simp_all add: pair_registry_def registry_build_def to_config_def sample_slots_def Let_def entry_endpoints_def
      slot_entry_def slot_provider_def provider_defaults_def DEFAULT_ALIAS_def sample_endpoint_def second_endpoint_def
      registry_chain_def)

lemma pair_slots:
  "length s = 2 \<Longrightarrow> slot_of pair_registry s sample_endpoint = Some 0"
  "length s = 2 \<Longrightarrow> slot_of pair_registry s second_endpoint = Some 1"
  by (simp_all add: slot_of_def flat_key_index_def pair_registry_eq index_opt_def sample_endpoint_def second_endpoint_def)

lemma pair_provider: "registry_provider pair_registry (ep_provider_idx sample_endpoint) = Some (slot_provider (sample_slots ! 0))"
  by (simp add: registry_provider_def index_opt_def pair_registry_eq sample_endpoint_def sample_slots_def
      slot_provider_def provider_defaults_def)

lemma pair_data: "endpoint_data pair_registry sample_endpoint
    = Some (slot_provider (sample_slots ! 0), ''groq#'' @ [char_of (48 :: nat)], ''k1'')"
  by (simp add: endpoint_data_def registry_provider_def key_label_def registry_key_def index_opt_def pair_registry_eq
      sample_endpoint_def sample_slots_def slot_provider_def provider_defaults_def dec.simps)

lemma pair_cooldown:
  assumes "length s = 2" and "\<not> kr_poisoned (s ! 0)" and "kr_health (s ! 0) = health_new"
  shows "\<exists>h. report_cooldown pair_registry 12 sample_endpoint None msg s
      = (s[0 := (s ! 0)\<lparr>kr_health := h, kr_poisoned := False\<rparr>], True) \<and> \<not> kh_dead h"
  using assms
  by (simp add: report_cooldown_def pair_provider pair_slots [OF assms(1)] slot_provider_def provider_defaults_def
      cool_down_def record_error_def health_new_def Let_def cooldown_wait_def sat64_def u64_max_def u32_max_def
      instant_add_def INSTANT_LIMIT_def NS_PER_SEC_def NS_PER_MS_def) (rule exI, rule conjI, rule refl, simp)

text \<open>When the first provider of a chain merely fails and the key of the second is dead, a buffered
  request reports that every credential in the chain is dead, although the first key is not; the
  answer the first provider gave is not reported.\<close>

theorem all_dead_misreported:
  "\<exists>as w. proxy_once pair_app ''auto'' JNull 5 (\<lambda>_. sample_turn 500) = (Ready (Inl (AllKeysDead as)), w)
     \<and> map at_status as = [Some 500] \<and> \<not> kh_dead (kr_health (wk_sel w ! 0))"
proof -
  define s0 where "s0 = ap_selector pair_app"
  have len: "length sample_selector = 2" by (simp add: sample_selector_eq)
  have s0: "s0 = sample_selector[1 := (sample_selector ! 1)\<lparr>kr_health := mark_dead (record_error ''HTTP 401'' health_new)\<rparr>]"
    by (simp add: s0_def pair_app_def report_dead_def pair_slots [OF len]) (simp add: sample_selector_eq)
  let ?s = "s0[0 := take_permit (s0 ! 0)]"
  let ?chain = "[sample_endpoint, second_endpoint]"
  have ne: "sample_endpoint \<noteq> second_endpoint" by (simp add: sample_endpoint_def second_endpoint_def)
  have deadline: "deadline_of pair_registry ?chain 5 = Some 300000000005"
    by (simp add: deadline_of_def total_timeout_def registry_provider_def index_opt_def sample_endpoint_def second_endpoint_def
        pair_registry_eq sample_slots_def slot_provider_def provider_defaults_def
        instant_add_def INSTANT_LIMIT_def NS_PER_SEC_def NS_PER_MS_def)
  have "scan pair_registry s0 10 ?chain False None = Some (Found sample_endpoint 0)"
    by (simp add: pair_slots len s0) (simp add: sample_selector_eq health_new_def health_state_def)
  then have acq1: "acquire pair_registry ?chain 300000000005 [(10, id)] s0 = (Ready (Inr (sample_endpoint, 0, 10)), ?s)"
    by (simp add: acquire_turn_def)
  have fresh: "length ?s = 2" "\<not> kr_poisoned (?s ! 0)" "kr_health (?s ! 0) = health_new" "?s ! 1 = s0 ! 1"
    by (simp_all add: s0 len) (simp_all add: sample_selector_eq take_permit_def)
  from pair_cooldown [OF fresh(1-3), of "http_text 500"] obtain h where
    h: "report_cooldown pair_registry 12 sample_endpoint None (http_text 500) ?s
        = (?s[0 := (?s ! 0)\<lparr>kr_health := h, kr_poisoned := False\<rparr>], True)" "\<not> kh_dead h" by blast
  define w0 where "w0 = (walk_start s0 5 :: client_error walk)\<lparr>wk_sel := ?s, wk_now := 10\<rparr>"
  obtain w1 where step: "once_attempt pair_registry JNull 2 300000000005 sample_endpoint 0 (sample_turn 500) w0 = Continue w1"
    and w1: "map at_status (wk_attempts w1) = [Some 500]"
      "wk_sel w1 = drop_lease 0 (?s[0 := (?s ! 0)\<lparr>kr_health := h, kr_poisoned := False\<rparr>])"
    by (simp add: once_attempt_def pair_data w0_def walk_start_def Let_def slot_provider_def provider_defaults_def sample_turn_def
        sample_answer_def timeout_def NS_PER_MS_def once_answered_def classify_status_def once_rejected_def reporting_def
        push_attempt_def sending_def h(1) end_attempt_def release_def)
  have sel1: "length (wk_sel w1) = 2" "\<not> kh_dead (kr_health (wk_sel w1 ! 0))" "wk_sel w1 ! 1 = s0 ! 1"
    using fresh h(2) by (simp_all add: w1(2) drop_lease_def)
  have "kr_poisoned (s0 ! 1) = False" "kh_dead (kr_health (s0 ! 1))"
    by (simp_all add: s0 len) (simp_all add: sample_selector_eq mark_dead_def)
  then have "scan pair_registry (wk_sel w1) 10 [second_endpoint] False None = Some (NoneFree False None)"
    using sel1 by (simp add: pair_slots health_state_def)
  then have acq2: "acquire pair_registry [second_endpoint] 300000000005 [(10, id)] (wk_sel w1) = (Ready (Inl AllDead), wk_sel w1)"
    by (simp add: acquire_turn_def)
  have waits: "ut_waits (sample_turn 500) = [(10, id)]" by (simp add: sample_turn_def)
  let ?walk = "failover once_exhausted once_late all_keys_dead (once_attempt pair_registry JNull 2 300000000005) pair_registry
      ?chain 300000000005 (\<lambda>_. sample_turn 500)"
  have "?walk [] (walk_start s0 5) = ?walk [sample_endpoint] w1"
    by (subst failover_attempt [where e = sample_endpoint and i = 0 and now = 10 and s = ?s])
       (use acq1 step waits in \<open>simp_all add: remaining_endpoints_def walk_start_def w0_def del: acquire.simps\<close>)
  also have "?walk [sample_endpoint] w1 = (Ready (Inl (AllKeysDead (wk_attempts w1))), w1)"
    by (subst failover_dead [where s = "wk_sel w1"])
       (use acq2 ne waits in \<open>simp_all add: remaining_endpoints_def all_keys_dead_def del: acquire.simps\<close>)
  finally have "?walk [] (walk_start s0 5) = (Ready (Inl (AllKeysDead (wk_attempts w1))), w1)" .
  then have "proxy_once pair_app ''auto'' JNull 5 (\<lambda>_. sample_turn 500) = (Ready (Inl (AllKeysDead (wk_attempts w1))), w1)"
    using deadline by (simp add: proxy_once_def Let_def pair_app_def pair_registry_eq sample_app_eq s0_def numeral_2_eq_2)
  then show ?thesis by (intro exI conjI) (assumption, rule w1(1), rule sel1(2))
qed

end
