(* ===== verification/RouterHttp.thy ===== *)
theory RouterHttp
  imports RouterWalk
begin

text \<open>
  The HTTP surface of the model router: \<^verbatim>\<open>amber-router/src/routes.rs\<close> (authorization and the chat
  route), \<^verbatim>\<open>store.rs\<close> (the slot file), \<^verbatim>\<open>live.rs\<close> (the state that an edit swaps) and
  \<^verbatim>\<open>admin.rs\<close> (the editing routes). JSON and TOML codecs are parameters. The slot file is its
  readable text, \<open>None\<close> where it is missing or unreadable; \<open>store_io\<close> says which file operations of
  a save succeed and which random bytes it draws.
\<close>

section \<open>Text\<close>

text \<open>\<^verbatim>\<open>String::from_utf8_lossy\<close>: every maximal malformed part becomes one replacement character.\<close>

definition malformed_len :: "nat list \<Rightarrow> nat" where
  "malformed_len bs =
     (let g = (\<lambda>i. if i < length bs then bs ! i else 0); b0 = g 0; b1 = g 1; b2 = g 2
      in if b0 = 224 \<and> in_rng 160 191 b1 \<or> in_rng 225 236 b0 \<and> cont b1 \<or> b0 = 237 \<and> in_rng 128 159 b1
            \<or> in_rng 238 239 b0 \<and> cont b1 then 2
         else if b0 = 240 \<and> in_rng 144 191 b1 \<or> in_rng 241 243 b0 \<and> cont b1 \<or> b0 = 244 \<and> in_rng 128 143 b1
           then (if cont b2 then 3 else 2)
         else 1)"

function from_utf8_lossy :: "byte list \<Rightarrow> string" where
  "from_utf8_lossy bs =
     (if bs = [] then []
      else case utf8_head (map unat bs) of
             Some (_, n) \<Rightarrow> string_of_bytes (take n bs) @ from_utf8_lossy (drop n bs)
           | None \<Rightarrow> map char_of [239, 191, 189 :: nat] @ from_utf8_lossy (drop (malformed_len (map unat bs)) bs))"
  by pat_completeness auto

termination
proof (relation "measure length")
  fix bs :: "byte list"
  assume "bs \<noteq> []"
  moreover have "0 < malformed_len (map unat bs)" by (simp add: malformed_len_def Let_def)
  ultimately show "(drop (malformed_len (map unat bs)) bs, bs) \<in> measure length" by simp
next
  fix bs :: "byte list" and a b n
  assume "bs \<noteq> []" and "utf8_head (map unat bs) = Some a" and "(b, n) = a"
  then show "(drop n bs, bs) \<in> measure length" by (auto dest!: utf8_head_len)
qed simp

text \<open>\<^verbatim>\<open>base64url\<close> of the web module: unpadded, over the URL alphabet.\<close>

definition BASE64URL :: string where
  "BASE64URL = ''ABCDEFGHIJKLMNOPQRSTUVWXYZabcdefghijklmnopqrstuvwxyz0123456789-_''"

definition base64_chunk :: "byte list \<Rightarrow> string" where
  "base64_chunk chunk =
     (let b = (\<lambda>i. if i < length chunk then unat (chunk ! i) else 0);
          n = b 0 * 65536 + b 1 * 256 + b 2
      in map (\<lambda>j. BASE64URL ! j)
           (take (length chunk + 1) [n div 262144 mod 64, n div 4096 mod 64, n div 64 mod 64, n mod 64]))"

function base64url :: "byte list \<Rightarrow> string" where
  "base64url bs = (if bs = [] then [] else base64_chunk (take 3 bs) @ base64url (drop 3 bs))"
  by pat_completeness auto

termination by (relation "measure length") auto

section \<open>Routes\<close>

record json_codec =
  jc_parse :: "byte list \<Rightarrow> json option"
  jc_text :: "string \<Rightarrow> json option"

datatype http_body = JsonBody json | BytesBody "byte list" | StreamBody "string option list"

record http_response =
  hr_status :: nat
  hr_content_type :: string
  hr_attempts :: "string option"
  hr_body :: http_body

definition json_response :: "nat \<Rightarrow> json \<Rightarrow> http_response" where
  "json_response status v = \<lparr>hr_status = status, hr_content_type = ''application/json'', hr_attempts = None, hr_body = JsonBody v\<rparr>"

definition error_json :: "string \<Rightarrow> json" where
  "error_json msg = JObject [(''error'', JObject [(''message'', JString msg)])]"

definition typed_error_json :: "string \<Rightarrow> string \<Rightarrow> json" where
  "typed_error_json msg kind = JObject [(''error'', JObject [(''message'', JString msg), (''type'', JString kind)])]"

text \<open>The \<^verbatim>\<open>Authorization\<close> header of a request, if it has one; \<^verbatim>\<open>to_str\<close> accepts visible ASCII.\<close>

definition header_str :: "string \<Rightarrow> string option" where
  "header_str v = (if list_all (\<lambda>c. in_rng 32 126 (of_char c) \<or> of_char c = (9 :: nat)) v then Some v else None)"

definition strip_prefix :: "string \<Rightarrow> string \<Rightarrow> string option" where
  "strip_prefix p s = (if prefix p s then Some (drop (length p) s) else None)"

definition authorized :: "app_state \<Rightarrow> string option \<Rightarrow> bool" where
  "authorized st auth =
     (case ap_auth_token st of
        None \<Rightarrow> True
      | Some expected \<Rightarrow>
          (case Option.bind (Option.bind auth header_str) (strip_prefix ''Bearer '') of
             Some t \<Rightarrow> t = expected | None \<Rightarrow> False))"

definition unauthorized :: http_response where
  "unauthorized = json_response 401 (error_json ''invalid or missing bearer token'')"

definition attempt_text :: "attempt \<Rightarrow> string" where
  "attempt_text a = at_label a @ '':'' @ at_outcome a @ '':'' @
     (case at_status a of Some s \<Rightarrow> map char_of (dec s) | None \<Rightarrow> ''-'')"

fun join :: "string \<Rightarrow> string list \<Rightarrow> string" where
  "join sep [] = []"
| "join sep [s] = s"
| "join sep (s # ss) = s @ sep @ join sep ss"

definition attempts_header :: "attempt list \<Rightarrow> string" where
  "attempts_header attempts = join '','' (map attempt_text attempts)"

definition status_from_u16 :: "nat \<Rightarrow> nat" where
  "status_from_u16 s = (if 100 \<le> s \<and> s < 1000 then s else 502)"

definition upstream_json :: "json_codec \<Rightarrow> byte list \<Rightarrow> json" where
  "upstream_json J body =
     (let text = from_utf8_lossy body
      in case jc_text J text of Some v \<Rightarrow> v | None \<Rightarrow> typed_error_json text ''upstream_error'')"

definition error_response :: "json_codec \<Rightarrow> string \<Rightarrow> proxy_error \<Rightarrow> http_response" where
  "error_response J alias e =
     (let (status, attempts, body) = (case e of
            UnknownAlias \<Rightarrow> (404, [], typed_error_json (''unknown model `'' @ alias @ ''`'') ''invalid_request_error'')
          | QueueFull \<Rightarrow> (503, [], typed_error_json ''router queue is full'' ''overloaded'')
          | AllKeysDead as \<Rightarrow> (502, as, typed_error_json ''every credential in the chain is dead'' ''router_error'')
          | DeadlineExceeded as \<Rightarrow> (504, as, typed_error_json ''router deadline exceeded'' ''router_error'')
          | Exhausted as s b \<Rightarrow> (status_from_u16 s, as, upstream_json J b))
      in \<lparr>hr_status = status, hr_content_type = ''application/json'', hr_attempts = Some (attempts_header attempts),
          hr_body = JsonBody body\<rparr>)"

definition stream_http :: "stream_response \<Rightarrow> http_response" where
  "stream_http sr = \<lparr>hr_status = 200, hr_content_type = ''text/event-stream'',
     hr_attempts = Some (attempts_header (sr_attempts sr)), hr_body = StreamBody (into_body_stream (sr_stream sr))\<rparr>"

definition once_http :: "proxy_outcome \<Rightarrow> http_response" where
  "once_http out = \<lparr>hr_status = po_status out, hr_content_type = po_content_type out,
     hr_attempts = Some (attempts_header (po_attempts out)), hr_body = BytesBody (po_body out)\<rparr>"

text \<open>The chat route: the response, and the selector that the exchange leaves.\<close>

definition respond :: "('e \<Rightarrow> http_response) \<Rightarrow> ('o \<Rightarrow> http_response) \<Rightarrow> ('e + 'o) async \<times> 'f walk
    \<Rightarrow> http_response async \<times> selector" where
  "respond err ok a = (case a of
      (Ready (Inl e), w) \<Rightarrow> (Ready (err e), wk_sel w)
    | (Ready (Inr x), w) \<Rightarrow> (Ready (ok x), wk_sel w)
    | (Waiting, w) \<Rightarrow> (Waiting, wk_sel w)
    | (Panicked, w) \<Rightarrow> (Panicked, wk_sel w))"

definition chat_completions :: "json_codec \<Rightarrow> app_state \<Rightarrow> string option \<Rightarrow> byte list \<Rightarrow> nat \<Rightarrow> (nat \<Rightarrow> upstream_turn)
    \<Rightarrow> http_response async \<times> selector" where
  "chat_completions J st auth raw now env =
     (if \<not> authorized st auth then (Ready unauthorized, ap_selector st)
      else case jc_parse J raw of
             None \<Rightarrow> (Ready (json_response 422 (typed_error_json ''invalid JSON body'' ''invalid_request_error'')), ap_selector st)
           | Some body \<Rightarrow>
               (let alias = (case json_get body ''model'' of Some (JString m) \<Rightarrow> m | _ \<Rightarrow> [])
                in if is_stream_requested body
                   then respond (error_response J alias) stream_http (proxy_stream (jc_text J) st alias body now env)
                   else respond (error_response J alias) once_http (proxy_once st alias body now env)))"

section \<open>The slot file\<close>

record toml_codec =
  tc_parse :: "string \<Rightarrow> string + router_config"
  tc_print :: "router_config \<Rightarrow> string option"

record store_io =
  io_random :: "nat \<Rightarrow> byte list option"
  io_mkdir :: bool
  io_write :: bool
  io_rename :: bool

datatype admin_error = BadSlots slot_error | NoRandom | BadToml string | NotWritable | NotEditable

definition read_secret :: "string option \<Rightarrow> string option" where
  "read_secret disk = (case disk of None \<Rightarrow> None
     | Some raw \<Rightarrow> if str_trim raw = [] then None else Some (str_trim raw))"

definition store_load :: "toml_codec \<Rightarrow> string option \<Rightarrow> admin_error + slot list" where
  "store_load T disk = (case read_secret disk of
      None \<Rightarrow> Inr []
    | Some text \<Rightarrow> (case tc_parse T text of Inl e \<Rightarrow> Inl (BadToml e) | Inr cfg \<Rightarrow> Inr (from_config cfg)))"

definition default_server :: server_config where
  "default_server = \<lparr>sc_bind = ''127.0.0.1:4000'', sc_auth_token = None, sc_max_body_bytes = 4000000, sc_queue_capacity = 256\<rparr>"

fun mint_ids :: "(nat \<Rightarrow> byte list option) \<Rightarrow> nat \<Rightarrow> slot list \<Rightarrow> slot list option" where
  "mint_ids rnd n [] = Some []"
| "mint_ids rnd n (s # ss) =
     (if sl_id s = [] then
        (case rnd n of
           None \<Rightarrow> None
         | Some raw \<Rightarrow> map_option ((#) (s\<lparr>sl_id := base64url raw\<rparr>)) (mint_ids rnd (Suc n) ss))
      else map_option ((#) s) (mint_ids rnd n ss))"

definition store_save :: "toml_codec \<Rightarrow> store_io \<Rightarrow> slot list \<Rightarrow> string option \<Rightarrow> (admin_error + unit) \<times> string option" where
  "store_save T io slots disk =
     (case validate_slots slots of
        Inl e \<Rightarrow> (Inl (BadSlots e), disk)
      | Inr _ \<Rightarrow> (case mint_ids (io_random io) 0 slots of
          None \<Rightarrow> (Inl NoRandom, disk)
        | Some slots' \<Rightarrow> (case tc_print T (to_config default_server slots') of
            None \<Rightarrow> (Inl (BadToml []), disk)
          | Some text \<Rightarrow> if io_mkdir io \<and> io_write io \<and> io_rename io then (Inr (), Some text)
                         else (Inl NotWritable, disk))))"

definition ensure_ids :: "toml_codec \<Rightarrow> store_io \<Rightarrow> string option \<Rightarrow> (admin_error + slot list) \<times> string option" where
  "ensure_ids T io disk =
     (case store_load T disk of
        Inl e \<Rightarrow> (Inl e, disk)
      | Inr slots \<Rightarrow>
          if slots = [] \<or> list_all (\<lambda>s. sl_id s \<noteq> []) slots then (Inr slots, disk)
          else (case store_save T io slots disk of
                  (Inl e, disk') \<Rightarrow> (Inl e, disk')
                | (Inr _, disk') \<Rightarrow> (store_load T disk', disk')))"

section \<open>The live state\<close>

record live =
  lv_current :: app_state
  lv_editable :: bool
  lv_server :: server_config
  lv_started :: nat
  lv_port :: nat
  lv_disk :: "string option"

definition from_store :: "toml_codec \<Rightarrow> store_io \<Rightarrow> nat \<Rightarrow> server_config \<Rightarrow> string option \<Rightarrow> (admin_error + live) option" where
  "from_store T io now server disk =
     (case ensure_ids T io disk of
        (Inl e, _) \<Rightarrow> Some (Inl e)
      | (Inr slots, disk') \<Rightarrow>
          map_option (\<lambda>st. Inr \<lparr>lv_current = st, lv_editable = True, lv_server = server, lv_started = now,
                                lv_port = 0, lv_disk = disk'\<rparr>) (app_new (to_config server slots)))"

definition live_slots :: "toml_codec \<Rightarrow> live \<Rightarrow> admin_error + slot list" where
  "live_slots T lv = (if lv_editable lv then store_load T (lv_disk lv) else Inr [])"

definition live_reload :: "toml_codec \<Rightarrow> live \<Rightarrow> ((admin_error + unit) \<times> live) option" where
  "live_reload T lv =
     (case live_slots T lv of
        Inl e \<Rightarrow> Some (Inl e, lv)
      | Inr slots \<Rightarrow> map_option (\<lambda>st. (Inr (), lv\<lparr>lv_current := st\<rparr>)) (app_new (to_config (lv_server lv) slots)))"

definition replace_slots :: "toml_codec \<Rightarrow> store_io \<Rightarrow> slot list \<Rightarrow> live \<Rightarrow> ((admin_error + unit) \<times> live) option" where
  "replace_slots T io slots lv =
     (if \<not> lv_editable lv then Some (Inl NotEditable, lv)
      else case store_save T io slots (lv_disk lv) of
             (Inl e, disk) \<Rightarrow> Some (Inl e, lv\<lparr>lv_disk := disk\<rparr>)
           | (Inr _, disk) \<Rightarrow> live_reload T (lv\<lparr>lv_disk := disk\<rparr>))"

section \<open>Admin routes\<close>

text \<open>The text of an error is a parameter of the model: \<^verbatim>\<open>Display\<close> of the error value.\<close>

definition admin_guard :: "live \<Rightarrow> string option \<Rightarrow> http_response option" where
  "admin_guard lv auth =
     (if \<not> authorized (lv_current lv) auth then Some unauthorized
      else if \<not> lv_editable lv then Some (json_response 404 (error_json ''this router has no editable config''))
      else None)"

definition failed_response :: "(admin_error \<Rightarrow> string) \<Rightarrow> admin_error \<Rightarrow> http_response" where
  "failed_response show_err e = json_response 400 (error_json (show_err e))"

definition view_json :: "slot_view \<Rightarrow> json" where
  "view_json v = JObject
     [(''base_url'', JString (sv_base_url v)), (''enabled'', JBool (sv_enabled v)), (''has_key'', JBool (sv_has_key v)),
      (''id'', JString (sv_id v)), (''key_hint'', JString (sv_key_hint v)), (''model'', JString (sv_model v)),
      (''name'', JString (sv_name v))]"

definition admin_list :: "toml_codec \<Rightarrow> (admin_error \<Rightarrow> string) \<Rightarrow> live \<Rightarrow> string option \<Rightarrow> http_response" where
  "admin_list T show_err lv auth =
     (case admin_guard lv auth of
        Some deny \<Rightarrow> deny
      | None \<Rightarrow> (case live_slots T lv of
          Inl e \<Rightarrow> failed_response show_err e
        | Inr slots \<Rightarrow> json_response 200 (JObject
            [(''alias'', JString DEFAULT_ALIAS), (''slots'', JArray (map (view_json \<circ> slot_view_of) slots))])))"

definition admin_replace :: "toml_codec \<Rightarrow> (admin_error \<Rightarrow> string) \<Rightarrow> store_io \<Rightarrow> slot list \<Rightarrow> live \<Rightarrow> string option
    \<Rightarrow> (http_response \<times> live) option" where
  "admin_replace T show_err io incoming lv auth =
     (case admin_guard lv auth of
        Some deny \<Rightarrow> Some (deny, lv)
      | None \<Rightarrow> (case live_slots T lv of
          Inl e \<Rightarrow> Some (failed_response show_err e, lv)
        | Inr stored \<Rightarrow> (case replace_slots T io (merge_keys incoming stored) lv of
            None \<Rightarrow> None
          | Some (Inr _, lv') \<Rightarrow> Some (admin_list T show_err lv' auth, lv')
          | Some (Inl e, lv') \<Rightarrow> Some (failed_response show_err e, lv'))))"

definition admin_reveal :: "toml_codec \<Rightarrow> (admin_error \<Rightarrow> string) \<Rightarrow> string \<Rightarrow> live \<Rightarrow> string option \<Rightarrow> http_response" where
  "admin_reveal T show_err name lv auth =
     (case admin_guard lv auth of
        Some deny \<Rightarrow> deny
      | None \<Rightarrow> (case live_slots T lv of
          Inl e \<Rightarrow> failed_response show_err e
        | Inr slots \<Rightarrow> (case List.find (\<lambda>s. sl_name s = name) slots of
            Some s \<Rightarrow> json_response 200 (JObject [(''api_key'', JString (sl_api_key s)), (''name'', JString (sl_name s))])
          | None \<Rightarrow> json_response 404 (error_json (''no slot named `'' @ name @ ''`'')))))"

definition admin_reload :: "toml_codec \<Rightarrow> (admin_error \<Rightarrow> string) \<Rightarrow> live \<Rightarrow> string option \<Rightarrow> (http_response \<times> live) option" where
  "admin_reload T show_err lv auth =
     (case admin_guard lv auth of
        Some deny \<Rightarrow> Some (deny, lv)
      | None \<Rightarrow> map_option (\<lambda>(res, lv'). (case res of
            Inr _ \<Rightarrow> json_response 200 (JObject [(''ok'', JBool True)]) | Inl e \<Rightarrow> failed_response show_err e, lv'))
          (live_reload T lv))"

definition num_json :: "nat \<Rightarrow> json" where "num_json n = JNumber (map char_of (dec n))"

definition key_json :: "key_snapshot \<Rightarrow> json" where
  "key_json k = JObject
     [(''cooling_secs_remaining'', case ks_cooling_secs k of Some n \<Rightarrow> num_json n | None \<Rightarrow> JNull),
      (''errors'', num_json (ks_errors k)), (''in_flight'', num_json (ks_in_flight k)), (''label'', JString (ks_label k)),
      (''last_error'', case ks_last_error k of Some e \<Rightarrow> JString e | None \<Rightarrow> JNull),
      (''requests'', num_json (ks_requests k)), (''state'', JString (ks_state k))]"

definition admin_status :: "toml_codec \<Rightarrow> nat \<Rightarrow> live \<Rightarrow> string option \<Rightarrow> http_response option" where
  "admin_status T now lv auth =
     (let st = lv_current lv
      in if \<not> authorized st auth then Some unauthorized
         else map_option (\<lambda>keys. json_response 200 (JObject
            [(''alias'', JString DEFAULT_ALIAS), (''editable'', JBool (lv_editable lv)), (''keys'', JArray (map key_json keys)),
             (''port'', num_json (lv_port lv)), (''queue_available'', num_json (ap_admission st)),
             (''slots'', JArray (map (view_json \<circ> slot_view_of) (case live_slots T lv of Inr ss \<Rightarrow> ss | Inl _ \<Rightarrow> []))),
             (''uptime_secs'', num_json ((now - lv_started lv) div NS_PER_SEC))]))
           (snapshot (ap_registry st) now (ap_selector st)))"

section \<open>Starting the router on a list of slots\<close>

lemma valid_slots_config:
  assumes "validate_slots slots = Inr ()"
  shows "validate_config (to_config server slots) = Inr ()"
proof -
  from check_slots_ok [OF assms [unfolded validate_slots_def]]
  have d: "distinct (map sl_name slots)" and a: "\<forall>s\<in>set slots. sl_name s \<noteq> DEFAULT_ALIAS"
    and k: "\<forall>s\<in>set slots. sl_api_key s \<noteq> []" by auto
  let ?ps = "map slot_provider slots"
  have keys: "check_keys (map slot_provider ss) = Inr ()" if "\<forall>s\<in>set ss. sl_api_key s \<noteq> []" for ss
    using that by (induction ss) (simp_all add: slot_provider_def)
  have chain: "check_chain ?ps al (map slot_entry ss) = Inr ()" if "set ss \<subseteq> set slots" for al ss
    using that by (induction ss) (auto simp: slot_entry_def slot_provider_def list_ex_iff)
  have names: "check_aliases ?ps seen (map (\<lambda>s. \<lparr>ac_name = sl_name s, ac_chain = [slot_entry s]\<rparr>) ss) = Inr ()"
    if "distinct (map sl_name ss)" "set ss \<subseteq> set slots" "set seen \<inter> sl_name ` set ss = {}" for seen ss
    using that
  proof (induction ss arbitrary: seen)
    case (Cons s ss)
    then have "check_chain ?ps (sl_name s) [slot_entry s] = Inr ()" using chain [of "[s]"] by simp
    with Cons show ?case by auto
  qed simp
  have "set [DEFAULT_ALIAS] \<inter> sl_name ` set slots = {}" using a by auto
  with names [OF d, of "[DEFAULT_ALIAS]"] names [OF d, of "[]"] chain [of "filter sl_enabled slots" DEFAULT_ALIAS]
  have "check_aliases ?ps [] (rc_aliases (to_config server slots)) = Inr ()"
    by (auto simp: to_config_def Let_def)
  with keys [OF k] show ?thesis by (simp add: validate_config_def to_config_def Let_def)
qed

lemma upt_first: "[k..<k + Suc m] = k # [Suc k..<Suc k + m]"
  by (simp add: upt_conv_Cons del: upt_Suc)

lemma add_keys_ok:
  "pc_max_inflight pc \<le> MAX_PERMITS \<Longrightarrow> \<forall>j<m. flat_key_index r p (k + j) = Some (length ks + j) \<Longrightarrow>
     \<exists>new. add_keys r p pc [k..<k + m] ks = Some (ks @ new) \<and> length new = m"
proof (induction m arbitrary: k ks)
  case 0
  then show ?case by simp
next
  case (Suc m)
  let ?k = "\<lparr>kr_provider_idx = p, kr_key_idx = k, kr_permits = pc_max_inflight pc, kr_in_flight = 0,
             kr_health = health_new, kr_poisoned = False\<rparr>"
  from Suc.prems have "\<forall>j<m. flat_key_index r p (Suc k + j) = Some (length (ks @ [?k]) + j)"
    by (auto dest: spec [of _ "Suc _"])
  from Suc.IH [OF Suc.prems(1) this] obtain new where
    "add_keys r p pc [Suc k..<Suc k + m] (ks @ [?k]) = Some ((ks @ [?k]) @ new)" "length new = m" by blast
  moreover from Suc.prems(2) have "flat_key_index r p k = Some (length ks)" by (auto dest: spec [of _ 0])
  ultimately show ?case
    using Suc.prems(1) unfolding upt_first
    by (intro exI [of _ "?k # new"]) (simp add: semaphore_new_def del: upt_Suc)
qed

lemma key_bases_nth:
  "key_bases run ps = (bs, t) \<Longrightarrow> i < length ps \<Longrightarrow>
     bs ! i + length (pc_keys (ps ! i)) = (if Suc i < length ps then bs ! Suc i else t) \<and> (i = 0 \<longrightarrow> bs ! i = run)"
proof (induction ps arbitrary: run bs i)
  case (Cons p ps)
  then obtain bs' where bs: "bs = run # bs'" "key_bases (run + length (pc_keys p)) ps = (bs', t)"
    by (auto simp: Let_def split: prod.splits)
  show ?case
  proof (cases i)
    case 0
    with bs Cons.IH [OF bs(2), of 0] show ?thesis by (cases ps) auto
  next
    case (Suc j)
    with bs Cons.prems Cons.IH [OF bs(2), of j] show ?thesis by auto
  qed
qed simp

lemma add_providers_ok:
  assumes "registry_ok r" and "\<forall>p\<in>set (rc_providers (rg_cfg r)). pc_max_inflight p \<le> MAX_PERMITS"
  shows "i + n = length (rc_providers (rg_cfg r)) \<Longrightarrow> length ks = (if n = 0 then rg_key_total r else rg_key_base r ! i) \<Longrightarrow>
     \<exists>ks'. add_providers r [i..<i + n] ks = Some ks' \<and> length ks' = rg_key_total r"
proof (induction n arbitrary: i ks)
  case 0
  then show ?case by simp
next
  case (Suc n)
  let ?ps = "rc_providers (rg_cfg r)" and ?pc = "rc_providers (rg_cfg r) ! i"
  have kb: "key_bases 0 ?ps = (rg_key_base r, rg_key_total r)" using assms(1) by (simp add: registry_ok_def)
  have i: "i < length ?ps" using Suc.prems(1) by simp
  have len: "length (rg_key_base r) = length ?ps" using key_bases_slots [OF kb] by blast
  have "\<forall>j<length (pc_keys ?pc). flat_key_index r i (0 + j) = Some (length ks + j)"
    using i len Suc.prems(2) by (simp add: flat_key_index_def index_opt_def)
  from add_keys_ok [OF _ this, of ?pc] assms(2) i obtain new where
    new: "add_keys r i ?pc [0..<0 + length (pc_keys ?pc)] ks = Some (ks @ new)" "length new = length (pc_keys ?pc)" by auto
  have "length (ks @ new) = (if n = 0 then rg_key_total r else rg_key_base r ! Suc i)"
    using key_bases_nth [OF kb i] new(2) Suc.prems by (auto split: if_splits)
  from Suc.IH [OF _ this] Suc.prems(1) new(1) i show ?case unfolding upt_first
    by (simp add: registry_provider_def index_opt_def del: upt_Suc)
qed

lemma selector_new_ok:
  assumes "registry_ok r" and "\<forall>p\<in>set (rc_providers (rg_cfg r)). pc_max_inflight p \<le> MAX_PERMITS"
  shows "\<exists>s. selector_new r = Some s"
proof -
  let ?ps = "rc_providers (rg_cfg r)"
  have kb: "key_bases 0 ?ps = (rg_key_base r, rg_key_total r)" using assms(1) by (simp add: registry_ok_def)
  have "length ([] :: selector) = (if length ?ps = 0 then rg_key_total r else rg_key_base r ! 0)"
    using kb key_bases_nth [OF kb, of 0] by (cases ?ps) auto
  from add_providers_ok [OF assms _ this] show ?thesis by (auto simp: selector_new_def)
qed

text \<open>The chain that the router walks for \<open>auto\<close>: the enabled slots in order, with their keys and models.\<close>

definition chain_slots :: "registry \<Rightarrow> endpoint list \<Rightarrow> (string option \<times> string) list" where
  "chain_slots r chain = map (\<lambda>e. (registry_key r e, ep_model_id e)) chain"

lemma build_chains_other:
  "n \<notin> ac_name ` set as \<Longrightarrow> build_chains ps as m = Some m' \<Longrightarrow> m' n = m n"
  by (induction "as" arbitrary: m) (auto split: option.splits)

lemma position_slot:
  assumes "distinct (map sl_name slots)" and "s \<in> set slots"
  shows "\<exists>i<length slots. slots ! i = s \<and> position (\<lambda>p. pc_name p = sl_name s) (map slot_provider slots) = Some i"
  using assms
proof (induction slots)
  case (Cons t slots)
  then show ?case
    by (cases "s = t") (auto simp: slot_provider_def image_iff)
qed simp

lemma slot_chain_endpoints:
  assumes "distinct (map sl_name slots)" and "\<forall>s\<in>set slots. sl_api_key s \<noteq> []" and "rc_providers (rg_cfg r) = map slot_provider slots"
  shows "set ss \<subseteq> set slots \<Longrightarrow> \<exists>es. chain_endpoints (map slot_provider slots) (map slot_entry ss) = Some es
     \<and> chain_slots r es = map (\<lambda>s. (Some (sl_api_key s), sl_model s)) ss"
proof (induction ss)
  case Nil
  then show ?case by (simp add: chain_slots_def)
next
  case (Cons s ss)
  then have s: "s \<in> set slots" by simp
  from position_slot [OF assms(1) s] obtain i where
    i: "i < length slots" "slots ! i = s" "position (\<lambda>p. pc_name p = sl_name s) (map slot_provider slots) = Some i" by blast
  from i s assms(2) have "entry_endpoints (map slot_provider slots) (slot_entry s)
      = Some [\<lparr>ep_provider_idx = i, ep_key_idx = 0, ep_model_id = sl_model s\<rparr>]"
    by (simp add: entry_endpoints_def slot_entry_def slot_provider_def)
  moreover have "registry_key r \<lparr>ep_provider_idx = i, ep_key_idx = 0, ep_model_id = sl_model s\<rparr> = Some (sl_api_key s)"
    using i(1,2) s assms(2,3) by (simp add: registry_key_def registry_provider_def index_opt_def slot_provider_def)
  moreover obtain es where "chain_endpoints (map slot_provider slots) (map slot_entry ss) = Some es"
    "chain_slots r es = map (\<lambda>s. (Some (sl_api_key s), sl_model s)) ss" using Cons by auto
  ultimately show ?case by (simp add: chain_slots_def)
qed

lemma app_new_slots:
  assumes "validate_slots slots = Inr ()" and "sc_queue_capacity server \<le> MAX_PERMITS"
  shows "\<exists>st. app_new (to_config server slots) = Some st \<and> ap_auth_token st = sc_auth_token server
     \<and> (filter sl_enabled slots \<noteq> [] \<longrightarrow> (\<exists>chain. registry_chain (ap_registry st) DEFAULT_ALIAS = Some chain
          \<and> chain_slots (ap_registry st) chain = map (\<lambda>s. (Some (sl_api_key s), sl_model s)) (filter sl_enabled slots)))"
proof -
  from check_slots_ok [OF assms(1) [unfolded validate_slots_def]]
  have d: "distinct (map sl_name slots)" and a: "DEFAULT_ALIAS \<notin> sl_name ` set slots"
    and k: "\<forall>s\<in>set slots. sl_api_key s \<noteq> []" by auto
  let ?cfg = "to_config server slots"
  have ps: "rc_providers ?cfg = map slot_provider slots" by (simp add: to_config_def Let_def)
  from validated_registry [OF valid_slots_config [OF assms(1), of server]] obtain r where
    r: "registry_build ?cfg = Some r" "registry_ok r" "rg_cfg r = ?cfg" by blast
  have "\<forall>p\<in>set (rc_providers (rg_cfg r)). pc_max_inflight p \<le> MAX_PERMITS"
    by (auto simp: r(3) ps slot_provider_def provider_defaults_def MAX_PERMITS_def)
  from selector_new_ok [OF r(2) this] obtain s where s: "selector_new r = Some s" by blast
  have chain: "\<exists>chain. registry_chain r DEFAULT_ALIAS = Some chain
      \<and> chain_slots r chain = map (\<lambda>s. (Some (sl_api_key s), sl_model s)) (filter sl_enabled slots)"
    if en: "filter sl_enabled slots \<noteq> []"
  proof -
    from slot_chain_endpoints [OF d k, of r "filter sl_enabled slots"] obtain es where
      es: "chain_endpoints (map slot_provider slots) (map slot_entry (filter sl_enabled slots)) = Some es"
        "chain_slots r es = map (\<lambda>s. (Some (sl_api_key s), sl_model s)) (filter sl_enabled slots)"
      by (auto simp: r(3) ps)
    let ?rest = "map (\<lambda>s. \<lparr>ac_name = sl_name s, ac_chain = [slot_entry s]\<rparr>) slots"
    from r(1) en es(1) have "build_chains (map slot_provider slots) ?rest [DEFAULT_ALIAS \<mapsto> es] = Some (rg_chains r)"
      by (auto simp: registry_build_def to_config_def Let_def split: option.splits prod.splits)
    from build_chains_other [OF _ this, of DEFAULT_ALIAS] a es(2) show ?thesis
      by (auto simp: registry_chain_def image_iff)
  qed
  have "rc_server ?cfg = server" by (simp add: to_config_def Let_def)
  with r(1) s assms(2) chain show ?thesis by (simp add: app_new_def semaphore_new_def)
qed

section \<open>Edits\<close>

lemma mint_ids_valid: "mint_ids rnd n ss = Some ss' \<Longrightarrow> check_slots seen ss' = check_slots seen ss"
proof (induction ss arbitrary: n ss' seen)
  case (Cons s ss)
  have "\<exists>i ts m. ss' = s\<lparr>sl_id := i\<rparr> # ts \<and> mint_ids rnd m ss = Some ts"
  proof (cases "sl_id s = []")
    case True
    with Cons.prems show ?thesis by (auto split: option.splits)
  next
    case False
    with Cons.prems obtain ts where "ss' = s # ts" "mint_ids rnd n ss = Some ts" by auto
    then show ?thesis by (intro exI [of _ "sl_id s"] exI [of _ ts] exI [of _ n]) simp
  qed
  then obtain i ts m where t: "ss' = s\<lparr>sl_id := i\<rparr> # ts" "mint_ids rnd m ss = Some ts" by blast
  have "check_slot seen (s\<lparr>sl_id := i\<rparr>) = check_slot seen s" by (simp add: check_slot_def)
  with t Cons.IH [OF t(2)] show ?case by (simp split: sum.split)
qed simp

text \<open>What the router relies on of the TOML codec: the text of a configuration, trimmed, parses back to it.\<close>

definition toml_roundtrip :: "toml_codec \<Rightarrow> router_config \<Rightarrow> bool" where
  "toml_roundtrip T cfg \<longleftrightarrow> (case tc_print T cfg of
      Some text \<Rightarrow> str_trim text \<noteq> [] \<and> tc_parse T (str_trim text) = Inr cfg | None \<Rightarrow> False)"

text \<open>C25: A valid edit takes effect as a whole. When an authorized editor replaces the slots of an editable
  router and the file operations succeed, the router then lists exactly the slots sent, with blank
  keys filled in and missing ids minted, and walks exactly the enabled ones, in their order and
  with their keys and models, for the alias \<open>auto\<close>.\<close>

theorem edit_takes_effect:
  assumes "authorized (lv_current lv) auth" and "lv_editable lv" and "live_slots T lv = Inr stored"
    and "validate_slots (merge_keys incoming stored) = Inr ()"
    and "mint_ids (io_random io) 0 (merge_keys incoming stored) = Some slots"
    and "toml_roundtrip T (to_config default_server slots)" and "io_mkdir io \<and> io_write io \<and> io_rename io"
    and "sc_queue_capacity (lv_server lv) \<le> MAX_PERMITS"
  shows "\<exists>lv'. admin_replace T show_err io incoming lv auth = Some (admin_list T show_err lv' auth, lv')
     \<and> live_slots T lv' = Inr slots
     \<and> (filter sl_enabled slots \<noteq> [] \<longrightarrow> (\<exists>chain. registry_chain (ap_registry (lv_current lv')) DEFAULT_ALIAS = Some chain
          \<and> chain_slots (ap_registry (lv_current lv')) chain = map (\<lambda>s. (Some (sl_api_key s), sl_model s)) (filter sl_enabled slots)))"
proof -
  have valid: "validate_slots slots = Inr ()"
    using mint_ids_valid [OF assms(5), of "[]"] assms(4) by (simp add: validate_slots_def)
  from assms(6) obtain tx where tx: "tc_print T (to_config default_server slots) = Some tx" "str_trim tx \<noteq> []"
    "tc_parse T (str_trim tx) = Inr (to_config default_server slots)"
    by (auto simp: toml_roundtrip_def split: option.splits)
  let ?lv = "lv\<lparr>lv_disk := Some tx\<rparr>"
  have loaded: "live_slots T (lv\<lparr>lv_disk := Some tx, lv_current := c\<rparr>) = Inr slots" for c
    using assms(2) tx(2,3) slots_roundtrip [OF valid] by (simp add: live_slots_def store_load_def read_secret_def)
  have "live_slots T ?lv = Inr slots" using loaded [of "lv_current lv"] by simp
  from app_new_slots [OF valid assms(8)] obtain st where
    st: "app_new (to_config (lv_server lv) slots) = Some st"
      "filter sl_enabled slots \<noteq> [] \<longrightarrow> (\<exists>chain. registry_chain (ap_registry st) DEFAULT_ALIAS = Some chain
          \<and> chain_slots (ap_registry st) chain = map (\<lambda>s. (Some (sl_api_key s), sl_model s)) (filter sl_enabled slots))"
    by blast
  have "store_save T io (merge_keys incoming stored) (lv_disk lv) = (Inr (), Some tx)"
    using assms(4,5,7) tx(1) by (simp add: store_save_def)
  then have "replace_slots T io (merge_keys incoming stored) lv = Some (Inr (), ?lv\<lparr>lv_current := st\<rparr>)"
    using assms(2) \<open>live_slots T ?lv = Inr slots\<close> st(1) by (simp add: replace_slots_def live_reload_def)
  with assms(1-3) loaded [of st] st(2) show ?thesis
    by (intro exI [of _ "?lv\<lparr>lv_current := st\<rparr>"]) (simp add: admin_replace_def admin_guard_def)
qed

definition sample_toml :: toml_codec where
  "sample_toml = \<lparr>tc_parse = (\<lambda>_. Inr (to_config default_server sample_slots)), tc_print = (\<lambda>_. Some ''x'')\<rparr>"

definition sample_live :: live where
  "sample_live = \<lparr>lv_current = sample_app, lv_editable = True, lv_server = default_server, lv_started = 0, lv_port = 4000,
     lv_disk = None\<rparr>"

definition sample_io :: store_io where
  "sample_io = \<lparr>io_random = (\<lambda>_. None), io_mkdir = True, io_write = True, io_rename = True\<rparr>"

theorem edit_takes_effect_witness:
  "\<exists>lv'. admin_replace sample_toml (\<lambda>_. []) sample_io sample_slots sample_live None = Some (admin_list sample_toml (\<lambda>_. []) lv' None, lv')
     \<and> live_slots sample_toml lv' = Inr sample_slots
     \<and> (\<exists>chain. registry_chain (ap_registry (lv_current lv')) DEFAULT_ALIAS = Some chain
          \<and> chain_slots (ap_registry (lv_current lv')) chain = [(Some ''k1'', ''m'')])"
proof -
  have trim: "str_trim ''x'' = ''x''"
    by (simp add: str_trim_def str_chars_ascii is_ascii_def ws_group_def utf8_head_def is_whitespace_def in_rng_def)
  have merged: "merge_keys sample_slots [] = sample_slots" by (simp add: merge_keys_def merge_key_def sample_slots_def)
  have "\<exists>lv'. admin_replace sample_toml (\<lambda>_. []) sample_io sample_slots sample_live None = Some (admin_list sample_toml (\<lambda>_. []) lv' None, lv')
     \<and> live_slots sample_toml lv' = Inr sample_slots
     \<and> (filter sl_enabled sample_slots \<noteq> [] \<longrightarrow> (\<exists>chain. registry_chain (ap_registry (lv_current lv')) DEFAULT_ALIAS = Some chain
          \<and> chain_slots (ap_registry (lv_current lv')) chain = map (\<lambda>s. (Some (sl_api_key s), sl_model s)) (filter sl_enabled sample_slots)))"
  proof (rule edit_takes_effect)
    show "live_slots sample_toml sample_live = Inr []"
      by (simp add: sample_live_def live_slots_def store_load_def read_secret_def)
    show "validate_slots (merge_keys sample_slots []) = Inr ()" by (simp add: merged sample_slots_valid)
    show "mint_ids (io_random sample_io) 0 (merge_keys sample_slots []) = Some sample_slots"
      unfolding merged by (simp add: sample_slots_def)
    show "toml_roundtrip sample_toml (to_config default_server sample_slots)"
      by (simp add: toml_roundtrip_def sample_toml_def trim)
  qed (simp_all add: sample_live_def sample_app_eq authorized_def sample_io_def default_server_def MAX_PERMITS_def)
  moreover have "filter sl_enabled sample_slots \<noteq> []"
    and "map (\<lambda>s. (Some (sl_api_key s), sl_model s)) (filter sl_enabled sample_slots) = [(Some ''k1'', ''m'')]"
    by (simp_all add: sample_slots_def)
  ultimately show ?thesis by (auto simp del: filter.simps)
qed

section \<open>What the surface reveals\<close>

text \<open>Slots that differ at most in the part of their keys that the mask hides.\<close>

definition same_shown :: "slot \<Rightarrow> slot \<Rightarrow> bool" where
  "same_shown s t \<longleftrightarrow> t = s\<lparr>sl_api_key := sl_api_key t\<rparr> \<and> (sl_api_key s = [] \<longleftrightarrow> sl_api_key t = [])
     \<and> last_n 4 (str_chars (sl_api_key t)) = last_n 4 (str_chars (sl_api_key s))"

lemma same_shown_view: "same_shown s t \<Longrightarrow> slot_view_of t = slot_view_of s"
proof -
  assume *: "same_shown s t"
  show "slot_view_of t = slot_view_of s"
  proof (cases "sl_api_key s = []")
    case True
    with * have "t = s" by (cases s, cases t) (simp add: same_shown_def)
    then show ?thesis by simp
  next
    case False
    with * view_hides_key [of s "sl_api_key t"] show ?thesis by (simp add: same_shown_def)
  qed
qed

lemma same_shown_views: "list_all2 same_shown ss ts \<Longrightarrow> map slot_view_of ts = map slot_view_of ss"
  by (induction rule: list_all2_induct) (simp_all add: same_shown_view)


definition keyed_toml :: toml_codec where
  "keyed_toml = \<lparr>tc_parse = (\<lambda>text. Inr (to_config default_server [(sample_slots ! 0)\<lparr>sl_api_key := text\<rparr>])), tc_print = (\<lambda>_. None)\<rparr>"

definition locked_live :: live where
  "locked_live = sample_live\<lparr>lv_current := sample_app\<lparr>ap_auth_token := Some ''t''\<rparr>, lv_disk := Some ''aaaa1234''\<rparr>"

lemma keyed_slots:
  assumes "is_ascii k" and "\<forall>c\<in>set k. \<not> is_whitespace (of_char c)" and "k \<noteq> []"
  shows "live_slots keyed_toml (locked_live\<lparr>lv_disk := Some k\<rparr>) = Inr [(sample_slots ! 0)\<lparr>sl_api_key := k\<rparr>]"
proof -
  have g: "\<not> ws_group [c]" if "c \<in> set k" for c
    using assms(1,2) that by (auto simp: ws_group_def utf8_head_def is_ascii_def list_all_iff)
  have "dropWhile ws_group (map (\<lambda>c. [c]) xs) = map (\<lambda>c. [c]) xs" if "set xs \<subseteq> set k" for xs
    using g that by (cases xs) auto
  from this [of k] this [of "rev k"] have trim: "str_trim k = k"
    by (simp add: str_trim_def str_chars_ascii [OF assms(1)] rev_map)
  have "validate_slots [(sample_slots ! 0)\<lparr>sl_api_key := k\<rparr>] = Inr ()"
    using assms(3) sample_slots_valid by (simp add: validate_slots_def sample_slots_def check_slot_def split: if_splits)
  from slots_roundtrip [OF this] trim assms(3) show ?thesis
    by (simp add: live_slots_def locked_live_def sample_live_def store_load_def read_secret_def keyed_toml_def)
qed


end
