(* ===== verification/Guardian.thy ===== *)
theory Guardian
  imports Messages
begin

text \<open>
  The memory and host-pressure guardian of the daemon: the memory and pressure sections of the
  configuration (\<^verbatim>\<open>amber-core/src/state.rs\<close>), \<^verbatim>\<open>crates/amber/src/host_pressure.rs\<close> (sustained
  host pressure), \<^verbatim>\<open>procinfo.rs\<close> (memory of a process tree, growth) and
  \<^verbatim>\<open>memory_guardian.rs\<close> (levels, choice of a session to park, the periodic tick).

  Times are milliseconds and sizes KiB, as natural numbers with saturation written out. What the tick
  reads from the session manager and the operating system is a record \<open>observed\<close>.
\<close>

section \<open>Configuration\<close>

record memory_config =
  mc_enabled :: bool
  mc_budget_mb :: "nat option"
  mc_session_high_mb :: nat

definition memory_default :: memory_config where
  "memory_default = \<lparr>mc_enabled = True, mc_budget_mb = None, mc_session_high_mb = 4096\<rparr>"

definition budget_kb :: "memory_config \<Rightarrow> nat option \<Rightarrow> nat option \<Rightarrow> nat option" where
  "budget_kb c physical_kb cgroup_limit_kb =
     (case (case mc_budget_mb c of
              Some mb \<Rightarrow> Some (sat64 (mb * 1024))
            | None \<Rightarrow> (case physical_kb of Some kb \<Rightarrow> Some (kb div 2) | None \<Rightarrow> cgroup_limit_kb)) of
        None \<Rightarrow> None
      | Some req \<Rightarrow> (let requested = max req (512 * 1024)
                     in Some (case cgroup_limit_kb of None \<Rightarrow> requested | Some limit \<Rightarrow> min requested limit)))"

definition session_high_kb :: "memory_config \<Rightarrow> nat option \<Rightarrow> nat" where
  "session_high_kb c budget =
     (let requested = max (sat64 (mc_session_high_mb c * 1024)) (256 * 1024)
      in case budget of None \<Rightarrow> requested | Some b \<Rightarrow> min requested b)"

record pressure_config =
  pr_cpu_some :: f64
  pr_io_full :: f64
  pr_memory_full :: f64
  pr_sustain_seconds :: nat
  pr_cooldown_seconds :: nat

definition pressure_default :: pressure_config where
  "pressure_default = \<lparr>pr_cpu_some = Finite 25, pr_io_full = Finite 20, pr_memory_full = Finite 2,
     pr_sustain_seconds = 120, pr_cooldown_seconds = 10\<rparr>"

record raw_pressure =
  rp_cpu_some :: "f64 option"
  rp_io_full :: "f64 option"
  rp_memory_full :: "f64 option"
  rp_sustain_seconds :: "nat option"
  rp_cooldown_seconds :: "nat option"

fun is_finite :: "f64 \<Rightarrow> bool" where
  "is_finite (Finite _) = True"
| "is_finite _ = False"

fun f64_ge :: "f64 \<Rightarrow> f64 \<Rightarrow> bool" where
  "f64_ge NaN _ = False"
| "f64_ge _ NaN = False"
| "f64_ge PosInf _ = True"
| "f64_ge _ NegInf = True"
| "f64_ge NegInf _ = False"
| "f64_ge _ PosInf = False"
| "f64_ge (Finite a) (Finite b) = (a \<ge> b)"

definition normalized_percent :: "f64 option \<Rightarrow> f64 \<Rightarrow> f64" where
  "normalized_percent v d = (case v of Some (Finite q) \<Rightarrow> Finite (max 0 (min q 100)) | _ \<Rightarrow> d)"

definition normalized_interval :: "nat option \<Rightarrow> nat \<Rightarrow> nat" where
  "normalized_interval v d = (case v of Some n \<Rightarrow> if n \<noteq> 0 then n else d | None \<Rightarrow> d)"

definition normalize_pressure :: "raw_pressure \<Rightarrow> pressure_config" where
  "normalize_pressure r =
     \<lparr>pr_cpu_some = normalized_percent (rp_cpu_some r) (pr_cpu_some pressure_default),
      pr_io_full = normalized_percent (rp_io_full r) (pr_io_full pressure_default),
      pr_memory_full = normalized_percent (rp_memory_full r) (pr_memory_full pressure_default),
      pr_sustain_seconds = normalized_interval (rp_sustain_seconds r) (pr_sustain_seconds pressure_default),
      pr_cooldown_seconds = normalized_interval (rp_cooldown_seconds r) (pr_cooldown_seconds pressure_default)\<rparr>"

definition bad_percent :: "f64 option \<Rightarrow> bool" where
  "bad_percent v = (case v of None \<Rightarrow> False | Some (Finite q) \<Rightarrow> \<not> (0 \<le> q \<and> q \<le> 100) | Some _ \<Rightarrow> True)"

definition was_normalized :: "raw_pressure \<Rightarrow> bool" where
  "was_normalized r \<longleftrightarrow> bad_percent (rp_cpu_some r) \<or> bad_percent (rp_io_full r) \<or> bad_percent (rp_memory_full r)
     \<or> rp_sustain_seconds r = Some 0 \<or> rp_cooldown_seconds r = Some 0"

section \<open>Sustained host pressure\<close>

datatype pressure_cause = HostCpu | HostIo | HostMemory

record host_sample =
  hs_cpu_some :: f64
  hs_io_full :: f64
  hs_memory_full :: f64

datatype host_decision = HostNormal | HostUnavailable | HostCritical "pressure_cause list" bool

record host_state =
  ho_config :: pressure_config
  ho_episode_started :: "nat option"
  ho_cooldown_until :: "nat option"

definition host_new :: "pressure_config \<Rightarrow> host_state" where
  "host_new c = \<lparr>ho_config = c, ho_episode_started = None, ho_cooldown_until = None\<rparr>"

definition causes :: "pressure_config \<Rightarrow> host_sample \<Rightarrow> pressure_cause list" where
  "causes c s =
     (if is_finite (hs_cpu_some s) \<and> f64_ge (hs_cpu_some s) (pr_cpu_some c) then [HostCpu] else [])
     @ (if is_finite (hs_io_full s) \<and> f64_ge (hs_io_full s) (pr_io_full c) then [HostIo] else [])
     @ (if is_finite (hs_memory_full s) \<and> f64_ge (hs_memory_full s) (pr_memory_full c) then [HostMemory] else [])"

definition host_step_state :: "nat \<Rightarrow> host_sample option \<Rightarrow> host_state \<Rightarrow> host_decision \<times> host_state" where
  "host_step_state now sample h =
     (case sample of
        None \<Rightarrow> (HostUnavailable, h)
      | Some s \<Rightarrow>
          (let cs = causes (ho_config h) s
           in if cs = [] then (HostNormal, h\<lparr>ho_episode_started := None\<rparr>)
              else let started = (case ho_episode_started h of Some t \<Rightarrow> t | None \<Rightarrow> now);
                       sustained = (now - started \<ge> sat64 (pr_sustain_seconds (ho_config h) * 1000));
                       cooled = (case ho_cooldown_until h of None \<Rightarrow> True | Some u \<Rightarrow> now \<ge> u)
                   in (HostCritical cs (sustained \<and> cooled), h\<lparr>ho_episode_started := Some started\<rparr>)))"

definition record_parked :: "nat \<Rightarrow> host_state \<Rightarrow> host_state" where
  "record_parked now h =
     h\<lparr>ho_cooldown_until := Some (sat64 (now + sat64 (pr_cooldown_seconds (ho_config h) * 1000)))\<rparr>"

text \<open>Reading the kernel's text; \<open>parse_f64\<close> is \<^verbatim>\<open>str::parse::<f64>\<close>.\<close>

definition words :: "string \<Rightarrow> string list" where
  "words s = map concat (filter (\<lambda>w. w \<noteq> []) (split_on [] (map (\<lambda>g. if ws_group g then [] else g) (str_chars s))))"

definition parse_psi_avg10 :: "(string \<Rightarrow> f64 option) \<Rightarrow> string \<Rightarrow> f64 option" where
  "parse_psi_avg10 parse_f64 row =
     (case List.find (prefix ''avg10='') (words row) of
        None \<Rightarrow> None
      | Some field \<Rightarrow> (case parse_f64 (drop 6 field) of
          Some v \<Rightarrow> if is_finite v then Some v else None
        | None \<Rightarrow> None))"

definition parse_psi_kind :: "(string \<Rightarrow> f64 option) \<Rightarrow> string \<Rightarrow> string \<Rightarrow> f64 option" where
  "parse_psi_kind parse_f64 contents kind =
     Option.bind (List.find (\<lambda>line. case words line of w # _ \<Rightarrow> w = kind | [] \<Rightarrow> False) (split_on (CHR 0x0A) contents))
       (parse_psi_avg10 parse_f64)"

definition sample_linux :: "(string \<Rightarrow> f64 option) \<Rightarrow> string option \<Rightarrow> string option \<Rightarrow> string option \<Rightarrow> host_sample option" where
  "sample_linux parse_f64 cpu io memory =
     (case (cpu, io, memory) of
        (Some c, Some i, Some m) \<Rightarrow>
          (case (parse_psi_kind parse_f64 c ''some'', parse_psi_kind parse_f64 i ''full'', parse_psi_kind parse_f64 m ''full'') of
             (Some a, Some b, Some d) \<Rightarrow> Some \<lparr>hs_cpu_some = a, hs_io_full = b, hs_memory_full = d\<rparr>
           | _ \<Rightarrow> None)
      | _ \<Rightarrow> None)"

section \<open>Process trees\<close>

record proc_entry =
  pe_pid :: nat
  pe_ppid :: nat
  pe_rss_kb :: nat

definition children_of :: "proc_entry list \<Rightarrow> nat \<Rightarrow> nat list" where
  "children_of table p = map pe_pid (filter (\<lambda>e. pe_pid e \<noteq> pe_ppid e \<and> pe_ppid e = p) table)"

text \<open>A later entry of the table for the same process replaces an earlier one.\<close>

definition rss_of :: "proc_entry list \<Rightarrow> nat \<Rightarrow> nat option" where
  "rss_of table p = map_option pe_rss_kb (List.find (\<lambda>e. pe_pid e = p) (rev table))"

fun enqueue :: "nat list \<Rightarrow> nat list \<Rightarrow> nat list \<Rightarrow> nat list \<times> nat list" where
  "enqueue [] seen q = (seen, q)"
| "enqueue (k # ks) seen q = (if k \<in> set seen then enqueue ks seen q else enqueue ks (k # seen) (q @ [k]))"

lemma enqueue_set:
  "enqueue ks seen q = (seen', q') \<Longrightarrow> set seen' = set seen \<union> set ks \<and> set q' = set q \<union> (set ks - set seen)"
  by (induction ks arbitrary: seen q) (auto split: if_splits)

lemma enqueue_length:
  "enqueue ks seen q = (seen', q') \<Longrightarrow> length q' + card (set seen) = length q + card (set seen')"
  by (induction ks arbitrary: seen q) (fastforce split: if_splits)+

lemma children_subset: "set (children_of table p) \<subseteq> pe_pid ` set table"
  by (auto simp: children_of_def)

text \<open>The breadth-first walk of \<^verbatim>\<open>subtree_rss_kb\<close>.\<close>

function bfs :: "proc_entry list \<Rightarrow> nat list \<Rightarrow> nat list \<Rightarrow> nat \<Rightarrow> nat" where
  "bfs table seen [] acc = acc"
| "bfs table seen (p # q) acc =
     (let (seen', q') = enqueue (children_of table p) seen q
      in bfs table seen' q' (sat64 (acc + (case rss_of table p of Some n \<Rightarrow> n | None \<Rightarrow> 0))))"
  by pat_completeness auto

termination
proof (relation "measure (\<lambda>(table, seen, q, _). length q + 2 * card (pe_pid ` set table - set seen))")
  fix table seen p q acc x and seen' q' :: "nat list"
  assume "x = enqueue (children_of table p) seen q" and "(seen', q') = x"
  then have e: "enqueue (children_of table p) seen q = (seen', q')" by simp
  let ?all = "pe_pid ` set table"
  have new: "set seen' = set seen \<union> (set (children_of table p) - set seen)"
    using enqueue_set [OF e] by auto
  have "card (set seen') = card (set seen) + card (set (children_of table p) - set seen)"
    unfolding new by (rule card_Un_disjoint) auto
  with enqueue_length [OF e] have l: "length q' = length q + card (set (children_of table p) - set seen)" by simp
  have "?all - set seen = (?all - set seen') \<union> (set (children_of table p) - set seen)"
    using new children_subset [of table p] by auto
  then have "card (?all - set seen) = card (?all - set seen') + card (set (children_of table p) - set seen)"
    using new by (simp only:) (rule card_Un_disjoint, auto)
  with l show "((table, seen', q', sat64 (acc + (case rss_of table p of Some n \<Rightarrow> n | None \<Rightarrow> 0))), table, seen, p # q, acc)
      \<in> measure (\<lambda>(table, seen, q, _). length q + 2 * card (pe_pid ` set table - set seen))"
    by simp
qed simp

definition subtree_rss_kb :: "proc_entry list \<Rightarrow> nat \<Rightarrow> nat" where
  "subtree_rss_kb table pid = (if rss_of table pid = None then 0 else bfs table [pid] [pid] 0)"

fun dips :: "nat \<Rightarrow> nat list \<Rightarrow> bool" where
  "dips noise (a # b # rest) = (a > sat64 (b + noise) \<or> dips noise (b # rest))"
| "dips noise _ = False"

definition is_growing :: "nat list \<Rightarrow> nat \<Rightarrow> nat \<Rightarrow> bool" where
  "is_growing samples min_growth noise \<longleftrightarrow> length samples \<ge> 3
     \<and> last samples > sat64 (hd samples + min_growth) \<and> \<not> dips noise samples"

section \<open>Memory levels and the session to park\<close>

definition RECENT_USE_MS :: nat where "RECENT_USE_MS = 120000"
definition SUSPEND_STALL_MS :: nat where "SUSPEND_STALL_MS = 10000"
definition PRESSURE_REFRESH_MS :: nat where "PRESSURE_REFRESH_MS = 3000"
definition PSI_ERROR_LOG_MS :: nat where "PSI_ERROR_LOG_MS = 60000"
definition WINDOW :: nat where "WINDOW = 5"
definition MIN_GROWTH_KB :: nat where "MIN_GROWTH_KB = 100000"
definition NOISE_KB :: nat where "NOISE_KB = 20000"

datatype pressure_level = PNormal | PWarning | PCritical

record candidate =
  ca_name :: string
  ca_memory_kb :: nat
  ca_last_used_ms :: nat
  ca_is_agent :: bool
  ca_running :: bool
  ca_has_resume_id :: bool
  ca_suspended :: bool

definition percent_of :: "nat \<Rightarrow> nat \<Rightarrow> nat" where
  "percent_of current budget = sat64 (current * 100) div budget"

definition next_level :: "pressure_level \<Rightarrow> nat \<Rightarrow> nat \<Rightarrow> pressure_level" where
  "next_level previous current budget =
     (if budget = 0 then PNormal
      else let percent = percent_of current budget
           in case previous of
                PNormal \<Rightarrow> if percent \<ge> 80 then PCritical else if percent \<ge> 70 then PWarning else PNormal
              | PWarning \<Rightarrow> if percent \<ge> 80 then PCritical else if percent < 65 then PNormal else PWarning
              | PCritical \<Rightarrow> if percent < 65 then PNormal else if percent < 80 then PWarning else PCritical)"

definition eligible :: "nat \<Rightarrow> candidate \<Rightarrow> bool" where
  "eligible now c \<longleftrightarrow> ca_is_agent c \<and> ca_running c \<and> ca_has_resume_id c \<and> \<not> ca_suspended c
     \<and> now - ca_last_used_ms c \<ge> RECENT_USE_MS"

text \<open>The comparison of \<^verbatim>\<open>min_by\<close>: least recently used, then largest, then by name.\<close>

fun name_less :: "string \<Rightarrow> string \<Rightarrow> bool" where
  "name_less _ [] = False"
| "name_less [] (_ # _) = True"
| "name_less (c # cs) (d # ds) = ((of_char c :: nat) < of_char d \<or> c = d \<and> name_less cs ds)"

definition before :: "candidate \<Rightarrow> candidate \<Rightarrow> bool" where
  "before a b \<longleftrightarrow> ca_last_used_ms a < ca_last_used_ms b
     \<or> ca_last_used_ms a = ca_last_used_ms b \<and> (ca_memory_kb b < ca_memory_kb a
         \<or> ca_memory_kb a = ca_memory_kb b \<and> name_less (ca_name a) (ca_name b))"

fun min_candidate :: "candidate list \<Rightarrow> candidate option" where
  "min_candidate [] = None"
| "min_candidate (c # cs) =
     (case min_candidate cs of None \<Rightarrow> Some c | Some d \<Rightarrow> Some (if before d c then d else c))"

definition select_candidate :: "nat \<Rightarrow> candidate list \<Rightarrow> candidate option" where
  "select_candidate now cs = min_candidate (filter (eligible now) cs)"

record step_decision =
  sd_level :: pressure_level
  sd_candidate :: "string option"
  sd_blocked :: bool

definition guardian_step :: "pressure_level \<Rightarrow> nat \<Rightarrow> nat \<Rightarrow> nat \<Rightarrow> nat option \<Rightarrow> candidate list \<Rightarrow> step_decision" where
  "guardian_step previous now current budget pending cs =
     (let level = next_level previous current budget
      in if level \<noteq> PCritical then \<lparr>sd_level = level, sd_candidate = None, sd_blocked = False\<rparr>
         else case pending of
                Some started \<Rightarrow> \<lparr>sd_level = level, sd_candidate = None, sd_blocked = (now - started \<ge> SUSPEND_STALL_MS)\<rparr>
              | None \<Rightarrow> (let c = map_option ca_name (select_candidate now cs)
                         in \<lparr>sd_level = level, sd_candidate = c, sd_blocked = (c = None)\<rparr>))"

text \<open>Park the chosen session: snapshot first, then suspend; a failure blocks. The list is the sessions
  the manager was asked to suspend.\<close>

definition apply_action :: "bool \<Rightarrow> (string \<Rightarrow> bool) \<Rightarrow> step_decision \<Rightarrow> step_decision \<times> string list" where
  "apply_action snapshot_ok suspend_ok d =
     (case sd_candidate d of
        None \<Rightarrow> (d, [])
      | Some name \<Rightarrow>
          if \<not> snapshot_ok then (d\<lparr>sd_blocked := True\<rparr>, [])
          else if suspend_ok name then (d, [name]) else (d\<lparr>sd_blocked := True\<rparr>, [name]))"

definition refresh_due :: "nat option \<Rightarrow> nat \<Rightarrow> bool" where
  "refresh_due prev now = (case prev of None \<Rightarrow> True | Some t \<Rightarrow> now - t \<ge> PRESSURE_REFRESH_MS)"

definition should_broadcast :: "pressure_level \<Rightarrow> bool \<Rightarrow> nat option \<Rightarrow> nat \<Rightarrow> step_decision \<Rightarrow> bool" where
  "should_broadcast previous_level previous_blocked prev now d \<longleftrightarrow>
     sd_level d \<noteq> previous_level \<or> sd_blocked d \<noteq> previous_blocked \<or> refresh_due prev now"

record pressure_status =
  ps_level :: resource_pressure_level
  ps_causes :: "resource_pressure_cause list"
  ps_blocked :: bool

record host_action =
  ha_status :: "pressure_status option"
  ha_candidate :: "string option"
  ha_blocked :: bool

definition wire_cause :: "pressure_cause \<Rightarrow> resource_pressure_cause" where
  "wire_cause c = (case c of HostCpu \<Rightarrow> Cpu | HostIo \<Rightarrow> Io | HostMemory \<Rightarrow> Memory)"

text \<open>The candidates under host pressure, in the order the manager prefers them.\<close>

definition host_step :: "nat \<Rightarrow> host_decision \<Rightarrow> nat option \<Rightarrow> string list \<Rightarrow> host_action" where
  "host_step now pressure pending cs =
     (case pressure of
        HostUnavailable \<Rightarrow> \<lparr>ha_status = None, ha_candidate = None, ha_blocked = False\<rparr>
      | HostNormal \<Rightarrow> \<lparr>ha_status = Some \<lparr>ps_level = RplNormal, ps_causes = [], ps_blocked = False\<rparr>,
                       ha_candidate = None, ha_blocked = False\<rparr>
      | HostCritical why can_park \<Rightarrow>
          (let (c, blocked) = (if \<not> can_park then (None, False)
                else case pending of
                       Some started \<Rightarrow> (None, now - started \<ge> SUSPEND_STALL_MS)
                     | None \<Rightarrow> (case cs of n # _ \<Rightarrow> (Some n, False) | [] \<Rightarrow> (None, True)))
           in \<lparr>ha_status = Some \<lparr>ps_level = RplCritical, ps_causes = map wire_cause why, ps_blocked = blocked\<rparr>,
               ha_candidate = c, ha_blocked = blocked\<rparr>))"

definition apply_host_action :: "bool \<Rightarrow> (string \<Rightarrow> nat option) \<Rightarrow> host_action \<Rightarrow> host_action \<times> string list \<times> nat option" where
  "apply_host_action snapshot_ok suspend a =
     (case ha_candidate a of
        None \<Rightarrow> (a, [], None)
      | Some name \<Rightarrow>
          (let failed = a\<lparr>ha_blocked := True, ha_status := map_option (\<lambda>st. st\<lparr>ps_blocked := True\<rparr>) (ha_status a)\<rparr>
           in if \<not> snapshot_ok then (failed, [], None)
              else case suspend name of Some t \<Rightarrow> (a, [name], Some t) | None \<Rightarrow> (failed, [name], None)))"

definition should_broadcast_resource :: "pressure_status option \<Rightarrow> nat option \<Rightarrow> nat \<Rightarrow> pressure_status \<Rightarrow> bool" where
  "should_broadcast_resource previous prev now st \<longleftrightarrow> previous \<noteq> Some st \<or> refresh_due prev now"

definition record_rss_stat :: "(string \<rightharpoonup> nat list) \<Rightarrow> string \<Rightarrow> nat \<Rightarrow> (string \<rightharpoonup> nat list) \<times> control_msg" where
  "record_rss_stat histories name rss =
     (let h = last_n WINDOW ((case histories name of Some h \<Rightarrow> h | None \<Rightarrow> []) @ [rss])
      in (histories(name \<mapsto> h), MemoryStat name rss (is_growing h MIN_GROWTH_KB NOISE_KB)))"

definition select_pressure_sample :: "bool \<Rightarrow> 'a option \<Rightarrow> 'a option \<Rightarrow> 'a option" where
  "select_pressure_sample cgroup_enabled cgroup_sample rss_sample = (if cgroup_enabled then cgroup_sample else rss_sample)"

section \<open>The tick\<close>

text \<open>Per-session memory in the order the map is iterated.\<close>

type_synonym memory_sample = "nat \<times> (string \<times> nat) list"

record observed =
  ob_budget_kb :: "nat option"
  ob_cgroup :: "memory_sample option"
  ob_table :: "proc_entry list"
  ob_pids :: "(string \<times> nat) list"
  ob_now :: nat
  ob_pending :: "nat option"
  ob_candidates :: "(string \<times> nat) list \<Rightarrow> candidate list"
  ob_snapshot_ok :: bool
  ob_suspend_ok :: "string \<Rightarrow> bool"
  ob_host_sample :: "host_sample option"
  ob_host_now :: nat
  ob_host_pending :: "nat option"
  ob_host_candidates :: "(string \<times> nat) list \<Rightarrow> string list"
  ob_host_snapshot_ok :: bool
  ob_host_suspend :: "string \<Rightarrow> nat option"

record guardian =
  gu_level :: pressure_level
  gu_blocked :: bool
  gu_last_broadcast :: "nat option"
  gu_host :: host_state
  gu_last_status :: "pressure_status option"
  gu_last_resource :: "nat option"
  gu_last_psi_log :: "nat option"
  gu_last_per_session :: "(string \<times> nat) list"
  gu_samples :: "string \<rightharpoonup> nat list"
  gu_tick :: nat

definition guardian_new :: "pressure_config \<Rightarrow> guardian" where
  "guardian_new c = \<lparr>gu_level = PNormal, gu_blocked = False, gu_last_broadcast = None, gu_host = host_new c,
     gu_last_status = None, gu_last_resource = None, gu_last_psi_log = None, gu_last_per_session = [],
     gu_samples = Map.empty, gu_tick = 0\<rparr>"

fun record_all :: "(string \<rightharpoonup> nat list) \<Rightarrow> (string \<times> nat) list \<Rightarrow> (string \<rightharpoonup> nat list) \<times> control_msg list" where
  "record_all hs [] = (hs, [])"
| "record_all hs ((n, kb) # rest) =
     (let (hs', m) = record_rss_stat hs n kb; (hs'', ms) = record_all hs' rest in (hs'', m # ms))"

definition retain :: "(string \<times> nat) list \<Rightarrow> (string \<rightharpoonup> nat list) \<Rightarrow> (string \<rightharpoonup> nat list)" where
  "retain live hs = hs |` (fst ` set live)"

text \<open>
  The telemetry part of a tick: the history, the events, the process-table sample, and what remains of
  the control-group sample, which is taken on every third tick.
\<close>

definition telemetry :: "bool \<Rightarrow> nat \<Rightarrow> observed \<Rightarrow> (string \<rightharpoonup> nat list)
    \<Rightarrow> (string \<rightharpoonup> nat list) \<times> control_msg list \<times> memory_sample option \<times> memory_sample option" where
  "telemetry cgroup_enabled tick ob hs =
     (if \<not> 3 dvd tick then (hs, [], None, ob_cgroup ob)
      else if cgroup_enabled then
        (case ob_cgroup ob of
           Some (total_kb, per_session) \<Rightarrow>
             (let (hs', ms) = record_all (retain per_session hs) per_session
              in (hs', ms, Some (total_kb, per_session), None))
         | None \<Rightarrow> (hs, [], None, None))
      else if ob_table ob = [] then (hs, [], None, ob_cgroup ob)
      else
        (let per_session = map (\<lambda>(n, pid). (n, subtree_rss_kb (ob_table ob) pid)) (ob_pids ob);
             (hs', ms) = record_all (retain (ob_pids ob) hs) per_session
         in (hs', ms, Some (fold (\<lambda>x acc. sat64 (acc + snd x)) per_session 0, per_session), ob_cgroup ob)))"

definition level_text :: "pressure_level \<Rightarrow> string" where
  "level_text l = (case l of PNormal \<Rightarrow> ''normal'' | PWarning \<Rightarrow> ''warning'' | PCritical \<Rightarrow> ''critical'')"

definition memory_part :: "memory_config \<Rightarrow> observed \<Rightarrow> memory_sample option \<Rightarrow> guardian
    \<Rightarrow> guardian \<times> control_msg list \<times> string list" where
  "memory_part cfg ob sample g =
     (case (ob_budget_kb ob, sample) of
        (Some budget, Some (current, per_session)) \<Rightarrow>
          (let pending = (if mc_enabled cfg then ob_pending ob else None);
               cs = (if mc_enabled cfg \<and> next_level (gu_level g) current budget = PCritical \<and> pending = None
                     then ob_candidates ob per_session else []);
               d = guardian_step (gu_level g) (ob_now ob) current budget pending cs;
               (d', parked) = (if mc_enabled cfg then apply_action (ob_snapshot_ok ob) (ob_suspend_ok ob) d
                               else (d\<lparr>sd_candidate := None, sd_blocked := False\<rparr>, []));
               send = should_broadcast (gu_level g) (gu_blocked g) (gu_last_broadcast g) (ob_now ob) d'
           in (g\<lparr>gu_last_per_session := per_session, gu_level := sd_level d', gu_blocked := sd_blocked d',
                 gu_last_broadcast := (if send then Some (ob_now ob) else gu_last_broadcast g)\<rparr>,
               if send then [MemoryPressure (level_text (sd_level d')) current budget (sd_blocked d')] else [],
               parked))
      | _ \<Rightarrow> (g, [], []))"

definition host_part :: "memory_config \<Rightarrow> observed \<Rightarrow> guardian \<Rightarrow> guardian \<times> control_msg list \<times> string list" where
  "host_part cfg ob g =
     (let now = ob_host_now ob;
          (decision, host) = host_step_state now (ob_host_sample ob) (gu_host g);
          log = (if decision = HostUnavailable \<and>
                    (case gu_last_psi_log g of None \<Rightarrow> True | Some t \<Rightarrow> now - t \<ge> PSI_ERROR_LOG_MS)
                 then Some now else gu_last_psi_log g);
          pending = (if mc_enabled cfg then ob_host_pending ob else None);
          cs = (if mc_enabled cfg \<and> (case decision of HostCritical _ can_park \<Rightarrow> can_park | _ \<Rightarrow> False) \<and> pending = None
                then ob_host_candidates ob (gu_last_per_session g) else []);
          a = host_step now decision pending cs;
          (a', parked, signaled) = (if mc_enabled cfg then apply_host_action (ob_host_snapshot_ok ob) (ob_host_suspend ob) a
             else (a\<lparr>ha_candidate := None, ha_blocked := False,
                     ha_status := map_option (\<lambda>st. st\<lparr>ps_blocked := False\<rparr>) (ha_status a)\<rparr>, [], None));
          host' = (case signaled of Some t \<Rightarrow> record_parked t host | None \<Rightarrow> host);
          g' = g\<lparr>gu_host := host', gu_last_psi_log := log\<rparr>
      in case ha_status a' of
           None \<Rightarrow> (g', [], parked)
         | Some st \<Rightarrow>
             (let send = should_broadcast_resource (gu_last_status g) (gu_last_resource g) now st
              in (g'\<lparr>gu_last_status := Some st,
                     gu_last_resource := (if send then Some now else gu_last_resource g)\<rparr>,
                  if send then [ResourcePressure (ps_level st) (ps_causes st) (ps_blocked st)] else [],
                  parked)))"

text \<open>One turn of the guardian's loop: the new state, the messages broadcast and the sessions it
  asked the manager to suspend.\<close>

definition guardian_tick :: "bool \<Rightarrow> bool \<Rightarrow> memory_config \<Rightarrow> observed \<Rightarrow> guardian
    \<Rightarrow> guardian \<times> control_msg list \<times> string list" where
  "guardian_tick cgroup_enabled psi_enabled cfg ob g =
     (let tick = (gu_tick g + 1) mod 2 ^ 64;
          (hs, events, rss, cgroup) = telemetry cgroup_enabled tick ob (gu_samples g);
          g1 = g\<lparr>gu_tick := tick, gu_samples := hs\<rparr>;
          (g2, ms, parked) = memory_part cfg ob (select_pressure_sample cgroup_enabled cgroup rss) g1
      in if \<not> psi_enabled then (g2, events @ ms, parked)
         else (let (g3, ms', parked') = host_part cfg ob g2
               in (g3, events @ ms @ ms', parked @ parked')))"

end
