(* ===== verification/GuardianLaws.thy ===== *)
theory GuardianLaws
  imports Guardian
begin

text \<open>
  What the guardian guarantees: the memory of a process tree is counted exactly, levels do not flap,
  host pressure parks a session only after a sustained episode and a completed cool-down, and only
  an idle, resumable agent is ever parked for memory.
\<close>

section \<open>The memory of a process tree\<close>

definition child_rel :: "proc_entry list \<Rightarrow> (nat \<times> nat) set" where
  "child_rel table = {(p, k). k \<in> set (children_of table p)}"

definition rss_kb :: "proc_entry list \<Rightarrow> nat \<Rightarrow> nat" where
  "rss_kb table p = (case rss_of table p of Some n \<Rightarrow> n | None \<Rightarrow> 0)"

lemma enqueue_distinct:
  "enqueue ks seen q = (seen', q') \<Longrightarrow> distinct q \<Longrightarrow> set q \<subseteq> set seen \<Longrightarrow> distinct q'"
proof (induction ks arbitrary: seen q)
  case (Cons k ks)
  show ?case
  proof (cases "k \<in> set seen")
    case True
    with Cons show ?thesis by simp
  next
    case False
    with Cons.prems Cons.IH [of "k # seen" "q @ [k]"] show ?thesis by auto
  qed
qed simp

lemma reach_closed: "(\<And>p k. p \<in> A \<Longrightarrow> (p, k) \<in> r \<Longrightarrow> k \<in> A) \<Longrightarrow> r\<^sup>* `` A = A"
  by (auto elim: rtrancl_induct)

lemma reach_child:
  assumes "p \<in> A" and "B \<subseteq> r `` {p}"
  shows "r\<^sup>* `` (A \<union> B) = r\<^sup>* `` A"
proof
  show "r\<^sup>* `` (A \<union> B) \<subseteq> r\<^sup>* `` A"
    using assms by (auto simp: Image_def intro: converse_rtrancl_into_rtrancl)
qed auto

lemma reach_finite: "finite A \<Longrightarrow> finite ((child_rel table)\<^sup>* `` A)"
proof -
  assume "finite A"
  have "(child_rel table)\<^sup>* `` A \<subseteq> A \<union> pe_pid ` set table"
    by (auto simp: child_rel_def elim!: rtranclE dest!: subsetD [OF children_subset])
  then show ?thesis by (rule finite_subset) (use \<open>finite A\<close> in simp)
qed

lemma bfs_sum:
  "set q \<subseteq> set seen \<Longrightarrow> distinct q \<Longrightarrow> (\<And>p k. p \<in> set seen - set q \<Longrightarrow> (p, k) \<in> child_rel table \<Longrightarrow> k \<in> set seen) \<Longrightarrow>
   acc \<le> u64_max \<Longrightarrow>
   bfs table seen q acc = sat64 (acc + (\<Sum>p\<in>(child_rel table)\<^sup>* `` set seen - (set seen - set q). rss_kb table p))"
proof (induction table seen q acc rule: bfs.induct)
  case (1 table seen acc)
  then have "(child_rel table)\<^sup>* `` set seen = set seen" by (intro reach_closed) auto
  with 1 show ?case by simp
next
  case (2 table seen p q acc)
  obtain seen' q' where e: "enqueue (children_of table p) seen q = (seen', q')"
    by (cases "enqueue (children_of table p) seen q")
  let ?X = "(child_rel table)\<^sup>* `` set seen" and ?D = "set seen - set (p # q)"
  from enqueue_set [OF e] have s': "set seen' = set seen \<union> set (children_of table p)"
    and q': "set q' = set q \<union> (set (children_of table p) - set seen)" by auto
  have X: "(child_rel table)\<^sup>* `` set seen' = ?X"
    unfolding s' by (rule reach_child [of p]) (use "2.prems"(1) in \<open>auto simp: child_rel_def\<close>)
  have D: "set seen' - set q' = insert p ?D" using "2.prems"(1,2) s' q' by auto
  have "distinct q'" by (rule enqueue_distinct [OF e]) (use "2.prems"(1,2) in auto)
  have closed: "k \<in> set seen'" if "x \<in> set seen' - set q'" "(x, k) \<in> child_rel table" for x k
  proof -
    from that(1) have "x = p \<or> x \<in> ?D" unfolding D by blast
    with that(2) "2.prems"(3) [of x k] show ?thesis unfolding s' by (auto simp: child_rel_def)
  qed
  let ?acc = "sat64 (acc + (case rss_of table p of None \<Rightarrow> 0 | Some n \<Rightarrow> n))"
  have "bfs table seen' q' ?acc = sat64 (?acc + (\<Sum>x\<in>(child_rel table)\<^sup>* `` set seen' - (set seen' - set q'). rss_kb table x))"
  proof (rule "2.IH" [OF e [symmetric] refl])
    show "set q' \<subseteq> set seen'" using q' s' "2.prems"(1) by auto
  qed (use closed \<open>distinct q'\<close> in auto)
  then have IH: "bfs table seen' q' ?acc = sat64 (?acc + (\<Sum>x\<in>?X - insert p ?D. rss_kb table x))"
    unfolding X D .
  have "p \<in> ?X - ?D" using "2.prems"(1) by auto
  moreover have "finite (?X - ?D)" using reach_finite [of "set seen" table] by simp
  ultimately have "(\<Sum>x\<in>?X - ?D. rss_kb table x) = rss_kb table p + (\<Sum>x\<in>?X - ?D - {p}. rss_kb table x)"
    by (intro sum.remove)
  moreover have "?X - ?D - {p} = ?X - insert p ?D" by auto
  ultimately show ?case
    using IH by (simp add: e sat64_add rss_kb_def [of table p] add.assoc)
qed

text \<open>C36: the memory attributed to a session is the memory of its process and of all its descendants,
  each counted once, saturating at the width of a \<^verbatim>\<open>u64\<close>; a table with cycles or repeated entries does
  not make the walk diverge or count twice.\<close>

theorem subtree_rss_exact:
  "subtree_rss_kb table pid = (if rss_of table pid = None then 0
     else sat64 (\<Sum>p\<in>(child_rel table)\<^sup>* `` {pid}. rss_kb table p))"
  using bfs_sum [of "[pid]" "[pid]" table 0] by (simp add: subtree_rss_kb_def u64_max_def)

section \<open>Levels\<close>

definition percent :: "nat \<times> nat \<Rightarrow> nat" where
  "percent s = (if snd s = 0 then 0 else percent_of (fst s) (snd s))"

definition run_levels :: "(nat \<times> nat) list \<Rightarrow> pressure_level" where
  "run_levels samples = fold (\<lambda>s l. next_level l (fst s) (snd s)) samples PNormal"

text \<open>The level that a history of percentages, newest first, stands for.\<close>

definition in_band :: "nat \<Rightarrow> bool" where
  "in_band p \<longleftrightarrow> 65 \<le> p \<and> p < 70"

definition settled :: "nat list \<Rightarrow> pressure_level" where
  "settled ps = (case ps of
      [] \<Rightarrow> PNormal
    | p # _ \<Rightarrow> if p \<ge> 80 then PCritical
               else case dropWhile in_band ps of [] \<Rightarrow> PNormal | q # _ \<Rightarrow> if q < 65 then PNormal else PWarning)"

lemma next_level_percent:
  "next_level l (fst s) (snd s) =
     (let p = percent s
      in if p \<ge> 80 then PCritical else if p \<ge> 70 then PWarning else if p < 65 then PNormal
         else if l = PNormal then PNormal else PWarning)"
  by (cases l) (auto simp: next_level_def percent_def Let_def)

lemma settled_normal:
  "settled ps = PNormal \<longleftrightarrow> (case dropWhile in_band ps of [] \<Rightarrow> True | q # _ \<Rightarrow> q < 65)"
proof (cases "dropWhile in_band ps")
  case Nil
  then show ?thesis by (cases ps) (auto simp: settled_def in_band_def)
next
  case (Cons q qs)
  then have "\<not> in_band q" by (metis hd_dropWhile list.sel(1) list.distinct(1))
  with Cons show ?thesis by (cases ps) (auto simp: settled_def in_band_def simp del: dropWhile_eq_Nil_conv)
qed

lemma settled_Cons:
  "settled (p # ps) = (if p \<ge> 80 then PCritical else if p \<ge> 70 then PWarning else if p < 65 then PNormal
     else if settled ps = PNormal then PNormal else PWarning)"
proof (cases "in_band p")
  case True
  then have "settled (p # ps) = (case dropWhile in_band ps of [] \<Rightarrow> PNormal | q # _ \<Rightarrow> if q < 65 then PNormal else PWarning)"
    by (simp add: settled_def in_band_def)
  with True show ?thesis unfolding settled_normal by (cases "dropWhile in_band ps") (auto simp: in_band_def simp del: dropWhile_eq_Nil_conv)
next
  case False
  then show ?thesis by (auto simp: settled_def in_band_def)
qed

text \<open>The memory level is a function of the recent percentages with hysteresis: critical exactly while the
  latest sample is at 80\% of the budget or above, normal below 65\%, and between 65\% and 70\%, where
  it does not change on its own, whatever the last sample outside that band left: a level that has
  returned to normal there rises again only at 70\%.\<close>

theorem levels_settle:
  "run_levels samples = settled (rev (map percent samples))"
proof (induction samples rule: rev_induct)
  case Nil
  then show ?case by (simp add: run_levels_def settled_def)
next
  case (snoc s samples)
  then show ?case
    by (simp add: run_levels_def settled_Cons next_level_percent Let_def)
qed

section \<open>Sustained host pressure\<close>

datatype host_event = Sampled nat "host_sample option" | Parked nat

inductive host_reach :: "pressure_config \<Rightarrow> host_event list \<Rightarrow> host_state \<Rightarrow> bool" for c where
  start: "host_reach c [] (host_new c)"
| sampled: "host_reach c tr h \<Longrightarrow> host_reach c (tr @ [Sampled now s]) (snd (host_step_state now s h))"
| parked: "host_reach c tr h \<Longrightarrow> host_reach c (tr @ [Parked now]) (record_parked now h)"

inductive_cases host_reach_sampledE: "host_reach c (tr @ [Sampled now s]) h"

definition pressured :: "pressure_config \<Rightarrow> host_event \<Rightarrow> bool" where
  "pressured c ev = (case ev of Sampled _ (Some s) \<Rightarrow> causes c s \<noteq> [] | _ \<Rightarrow> True)"

text \<open>An unbroken episode of pressure that began at \<open>t\<close>.\<close>

definition episode :: "pressure_config \<Rightarrow> nat \<Rightarrow> host_event list \<Rightarrow> bool" where
  "episode c t tr \<longleftrightarrow> (\<exists>pre s post. tr = pre @ Sampled t (Some s) # post \<and> list_all (pressured c) (Sampled t (Some s) # post))"

fun last_parked :: "host_event list \<Rightarrow> nat option" where
  "last_parked [] = None"
| "last_parked (Parked t # tr) = (case last_parked tr of None \<Rightarrow> Some t | r \<Rightarrow> r)"
| "last_parked (_ # tr) = last_parked tr"

lemma last_parked_snoc: "last_parked (tr @ [ev]) = (case ev of Parked t \<Rightarrow> Some t | _ \<Rightarrow> last_parked tr)"
  by (induction tr rule: last_parked.induct) (auto split: host_event.splits option.splits)

definition cooldown_end :: "pressure_config \<Rightarrow> nat \<Rightarrow> nat" where
  "cooldown_end c t = sat64 (t + sat64 (pr_cooldown_seconds c * 1000))"

lemma episode_snoc: "episode c t tr \<Longrightarrow> pressured c ev \<Longrightarrow> episode c t (tr @ [ev])"
proof -
  assume "episode c t tr" and ev: "pressured c ev"
  then obtain pre s post where "tr = pre @ Sampled t (Some s) # post" "list_all (pressured c) (Sampled t (Some s) # post)"
    by (auto simp: episode_def)
  with ev show "episode c t (tr @ [ev])"
    unfolding episode_def by (intro exI [of _ pre] exI [of _ s] exI [of _ "post @ [ev]"]) simp
qed

lemma episode_new: "causes c s \<noteq> [] \<Longrightarrow> episode c t (tr @ [Sampled t (Some s)])"
  by (auto simp: episode_def pressured_def intro!: exI [of _ tr])

lemma host_reach_inv:
  "host_reach c tr h \<Longrightarrow> ho_config h = c \<and> (\<forall>t. ho_episode_started h = Some t \<longrightarrow> episode c t tr)
     \<and> ho_cooldown_until h = map_option (cooldown_end c) (last_parked tr)"
proof (induction rule: host_reach.induct)
  case start
  then show ?case by (simp add: host_new_def)
next
  case (sampled tr h now s)
  show ?case
  proof (cases s)
    case None
    with sampled show ?thesis
      by (auto simp: host_step_state_def last_parked_snoc pressured_def intro: episode_snoc)
  next
    case (Some x)
    show ?thesis
    proof (cases "causes c x = []")
      case True
      with Some sampled show ?thesis by (simp add: host_step_state_def last_parked_snoc)
    next
      case False
      then have "pressured c (Sampled now (Some x))" by (simp add: pressured_def)
      with Some False sampled show ?thesis
        by (auto simp: host_step_state_def last_parked_snoc Let_def split: option.splits
            intro: episode_snoc episode_new)
    qed
  qed
next
  case (parked tr h now)
  then show ?case
    by (auto simp: record_parked_def last_parked_snoc cooldown_end_def pressured_def intro: episode_snoc)
qed

text \<open>C19: host pressure authorizes parking a session only at the end of an unbroken episode: for every
  configuration that can be loaded, every sample that was read since some moment at least the
  configured time ago shows pressure, and the cool-down after the last parked session is over.\<close>

theorem host_parks_sustained:
  assumes "c = normalize_pressure raw" and "host_reach c tr h" and "fst (host_step_state now (Some s) h) = HostCritical why True"
  shows "(\<exists>t. episode c t (tr @ [Sampled now (Some s)]) \<and> t + sat64 (pr_sustain_seconds c * 1000) \<le> now)
     \<and> (\<forall>p. last_parked tr = Some p \<longrightarrow> cooldown_end c p \<le> now)"
proof -
  note inv = host_reach_inv [OF assms(2)]
  have "pr_sustain_seconds c \<noteq> 0"
    by (auto simp: assms(1) normalize_pressure_def normalized_interval_def pressure_default_def split: option.splits)
  then have pos: "0 < sat64 (pr_sustain_seconds c * 1000)" by (simp add: sat64_def u64_max_def)
  let ?t = "case ho_episode_started h of Some t \<Rightarrow> t | None \<Rightarrow> now"
  from assms(3) inv have c: "causes c s \<noteq> []" and sus: "sat64 (pr_sustain_seconds c * 1000) \<le> now - ?t"
    and cool: "case ho_cooldown_until h of None \<Rightarrow> True | Some u \<Rightarrow> now \<ge> u"
    by (auto simp: host_step_state_def Let_def split: if_splits)
  from c inv have "episode c ?t (tr @ [Sampled now (Some s)])"
    by (auto split: option.splits simp: pressured_def intro: episode_snoc episode_new)
  moreover from sus pos have "?t + sat64 (pr_sustain_seconds c * 1000) \<le> now" by linarith
  ultimately show ?thesis using cool inv by auto
qed

definition quick_raw :: raw_pressure where
  "quick_raw = \<lparr>rp_cpu_some = None, rp_io_full = None, rp_memory_full = None, rp_sustain_seconds = Some 1, rp_cooldown_seconds = None\<rparr>"

definition busy_sample :: host_sample where
  "busy_sample = \<lparr>hs_cpu_some = Finite 90, hs_io_full = Finite 0, hs_memory_full = Finite 0\<rparr>"

theorem host_parks_sustained_witness:
  "\<exists>t. episode (normalize_pressure quick_raw) t [Sampled 100 (Some busy_sample), Sampled 2000 (Some busy_sample)] \<and> t + 1000 \<le> 2000"
proof -
  let ?c = "normalize_pressure quick_raw"
  let ?h = "snd (host_step_state 100 (Some busy_sample) (host_new ?c))"
  have r: "host_reach ?c ([] @ [Sampled 100 (Some busy_sample)]) ?h" by (intro host_reach.intros)
  have c: "?c = \<lparr>pr_cpu_some = Finite 25, pr_io_full = Finite 20, pr_memory_full = Finite 2,
     pr_sustain_seconds = 1, pr_cooldown_seconds = 10\<rparr>"
    by (simp add: normalize_pressure_def quick_raw_def normalized_percent_def normalized_interval_def pressure_default_def)
  have s: "causes ?c busy_sample = [HostCpu]" by (simp add: c causes_def busy_sample_def)
  have k: "sat64 1000 = 1000" by (simp add: sat64_def u64_max_def)
  have "fst (host_step_state 2000 (Some busy_sample) ?h) = HostCritical [HostCpu] True"
    using s by (simp add: host_step_state_def host_new_def Let_def c k)
  from host_parks_sustained [OF refl r this] show ?thesis by (simp add: c k)
qed

section \<open>Parking for memory\<close>

lemma min_candidate_in: "min_candidate cs = Some c \<Longrightarrow> c \<in> set cs"
  by (induction cs arbitrary: c) (auto split: option.splits if_splits)

lemma name_less_trans: "name_less a b \<Longrightarrow> name_less b z \<Longrightarrow> name_less a z"
proof (induction a b arbitrary: z rule: name_less.induct)
  case (2 d ds)
  then show ?case by (cases z) auto
next
  case (3 c cs d ds)
  then show ?case by (cases z) auto
qed simp

lemma name_less_asym: "name_less a b \<Longrightarrow> \<not> name_less b a"
  by (induction a b rule: name_less.induct) auto

lemma name_less_total: "\<not> name_less a b \<Longrightarrow> \<not> name_less b a \<Longrightarrow> a = b"
proof (induction a b rule: name_less.induct)
  case (1 a)
  then show ?case by (cases a) auto
next
  case (3 c cs d ds)
  then have "(of_char c :: nat) = of_char d" by auto
  with 3 show ?case by simp
qed simp

lemma before_trans: "before a b \<Longrightarrow> before b c \<Longrightarrow> before a c"
  by (auto simp: before_def dest: name_less_trans)

lemma before_asym: "before a b \<Longrightarrow> \<not> before b a"
  by (auto simp: before_def dest: name_less_asym)

lemma before_tie:
  "\<not> before a b \<Longrightarrow> \<not> before b a \<Longrightarrow>
     ca_last_used_ms a = ca_last_used_ms b \<and> ca_memory_kb a = ca_memory_kb b \<and> ca_name a = ca_name b"
  using name_less_total [of "ca_name a" "ca_name b"] by (auto simp: before_def)

lemma before_weak_trans: "before x c \<Longrightarrow> \<not> before d c \<Longrightarrow> before x d"
proof (cases "before c d")
  case True
  then show "before x c \<Longrightarrow> before x d" by (blast intro: before_trans)
next
  case False
  assume "before x c" and "\<not> before d c"
  with before_tie [OF False] show "before x d" by (simp add: before_def)
qed

lemma min_candidate_least: "min_candidate cs = Some c \<Longrightarrow> d \<in> set cs \<Longrightarrow> \<not> before d c"
proof (induction cs arbitrary: c d)
  case (Cons x cs)
  show ?case
  proof (cases "min_candidate cs")
    case None
    then have "cs = []" by (cases cs) (auto split: option.splits)
    with Cons.prems show ?thesis by (auto dest: before_asym)
  next
    case (Some m)
    with Cons.IH have least: "\<not> before y m" if "y \<in> set cs" for y using that by blast
    from Some Cons.prems(1) have c: "c = (if before m x then m else x)" by simp
    show ?thesis
    proof (cases "before m x")
      case True
      with c Cons.prems(2) least show ?thesis by (auto dest: before_asym)
    next
      case False
      with c Cons.prems(2) least show ?thesis by (auto dest: before_asym before_weak_trans)
    qed
  qed
qed simp

text \<open>C9: for memory the guardian asks for at most one session per tick, only while the level is critical, no
  earlier suspension is pending and the policy is enabled; and that session is an agent that runs, can be
  resumed, is not suspended and was not used for two minutes, the least recently used of all such
  sessions (the largest among equals).\<close>

theorem memory_parks_idle_agent:
  assumes "memory_part cfg ob (Some (current, per_session)) g = (g', ms, parked)" and "name \<in> set parked"
  shows "parked = [name] \<and> mc_enabled cfg \<and> gu_level g' = PCritical \<and> ob_pending ob = None
     \<and> (\<exists>c\<in>set (ob_candidates ob per_session). ca_name c = name \<and> eligible (ob_now ob) c
          \<and> (\<forall>d\<in>set (ob_candidates ob per_session). eligible (ob_now ob) d \<longrightarrow> \<not> before d c))"
proof -
  obtain budget where b: "ob_budget_kb ob = Some budget"
    using assms by (cases "ob_budget_kb ob") (auto simp: memory_part_def)
  let ?pending = "if mc_enabled cfg then ob_pending ob else None"
  let ?cs = "if mc_enabled cfg \<and> next_level (gu_level g) current budget = PCritical \<and> ?pending = None
             then ob_candidates ob per_session else []"
  let ?d = "guardian_step (gu_level g) (ob_now ob) current budget ?pending ?cs"
  have en: "mc_enabled cfg" using assms b by (auto simp: memory_part_def Let_def split: if_splits)
  obtain d' where act: "apply_action (ob_snapshot_ok ob) (ob_suspend_ok ob) ?d = (d', parked)" and g': "gu_level g' = sd_level d'"
    using assms(1) b en by (auto simp: memory_part_def Let_def split: prod.splits)
  from act assms(2) have cand: "sd_candidate ?d = Some name" "parked = [name]" "sd_level d' = sd_level ?d"
    by (auto simp: apply_action_def split: option.splits if_splits)
  then have "next_level (gu_level g) current budget = PCritical" "ob_pending ob = None" "sd_level ?d = PCritical"
    using en by (auto simp: guardian_step_def Let_def split: if_splits option.splits)
  moreover from this cand(1) en obtain c where "select_candidate (ob_now ob) (ob_candidates ob per_session) = Some c" "ca_name c = name"
    by (auto simp: guardian_step_def Let_def)
  then have "c \<in> set (ob_candidates ob per_session)" "eligible (ob_now ob) c" "ca_name c = name"
    "\<forall>d\<in>set (ob_candidates ob per_session). eligible (ob_now ob) d \<longrightarrow> \<not> before d c"
    using min_candidate_in min_candidate_least by (fastforce simp: select_candidate_def)+
  ultimately show ?thesis using cand en g' by auto
qed

definition idle_agent :: "string \<Rightarrow> nat \<Rightarrow> candidate" where
  "idle_agent n t = \<lparr>ca_name = n, ca_memory_kb = 5, ca_last_used_ms = t, ca_is_agent = True, ca_running = True,
     ca_has_resume_id = True, ca_suspended = False\<rparr>"

definition full_observed :: observed where
  "full_observed = \<lparr>ob_budget_kb = Some 100, ob_cgroup = Some (90, [(''a'', 90)]), ob_table = [], ob_pids = [], ob_now = 500000,
     ob_pending = None, ob_candidates = (\<lambda>_. [idle_agent ''a'' 200, idle_agent ''b'' 100]), ob_snapshot_ok = True,
     ob_suspend_ok = (\<lambda>_. True), ob_host_sample = None, ob_host_now = 500000, ob_host_pending = None,
     ob_host_candidates = (\<lambda>_. []), ob_host_snapshot_ok = True, ob_host_suspend = (\<lambda>_. None)\<rparr>"

lemma full_memory_part:
  "snd (snd (memory_part memory_default full_observed (Some (90, [])) (guardian_new pressure_default))) = [''b'']"
  by (simp add: memory_part_def full_observed_def memory_default_def guardian_new_def Let_def next_level_def percent_of_def
      sat64_def u64_max_def guardian_step_def select_candidate_def eligible_def idle_agent_def RECENT_USE_MS_def before_def
      apply_action_def)

theorem memory_parks_idle_agent_witness:
  "\<exists>c\<in>set (ob_candidates full_observed []). ca_name c = ''b'' \<and> eligible 500000 c"
proof -
  obtain g' ms parked where m: "memory_part memory_default full_observed (Some (90, [])) (guardian_new pressure_default) = (g', ms, parked)"
    by (cases "memory_part memory_default full_observed (Some (90, [])) (guardian_new pressure_default)")
  with full_memory_part have "''b'' \<in> set parked" by simp
  from memory_parks_idle_agent [OF m this] show ?thesis by (auto simp: full_observed_def)
qed

section \<open>The third tick\<close>

text \<open>With control groups enabled, every third tick moves the sample into the telemetry and evaluates no
  memory pressure: the level keeps its value and nothing is parked, however far over budget the sample is.\<close>

theorem third_tick_skips_pressure:
  assumes "3 dvd (gu_tick g + 1) mod 2 ^ 64"
  shows "gu_level (fst (guardian_tick True False cfg ob g)) = gu_level g
     \<and> snd (snd (guardian_tick True False cfg ob g)) = []"
  using assms
  by (simp add: guardian_tick_def telemetry_def select_pressure_sample_def memory_part_def Let_def split: option.splits prod.splits)

theorem third_tick_skips_pressure_witness:
  "gu_level (fst (guardian_tick True False memory_default full_observed ((guardian_new pressure_default)\<lparr>gu_tick := 2\<rparr>))) = PNormal
   \<and> gu_level (fst (guardian_tick True False memory_default full_observed (guardian_new pressure_default))) = PCritical"
proof -
  have "gu_level (fst (guardian_tick True False memory_default full_observed ((guardian_new pressure_default)\<lparr>gu_tick := 2\<rparr>))) = PNormal"
    using third_tick_skips_pressure [of "(guardian_new pressure_default)\<lparr>gu_tick := 2\<rparr>" memory_default full_observed]
    by (simp add: guardian_new_def)
  moreover have "gu_level (fst (guardian_tick True False memory_default full_observed (guardian_new pressure_default))) = PCritical"
    by (simp add: guardian_tick_def telemetry_def select_pressure_sample_def memory_part_def Let_def full_observed_def guardian_new_def
        memory_default_def next_level_def percent_of_def sat64_def u64_max_def guardian_step_def select_candidate_def
        eligible_def idle_agent_def RECENT_USE_MS_def before_def apply_action_def)
  ultimately show ?thesis by blast
qed

end
