(* ===== verification/Supervisor.thy ===== *)
theory Supervisor
  imports Fs
begin

text \<open>
  The per-pane agent supervisor of \<^verbatim>\<open>crates/amber/src/supervisor.rs\<close>, with the command
  lines of the seven agents (\<^verbatim>\<open>claude.rs\<close>, \<^verbatim>\<open>grok.rs\<close>, \<^verbatim>\<open>codex.rs\<close>, \<^verbatim>\<open>opencode.rs\<close>, \<^verbatim>\<open>hermes.rs\<close>,
  \<^verbatim>\<open>pi.rs\<close>, \<^verbatim>\<open>muse.rs\<close>). \<^verbatim>\<open>supervise_agent\<close> is a step function over a phase: each poll of its
  nested loops is one step, so that signals may arrive between any two of them. What a
  step observes of the store, the child and the control group is its input.
\<close>

section \<open>Session identifiers\<close>

definition ascii_digit :: "char \<Rightarrow> bool" where
  "ascii_digit c \<longleftrightarrow> in_rng 48 57 (of_char c)"

definition ascii_hexdigit :: "char \<Rightarrow> bool" where
  "ascii_hexdigit c \<longleftrightarrow> (let n = of_char c in in_rng 48 57 n \<or> in_rng 65 70 n \<or> in_rng 97 102 n)"

definition starts_with :: "string \<Rightarrow> string \<Rightarrow> bool" where
  "starts_with p s \<longleftrightarrow> take (length p) s = p"

definition ends_with :: "string \<Rightarrow> string \<Rightarrow> bool" where
  "ends_with p s \<longleftrightarrow> length p \<le> length s \<and> drop (length s - length p) s = p"

fun uuid_groups :: "nat list \<Rightarrow> string list \<Rightarrow> bool" where
  "uuid_groups [] parts \<longleftrightarrow> parts = []"
| "uuid_groups (w # ws) [] \<longleftrightarrow> False"
| "uuid_groups (w # ws) (p # ps) \<longleftrightarrow> length p = w \<and> list_all ascii_hexdigit p \<and> uuid_groups ws ps"

definition grok_session_id :: "string \<Rightarrow> bool" where
  "grok_session_id i \<longleftrightarrow> uuid_groups [8, 4, 4, 4, 12] (split_on CHR ''-'' i)"

definition codex_session_id :: "string \<Rightarrow> bool" where
  "codex_session_id i \<longleftrightarrow> str_trim i \<noteq> []"

definition opencode_session_id :: "string \<Rightarrow> bool" where
  "opencode_session_id i \<longleftrightarrow>
     starts_with ''ses_'' i \<and> drop 4 i \<noteq> [] \<and> list_all is_ascii_alphanumeric (drop 4 i)"

definition hermes_session_id :: "string \<Rightarrow> bool" where
  "hermes_session_id i \<longleftrightarrow>
     (length i = 22 \<or> length i = 24)
     \<and> list_all ascii_digit (take 8 i) \<and> i ! 8 = CHR ''_''
     \<and> list_all ascii_digit (take 6 (drop 9 i)) \<and> i ! 15 = CHR ''_''
     \<and> list_all ascii_hexdigit (take (if length i = 22 then 6 else 8) (drop 16 i))"

definition muse_session_id :: "string \<Rightarrow> bool" where
  "muse_session_id i \<longleftrightarrow>
     length i = 36 \<and> list_all (\<lambda>(k, c). if k \<in> {8, 13, 18, 23} then c = CHR ''-'' else ascii_hexdigit c)
                              (List.enumerate 0 i)"

text \<open>
  \<^verbatim>\<open>Path::components\<close> of an absolute Unix path drops empty and \<^verbatim>\<open>.\<close> components; the file name
  is the last component unless that is \<^verbatim>\<open>..\<close>, and its extension follows its last dot,
  which must not be its first character.
\<close>

definition path_components :: "string \<Rightarrow> string list" where
  "path_components p = filter (\<lambda>c. c \<noteq> [] \<and> c \<noteq> ''.'') (split_on CHR ''/'' p)"

definition is_absolute :: "string \<Rightarrow> bool" where
  "is_absolute p \<longleftrightarrow> starts_with ''/'' p"

definition pi_session_file :: "string \<Rightarrow> bool" where
  "pi_session_file p \<longleftrightarrow>
     is_absolute p \<and> path_components p \<noteq> []
     \<and> (let name = last (path_components p) in ends_with ''.jsonl'' name \<and> length name > 6)
     \<and> CHR 0x00 \<notin> set p \<and> ''..'' \<notin> set (path_components p)"

text \<open>\<^verbatim>\<open>grok::new_session_id\<close> from the sixteen bytes of the random source.\<close>

definition hex_digit :: "nat \<Rightarrow> char" where
  "hex_digit n = (if n < 10 then char_of (48 + n) else char_of (87 + n))"

definition hex_byte :: "byte \<Rightarrow> string" where
  "hex_byte b = [hex_digit (unat b div 16), hex_digit (unat b mod 16)]"

definition new_session_id :: "byte list \<Rightarrow> string" where
  "new_session_id bs =
     (let b1 = bs[6 := (bs ! 6 AND 0x0f) OR 0x40];
          b2 = b1[8 := (b1 ! 8 AND 0x3f) OR 0x80];
          h = concat (map hex_byte b2)
      in take 8 h @ ''-'' @ take 4 (drop 8 h) @ ''-'' @ take 4 (drop 12 h) @ ''-''
         @ take 4 (drop 16 h) @ ''-'' @ take 12 (drop 20 h))"

section \<open>Command lines\<close>

datatype claude_start = ClaudeResume string | ClaudeContinue | ClaudeFresh
datatype grok_start = GrokResume string | GrokFresh string
datatype codex_start = CodexResume string | CodexFresh
datatype opencode_start = OpenCodeResume string | OpenCodeFresh
datatype hermes_start = HermesResume string | HermesFresh
datatype muse_start = MuseResume string | MuseFresh
datatype pi_start = PiResume string | PiFresh

definition claude_argv :: "claude_start \<Rightarrow> string \<Rightarrow> string list" where
  "claude_argv st settings =
     [''--dangerously-skip-permissions'']
     @ (case st of ClaudeResume i \<Rightarrow> [''--resume'', i] | ClaudeContinue \<Rightarrow> [''--continue''] | ClaudeFresh \<Rightarrow> [])
     @ [''--settings'', settings]"

definition grok_argv :: "grok_start \<Rightarrow> string list" where
  "grok_argv st = [''--permission-mode'', ''bypassPermissions'']
     @ (case st of GrokResume i \<Rightarrow> [''--resume'', i] | GrokFresh i \<Rightarrow> [''--session-id'', i])"

definition codex_argv :: "codex_start \<Rightarrow> string list" where
  "codex_argv st =
     (case st of CodexResume _ \<Rightarrow> [''resume''] | CodexFresh \<Rightarrow> [])
     @ [''--dangerously-bypass-approvals-and-sandbox'', ''--dangerously-bypass-hook-trust'']
     @ (case st of CodexResume i \<Rightarrow> [''--'', i] | CodexFresh \<Rightarrow> [])"

definition opencode_argv :: "opencode_start \<Rightarrow> string list" where
  "opencode_argv st = [''--auto''] @ (case st of OpenCodeResume i \<Rightarrow> [''-s'', i] | OpenCodeFresh \<Rightarrow> [])"

definition hermes_argv :: "hermes_start \<Rightarrow> string list" where
  "hermes_argv st = [''--yolo''] @ (case st of HermesResume i \<Rightarrow> [''--resume'', i] | HermesFresh \<Rightarrow> [])"

definition muse_argv :: "muse_start \<Rightarrow> string list" where
  "muse_argv st = (case st of MuseResume i \<Rightarrow> [''resume'', i, ''--yolo''] | MuseFresh \<Rightarrow> [''--yolo''])"

definition pi_argv :: "pi_start \<Rightarrow> string list" where
  "pi_argv st = (case st of PiFresh \<Rightarrow> [] | PiResume i \<Rightarrow> [''--session'', i])"

section \<open>The resume ladder\<close>

definition GROK_RESUME_ATTEMPTS :: nat where
  "GROK_RESUME_ATTEMPTS = 2"

definition select_start :: "string option \<Rightarrow> nat \<Rightarrow> claude_start" where
  "select_start i esc = (case i of Some j \<Rightarrow> if esc = 0 then ClaudeResume j else ClaudeFresh | None \<Rightarrow> ClaudeFresh)"

definition select_codex_start :: "string option \<Rightarrow> nat \<Rightarrow> codex_start" where
  "select_codex_start i esc =
     (case i of Some j \<Rightarrow> if esc = 0 \<and> codex_session_id j then CodexResume j else CodexFresh | None \<Rightarrow> CodexFresh)"

definition select_opencode_start :: "string option \<Rightarrow> nat \<Rightarrow> opencode_start" where
  "select_opencode_start i esc =
     (case i of Some j \<Rightarrow> if esc = 0 \<and> opencode_session_id j then OpenCodeResume j else OpenCodeFresh
      | None \<Rightarrow> OpenCodeFresh)"

definition select_hermes_start :: "string option \<Rightarrow> nat \<Rightarrow> hermes_start" where
  "select_hermes_start i esc =
     (case i of Some j \<Rightarrow> if esc = 0 \<and> hermes_session_id j then HermesResume j else HermesFresh
      | None \<Rightarrow> HermesFresh)"

definition select_muse_start :: "string option \<Rightarrow> nat \<Rightarrow> muse_start" where
  "select_muse_start i esc =
     (case i of Some j \<Rightarrow> if esc = 0 \<and> muse_session_id j then MuseResume j else MuseFresh | None \<Rightarrow> MuseFresh)"

definition select_pi_start :: "string option \<Rightarrow> nat \<Rightarrow> pi_start" where
  "select_pi_start f esc =
     (case f of Some p \<Rightarrow> if pi_session_file p then PiResume p else PiFresh | None \<Rightarrow> PiFresh)"

text \<open>Grok's ladder mints an id for a new conversation and records it before the launch.\<close>

definition select_grok_start :: "string \<Rightarrow> nat \<Rightarrow> string \<Rightarrow> string option \<Rightarrow> nat
    \<Rightarrow> grok_start \<times> claude_meta option" where
  "select_grok_start cwd now minted i esc =
     (let fresh = (GrokFresh minted,
                   Some \<lparr>cm_session_id = minted, cm_cwd = cwd, cm_updated = now,
                         cm_session_file = None, cm_agent_kind = None\<rparr>)
      in case i of
           Some j \<Rightarrow> if esc < GROK_RESUME_ATTEMPTS \<and> grok_session_id j then (GrokResume j, None) else fresh
         | None \<Rightarrow> fresh)"

section \<open>Pi recordings\<close>

text \<open>
  \<^verbatim>\<open>pi::recording_defect\<close>. What the operating system says about the recorded directory and
  file is a record; the header is the first line, as text, or a read error, and its
  JSON parser a parameter.
\<close>

record file_probe =
  fp_cwd_is_dir :: bool
  fp_opens :: bool
  fp_is_file :: bool
  fp_header :: "string option"

definition json_member :: "json \<Rightarrow> string \<Rightarrow> json" where
  "json_member v k = (case v of JObject ms \<Rightarrow> (case map_of ms k of Some x \<Rightarrow> x | None \<Rightarrow> JNull) | _ \<Rightarrow> JNull)"

definition recording_defect :: "(string \<Rightarrow> json option) \<Rightarrow> file_probe \<Rightarrow> claude_meta \<Rightarrow> string option" where
  "recording_defect parse fp m =
     (if cm_agent_kind m \<noteq> Some Pi then Some ''recording is not source-tagged for Pi''
      else case cm_session_file m of
        None \<Rightarrow> Some ''recording has no session file''
      | Some p \<Rightarrow>
          if \<not> pi_session_file p then Some ''session file is not a Pi session path''
          else if \<not> is_absolute (cm_cwd m) then Some ''recorded cwd is not absolute''
          else if \<not> fp_cwd_is_dir fp then Some ''recorded cwd no longer exists''
          else if \<not> fp_opens fp then Some ''session file could not be opened''
          else if \<not> fp_is_file fp then Some ''session file is not a regular file''
          else case fp_header fp of
            None \<Rightarrow> Some ''session file header could not be read''
          | Some h \<Rightarrow>
              (case parse h of
                 None \<Rightarrow> Some ''session file header is not JSON''
               | Some v \<Rightarrow>
                   if json_member v ''type'' \<noteq> JString ''session''
                   then Some ''session file header is not a session record''
                   else if json_member v ''id'' \<noteq> JString (cm_session_id m)
                   then Some ''session file header does not match the recorded id''
                   else None))"

text \<open>
  \<^verbatim>\<open>pi_recording_defect\<close>: a recording that looks unusable is read again up to five times.
  Each re-read comes with the probe of the files at that moment.
\<close>

definition PI_RECORDING_RETRIES :: nat where
  "PI_RECORDING_RETRIES = 5"

type_synonym probed_read = "(string + claude_meta option) \<times> file_probe"

fun reread_defect :: "(string \<Rightarrow> json option) \<Rightarrow> probed_read list \<Rightarrow> string \<Rightarrow> string option" where
  "reread_defect parse [] d = Some d"
| "reread_defect parse ((r, fp) # rs) d =
     (case r of
        Inr (Some m) \<Rightarrow> (case recording_defect parse fp m of None \<Rightarrow> None | Some d' \<Rightarrow> reread_defect parse rs d')
      | Inr None \<Rightarrow> None
      | Inl _ \<Rightarrow> reread_defect parse rs d)"

definition pi_recording_defect :: "(string \<Rightarrow> json option) \<Rightarrow> file_probe \<Rightarrow> probed_read list
    \<Rightarrow> claude_meta option \<Rightarrow> string option" where
  "pi_recording_defect parse fp rereads first =
     (case first of
        None \<Rightarrow> None
      | Some m \<Rightarrow> (case recording_defect parse fp m of
                     None \<Rightarrow> None
                   | Some d \<Rightarrow> reread_defect parse (take PI_RECORDING_RETRIES rereads) d))"

section \<open>How a run ended\<close>

datatype exit_status = ExitCode int | ExitSignal int

datatype run_class = Success | UserInterrupt | Nonzero | Signaled | LaunchFailed

definition is_user_quit :: "run_class \<Rightarrow> bool" where
  "is_user_quit c \<longleftrightarrow> c = Success \<or> c = UserInterrupt"

definition SIGINT :: int where
  "SIGINT = 2"

text \<open>\<open>None\<close> is an \<^verbatim>\<open>io::Error\<close> of the launch or of the wait.\<close>

definition classify_run :: "exit_status option \<Rightarrow> run_class" where
  "classify_run result =
     (case result of
        None \<Rightarrow> LaunchFailed
      | Some (ExitSignal s) \<Rightarrow> if s = SIGINT then UserInterrupt else Signaled
      | Some (ExitCode c) \<Rightarrow> if c = 0 then Success else if c = 130 then UserInterrupt else Nonzero)"

text \<open>Milliseconds, in \<^verbatim>\<open>u64\<close> arithmetic.\<close>

definition backoff_delay :: "nat \<Rightarrow> nat" where
  "backoff_delay attempts = (200 * 2 ^ ((attempts - 1) mod 64)) mod 2 ^ 64"

definition retry_decision :: "nat \<Rightarrow> nat \<Rightarrow> nat option" where
  "retry_decision attempts max_attempts =
     (if attempts \<ge> max_attempts then None else Some (backoff_delay attempts))"

section \<open>The supervision loop\<close>

datatype agent = AClaude string | AGrok | ACodex | AOpenCode | AHermes | APi | AMuse

datatype supervise_outcome = CleanExit | Exhausted

text \<open>
  Where the loop is: before the head of \<^verbatim>\<open>'sup\<close>, in the \<^verbatim>\<open>while !ctl.take_resume()\<close> loop, in
  \<^verbatim>\<open>'wait\<close>, in the loop of \<^verbatim>\<open>reclaim_workload_with\<close>, or asleep before a retry.
\<close>

datatype phase = AtTop | Parked | Running | Reclaiming | Backoff | Returned "string + supervise_outcome"

type_synonym recording_key = "string \<times> nat \<times> string option \<times> string"

record supervisor =
  sv_phase :: phase
  sv_suspend :: bool
  sv_resume :: bool
  sv_attempts :: nat
  sv_escalation :: nat
  sv_prev :: "recording_key option"

datatype supervisor_command = Suspend | Resume

definition apply_command :: "supervisor_command \<Rightarrow> supervisor \<Rightarrow> supervisor" where
  "apply_command c sv = (case c of Suspend \<Rightarrow> sv\<lparr>sv_suspend := True\<rparr> | Resume \<Rightarrow> sv\<lparr>sv_resume := True\<rparr>)"

text \<open>The arguments of \<^verbatim>\<open>supervise_agent\<close>.\<close>

record sup_config =
  sc_agent :: agent
  sc_cwd :: string
  sc_max_attempts :: nat
  sc_slot :: "nat option"
  sc_parse :: "string \<Rightarrow> json option"

datatype poll = StillRunning | Exit exit_status | WaitError

text \<open>\<^verbatim>\<open>kill_workload\<close>: the group is empty, still populated, absent, or the call failed.\<close>

datatype kill_result = Emptied | Populated | NoGroup | KillTransient | KillError string

record sup_input =
  in_read :: "string + claude_meta option"
  in_probe :: file_probe
  in_rereads :: "probed_read list"
  in_minted :: string
  in_now :: nat
  in_write_ok :: bool
  in_spawn_ok :: bool
  in_poll :: poll
  in_kill :: kill_result

datatype sup_event =
    Report string
  | RecordId claude_meta
  | JournalDefect string
  | Launch "claude_meta option" "string list" string
  | RunEnded run_class
  | Killed
  | Sleep nat

definition supervisor_new :: "bool \<Rightarrow> supervisor" where
  "supervisor_new start_suspended =
     \<lparr>sv_phase = AtTop, sv_suspend = start_suspended, sv_resume = False,
      sv_attempts = 0, sv_escalation = 0, sv_prev = None\<rparr>"

definition recording_key_of :: "agent \<Rightarrow> claude_meta \<Rightarrow> recording_key" where
  "recording_key_of a m =
     (cm_session_id m,
      if a = ACodex \<or> a = APi then (cm_updated m, cm_session_file m, cm_cwd m) else (0, None, []))"

text \<open>The \<^verbatim>\<open>match agent\<close> that builds the argument vector, with the recording grok writes first.\<close>

definition agent_argv :: "sup_config \<Rightarrow> sup_input \<Rightarrow> claude_meta option \<Rightarrow> nat \<Rightarrow> string list \<times> claude_meta option" where
  "agent_argv cfg inp recording esc =
     (let sid = map_option cm_session_id recording in
      case sc_agent cfg of
        AClaude settings \<Rightarrow> (claude_argv (select_start sid esc) settings, None)
      | AGrok \<Rightarrow> (let (st, w) = select_grok_start (sc_cwd cfg) (in_now inp) (in_minted inp) sid esc
                  in (grok_argv st, w))
      | ACodex \<Rightarrow> (codex_argv (select_codex_start sid esc), None)
      | AOpenCode \<Rightarrow> (opencode_argv (select_opencode_start sid esc), None)
      | AHermes \<Rightarrow> (hermes_argv (select_hermes_start sid esc), None)
      | AMuse \<Rightarrow> (muse_argv (select_muse_start sid esc), None)
      | APi \<Rightarrow> (pi_argv (select_pi_start (Option.bind recording cm_session_file) esc), None))"

text \<open>After a run: the user quit, or the failure counts against the budget.\<close>

definition finish_run :: "sup_config \<Rightarrow> run_class \<Rightarrow> supervisor \<Rightarrow> supervisor \<times> sup_event list" where
  "finish_run cfg c sv =
     (if is_user_quit c then (sv\<lparr>sv_phase := Returned (Inr CleanExit)\<rparr>, [RunEnded c])
      else let sv' = sv\<lparr>sv_attempts := sv_attempts sv + 1, sv_escalation := sv_escalation sv + 1\<rparr> in
        case retry_decision (sv_attempts sv') (sc_max_attempts cfg) of
          None \<Rightarrow> (sv'\<lparr>sv_phase := Returned (Inr Exhausted)\<rparr>, [RunEnded c])
        | Some delay \<Rightarrow>
            (sv'\<lparr>sv_phase := Backoff\<rparr>, [RunEnded c, Report ''claude-retrying'', Sleep delay]))"

text \<open>The part of an iteration after the recording was read and found usable.\<close>

definition launch :: "sup_config \<Rightarrow> sup_input \<Rightarrow> claude_meta option \<Rightarrow> supervisor \<Rightarrow> supervisor \<times> sup_event list" where
  "launch cfg inp recording sv =
     (let key = map_option (recording_key_of (sc_agent cfg)) recording;
          sv1 = (if key \<noteq> sv_prev sv then sv\<lparr>sv_escalation := 0, sv_prev := key\<rparr> else sv);
          (argv, w) = agent_argv cfg inp recording (sv_escalation sv1);
          cwd = (case recording of
                   Some m \<Rightarrow> if sc_agent cfg = APi then cm_cwd m else sc_cwd cfg
                 | None \<Rightarrow> sc_cwd cfg)
      in if w \<noteq> None \<and> \<not> in_write_ok inp
         then (sv1\<lparr>sv_phase := Returned (Inl ''write_claude'')\<rparr>, [])
         else let pre = (case w of Some m \<Rightarrow> [RecordId m] | None \<Rightarrow> []) @ [Launch recording argv cwd] in
           if in_spawn_ok inp then (sv1\<lparr>sv_phase := Running\<rparr>, pre @ [Report ''claude''])
           else (let (sv2, es) = finish_run cfg LaunchFailed sv1 in (sv2, pre @ es)))"

definition at_top :: "sup_config \<Rightarrow> sup_input \<Rightarrow> supervisor \<Rightarrow> supervisor \<times> sup_event list" where
  "at_top cfg inp sv =
     (if sv_suspend sv
      then (sv\<lparr>sv_suspend := False, sv_phase := Parked\<rparr>, [Report ''suspended''])
      else case in_read inp of
        Inl e \<Rightarrow> (sv\<lparr>sv_phase := Returned (Inl e)\<rparr>, [])
      | Inr recording \<Rightarrow>
          (case (if sc_agent cfg = APi
                 then pi_recording_defect (sc_parse cfg) (in_probe inp) (in_rereads inp) recording
                 else None) of
             Some d \<Rightarrow> (sv\<lparr>sv_phase := Returned (Inr Exhausted)\<rparr>, [JournalDefect d])
           | None \<Rightarrow> launch cfg inp recording sv))"

text \<open>One turn of \<^verbatim>\<open>while !ctl.take_resume()\<close>, and what follows it.\<close>

definition parked_poll :: "supervisor \<Rightarrow> supervisor" where
  "parked_poll sv =
     (if sv_resume sv
      then sv\<lparr>sv_resume := False, sv_suspend := False, sv_escalation := 0, sv_prev := None, sv_phase := AtTop\<rparr>
      else sv\<lparr>sv_suspend := False\<rparr>)"

definition park :: "supervisor \<Rightarrow> supervisor \<times> sup_event list" where
  "park sv = (sv\<lparr>sv_suspend := False, sv_phase := Parked\<rparr>, [Killed, Report ''suspended''])"

text \<open>One turn of the cleanup loop: retry, give up, or go on to the child itself.\<close>

definition reclaim_poll :: "sup_input \<Rightarrow> supervisor \<Rightarrow> supervisor \<times> sup_event list" where
  "reclaim_poll inp sv =
     (case in_kill inp of
        Emptied \<Rightarrow> park sv
      | NoGroup \<Rightarrow> park sv
      | Populated \<Rightarrow> (sv, [])
      | KillTransient \<Rightarrow> (sv, [])
      | KillError _ \<Rightarrow> (sv\<lparr>sv_phase := Running\<rparr>, [Report ''suspend-failed'']))"

definition wait_poll :: "sup_config \<Rightarrow> sup_input \<Rightarrow> supervisor \<Rightarrow> supervisor \<times> sup_event list" where
  "wait_poll cfg inp sv =
     (case in_poll inp of
        Exit st \<Rightarrow> finish_run cfg (classify_run (Some st)) sv
      | WaitError \<Rightarrow> finish_run cfg (classify_run None) sv
      | StillRunning \<Rightarrow>
          if sv_suspend sv
          then let sv' = sv\<lparr>sv_suspend := False\<rparr> in
               (case sc_slot cfg of None \<Rightarrow> park sv' | Some _ \<Rightarrow> (sv'\<lparr>sv_phase := Reclaiming\<rparr>, []))
          else (sv, []))"

definition sup_step :: "sup_config \<Rightarrow> sup_input \<Rightarrow> supervisor \<Rightarrow> supervisor \<times> sup_event list" where
  "sup_step cfg inp sv =
     (case sv_phase sv of
        AtTop \<Rightarrow> at_top cfg inp sv
      | Parked \<Rightarrow> (parked_poll sv, [])
      | Running \<Rightarrow> wait_poll cfg inp sv
      | Reclaiming \<Rightarrow> reclaim_poll inp sv
      | Backoff \<Rightarrow> (sv\<lparr>sv_phase := AtTop\<rparr>, [])
      | Returned _ \<Rightarrow> (sv, []))"

text \<open>A run: steps of the loop, each with what it observes, and commands from outside.\<close>

datatype sup_act = Step sup_input | Command supervisor_command

definition sup_act :: "sup_config \<Rightarrow> sup_act \<Rightarrow> supervisor \<Rightarrow> supervisor \<times> sup_event list" where
  "sup_act cfg a sv = (case a of Step inp \<Rightarrow> sup_step cfg inp sv | Command c \<Rightarrow> (apply_command c sv, []))"

definition sup_run :: "sup_config \<Rightarrow> sup_act list \<Rightarrow> supervisor \<Rightarrow> supervisor \<times> sup_event list" where
  "sup_run cfg = run_trace (sup_act cfg)"

end
