(* ===== verification/SupervisorLaws.thy ===== *)
theory SupervisorLaws
  imports Supervisor
begin

text \<open>
  What holds of every run of the supervision loop: how often an agent that fails is
  launched again and when, and which conversation each launch opens.
\<close>

section \<open>The retry budget\<close>

definition failed :: "sup_event \<Rightarrow> bool" where
  "failed e = (case e of RunEnded c \<Rightarrow> \<not> is_user_quit c | _ \<Rightarrow> False)"

definition failures :: "sup_event list \<Rightarrow> nat" where
  "failures es = length (filter failed es)"

definition delays :: "sup_event list \<Rightarrow> nat list" where
  "delays es = List.map_filter (\<lambda>e. case e of Sleep d \<Rightarrow> Some d | _ \<Rightarrow> None) es"

lemma failures_simps [simp]:
  "failures [] = 0" "failures (xs @ ys) = failures xs + failures ys"
  "failures (Report r # es) = failures es" "failures (RecordId m # es) = failures es"
  "failures (JournalDefect r # es) = failures es" "failures (Launch q a c # es) = failures es"
  "failures (Killed # es) = failures es" "failures (Sleep t # es) = failures es"
  "failures (RunEnded k # es) = (if is_user_quit k then failures es else Suc (failures es))"
  by (simp_all add: failures_def failed_def)

lemma delays_simps [simp]:
  "delays [] = []" "delays (xs @ ys) = delays xs @ delays ys"
  "delays (Report r # es) = delays es" "delays (RecordId m # es) = delays es"
  "delays (JournalDefect r # es) = delays es" "delays (Launch q a c # es) = delays es"
  "delays (Killed # es) = delays es" "delays (RunEnded k # es) = delays es"
  "delays (Sleep t # es) = t # delays es"
  by (simp_all add: delays_def List.map_filter_def)

lemma finish_run_cases:
  assumes "finish_run cfg c sv = (sv', es)"
  obtains (quit) "is_user_quit c" "es = [RunEnded c]" "sv' = sv\<lparr>sv_phase := Returned (Inr CleanExit)\<rparr>"
  | (exhausted) "\<not> is_user_quit c" "es = [RunEnded c]" "sc_max_attempts cfg \<le> sv_attempts sv + 1"
      "sv' = sv\<lparr>sv_attempts := sv_attempts sv + 1, sv_escalation := sv_escalation sv + 1, sv_phase := Returned (Inr Exhausted)\<rparr>"
  | (retry) "\<not> is_user_quit c" "es = [RunEnded c, Report ''claude-retrying'', Sleep (backoff_delay (sv_attempts sv + 1))]"
      "sv_attempts sv + 1 < sc_max_attempts cfg"
      "sv' = sv\<lparr>sv_attempts := sv_attempts sv + 1, sv_escalation := sv_escalation sv + 1, sv_phase := Backoff\<rparr>"
  using assms by (auto simp: finish_run_def retry_decision_def Let_def split: if_splits)

lemma at_top_cases:
  assumes "at_top cfg inp sv = (sv', es)"
  obtains (launches) recording where "launch cfg inp recording sv = (sv', es)"
  | (parks) "sv' = sv\<lparr>sv_suspend := False, sv_phase := Parked\<rparr>" "es = [Report ''suspended'']"
  | (fails) e where "sv' = sv\<lparr>sv_phase := Returned (Inl e)\<rparr>" "es = []"
  | (defect) d where "sv' = sv\<lparr>sv_phase := Returned (Inr Exhausted)\<rparr>" "es = [JournalDefect d]"
proof (cases "sv_suspend sv")
  case True
  with assms parks show ?thesis by (simp add: at_top_def)
next
  case False
  show ?thesis
  proof (cases "in_read inp")
    case (Inl e)
    with False assms fails [of e] show ?thesis by (simp add: at_top_def)
  next
    case (Inr recording)
    with False assms defect launches show ?thesis by (auto simp: at_top_def split: option.splits if_splits)
  qed
qed

definition budget :: "nat \<Rightarrow> sup_event list \<Rightarrow> supervisor \<Rightarrow> bool" where
  "budget mx es sv \<longleftrightarrow>
     failures es = sv_attempts sv \<and> sv_attempts sv \<le> mx
     \<and> (sv_attempts sv = mx \<longrightarrow> sv_phase sv = Returned (Inr Exhausted))
     \<and> delays es = map (\<lambda>k. 200 * 2 ^ k) [0 ..< min (sv_attempts sv) (mx - 1)]
     \<and> (sv_phase sv = Returned (Inr Exhausted) \<longrightarrow> sv_attempts sv = mx \<or> (\<exists>d. JournalDefect d \<in> set es))"

lemma backoff_exact: "0 < a \<Longrightarrow> a \<le> 50 \<Longrightarrow> backoff_delay a = 200 * 2 ^ (a - 1)"
proof -
  assume a: "0 < a" "a \<le> 50"
  then have "(2::nat) ^ (a - 1) \<le> 2 ^ 49" by (intro power_increasing) auto
  then have "200 * (2::nat) ^ (a - 1) \<le> 200 * 2 ^ 49" by (rule mult_le_mono2)
  also have "\<dots> < 2 ^ 64" by simp
  finally show ?thesis using a by (simp add: backoff_delay_def)
qed

lemma budget_finish:
  assumes "budget mx tr sv" and "\<forall>x. sv_phase sv \<noteq> Returned x" and "0 < mx" and "mx \<le> 50"
    and "finish_run cfg c sv = (sv', es)" and "sc_max_attempts cfg = mx"
  shows "budget mx (tr @ es) sv'"
proof -
  have lt: "sv_attempts sv < mx" using assms(1,2) by (auto simp: budget_def le_less)
  from assms(5) show ?thesis
  proof (cases rule: finish_run_cases)
    case quit
    with assms(1) lt show ?thesis by (simp add: budget_def)
  next
    case exhausted
    with assms(1,6) lt have "Suc (sv_attempts sv) = mx" by simp
    with exhausted assms(1) show ?thesis by (auto simp: budget_def)
  next
    case retry
    have "backoff_delay (sv_attempts sv + 1) = 200 * 2 ^ sv_attempts sv"
      using backoff_exact [of "sv_attempts sv + 1"] assms(4) lt by simp
    with retry assms(1,6) show ?thesis by (simp add: budget_def min_def)
  qed
qed

lemma budget_mono:
  "budget mx tr sv \<Longrightarrow> sv_attempts sv' = sv_attempts sv \<Longrightarrow> failures es = 0 \<Longrightarrow> delays es = []
   \<Longrightarrow> \<forall>x. sv_phase sv \<noteq> Returned x
   \<Longrightarrow> sv_phase sv' = Returned (Inr Exhausted) \<longrightarrow> (\<exists>d. JournalDefect d \<in> set es)
   \<Longrightarrow> budget mx (tr @ es) sv'"
  by (auto simp: budget_def)

lemma budget_launch:
  assumes "budget mx tr sv" and "sv_phase sv = AtTop" and "0 < mx" and "mx \<le> 50"
    and "launch cfg inp recording sv = (sv', es)" and "sc_max_attempts cfg = mx"
  shows "budget mx (tr @ es) sv'"
proof -
  let ?key = "map_option (recording_key_of (sc_agent cfg)) recording"
  let ?sv1 = "if ?key \<noteq> sv_prev sv then sv\<lparr>sv_escalation := 0, sv_prev := ?key\<rparr> else sv"
  obtain argv w where a: "agent_argv cfg inp recording (sv_escalation ?sv1) = (argv, w)" by fastforce
  let ?cwd = "case recording of Some m \<Rightarrow> if sc_agent cfg = APi then cm_cwd m else sc_cwd cfg | None \<Rightarrow> sc_cwd cfg"
  let ?pre = "(case w of Some m \<Rightarrow> [RecordId m] | None \<Rightarrow> []) @ [Launch recording argv ?cwd]"
  have b1: "budget mx tr ?sv1" using assms(1) by (simp add: budget_def)
  have ph: "\<forall>x. sv_phase ?sv1 \<noteq> Returned x" using assms(2) by simp
  have pre: "failures ?pre = 0" "delays ?pre = []" by (auto split: option.splits)
  have bp: "budget mx (tr @ ?pre) ?sv1"
    by (rule budget_mono [OF b1 refl pre ph]) (use assms(2) in simp)
  consider "w \<noteq> None" "\<not> in_write_ok inp" "sv' = ?sv1\<lparr>sv_phase := Returned (Inl ''write_claude'')\<rparr>" "es = []"
    | "in_spawn_ok inp" "sv' = ?sv1\<lparr>sv_phase := Running\<rparr>" "es = ?pre @ [Report ''claude'']"
    | es' where "finish_run cfg LaunchFailed ?sv1 = (sv', es')" "es = ?pre @ es'"
    using assms(5) a by (auto simp: launch_def Let_def split: if_splits prod.splits)
  then show ?thesis
  proof cases
    case 1
    show ?thesis by (rule budget_mono [OF b1 _ _ _ ph]) (use 1 in simp_all)
  next
    case 2
    show ?thesis by (rule budget_mono [OF b1 _ _ _ ph]) (use 2 pre in simp_all)
  next
    case 3
    from budget_finish [OF bp ph assms(3,4) 3(1) assms(6)] 3(2) show ?thesis by simp
  qed
qed

lemma budget_step:
  assumes "budget mx tr sv" and "0 < mx" and "mx \<le> 50" and "sc_max_attempts cfg = mx"
    and "sup_act cfg a sv = (sv', es)"
  shows "budget mx (tr @ es) sv'"
proof (cases a)
  case (Command c)
  with assms(1,5) show ?thesis
    by (auto simp: sup_act_def apply_command_def budget_def split: supervisor_command.splits)
next
  case (Step inp)
  with assms(5) have st: "sup_step cfg inp sv = (sv', es)" by (simp add: sup_act_def)
  show ?thesis
  proof (cases "sv_phase sv")
    case AtTop
    then have ph: "\<forall>x. sv_phase sv \<noteq> Returned x" by simp
    from st AtTop have "at_top cfg inp sv = (sv', es)" by (simp add: sup_step_def)
    then show ?thesis
    proof (cases rule: at_top_cases)
      case launches
      from budget_launch [OF assms(1) AtTop assms(2,3) launches assms(4)] show ?thesis .
    next
      case parks
      with assms(1) ph show ?thesis by (intro budget_mono) simp_all
    next
      case fails
      with assms(1) ph show ?thesis by (intro budget_mono) simp_all
    next
      case defect
      with assms(1) ph show ?thesis by (intro budget_mono) simp_all
    qed
  next
    case Running
    then have ph: "\<forall>x. sv_phase sv \<noteq> Returned x" by simp
    consider (f) c where "finish_run cfg c sv = (sv', es)"
      | (o) "sv_attempts sv' = sv_attempts sv" "failures es = 0" "delays es = []" "\<forall>x. sv_phase sv' \<noteq> Returned x"
      using st Running by (auto simp: sup_step_def wait_poll_def park_def Let_def split: if_splits poll.splits option.splits)
    then show ?thesis
    proof cases
      case f
      from budget_finish [OF assms(1) ph assms(2,3) f assms(4)] show ?thesis .
    next
      case o
      from budget_mono [OF assms(1) o(1-3) ph] o(4) show ?thesis by simp
    qed
  next
    case Reclaiming
    with st assms(1) show ?thesis
      by (auto simp: sup_step_def reclaim_poll_def park_def budget_def split: kill_result.splits)
  qed (use st assms(1) in \<open>auto simp: sup_step_def parked_poll_def budget_def split: if_splits\<close>)
qed

section \<open>The resume ladder\<close>

text \<open>The command line that reopens a recorded conversation, when its id is usable.\<close>

definition resume_argv :: "agent \<Rightarrow> claude_meta \<Rightarrow> string list option" where
  "resume_argv a m =
     (let i = cm_session_id m in
      case a of
        AClaude settings \<Rightarrow> Some (claude_argv (ClaudeResume i) settings)
      | AGrok \<Rightarrow> if grok_session_id i then Some (grok_argv (GrokResume i)) else None
      | ACodex \<Rightarrow> if codex_session_id i then Some (codex_argv (CodexResume i)) else None
      | AOpenCode \<Rightarrow> if opencode_session_id i then Some (opencode_argv (OpenCodeResume i)) else None
      | AHermes \<Rightarrow> if hermes_session_id i then Some (hermes_argv (HermesResume i)) else None
      | AMuse \<Rightarrow> if muse_session_id i then Some (muse_argv (MuseResume i)) else None
      | APi \<Rightarrow> (case cm_session_file m of
                  Some p \<Rightarrow> if pi_session_file p then Some (pi_argv (PiResume p)) else None
                | None \<Rightarrow> None))"

lemma resume_argv_key: "recording_key_of a m' = recording_key_of a m \<Longrightarrow> resume_argv a m' = resume_argv a m"
  by (cases a) (auto simp: recording_key_of_def resume_argv_def)

definition resume_attempts :: "agent \<Rightarrow> nat" where
  "resume_attempts a = (if a = AGrok then GROK_RESUME_ATTEMPTS else 1)"

lemmas select_defs =
  select_start_def select_grok_start_def select_codex_start_def select_opencode_start_def select_hermes_start_def
  select_muse_start_def select_pi_start_def

lemma argv_resumes:
  assumes "agent_argv cfg inp (Some m) esc = (argv, w)" and "resume_argv (sc_agent cfg) m = Some rv"
    and "esc < resume_attempts (sc_agent cfg)"
  shows "argv = rv"
  using assms
  by (cases "sc_agent cfg")
     (auto simp: agent_argv_def resume_argv_def select_defs resume_attempts_def GROK_RESUME_ATTEMPTS_def Let_def
        split: if_splits option.splits)

lemma resume_attempts_pos: "0 < resume_attempts a"
  by (simp add: resume_attempts_def GROK_RESUME_ATTEMPTS_def)

text \<open>
  The launch that opened the current attempt at a recording: it resumed the recording
  where that was possible, the agent was not parked since, and the failures since are
  the escalation.
\<close>

definition opened :: "agent \<Rightarrow> recording_key option \<Rightarrow> nat \<Rightarrow> sup_event list \<Rightarrow> bool" where
  "opened a key n tr \<longleftrightarrow>
     (\<exists>us recording argv cwd vs. tr = us @ Launch recording argv cwd # vs
        \<and> map_option (recording_key_of a) recording = key
        \<and> (\<forall>m rv. recording = Some m \<longrightarrow> resume_argv a m = Some rv \<longrightarrow> argv = rv)
        \<and> Report ''suspended'' \<notin> set vs \<and> failures vs = n)"

lemma opened_append:
  assumes "opened a key n tr" and "Report ''suspended'' \<notin> set es"
  shows "opened a key (n + failures es) (tr @ es)"
proof -
  from assms(1) obtain us recording argv cwd vs where "tr = us @ Launch recording argv cwd # vs"
    and "map_option (recording_key_of a) recording = key"
    and "\<forall>m rv. recording = Some m \<longrightarrow> resume_argv a m = Some rv \<longrightarrow> argv = rv"
    and "Report ''suspended'' \<notin> set vs" and "failures vs = n" unfolding opened_def by blast
  then have "tr @ es = us @ Launch recording argv cwd # (vs @ es)" "Report ''suspended'' \<notin> set (vs @ es)"
    "failures (vs @ es) = n + failures es" using assms(2) by simp_all
  with \<open>map_option (recording_key_of a) recording = key\<close>
    \<open>\<forall>m rv. recording = Some m \<longrightarrow> resume_argv a m = Some rv \<longrightarrow> argv = rv\<close>
  show ?thesis unfolding opened_def by blast
qed

lemma opened_launch:
  assumes "map_option (recording_key_of a) recording = key"
    and "\<forall>m rv. recording = Some m \<longrightarrow> resume_argv a m = Some rv \<longrightarrow> argv = rv"
    and "Report ''suspended'' \<notin> set vs"
  shows "opened a key (failures vs) (us @ Launch recording argv cwd # vs)"
  using assms unfolding opened_def by blast

text \<open>A launch that does not reopen its recording comes after failed attempts to.\<close>

definition laddered :: "agent \<Rightarrow> sup_event list \<Rightarrow> sup_event \<Rightarrow> bool" where
  "laddered a pre e =
     (case e of
        Launch (Some m) argv _ \<Rightarrow>
          (case resume_argv a m of
             Some rv \<Rightarrow> argv = rv \<or> (\<exists>n \<ge> resume_attempts a. opened a (Some (recording_key_of a m)) n pre)
           | None \<Rightarrow> True)
      | _ \<Rightarrow> True)"

definition ladder :: "agent \<Rightarrow> sup_event list \<Rightarrow> supervisor \<Rightarrow> bool" where
  "ladder a tr sv \<longleftrightarrow> every_event (laddered a) [] tr
     \<and> (sv_phase sv \<noteq> Parked \<and> (0 < sv_escalation sv \<or> sv_phase sv = Running \<or> sv_phase sv = Reclaiming)
          \<longrightarrow> opened a (sv_prev sv) (sv_escalation sv) tr)"

lemma laddered_simps [simp]:
  "laddered a pre (Report r)" "laddered a pre (RecordId m)" "laddered a pre (JournalDefect r)"
  "laddered a pre (RunEnded k)" "laddered a pre Killed" "laddered a pre (Sleep t)"
  by (simp_all add: laddered_def)

lemma finish_run_events:
  assumes "finish_run cfg c sv = (sv', es)"
  shows "every_event (laddered a) pre es" "Report ''suspended'' \<notin> set es"
    "sv_escalation sv' = sv_escalation sv + failures es" "sv_prev sv' = sv_prev sv" "sv_phase sv' \<noteq> Parked"
  using assms by (cases rule: finish_run_cases; simp)+

lemma ladder_finish:
  assumes "every_event (laddered a) [] tr" and "opened a (sv_prev sv) (sv_escalation sv) tr"
    and "finish_run cfg c sv = (sv', es)"
  shows "ladder a (tr @ es) sv'"
  using finish_run_events [OF assms(3)] assms(1) opened_append [OF assms(2), of es]
  by (simp add: ladder_def every_event_append)

text \<open>The launch itself, at the escalation it is made with.\<close>

lemma launch_laddered:
  assumes "agent_argv cfg inp recording esc = (argv, w)"
    and "map_option (recording_key_of (sc_agent cfg)) recording = key"
    and "0 < esc \<longrightarrow> opened (sc_agent cfg) key esc tr"
  shows "laddered (sc_agent cfg) (tr @ pre) (Launch recording argv cwd) \<or> Report ''suspended'' \<in> set pre \<or> failures pre \<noteq> 0"
proof (cases recording)
  case (Some m)
  show ?thesis
  proof (cases "esc < resume_attempts (sc_agent cfg)")
    case True
    with argv_resumes assms(1) Some show ?thesis by (fastforce simp: laddered_def split: option.splits)
  next
    case False
    then have "0 < esc" using resume_attempts_pos [of "sc_agent cfg"] by simp
    with assms(2,3) Some opened_append [of "sc_agent cfg" key esc tr pre] False show ?thesis
      by (fastforce simp: laddered_def split: option.splits)
  qed
qed (simp add: laddered_def)

lemma launch_opened:
  assumes "agent_argv cfg inp recording esc = (argv, w)"
    and "map_option (recording_key_of (sc_agent cfg)) recording = key"
    and "0 < esc \<longrightarrow> opened (sc_agent cfg) key esc tr" and "Report ''suspended'' \<notin> set pre" and "failures pre = 0"
  shows "opened (sc_agent cfg) key esc (tr @ pre @ [Launch recording argv cwd])"
proof (cases "esc = 0")
  case True
  have "\<forall>m rv. recording = Some m \<longrightarrow> resume_argv (sc_agent cfg) m = Some rv \<longrightarrow> argv = rv"
    using argv_resumes [of cfg inp _ esc argv w] assms(1) resume_attempts_pos [of "sc_agent cfg"] True by auto
  from opened_launch [OF assms(2) this, of "[]" "tr @ pre" cwd] True show ?thesis by simp
next
  case False
  with opened_append [of "sc_agent cfg" key esc tr "pre @ [Launch recording argv cwd]"] assms(3-5) show ?thesis by simp
qed

lemma ladder_launch:
  assumes "ladder (sc_agent cfg) tr sv" and "sv_phase sv = AtTop" and "launch cfg inp recording sv = (sv', es)"
  shows "ladder (sc_agent cfg) (tr @ es) sv'"
proof -
  let ?a = "sc_agent cfg" and ?key = "map_option (recording_key_of (sc_agent cfg)) recording"
  define sv1 where "sv1 = (if ?key \<noteq> sv_prev sv then sv\<lparr>sv_escalation := 0, sv_prev := ?key\<rparr> else sv)"
  obtain argv w where a: "agent_argv cfg inp recording (sv_escalation sv1) = (argv, w)" by fastforce
  define pre where "pre = (case w of Some m \<Rightarrow> [RecordId m] | None \<Rightarrow> [])"
  define cwd where "cwd = (case recording of Some m \<Rightarrow> if ?a = APi then cm_cwd m else sc_cwd cfg | None \<Rightarrow> sc_cwd cfg)"
  have k: "?key = sv_prev sv1" by (simp add: sv1_def)
  have esc: "0 < sv_escalation sv1 \<longrightarrow> opened ?a (sv_prev sv1) (sv_escalation sv1) tr"
    using assms(1,2) by (simp add: sv1_def ladder_def)
  have p: "Report ''suspended'' \<notin> set pre" "failures pre = 0" "every_event (laddered ?a) x pre" for x
    by (auto simp: pre_def split: option.splits)
  have ev: "every_event (laddered ?a) [] (tr @ pre @ [Launch recording argv cwd])"
    using assms(1) launch_laddered [OF a k esc, of pre cwd] p by (simp add: every_event_append ladder_def)
  note op = launch_opened [OF a k esc p(1,2), of cwd]
  consider "sv' = sv1\<lparr>sv_phase := Returned (Inl ''write_claude'')\<rparr>" "es = []"
    | "sv' = sv1\<lparr>sv_phase := Running\<rparr>" "es = pre @ [Launch recording argv cwd, Report ''claude'']"
    | es' where "finish_run cfg LaunchFailed sv1 = (sv', es')" "es = pre @ [Launch recording argv cwd] @ es'"
    using assms(3) a by (auto simp: launch_def Let_def sv1_def pre_def cwd_def split: if_splits prod.splits)
  then show ?thesis
  proof cases
    case 1
    with assms(1) esc show ?thesis by (simp add: ladder_def)
  next
    case 2
    with ev opened_append [OF op, of "[Report ''claude'']"] show ?thesis
      by (simp add: ladder_def every_event_append)
  next
    case 3
    from ladder_finish [OF ev op 3(1)] 3(2) show ?thesis by simp
  qed
qed

lemma ladder_keep:
  assumes "ladder a tr sv" and "every_event (laddered a) tr es" and "Report ''suspended'' \<notin> set es \<or> sv_phase sv' = Parked"
    and "failures es = 0" and "sv_prev sv' = sv_prev sv" and "sv_escalation sv' = sv_escalation sv"
    and "sv_phase sv \<noteq> Parked"
    and "sv_phase sv' = Running \<or> sv_phase sv' = Reclaiming \<longrightarrow> sv_phase sv = Running \<or> sv_phase sv = Reclaiming"
  shows "ladder a (tr @ es) sv'"
  using assms opened_append [of a "sv_prev sv" "sv_escalation sv" tr es]
  by (auto simp: ladder_def every_event_append)

lemma ladder_step:
  assumes "ladder (sc_agent cfg) tr sv" and "sup_act cfg x sv = (sv', es)"
  shows "ladder (sc_agent cfg) (tr @ es) sv'"
proof (cases x)
  case (Command c)
  with assms show ?thesis
    by (auto simp: sup_act_def apply_command_def ladder_def split: supervisor_command.splits)
next
  case (Step inp)
  with assms(2) have st: "sup_step cfg inp sv = (sv', es)" by (simp add: sup_act_def)
  show ?thesis
  proof (cases "sv_phase sv")
    case AtTop
    from st AtTop have "at_top cfg inp sv = (sv', es)" by (simp add: sup_step_def)
    then show ?thesis
    proof (cases rule: at_top_cases)
      case launches
      from ladder_launch [OF assms(1) AtTop launches] show ?thesis .
    next
      case parks
      with AtTop show ?thesis by (intro ladder_keep [OF assms(1)]) simp_all
    next
      case fails
      with AtTop show ?thesis by (intro ladder_keep [OF assms(1)]) simp_all
    next
      case defect
      with AtTop show ?thesis by (intro ladder_keep [OF assms(1)]) simp_all
    qed
  next
    case Running
    with assms(1) have o: "every_event (laddered (sc_agent cfg)) [] tr"
      "opened (sc_agent cfg) (sv_prev sv) (sv_escalation sv) tr" by (simp_all add: ladder_def)
    consider (f) c where "finish_run cfg c sv = (sv', es)"
      | (p) "sv' = sv\<lparr>sv_suspend := False, sv_phase := Parked\<rparr>" "es = [Killed, Report ''suspended'']"
      | (r) "sv' = sv\<lparr>sv_suspend := False, sv_phase := Reclaiming\<rparr> \<or> sv' = sv" "es = []"
      using st Running by (auto simp: sup_step_def wait_poll_def park_def Let_def split: if_splits poll.splits option.splits)
    then show ?thesis
    proof cases
      case f
      from ladder_finish [OF o f] show ?thesis .
    next
      case p
      with Running show ?thesis by (intro ladder_keep [OF assms(1)]) simp_all
    next
      case r
      with Running show ?thesis by (intro ladder_keep [OF assms(1)]) auto
    qed
  next
    case Reclaiming
    with st show ?thesis
      by (intro ladder_keep [OF assms(1)])
         (auto simp: sup_step_def reclaim_poll_def park_def split: kill_result.splits)
  next
    case Parked
    with st assms(1) show ?thesis by (auto simp: sup_step_def parked_poll_def ladder_def split: if_splits)
  next
    case Backoff
    with st show ?thesis by (intro ladder_keep [OF assms(1)]) (auto simp: sup_step_def)
  next
    case (Returned y)
    with st assms(1) show ?thesis by (auto simp: sup_step_def)
  qed
qed

interpretation ladder: traced "sup_act cfg" "ladder (sc_agent cfg)" for cfg
  by unfold_locales (rule ladder_step)

section \<open>Properties\<close>

text \<open>C20: the crash budget. In every run of the supervisor, with suspensions and wake-ups
  anywhere, at most the configured number of runs fail, the pauses between them are
  200, 400, 800, ... milliseconds, one after each failure but the last, and the supervisor
  gives up exactly when the budget is used up, or at once on a defective Pi recording; a
  user's quit never counts.\<close>

theorem crash_budget:
  assumes "0 < sc_max_attempts cfg" and "sc_max_attempts cfg \<le> 50"
    and "sup_run cfg acts (supervisor_new parked) = (sv, es)"
  shows "failures es \<le> sc_max_attempts cfg
    \<and> delays es = map (\<lambda>k. 200 * 2 ^ k) [0 ..< min (failures es) (sc_max_attempts cfg - 1)]
    \<and> (failures es = sc_max_attempts cfg \<longrightarrow> sv_phase sv = Returned (Inr Exhausted))
    \<and> (sv_phase sv = Returned (Inr Exhausted) \<longrightarrow>
         failures es = sc_max_attempts cfg \<or> (\<exists>d. JournalDefect d \<in> set es))"
proof -
  have "traced (sup_act cfg) (budget (sc_max_attempts cfg))"
    by unfold_locales (use budget_step [of "sc_max_attempts cfg"] assms(1,2) in blast)
  from traced.run_holds [OF this, of "supervisor_new parked"] assms
  have "budget (sc_max_attempts cfg) es sv"
    by (fastforce simp: sup_run_def budget_def supervisor_new_def)
  then show ?thesis by (auto simp: budget_def)
qed

definition demo_input :: "bool \<Rightarrow> poll \<Rightarrow> sup_input" where
  "demo_input spawns po = \<lparr>in_read = Inr None,
     in_probe = \<lparr>fp_cwd_is_dir = True, fp_opens = True, fp_is_file = True, fp_header = None\<rparr>,
     in_rereads = [], in_minted = [], in_now = 0, in_write_ok = True, in_spawn_ok = spawns, in_poll = po, in_kill = Emptied\<rparr>"

definition demo_config :: "agent \<Rightarrow> sup_config" where
  "demo_config a = \<lparr>sc_agent = a, sc_cwd = ''/'', sc_max_attempts = 3, sc_slot = None, sc_parse = (\<lambda>_. None)\<rparr>"

definition demo_acts :: "sup_act list" where
  "demo_acts = concat (replicate 3 [Step (demo_input False StillRunning), Step (demo_input False StillRunning)])"

theorem crash_budget_witness:
  "delays (snd (sup_run (demo_config AMuse) demo_acts (supervisor_new False))) = [200, 400]"
proof -
  have f: "failures (snd (sup_run (demo_config AMuse) demo_acts (supervisor_new False))) = 3"
    by (simp add: sup_run_def demo_acts_def demo_config_def demo_input_def numeral_3_eq_3 sup_act_def sup_step_def
        at_top_def launch_def agent_argv_def select_muse_start_def finish_run_def is_user_quit_def retry_decision_def
        supervisor_new_def Let_def)
  obtain sv es where r: "sup_run (demo_config AMuse) demo_acts (supervisor_new False) = (sv, es)" by fastforce
  have "sc_max_attempts (demo_config AMuse) = 3" by (simp add: demo_config_def)
  with crash_budget [OF _ _ r] f r show ?thesis by (simp add: upt_rec)
qed

text \<open>C10: the resume ladder. Whenever an agent is launched without reopening a recorded
  conversation whose id is usable, an earlier launch did reopen that very recording, the
  agent was not parked since, and it has failed since then: once, and twice for grok.\<close>

theorem resume_before_fresh:
  assumes "sup_run cfg acts (supervisor_new parked) = (sv, xs @ Launch (Some m) argv cwd # ys)"
    and "resume_argv (sc_agent cfg) m = Some rv" and "argv \<noteq> rv"
  shows "\<exists>us m' argv' cwd' vs. xs = us @ Launch (Some m') argv' cwd' # vs
    \<and> cm_session_id m' = cm_session_id m \<and> argv' = rv
    \<and> Report ''suspended'' \<notin> set vs
    \<and> (if sc_agent cfg = AGrok then 2 else 1) \<le> failures vs"
proof -
  let ?a = "sc_agent cfg"
  have "ladder ?a [] (supervisor_new parked)" by (simp add: ladder_def supervisor_new_def)
  from ladder.run_holds [OF this] assms(1) have "every_event (laddered ?a) [] (xs @ Launch (Some m) argv cwd # ys)"
    by (simp add: sup_run_def ladder_def)
  from every_event_at [OF this] assms(2,3) obtain n
    where n: "resume_attempts ?a \<le> n" "opened ?a (Some (recording_key_of ?a m)) n xs"
    by (auto simp: laddered_def)
  then obtain us m' argv' cwd' vs where "xs = us @ Launch (Some m') argv' cwd' # vs"
    and k: "recording_key_of ?a m' = recording_key_of ?a m"
    and "\<forall>rv'. resume_argv ?a m' = Some rv' \<longrightarrow> argv' = rv'"
    and "Report ''suspended'' \<notin> set vs" and "failures vs = n"
    unfolding opened_def by blast
  moreover from k have "cm_session_id m' = cm_session_id m" by (simp add: recording_key_of_def)
  moreover from resume_argv_key [OF k] assms(2) have "resume_argv ?a m' = Some rv" by simp
  moreover have "(if ?a = AGrok then 2 else 1) \<le> n"
    using n(1) by (simp add: resume_attempts_def GROK_RESUME_ATTEMPTS_def split: if_splits)
  ultimately show ?thesis by blast
qed

definition demo_meta :: claude_meta where
  "demo_meta = \<lparr>cm_session_id = ''abc'', cm_cwd = ''/'', cm_updated = 0, cm_session_file = None, cm_agent_kind = None\<rparr>"

definition demo_reads :: "sup_act list" where
  "demo_reads = (let i = (demo_input False StillRunning)\<lparr>in_read := Inr (Some demo_meta)\<rparr> in [Step i, Step i, Step i])"

theorem resume_before_fresh_witness:
  "\<exists>us argv cwd vs m'. [Launch (Some demo_meta) (claude_argv (ClaudeResume ''abc'') ''s'') ''/'', RunEnded LaunchFailed,
      Report ''claude-retrying'', Sleep 200] = us @ Launch (Some m') argv cwd # vs \<and> cm_session_id m' = ''abc''"
proof -
  let ?xs = "[Launch (Some demo_meta) (claude_argv (ClaudeResume ''abc'') ''s'') ''/'', RunEnded LaunchFailed,
      Report ''claude-retrying'', Sleep 200]"
  obtain sv where r: "sup_run (demo_config (AClaude ''s'')) demo_reads (supervisor_new False)
    = (sv, ?xs @ Launch (Some demo_meta) (claude_argv ClaudeFresh ''s'') ''/'' #
          [RunEnded LaunchFailed, Report ''claude-retrying'', Sleep 400])"
    by (simp add: sup_run_def demo_reads_def demo_config_def demo_input_def demo_meta_def sup_act_def sup_step_def
        at_top_def launch_def agent_argv_def select_start_def finish_run_def is_user_quit_def retry_decision_def
        backoff_delay_def recording_key_of_def supervisor_new_def Let_def)
  have "resume_argv (sc_agent (demo_config (AClaude ''s''))) demo_meta = Some (claude_argv (ClaudeResume ''abc'') ''s'')"
    by (simp add: resume_argv_def demo_config_def demo_meta_def)
  from resume_before_fresh [OF r this] show ?thesis
    by (fastforce simp: claude_argv_def demo_meta_def)
qed

text \<open>A Pi recording that was being rewritten can cost the conversation. When the first
  read finds a Pi recording without a session file and the re-read finds a usable one,
  the check passes, but the launch still uses the first read: Pi is started without
  \<^verbatim>\<open>--session\<close>, in a new conversation.\<close>

theorem pi_reread_starts_fresh:
  assumes "sc_agent cfg = APi" and "sv_phase sv = AtTop" and "\<not> sv_suspend sv"
    and "in_read inp = Inr (Some m)" and "cm_session_file m = None"
    and "in_rereads inp = (Inr (Some good), fp) # rest" and "recording_defect (sc_parse cfg) fp good = None"
    and "in_spawn_ok inp"
  shows "snd (sup_step cfg inp sv) = [Launch (Some m) [] (cm_cwd m), Report ''claude'']
    \<and> resume_argv APi good \<noteq> None"
proof -
  have "recording_defect (sc_parse cfg) (in_probe inp) m \<noteq> None"
    using assms(5) by (simp add: recording_defect_def)
  then obtain d where d: "recording_defect (sc_parse cfg) (in_probe inp) m = Some d" by blast
  have "pi_recording_defect (sc_parse cfg) (in_probe inp) (in_rereads inp) (Some m) = None"
    using assms(6,7) d by (simp add: pi_recording_defect_def PI_RECORDING_RETRIES_def numeral_nat)
  moreover have "resume_argv APi good \<noteq> None"
    using assms(7) by (auto simp: recording_defect_def resume_argv_def split: if_splits option.splits)
  ultimately show ?thesis using assms
    by (simp add: sup_step_def at_top_def launch_def agent_argv_def select_pi_start_def pi_argv_def Let_def)
qed

definition pi_file :: string where
  "pi_file = ''/s/a.jsonl''"

definition pi_good :: claude_meta where
  "pi_good = \<lparr>cm_session_id = ''i'', cm_cwd = ''/'', cm_updated = 2, cm_session_file = Some pi_file, cm_agent_kind = Some Pi\<rparr>"

definition pi_config :: sup_config where
  "pi_config = (demo_config APi)\<lparr>sc_parse := (\<lambda>_. Some (JObject [(''type'', JString ''session''), (''id'', JString ''i'')]))\<rparr>"

definition pi_input :: sup_input where
  "pi_input = (demo_input True StillRunning)\<lparr>in_read := Inr (Some (pi_good\<lparr>cm_session_file := None\<rparr>)),
     in_rereads := [(Inr (Some pi_good), \<lparr>fp_cwd_is_dir = True, fp_opens = True, fp_is_file = True, fp_header = Some []\<rparr>)]\<rparr>"

theorem pi_reread_starts_fresh_witness:
  "snd (sup_step pi_config pi_input (supervisor_new False))
     = [Launch (Some (pi_good\<lparr>cm_session_file := None\<rparr>)) [] ''/'', Report ''claude'']"
proof -
  have ok: "recording_defect (sc_parse pi_config) \<lparr>fp_cwd_is_dir = True, fp_opens = True, fp_is_file = True, fp_header = Some []\<rparr> pi_good = None"
    by (simp add: recording_defect_def pi_good_def pi_config_def json_member_def pi_session_file_def pi_file_def
        is_absolute_def starts_with_def ends_with_def path_components_def)
  have "snd (sup_step pi_config pi_input (supervisor_new False))
     = [Launch (Some (pi_good\<lparr>cm_session_file := None\<rparr>)) [] (cm_cwd (pi_good\<lparr>cm_session_file := None\<rparr>)), Report ''claude'']"
    using pi_reread_starts_fresh [OF _ _ _ _ _ _ ok, of "supervisor_new False" pi_input "pi_good\<lparr>cm_session_file := None\<rparr>" "[]"]
    by (simp add: pi_config_def demo_config_def supervisor_new_def pi_input_def demo_input_def)
  then show ?thesis by (simp add: pi_good_def)
qed

end
