(* ===== verification/Suspend.thy ===== *)
theory Suspend
  imports Supervisor Guardian
begin

text \<open>
  Parking and waking an agent: the suspension state of a live session
  (\<^verbatim>\<open>crates/amber/src/pty.rs\<close>) and the operations of the session manager on it
  (\<^verbatim>\<open>crates/amber/src/manager.rs\<close>), composed with the supervisor and its ordered report queue.
  Every operation runs under the session's transition lock, so it is one function from
  the session to its result, the session after it and the signals it sent. What it reads
  elsewhere (the live table, the stored metadata, the clock, the outcome of \<^verbatim>\<open>kill(2)\<close>) is a
  record of observations.
\<close>

section \<open>The suspension state of a session\<close>

datatype suspend_origin = NoOrigin | ManualOrigin | PressureOrigin

record session =
  se_alive :: bool
  se_run_state :: "string option"
  se_seq :: nat
  se_origin :: suspend_origin
  se_last_user :: nat
  se_last_output :: nat
  se_started :: nat
  se_ready :: bool
  se_pending :: bool

text \<open>The fields of a freshly spawned session (the clock reads at least 1).\<close>

definition session_new :: "nat \<Rightarrow> session" where
  "session_new now =
     \<lparr>se_alive = True, se_run_state = None, se_seq = 0, se_origin = NoOrigin, se_last_user = max now 1,
      se_last_output = 0, se_started = 0, se_ready = True, se_pending = False\<rparr>"

definition claim_suspend :: "suspend_origin \<Rightarrow> session \<Rightarrow> (suspend_origin + suspend_origin) \<times> session" where
  "claim_suspend origin s =
     (let previous = se_origin s;
          allowed = (case origin of
                       PressureOrigin \<Rightarrow> previous = NoOrigin
                     | ManualOrigin \<Rightarrow> previous \<noteq> ManualOrigin
                     | NoOrigin \<Rightarrow> False)
      in if allowed then (Inr previous, s\<lparr>se_origin := origin\<rparr>) else (Inl previous, s))"

definition restore_suspend_origin :: "suspend_origin \<Rightarrow> suspend_origin \<Rightarrow> session \<Rightarrow> session" where
  "restore_suspend_origin expected previous s =
     (if se_origin s = expected then s\<lparr>se_origin := previous\<rparr> else s)"

definition clear_suspend_origin :: "session \<Rightarrow> session" where
  "clear_suspend_origin s = s\<lparr>se_origin := NoOrigin\<rparr>"

definition mark_user_activity :: "nat \<Rightarrow> session \<Rightarrow> session" where
  "mark_user_activity now s = s\<lparr>se_last_user := max now 1\<rparr>"

text \<open>The raw reader stamps every read of the pty, under the transition lock.\<close>

definition mark_output :: "nat \<Rightarrow> session \<Rightarrow> session" where
  "mark_output now s = s\<lparr>se_last_output := max now 1\<rparr>"

definition last_used_ms :: "session \<Rightarrow> nat" where
  "last_used_ms s = max (se_last_user s) (se_last_output s)"

text \<open>What restoring a renamed, parked session sets on the fresh one.\<close>

definition inherit_suspension :: "(suspend_origin \<times> nat) option \<Rightarrow> session \<Rightarrow> session" where
  "inherit_suspension suspension s =
     (case suspension of
        None \<Rightarrow> s
      | Some (origin, started) \<Rightarrow>
          (snd (claim_suspend origin s))\<lparr>se_started := started, se_run_state := Some ''suspended'', se_ready := False\<rparr>)"

section \<open>The manager's operations\<close>

datatype mgr_error =
    InvalidOrigin | InvalidRunState | NoSuchSession | MetaError string | Vanished | NotAgent
  | BusyState string | NoRunningAgent | AlreadySuspended suspend_origin | NotNewly | SignalFailed
  | ManuallySuspended | NoResumeId | ForegroundSession | RecentActivity | WriteFailed

record mgr_obs =
  ob_found :: bool
  ob_current :: bool
  ob_meta :: "string + session_meta option"
  ob_signal_ok :: bool
  ob_clock :: nat
  ob_clock' :: nat
  ob_recorded :: "string + claude_meta option"
  ob_write_ok :: bool
  ob_still_alive :: bool

type_synonym 'a mgr_result = "(mgr_error + 'a) \<times> session \<times> supervisor_command list"

definition signal_supervisor :: "mgr_obs \<Rightarrow> supervisor_command \<Rightarrow> supervisor_command list" where
  "signal_supervisor ob c = (if ob_signal_ok ob then [c] else [])"

definition effective_meta :: "mgr_obs \<Rightarrow> mgr_error + session_meta" where
  "effective_meta ob = (case ob_meta ob of Inl e \<Rightarrow> Inl (MetaError e) | Inr None \<Rightarrow> Inl Vanished | Inr (Some m) \<Rightarrow> Inr m)"

definition ensure_current_session :: "mgr_obs \<Rightarrow> session \<Rightarrow> bool" where
  "ensure_current_session ob s \<longleftrightarrow> ob_current ob \<and> se_alive s"

definition suspend :: "mgr_obs \<Rightarrow> suspend_origin \<Rightarrow> session \<Rightarrow> unit mgr_result" where
  "suspend ob origin s =
     (if origin = NoOrigin then (Inl InvalidOrigin, s, [])
      else if \<not> ob_found ob \<or> \<not> ensure_current_session ob s then (Inl NoSuchSession, s, [])
      else case effective_meta ob of
        Inl e \<Rightarrow> (Inl e, s, [])
      | Inr m \<Rightarrow>
        if \<not> is_agent (sm_kind m) then (Inl NotAgent, s, [])
        else let state = se_run_state s in
        if state = Some ''claude-retrying'' \<or> state = Some ''shell-fallback'' then (Inl (BusyState (the state)), s, [])
        else if state \<noteq> Some ''claude'' \<and> state \<noteq> Some ''suspended'' then (Inl NoRunningAgent, s, [])
        else let current = se_origin s in
        if current = ManualOrigin \<and> origin = ManualOrigin then
          (if state = Some ''suspended'' then (Inr (), s, [])
           else (if ob_signal_ok ob then Inr () else Inl SignalFailed, s, signal_supervisor ob Suspend))
        else if current \<noteq> NoOrigin \<and> \<not> (current = PressureOrigin \<and> origin = ManualOrigin)
        then (Inl (AlreadySuspended current), s, [])
        else if current = NoOrigin \<and> state \<noteq> Some ''claude'' then (Inl NotNewly, s, [])
        else case claim_suspend origin s of
          (Inl existing, s1) \<Rightarrow> (Inl (AlreadySuspended existing), s1, [])
        | (Inr previous, s1) \<Rightarrow>
          let s2 = s1\<lparr>se_started := (if origin = PressureOrigin then max (ob_clock ob) 1 else 0)\<rparr> in
          if previous = PressureOrigin \<and> state = Some ''suspended'' then (Inr (), s2, [])
          else if ob_signal_ok ob then (Inr (), s2, [Suspend])
          else (Inl SignalFailed, (restore_suspend_origin origin previous s2)\<lparr>se_started := se_started s1\<rparr>, []))"

datatype resume_cause = ManualResume | FocusResume

definition resume_locked :: "mgr_obs \<Rightarrow> resume_cause \<Rightarrow> session \<Rightarrow> bool mgr_result" where
  "resume_locked ob cause s =
     (let eligible = (case cause of ManualResume \<Rightarrow> se_origin s \<noteq> NoOrigin | FocusResume \<Rightarrow> se_origin s = PressureOrigin) in
      if \<not> eligible then (Inr False, s, [])
      else case ob_meta ob of
        Inl e \<Rightarrow> (Inl (MetaError e), s, [])
      | Inr meta \<Rightarrow>
        if \<not> (case meta of None \<Rightarrow> False | Some m \<Rightarrow> is_agent (sm_kind m)) then (Inl NotAgent, s, [])
        else if \<not> se_ready s \<or> se_run_state s \<noteq> Some ''suspended'' then (Inr True, s\<lparr>se_pending := True\<rparr>, [])
        else if ob_signal_ok ob then (Inr True, (clear_suspend_origin s)\<lparr>se_started := 0\<rparr>, [Resume])
        else (Inl SignalFailed, s, []))"

definition resume :: "mgr_obs \<Rightarrow> resume_cause \<Rightarrow> session \<Rightarrow> bool mgr_result" where
  "resume ob cause s =
     (if \<not> ob_found ob \<or> \<not> ensure_current_session ob s then (Inl NoSuchSession, s, [])
      else resume_locked ob cause (mark_user_activity (ob_clock ob) s))"

text \<open>Focus and input also move the foreground slot, which they return.\<close>

definition focus_session :: "mgr_obs \<Rightarrow> nat \<Rightarrow> session \<Rightarrow> bool mgr_result \<times> nat" where
  "focus_session ob fg s =
     (if \<not> ob_found ob \<or> \<not> ensure_current_session ob s then ((Inl NoSuchSession, s, []), fg)
      else case effective_meta ob of
        Inl e \<Rightarrow> ((Inl e, s, []), fg)
      | Inr m \<Rightarrow> (resume_locked ob FocusResume (mark_user_activity (ob_clock ob) s), sm_slot m))"

definition write_input :: "mgr_obs \<Rightarrow> nat \<Rightarrow> session \<Rightarrow> unit mgr_result \<times> nat" where
  "write_input ob fg s =
     (if \<not> ob_found ob \<or> \<not> ensure_current_session ob s then ((Inl NoSuchSession, s, []), fg)
      else case effective_meta ob of
        Inl e \<Rightarrow> ((Inl e, s, []), fg)
      | Inr m \<Rightarrow>
          (case resume_locked ob FocusResume (mark_user_activity (ob_clock ob) s) of
             (Inl e, s', cs) \<Rightarrow> ((Inl e, s', cs), sm_slot m)
           | (Inr _, s', cs) \<Rightarrow>
               ((if se_origin s' = ManualOrigin then Inl ManuallySuspended
                 else if ob_write_ok ob then Inr () else Inl WriteFailed, s', cs), sm_slot m)))"

datatype recency = MemoryRecency | HostRecency

definition suspend_for_automatic :: "mgr_obs \<Rightarrow> recency \<Rightarrow> nat \<Rightarrow> session \<Rightarrow> nat mgr_result" where
  "suspend_for_automatic ob rec fg s =
     (if \<not> ob_found ob \<or> \<not> ensure_current_session ob s then (Inl NoSuchSession, s, [])
      else case effective_meta ob of
        Inl e \<Rightarrow> (Inl e, s, [])
      | Inr m \<Rightarrow>
        if \<not> is_agent (sm_kind m) then (Inl NotAgent, s, [])
        else if se_run_state s \<noteq> Some ''claude'' then (Inl NoRunningAgent, s, [])
        else case ob_recorded ob of
          Inl e \<Rightarrow> (Inl (MetaError e), s, [])
        | Inr recorded \<Rightarrow>
          if \<not> (case recorded of None \<Rightarrow> False | Some r \<Rightarrow> cm_session_id r \<noteq> []) then (Inl NoResumeId, s, [])
          else if se_origin s \<noteq> NoOrigin then (Inl (AlreadySuspended (se_origin s)), s, [])
          else if rec = HostRecency \<and> sm_slot m = fg then (Inl ForegroundSession, s, [])
          else let activity = (case rec of MemoryRecency \<Rightarrow> last_used_ms s | HostRecency \<Rightarrow> se_last_user s);
                   started = max (ob_clock ob) 1 in
          if started - activity < RECENT_USE_MS then (Inl RecentActivity, s, [])
          else if \<not> ob_still_alive ob then (Inl NoRunningAgent, s, [])
          else case claim_suspend PressureOrigin s of
            (Inl existing, s1) \<Rightarrow> (Inl (AlreadySuspended existing), s1, [])
          | (Inr _, s1) \<Rightarrow>
              if ob_signal_ok ob then (Inr (max (ob_clock' ob) started), s1\<lparr>se_started := started\<rparr>, [Suspend])
              else (Inl SignalFailed, (restore_suspend_origin PressureOrigin NoOrigin s1)\<lparr>se_started := se_started s1\<rparr>, []))"

text \<open>The guardian's two entry points: the memory policy passes its own clock reading.\<close>

definition suspend_for_memory :: "mgr_obs \<Rightarrow> nat \<Rightarrow> nat \<Rightarrow> session \<Rightarrow> nat mgr_result" where
  "suspend_for_memory ob now fg s =
     suspend_for_automatic (ob\<lparr>ob_clock := now, ob_clock' := now\<rparr>) MemoryRecency fg s"

definition suspend_for_pressure :: "mgr_obs \<Rightarrow> nat \<Rightarrow> session \<Rightarrow> nat mgr_result" where
  "suspend_for_pressure ob fg s = suspend_for_automatic ob HostRecency fg s"

definition RUN_STATES :: "string list" where
  "RUN_STATES = [''claude'', ''claude-retrying'', ''shell-fallback'', ''suspended'', ''suspend-failed'']"

text \<open>
  \<^verbatim>\<open>set_run_state_report\<close>: the daemon's side of a supervisor report. The result says whether
  the report was applied; a stale one is acknowledged and ignored.
\<close>

definition set_run_state_report :: "mgr_obs \<Rightarrow> string \<Rightarrow> nat \<Rightarrow> session \<Rightarrow> bool mgr_result" where
  "set_run_state_report ob state sq s =
     (if state \<notin> set RUN_STATES then (Inl InvalidRunState, s, [])
      else if \<not> ob_found ob then (Inl NoSuchSession, s, [])
      else if \<not> (case ob_meta ob of Inr (Some m) \<Rightarrow> is_agent (sm_kind m) | _ \<Rightarrow> False) then (Inl NotAgent, s, [])
      else if (sq = 0 \<and> se_seq s > 0) \<or> (sq > 0 \<and> sq \<le> se_seq s) then (Inr False, s, [])
      else let release = (state = ''suspend-failed'' \<or> (state = ''shell-fallback'' \<and> \<not> se_ready s));
               s1 = s\<lparr>se_run_state := Some (if state = ''suspend-failed'' then ''claude'' else state),
                      se_seq := (if sq > 0 then sq else se_seq s)\<rparr>
           in if state = ''suspended'' then
                let s2 = s1\<lparr>se_ready := True\<rparr>;
                    s3 = (if se_origin s2 = NoOrigin then snd (claim_suspend ManualOrigin s2) else s2)
                in if se_pending s3 then
                     (if ob_signal_ok ob
                      then (Inr True, (clear_suspend_origin (s3\<lparr>se_pending := False\<rparr>))\<lparr>se_started := 0\<rparr>, [Resume])
                      else (Inl SignalFailed, s3, []))
                   else (Inr True, s3, [])
              else if release then
                (Inr True, (clear_suspend_origin (s1\<lparr>se_ready := True, se_pending := False\<rparr>))\<lparr>se_started := 0\<rparr>, [])
              else (Inr True, s1, []))"

text \<open>The earliest automatic suspension that no supervisor has confirmed, over the live sessions.\<close>

definition pressure_suspend_pending_since :: "session list \<Rightarrow> nat option" where
  "pressure_suspend_pending_since ss =
     (let ts = [se_started s. s \<leftarrow> ss, se_origin s = PressureOrigin \<and> se_run_state s \<noteq> Some ''suspended'',
                              se_started s \<noteq> 0]
      in case ts of [] \<Rightarrow> None | t # us \<Rightarrow> Some (fold min us t))"


text \<open>
  The facts the two pressure policies see of the live sessions; \<open>kbs\<close> is the measured memory.
\<close>

definition has_resume_id :: "mgr_obs \<Rightarrow> bool" where
  "has_resume_id ob = (case ob_recorded ob of Inr (Some r) \<Rightarrow> cm_session_id r \<noteq> [] | _ \<Rightarrow> False)"

definition memory_candidate :: "(string \<rightharpoonup> nat) \<Rightarrow> string \<times> session \<times> mgr_obs \<Rightarrow> candidate option" where
  "memory_candidate kbs e =
     (case e of (name, s, ob) \<Rightarrow>
        (case ob_meta ob of
           Inr (Some m) \<Rightarrow>
             Some \<lparr>ca_name = name, ca_memory_kb = (case kbs name of None \<Rightarrow> 0 | Some k \<Rightarrow> k),
                   ca_last_used_ms = last_used_ms s, ca_is_agent = is_agent (sm_kind m),
                   ca_running = (se_alive s \<and> se_run_state s = Some ''claude''),
                   ca_has_resume_id = has_resume_id ob, ca_suspended = (se_origin s \<noteq> NoOrigin)\<rparr>
         | _ \<Rightarrow> None))"

definition memory_candidates :: "(string \<times> session \<times> mgr_obs) list \<Rightarrow> (string \<rightharpoonup> nat) \<Rightarrow> candidate list" where
  "memory_candidates live kbs = List.map_filter (memory_candidate kbs) live"

record host_candidate =
  hc_name :: string
  hc_memory_kb :: nat
  hc_last_user_ms :: nat

definition host_pressure_candidate :: "nat \<Rightarrow> nat \<Rightarrow> (string \<rightharpoonup> nat) \<Rightarrow> string \<times> session \<times> mgr_obs \<Rightarrow> host_candidate option" where
  "host_pressure_candidate fg now kbs e =
     (case e of (name, s, ob) \<Rightarrow>
        (case ob_meta ob of
           Inr (Some m) \<Rightarrow>
             if sm_slot m = fg \<or> \<not> is_agent (sm_kind m) \<or> \<not> se_alive s \<or> se_run_state s \<noteq> Some ''claude''
                \<or> se_origin s \<noteq> NoOrigin \<or> now - se_last_user s < RECENT_USE_MS then None
             else if has_resume_id ob
             then Some \<lparr>hc_name = name, hc_memory_kb = (case kbs name of None \<Rightarrow> 0 | Some k \<Rightarrow> k),
                        hc_last_user_ms = se_last_user s\<rparr>
             else None
         | _ \<Rightarrow> None))"

definition host_before :: "host_candidate \<Rightarrow> host_candidate \<Rightarrow> bool" where
  "host_before a b \<longleftrightarrow> hc_last_user_ms a < hc_last_user_ms b
     \<or> hc_last_user_ms a = hc_last_user_ms b \<and> (hc_memory_kb b < hc_memory_kb a
         \<or> hc_memory_kb a = hc_memory_kb b \<and> name_less (hc_name a) (hc_name b))"

text \<open>\<^verbatim>\<open>sort_by\<close> is a stable sort: insertion sort by the same comparison.\<close>

fun host_insert :: "host_candidate \<Rightarrow> host_candidate list \<Rightarrow> host_candidate list" where
  "host_insert c [] = [c]"
| "host_insert c (d # ds) = (if host_before d c then d # host_insert c ds else c # d # ds)"

definition host_pressure_candidates :: "nat \<Rightarrow> nat \<Rightarrow> (string \<times> session \<times> mgr_obs) list \<Rightarrow> (string \<rightharpoonup> nat) \<Rightarrow> host_candidate list" where
  "host_pressure_candidates fg now live kbs =
     foldr host_insert (List.map_filter (host_pressure_candidate fg now kbs) live) []"

section \<open>The pane: session, supervisor and report queue\<close>

text \<open>
  The daemon's session, the supervisor of its pane and the reports the supervisor has
  queued and the daemon has not acknowledged, each with its sequence number
  (\<^verbatim>\<open>RunStateReporter\<close>: one ordered queue, the head is retried until it is acknowledged).
  \<open>pn_fell_back\<close> says that \<^verbatim>\<open>run_session\<close> has queued its terminal report, \<open>pn_shell\<close> that the pane
  has become a plain shell.
\<close>

record pane =
  pn_session :: session
  pn_sup :: supervisor
  pn_queue :: "(string \<times> nat) list"
  pn_next_seq :: nat
  pn_fell_back :: bool
  pn_shell :: bool
  pn_fg :: nat

text \<open>A pane whose agent is new, or restored under a new name while parked.\<close>

definition pane_new :: "nat \<Rightarrow> (suspend_origin \<times> nat) option \<Rightarrow> pane" where
  "pane_new now suspension =
     \<lparr>pn_session = inherit_suspension suspension (session_new now),
      pn_sup = supervisor_new (suspension \<noteq> None), pn_queue = [], pn_next_seq = 1, pn_fell_back = False, pn_shell = False, pn_fg = 0\<rparr>"

definition reports :: "sup_event list \<Rightarrow> string list" where
  "reports es = List.map_filter (\<lambda>e. case e of Report r \<Rightarrow> Some r | _ \<Rightarrow> None) es"

fun enqueue_reports :: "string list \<Rightarrow> pane \<Rightarrow> pane" where
  "enqueue_reports [] p = p"
| "enqueue_reports (r # rs) p =
     enqueue_reports rs (p\<lparr>pn_queue := pn_queue p @ [(r, pn_next_seq p)], pn_next_seq := sat64 (pn_next_seq p + 1)\<rparr>)"

text \<open>
  Signals reach the supervisor while it supervises; afterwards their disposition is to
  be ignored.
\<close>

definition deliver_signals :: "supervisor_command list \<Rightarrow> pane \<Rightarrow> pane" where
  "deliver_signals cs p = p\<lparr>pn_sup := fold apply_command cs (pn_sup p)\<rparr>"

text \<open>
  The events of a pane: an operation of the manager, output of its child, an attempt to deliver the head of
  the report queue (\<open>acked\<close>: the acknowledgement came back), a step of the supervisor, and
  the end of \<^verbatim>\<open>run_session\<close>. There, the shell is executed once the terminal report is
  acknowledged or two seconds have passed; with it the reporter's thread is gone.
\<close>

datatype pane_act =
    DoSuspend mgr_obs suspend_origin
  | DoAutomatic mgr_obs recency
  | DoResume mgr_obs resume_cause
  | DoFocus mgr_obs
  | DoWrite mgr_obs
  | Output nat
  | Deliver mgr_obs bool
  | Supervise sup_input
  | FallBack
  | ExecShell

definition after_op :: "'a mgr_result \<Rightarrow> pane \<Rightarrow> pane" where
  "after_op r p = (case r of (_, s, cs) \<Rightarrow> deliver_signals cs (p\<lparr>pn_session := s\<rparr>))"

definition deliver :: "mgr_obs \<Rightarrow> bool \<Rightarrow> pane \<Rightarrow> pane" where
  "deliver ob acked p =
     (case pn_queue p of
        [] \<Rightarrow> p
      | (r, q) # rest \<Rightarrow>
          (case set_run_state_report ob r q (pn_session p) of
             (Inl _, s, cs) \<Rightarrow> after_op (Inl NoSuchSession :: mgr_error + bool, s, cs) p
           | (Inr b, s, cs) \<Rightarrow>
               let p' = after_op (Inr b :: mgr_error + bool, s, cs) p
               in if acked then p'\<lparr>pn_queue := rest\<rparr> else p'))"

fun pane_step :: "sup_config \<Rightarrow> pane_act \<Rightarrow> pane \<Rightarrow> pane" where
  "pane_step cfg (DoSuspend ob origin) p = after_op (suspend ob origin (pn_session p)) p"
| "pane_step cfg (DoAutomatic ob rec) p = after_op (suspend_for_automatic ob rec (pn_fg p) (pn_session p)) p"
| "pane_step cfg (DoResume ob cause) p = after_op (resume ob cause (pn_session p)) p"
| "pane_step cfg (DoFocus ob) p =
     (let (r, fg) = focus_session ob (pn_fg p) (pn_session p) in after_op r (p\<lparr>pn_fg := fg\<rparr>))"
| "pane_step cfg (DoWrite ob) p =
     (let (r, fg) = write_input ob (pn_fg p) (pn_session p) in after_op r (p\<lparr>pn_fg := fg\<rparr>))"
| "pane_step cfg (Output now) p = p\<lparr>pn_session := mark_output now (pn_session p)\<rparr>"
| "pane_step cfg (Deliver ob acked) p = (if pn_shell p then p else deliver ob acked p)"
| "pane_step cfg (Supervise inp) p =
     (let (sv, es) = sup_step cfg inp (pn_sup p) in enqueue_reports (reports es) (p\<lparr>pn_sup := sv\<rparr>))"
| "pane_step cfg FallBack p =
     (case sv_phase (pn_sup p) of
        Returned (Inr _) \<Rightarrow>
          if pn_fell_back p then p else enqueue_reports [''shell-fallback''] (p\<lparr>pn_fell_back := True\<rparr>)
      | _ \<Rightarrow> p)"
| "pane_step cfg ExecShell p =
     (if pn_fell_back p then p\<lparr>pn_shell := True, pn_queue := []\<rparr> else p)"

definition pane_run :: "sup_config \<Rightarrow> pane_act list \<Rightarrow> pane \<Rightarrow> pane" where
  "pane_run cfg acts p = fold (pane_step cfg) acts p"

end
