(* ===== verification/SuspendLaws.thy ===== *)
theory SuspendLaws
  imports Suspend
begin

text \<open>
  What holds of the composed pane, for every interleaving of manager operations, report
  deliveries and supervisor steps and for everything they may observe.
\<close>

section \<open>The coupling of the two sides\<close>

text \<open>
  The supervisor's phase and resume flag, the reports the daemon has yet to apply, and
  the daemon's session.
\<close>

definition confirmed_last :: "string list \<Rightarrow> bool" where
  "confirmed_last u \<longleftrightarrow> u \<noteq> [] \<and> last u = ''suspended'' \<and> ''suspended'' \<notin> set (butlast u)"

definition linked :: "bool \<Rightarrow> bool \<Rightarrow> bool \<Rightarrow> bool \<Rightarrow> bool \<Rightarrow> bool \<Rightarrow> bool \<Rightarrow> bool \<Rightarrow> bool" where
  "linked parked res queued at_end none suspended ready free \<longleftrightarrow>
     (queued \<longrightarrow> parked \<and> \<not> res \<and> at_end)
     \<and> (parked \<and> \<not> queued \<longrightarrow> none \<and> suspended \<and> ready \<and> (free \<longleftrightarrow> res))
     \<and> (res \<longrightarrow> parked)
     \<and> (suspended \<and> ready \<and> \<not> free \<longrightarrow> parked \<and> \<not> queued)"

definition coupled :: "phase \<Rightarrow> bool \<Rightarrow> string list \<Rightarrow> session \<Rightarrow> bool" where
  "coupled ph res u s \<longleftrightarrow>
     linked (ph = Parked) res (''suspended'' \<in> set u) (confirmed_last u) (u = [])
       (se_run_state s = Some ''suspended'') (se_ready s) (se_origin s = NoOrigin)"

text \<open>How the link changes, as facts on truth values.\<close>

lemma linked_unsuspended: "linked p r q e n False d f \<Longrightarrow> linked p r q e n False d' f'"
  unfolding linked_def by blast

lemma linked_resumed: "linked p r q e n True True False \<Longrightarrow> linked p True q e n True True True"
  unfolding linked_def by blast

lemma linked_other_report: "linked p r q e False s d f \<Longrightarrow> q \<and> e \<longrightarrow> e' \<Longrightarrow> linked p r q e' n False d' f'"
  unfolding linked_def by blast

lemma linked_confirmed: "linked p r True e n s d f \<Longrightarrow> linked p (r \<or> w) False e' True True True w"
  unfolding linked_def by blast

lemma linked_parks: "linked False r q e n s d f \<Longrightarrow> \<not> q \<longrightarrow> e' \<Longrightarrow> linked True r True e' n' s d f"
  unfolding linked_def by blast

lemma linked_wakes: "linked True True q e n s d f \<Longrightarrow> linked False False q e n s d f"
  unfolding linked_def by blast

lemma linked_away: "linked False r q e n s d f \<Longrightarrow> linked False r False e' n' s d f"
  unfolding linked_def by blast

lemma linked_away_free: "linked False r q e n s d f \<Longrightarrow> \<not> q"
  unfolding linked_def by blast

lemma linked_last: "linked p r True e n s d f \<Longrightarrow> e"
  unfolding linked_def by blast

lemmas session_op_defs =
  claim_suspend_def restore_suspend_origin_def clear_suspend_origin_def mark_user_activity_def signal_supervisor_def

text \<open>A manager operation keeps sequence number and liveness, and the coupling with the
  signals it sends taken into account.\<close>

definition keeps_coupling :: "session \<Rightarrow> session \<Rightarrow> supervisor_command list \<Rightarrow> bool" where
  "keeps_coupling s s' cs \<longleftrightarrow>
     se_seq s' = se_seq s \<and> se_alive s' = se_alive s
     \<and> (\<forall>ph res u. coupled ph res u s \<longrightarrow> coupled ph (res \<or> Resume \<in> set cs) u s')"

lemma keeps_refl [simp]: "keeps_coupling s s []"
  by (simp add: keeps_coupling_def)

text \<open>The coupling sees a session only through three fields.\<close>

lemma coupled_same:
  "coupled ph res u s \<Longrightarrow> se_run_state s' = se_run_state s \<Longrightarrow> se_ready s' = se_ready s
   \<Longrightarrow> (se_origin s' = NoOrigin \<longleftrightarrow> se_origin s = NoOrigin) \<Longrightarrow> coupled ph res u s'"
  by (simp add: coupled_def)

lemma coupled_unsuspended:
  "coupled ph res u s \<Longrightarrow> se_run_state s \<noteq> Some ''suspended'' \<Longrightarrow> se_run_state s' = se_run_state s
   \<Longrightarrow> coupled ph res u s'"
  by (simp add: coupled_def linked_unsuspended)

lemma coupled_resumed:
  "coupled ph res u s \<Longrightarrow> se_run_state s = Some ''suspended'' \<Longrightarrow> se_ready s \<Longrightarrow> se_origin s \<noteq> NoOrigin
   \<Longrightarrow> se_run_state s' = Some ''suspended'' \<Longrightarrow> se_ready s' \<Longrightarrow> se_origin s' = NoOrigin
   \<Longrightarrow> coupled ph True u s'"
  by (simp add: coupled_def linked_resumed)

text \<open>An operation that sends no resume signal and touches at most origin, clocks and the
  pending flag.\<close>

lemma keepsI:
  assumes "se_seq s' = se_seq s" "se_alive s' = se_alive s" "se_run_state s' = se_run_state s"
    and "se_ready s' = se_ready s"
    and "(se_origin s' = NoOrigin \<longleftrightarrow> se_origin s = NoOrigin) \<or> se_run_state s \<noteq> Some ''suspended''"
    and "Resume \<notin> set cs"
  shows "keeps_coupling s s' cs"
  using assms coupled_same [of _ _ _ s s'] coupled_unsuspended [of _ _ _ s s']
  by (auto simp: keeps_coupling_def)

lemma keeps_suspend:
  assumes "suspend ob origin s = (r, s', cs)"
  shows "keeps_coupling s s' cs"
  by (rule keepsI; use assms in \<open>auto simp: suspend_def Let_def session_op_defs
      split: if_splits sum.splits suspend_origin.splits\<close>)

lemma keeps_automatic:
  assumes "suspend_for_automatic ob rc fg s = (r, s', cs)"
  shows "keeps_coupling s s' cs"
  by (rule keepsI; use assms in \<open>auto simp: suspend_for_automatic_def Let_def session_op_defs
      split: if_splits sum.splits option.splits\<close>)

lemma keeps_resumed:
  assumes "se_run_state s = Some ''suspended''" "se_ready s" "se_origin s \<noteq> NoOrigin"
  shows "keeps_coupling s ((clear_suspend_origin s)\<lparr>se_started := 0\<rparr>) [Resume]"
  using coupled_resumed [OF _ assms] assms
  by (simp add: keeps_coupling_def clear_suspend_origin_def)

lemma keeps_resume_locked:
  assumes "resume_locked ob cause s = (r, s', cs)"
  shows "keeps_coupling s s' cs"
proof (cases "Resume \<in> set cs")
  case True
  with assms have "se_run_state s = Some ''suspended''" "se_ready s" "se_origin s \<noteq> NoOrigin"
    "s' = (clear_suspend_origin s)\<lparr>se_started := 0\<rparr>" "cs = [Resume]"
    by (auto simp: resume_locked_def Let_def split: if_splits sum.splits option.splits resume_cause.splits)
  with keeps_resumed [of s] show ?thesis by simp
next
  case False
  show ?thesis
    by (rule keepsI; use assms False in \<open>auto simp: resume_locked_def Let_def
        split: if_splits sum.splits option.splits resume_cause.splits\<close>)
qed

lemma mark_output_simps [simp]:
  "se_run_state (mark_output t s) = se_run_state s" "se_seq (mark_output t s) = se_seq s"
  "se_origin (mark_output t s) = se_origin s" "se_started (mark_output t s) = se_started s"
  "se_ready (mark_output t s) = se_ready s" "se_alive (mark_output t s) = se_alive s"
  by (simp_all add: mark_output_def)

lemma coupled_output [simp]: "coupled ph res u (mark_output t s) = coupled ph res u s"
  by (simp add: coupled_def)

lemma coupled_activity [simp]: "coupled ph res u (mark_user_activity t s) = coupled ph res u s"
  by (simp add: coupled_def mark_user_activity_def)

lemma keeps_activity [simp]: "keeps_coupling (mark_user_activity t s) s' cs = keeps_coupling s s' cs"
  by (simp add: keeps_coupling_def) (simp add: mark_user_activity_def)

lemma keeps_resume: "resume ob cause s = (r, s', cs) \<Longrightarrow> keeps_coupling s s' cs"
  by (auto simp: resume_def split: if_splits dest: keeps_resume_locked)

lemma keeps_focus: "focus_session ob fg s = ((r, s', cs), fg') \<Longrightarrow> keeps_coupling s s' cs"
  by (auto simp: focus_session_def split: if_splits sum.splits dest: keeps_resume_locked)

lemma keeps_write: "write_input ob fg s = ((r, s', cs), fg') \<Longrightarrow> keeps_coupling s s' cs"
  by (auto simp: write_input_def split: if_splits sum.splits prod.splits dest: keeps_resume_locked)

text \<open>A report is refused without effect, ignored as stale, or applied.\<close>

lemma coupled_reported:
  assumes "coupled ph res (r # u) s" and "r \<noteq> ''suspended''" and "se_run_state s' \<noteq> Some ''suspended''"
  shows "coupled ph res u s'"
proof -
  have q: "''suspended'' \<in> set (r # u) \<longleftrightarrow> ''suspended'' \<in> set u" using assms(2) by auto
  have e: "''suspended'' \<in> set u \<and> confirmed_last (r # u) \<longrightarrow> confirmed_last u"
    by (cases u) (auto simp: confirmed_last_def)
  have "linked (ph = Parked) res (''suspended'' \<in> set u) (confirmed_last (r # u)) False
     (se_run_state s = Some ''suspended'') (se_ready s) (se_origin s = NoOrigin)"
    using assms(1) q by (simp add: coupled_def)
  from linked_other_report [OF this e] assms(3) show ?thesis by (simp add: coupled_def)
qed

lemma coupled_confirmed:
  assumes "coupled ph res (''suspended'' # u) s"
    and "se_run_state s' = Some ''suspended''" "se_ready s'" "se_origin s' = NoOrigin \<longleftrightarrow> woken"
  shows "coupled ph (res \<or> woken) u s'"
proof -
  have l: "linked (ph = Parked) res True (confirmed_last (''suspended'' # u)) False
     (se_run_state s = Some ''suspended'') (se_ready s) (se_origin s = NoOrigin)"
    using assms(1) by (simp add: coupled_def)
  from linked_last [OF l] have "u = []" by (auto simp: confirmed_last_def split: if_splits)
  with linked_confirmed [OF l, of woken "confirmed_last u"] assms(2-4) show ?thesis
    by (simp add: coupled_def)
qed

lemma suspended_report:
  assumes "set_run_state_report ob ''suspended'' n s = (x, s', cs)" and "s' \<noteq> s \<or> cs \<noteq> []"
  shows "se_run_state s' = Some ''suspended''" "se_ready s'"
    "se_origin s' = NoOrigin \<longleftrightarrow> Resume \<in> set cs"
  using assms by (auto simp: set_run_state_report_def Let_def session_op_defs split: if_splits)

lemma other_report:
  assumes "set_run_state_report ob r n s = (x, s', cs)" and "r \<noteq> ''suspended''" and "s' \<noteq> s \<or> cs \<noteq> []"
  shows "se_run_state s' \<noteq> Some ''suspended''" "Resume \<notin> set cs"
  using assms by (auto simp: set_run_state_report_def Let_def clear_suspend_origin_def split: if_splits)

lemma report_seq:
  assumes "set_run_state_report ob r n s = (x, s', cs)" and "0 < n"
  shows "(s' = s \<and> cs = [] \<and> (\<forall>b. x = Inr b \<longrightarrow> n \<le> se_seq s))
    \<or> (se_seq s < n \<and> se_seq s' = n \<and> se_alive s' = se_alive s)"
  using assms by (auto simp: set_run_state_report_def Let_def session_op_defs split: if_splits)

lemma report_coupled:
  assumes "set_run_state_report ob r n s = (x, s', cs)" and "0 < n" and "se_seq s' \<noteq> se_seq s"
    and "coupled ph res (r # u) s"
  shows "coupled ph (res \<or> Resume \<in> set cs) u s'"
proof (cases "r = ''suspended''")
  case True
  show ?thesis
  proof -
    have ch: "s' \<noteq> s \<or> cs \<noteq> []" using assms(3) by auto
    show ?thesis
      by (rule coupled_confirmed [OF assms(4) [unfolded True] suspended_report [OF assms(1) [unfolded True] ch]])
  qed
next
  case False
  show ?thesis
  proof -
    have ch: "s' \<noteq> s \<or> cs \<noteq> []" using assms(3) by auto
    note o = other_report [OF assms(1) False ch]
    from coupled_reported [OF assms(4) False o(1)] o(2) show ?thesis by simp
  qed
qed

text \<open>A step of the supervisor appends its reports.\<close>

lemma reports_simps [simp]:
  "reports [] = []"
  "reports (Report r # es) = r # reports es"
  "reports (RecordId m # es) = reports es"
  "reports (JournalDefect d # es) = reports es"
  "reports (Launch q a c # es) = reports es"
  "reports (RunEnded k # es) = reports es"
  "reports (Killed # es) = reports es"
  "reports (Sleep t # es) = reports es"
  by (simp_all add: reports_def List.map_filter_def)

lemma reports_append [simp]: "reports (xs @ ys) = reports xs @ reports ys"
  by (simp add: reports_def List.map_filter_def)

lemmas sup_step_defs =
  sup_step_def at_top_def launch_def finish_run_def wait_poll_def reclaim_poll_def park_def parked_poll_def

text \<open>What a step does to the phase: it parks, wakes, or stays away from the parked phase
  with at most one report, which is not the parked one.\<close>

lemma sup_step_cases:
  assumes "sup_step cfg inp sv = (sv', es)"
  obtains
    (parks) "sv_phase sv \<noteq> Parked" "sv_phase sv' = Parked" "reports es = [''suspended'']" "sv_resume sv' = sv_resume sv"
  | (wakes) "sv_phase sv = Parked" "sv_resume sv" "sv_phase sv' = AtTop" "reports es = []" "\<not> sv_resume sv'"
  | (idles) "sv_phase sv = Parked" "\<not> sv_resume sv" "sv_phase sv' = Parked" "reports es = []" "\<not> sv_resume sv'"
  | (other) "sv_phase sv \<noteq> Parked" "sv_phase sv' \<noteq> Parked" "''suspended'' \<notin> set (reports es)"
      "length (reports es) \<le> 1" "sv_resume sv' = sv_resume sv"
proof (cases "sv_phase sv")
  case Parked
  with assms show ?thesis
    by (cases "sv_resume sv") (auto simp: sup_step_def parked_poll_def intro: wakes idles)
next
  case AtTop
  with assms parks other show ?thesis
    by (auto simp: sup_step_def at_top_def launch_def finish_run_def Let_def split: if_splits sum.splits option.splits prod.splits)
next
  case Running
  with assms parks other show ?thesis
    by (auto simp: sup_step_def wait_poll_def finish_run_def park_def Let_def split: if_splits poll.splits option.splits)
next
  case Reclaiming
  with assms parks other show ?thesis
    by (auto simp: sup_step_def reclaim_poll_def park_def split: kill_result.splits)
next
  case Backoff
  with assms other show ?thesis by (auto simp: sup_step_def)
next
  case (Returned x)
  with assms other show ?thesis by (auto simp: sup_step_def)
qed

lemma coupled_away:
  assumes "coupled ph res u s" and "ph \<noteq> Parked"
  shows "linked False res False e n (se_run_state s = Some ''suspended'') (se_ready s) (se_origin s = NoOrigin)"
    and "''suspended'' \<notin> set u"
proof -
  have l: "linked False res (''suspended'' \<in> set u) (confirmed_last u) (u = [])
     (se_run_state s = Some ''suspended'') (se_ready s) (se_origin s = NoOrigin)"
    using assms by (simp add: coupled_def)
  show "linked False res False e n (se_run_state s = Some ''suspended'') (se_ready s) (se_origin s = NoOrigin)"
    by (rule linked_away [OF l])
  show "''suspended'' \<notin> set u" by (rule linked_away_free [OF l])
qed

lemma coupled_parks:
  assumes "coupled ph res u s" and "ph \<noteq> Parked"
  shows "coupled Parked res (u @ [''suspended'']) s"
proof -
  have "confirmed_last (u @ [''suspended''])" using coupled_away(2) [OF assms] by (simp add: confirmed_last_def)
  with linked_parks [OF coupled_away(1) [OF assms]] show ?thesis by (simp add: coupled_def)
qed

lemma coupled_appended:
  "coupled ph res u s \<Longrightarrow> ph \<noteq> Parked \<Longrightarrow> ''suspended'' \<notin> set rs \<Longrightarrow> ph' \<noteq> Parked \<Longrightarrow> coupled ph' res (u @ rs) s"
  using coupled_away by (simp add: coupled_def [of ph'])

lemma coupled_cleared: "coupled ph res u s \<Longrightarrow> ph \<noteq> Parked \<Longrightarrow> coupled ph res [] s"
  using coupled_away(1) by (simp add: coupled_def [of _ _ "[]"])

lemma coupled_wakes: "coupled Parked True u s \<Longrightarrow> coupled AtTop False u s"
  using linked_wakes by (simp add: coupled_def)

lemma coupled_sup_step:
  assumes "coupled (sv_phase sv) (sv_resume sv) u s" and "sup_step cfg inp sv = (sv', es)"
  shows "coupled (sv_phase sv') (sv_resume sv') (u @ reports es) s"
  using assms(2)
proof (cases rule: sup_step_cases)
  case parks
  with coupled_parks [OF assms(1)] show ?thesis by simp
next
  case wakes
  with assms(1) coupled_wakes show ?thesis by simp
next
  case idles
  with assms(1) show ?thesis by simp
next
  case other
  with coupled_appended [OF assms(1)] show ?thesis by simp
qed

section \<open>The invariant of a pane\<close>

definition unseen :: "pane \<Rightarrow> string list" where
  "unseen p = map fst (filter (\<lambda>x. se_seq (pn_session p) < snd x) (pn_queue p))"

definition queue_ok :: "pane \<Rightarrow> bool" where
  "queue_ok p \<longleftrightarrow>
     sorted_wrt (\<lambda>x y. snd x < snd y) (pn_queue p) \<and> se_seq (pn_session p) < pn_next_seq p
     \<and> (\<forall>r n. (r, n) \<in> set (pn_queue p) \<longrightarrow> se_seq (pn_session p) \<le> n \<and> 0 < n \<and> n < pn_next_seq p)"

definition pane_inv :: "pane \<Rightarrow> bool" where
  "pane_inv p \<longleftrightarrow>
     queue_ok p \<and> se_alive (pn_session p)
     \<and> coupled (sv_phase (pn_sup p)) (sv_resume (pn_sup p)) (unseen p) (pn_session p)
     \<and> (pn_shell p \<longrightarrow> pn_fell_back p) \<and> (pn_fell_back p \<longrightarrow> (\<exists>x. sv_phase (pn_sup p) = Returned x))"

lemma apply_commands [simp]:
  "sv_phase (fold apply_command cs sv) = sv_phase sv"
  "sv_resume (fold apply_command cs sv) = (sv_resume sv \<or> Resume \<in> set cs)"
  by (induction cs arbitrary: sv) (auto simp: apply_command_def split: supervisor_command.splits)

lemma after_op_simps [simp]:
  "pn_session (after_op (r, s, cs) p) = s"
  "pn_sup (after_op (r, s, cs) p) = fold apply_command cs (pn_sup p)"
  "pn_queue (after_op (r, s, cs) p) = pn_queue p"
  "pn_next_seq (after_op (r, s, cs) p) = pn_next_seq p"
  "pn_fell_back (after_op (r, s, cs) p) = pn_fell_back p"
  "pn_shell (after_op (r, s, cs) p) = pn_shell p"
  by (simp_all add: after_op_def deliver_signals_def)

lemma unseen_fg [simp]: "unseen (p\<lparr>pn_fg := k\<rparr>) = unseen p"
  by (simp add: unseen_def)

lemma pane_inv_fg [simp]: "pane_inv (p\<lparr>pn_fg := k\<rparr>) = pane_inv p"
  by (simp add: pane_inv_def queue_ok_def)

lemma pane_inv_op:
  assumes "pane_inv p" and "keeps_coupling (pn_session p) s cs"
  shows "pane_inv (after_op (r, s, cs) p)"
  using assms by (simp add: pane_inv_def keeps_coupling_def queue_ok_def unseen_def)

text \<open>Queueing at most one report.\<close>

lemma enqueue_at_most_one:
  assumes "length rs \<le> 1" and "queue_ok p" and "pn_next_seq p < u64_max"
  shows "queue_ok (enqueue_reports rs p)" "unseen (enqueue_reports rs p) = unseen p @ rs"
    "pn_session (enqueue_reports rs p) = pn_session p" "pn_sup (enqueue_reports rs p) = pn_sup p"
    "pn_fell_back (enqueue_reports rs p) = pn_fell_back p" "pn_shell (enqueue_reports rs p) = pn_shell p"
    "pn_next_seq (enqueue_reports rs p) \<le> pn_next_seq p + 1"
proof -
  have b: "n < Suc (pn_next_seq p)" if "(t, n) \<in> set (pn_queue p)" for t n
    using assms(2) that by (force simp: queue_ok_def)
  have "rs = [] \<or> (\<exists>r. rs = [r])" using assms(1) by (cases rs) auto
  then show "queue_ok (enqueue_reports rs p)" "unseen (enqueue_reports rs p) = unseen p @ rs"
    "pn_session (enqueue_reports rs p) = pn_session p" "pn_sup (enqueue_reports rs p) = pn_sup p"
    "pn_fell_back (enqueue_reports rs p) = pn_fell_back p" "pn_shell (enqueue_reports rs p) = pn_shell p"
    "pn_next_seq (enqueue_reports rs p) \<le> pn_next_seq p + 1"
    using assms(2,3) b by (auto simp: queue_ok_def unseen_def sorted_wrt_append)
qed

text \<open>Delivering the head of the queue.\<close>

lemma queue_ok_delivered:
  assumes "queue_ok p" and "pn_queue p = (r, n) # rest" and "se_seq s = n" and "pn_session q = s"
    and "pn_next_seq q = pn_next_seq p" and "pn_queue q = rest \<or> pn_queue q = (r, n) # rest"
  shows "queue_ok q" "unseen q = map fst rest" "se_seq (pn_session p) < n \<Longrightarrow> unseen p = r # map fst rest"
proof -
  have r: "n < k" if "(t, k) \<in> set rest" for t k using assms(1,2) that by (auto simp: queue_ok_def)
  then have f: "filter (\<lambda>x. n < snd x) rest = rest" by (auto simp: filter_id_conv)
  show "queue_ok q" using assms r by (fastforce simp: queue_ok_def)
  show "unseen q = map fst rest" using assms(3,4,6) f by (auto simp: unseen_def)
  assume "se_seq (pn_session p) < n"
  with r have "filter (\<lambda>x. se_seq (pn_session p) < snd x) rest = rest"
    by (fastforce simp: filter_id_conv)
  with \<open>se_seq (pn_session p) < n\<close> show "unseen p = r # map fst rest"
    by (simp add: unseen_def assms(2))
qed

lemma unseen_popped:
  assumes "queue_ok p" and "pn_queue p = (r, n) # rest" and "n \<le> se_seq (pn_session p)"
  shows "queue_ok (p\<lparr>pn_queue := rest\<rparr>)" "unseen (p\<lparr>pn_queue := rest\<rparr>) = unseen p"
  using assms by (auto simp: queue_ok_def unseen_def)

lemma pane_inv_deliver:
  assumes "pane_inv p"
  shows "pane_inv (deliver ob acked p) \<and> pn_next_seq (deliver ob acked p) = pn_next_seq p"
proof (cases "pn_queue p")
  case Nil
  with assms show ?thesis by (simp add: deliver_def)
next
  case (Cons x rest)
  obtain r n where x: "x = (r, n)" by (cases x)
  obtain y s cs where rep: "set_run_state_report ob r n (pn_session p) = (y, s, cs)"
    by (metis prod_cases3)
  let ?q = "deliver ob acked p"
  have qo: "queue_ok p" and n: "0 < n" using assms Cons x by (auto simp: pane_inv_def queue_ok_def)
  have q: "pn_session ?q = s" "pn_sup ?q = fold apply_command cs (pn_sup p)" "pn_next_seq ?q = pn_next_seq p"
    "pn_fell_back ?q = pn_fell_back p" "pn_shell ?q = pn_shell p"
    "pn_queue ?q = (case y of Inl _ \<Rightarrow> pn_queue p | Inr _ \<Rightarrow> if acked then rest else pn_queue p)"
    using Cons x rep by (auto simp: deliver_def Let_def split: sum.splits)
  from report_seq [OF rep n] show ?thesis
  proof
    assume stale: "s = pn_session p \<and> cs = [] \<and> (\<forall>b. y = Inr b \<longrightarrow> n \<le> se_seq (pn_session p))"
    have "queue_ok ?q \<and> unseen ?q = unseen p"
      using unseen_popped [OF qo] Cons x stale q qo
      by (cases y) (auto simp: queue_ok_def unseen_def)
    with assms stale q show ?thesis by (simp add: pane_inv_def)
  next
    assume new: "se_seq (pn_session p) < n \<and> se_seq s = n \<and> se_alive s = se_alive (pn_session p)"
    have "pn_queue ?q = rest \<or> pn_queue ?q = (r, n) # rest" using q(6) Cons x by (auto split: sum.splits)
    note facts = queue_ok_delivered [OF qo Cons [unfolded x] _ q(1) q(3) this]
    have "coupled (sv_phase (pn_sup p)) (sv_resume (pn_sup p)) (r # map fst rest) (pn_session p)"
      using assms facts(3) new by (simp add: pane_inv_def)
    from report_coupled [OF rep n _ this] new have
      "coupled (sv_phase (pn_sup p)) (sv_resume (pn_sup p) \<or> Resume \<in> set cs) (map fst rest) s" by simp
    with assms new q facts(1,2) show ?thesis by (simp add: pane_inv_def)
  qed
qed

lemma pane_inv_step:
  assumes "pane_inv p" and "pn_next_seq p < u64_max"
  shows "pane_inv (pane_step cfg a p) \<and> pn_next_seq (pane_step cfg a p) \<le> pn_next_seq p + 1"
proof (cases a)
  case (DoSuspend ob org)
  obtain r s cs where e: "suspend ob org (pn_session p) = (r, s, cs)" by (metis prod_cases3)
  show ?thesis using pane_inv_op [OF assms(1) keeps_suspend [OF e]] by (simp add: DoSuspend e)
next
  case (DoAutomatic ob rc)
  obtain r s cs where e: "suspend_for_automatic ob rc (pn_fg p) (pn_session p) = (r, s, cs)" by (metis prod_cases3)
  show ?thesis using pane_inv_op [OF assms(1) keeps_automatic [OF e]] by (simp add: DoAutomatic e)
next
  case (DoResume ob c)
  obtain r s cs where e: "resume ob c (pn_session p) = (r, s, cs)" by (metis prod_cases3)
  show ?thesis using pane_inv_op [OF assms(1) keeps_resume [OF e]] by (simp add: DoResume e)
next
  case (DoFocus ob)
  obtain r s cs fg where e: "focus_session ob (pn_fg p) (pn_session p) = ((r, s, cs), fg)" by (metis surj_pair)
  have "pane_inv (after_op (r, s, cs) (p\<lparr>pn_fg := fg\<rparr>))"
    by (rule pane_inv_op) (use assms keeps_focus [OF e] in simp_all)
  then show ?thesis by (simp add: DoFocus e)
next
  case (DoWrite ob)
  obtain r s cs fg where e: "write_input ob (pn_fg p) (pn_session p) = ((r, s, cs), fg)" by (metis surj_pair)
  have "pane_inv (after_op (r, s, cs) (p\<lparr>pn_fg := fg\<rparr>))"
    by (rule pane_inv_op) (use assms keeps_write [OF e] in simp_all)
  then show ?thesis by (simp add: DoWrite e)
next
  case (Output t)
  then show ?thesis using assms by (simp add: pane_inv_def queue_ok_def unseen_def)
next
  case (Deliver ob acked)
  then show ?thesis using pane_inv_deliver [OF assms(1)] assms(1) by simp
next
  case (Supervise inp)
  obtain sv es where e: "sup_step cfg inp (pn_sup p) = (sv, es)" by fastforce
  let ?p = "p\<lparr>pn_sup := sv\<rparr>"
  have "queue_ok ?p" "unseen ?p = unseen p" using assms(1) by (simp_all add: pane_inv_def queue_ok_def unseen_def)
  moreover have "length (reports es) \<le> 1" using e by (cases rule: sup_step_cases) simp_all
  moreover have "\<exists>x. sv_phase sv = Returned x" if "\<exists>x. sv_phase (pn_sup p) = Returned x"
    using that e by (auto simp: sup_step_def)
  ultimately show ?thesis
    using enqueue_at_most_one [of "reports es" ?p] coupled_sup_step [OF _ e] assms
    by (simp add: Supervise e pane_inv_def)
next
  case FallBack
  let ?p = "p\<lparr>pn_fell_back := True\<rparr>"
  have "queue_ok ?p" "unseen ?p = unseen p" using assms(1) by (simp_all add: pane_inv_def queue_ok_def unseen_def)
  then show ?thesis
    using enqueue_at_most_one [of "[''shell-fallback'']" ?p] assms
    by (auto simp: FallBack pane_inv_def intro!: coupled_appended split: phase.splits sum.splits
        simp del: enqueue_reports.simps)
next
  case ExecShell
  then show ?thesis using assms
    by (auto simp: pane_inv_def queue_ok_def unseen_def intro: coupled_cleared)
qed

lemma pane_inv_new: "org \<noteq> NoOrigin \<Longrightarrow> pane_inv (pane_new now (Some (org, t)))" "pane_inv (pane_new now None)"
  by (auto simp: pane_inv_def pane_new_def inherit_suspension_def session_new_def supervisor_new_def
      queue_ok_def unseen_def coupled_def linked_def claim_suspend_def split: suspend_origin.splits)

lemma pane_inv_run:
  assumes "pane_inv p" and "pn_next_seq p + length acts \<le> u64_max"
  shows "pane_inv (pane_run cfg acts p)"
  using assms
proof (induction acts arbitrary: p)
  case Nil
  then show ?case by (simp add: pane_run_def)
next
  case (Cons a acts)
  from pane_inv_step [OF Cons.prems(1), of cfg a] Cons.prems(2)
  have "pane_inv (pane_step cfg a p)" "pn_next_seq (pane_step cfg a p) + length acts \<le> u64_max" by auto
  from Cons.IH [OF this] show ?case by (simp add: pane_run_def)
qed

lemma coupled_parked:
  "coupled ph res u s \<Longrightarrow> se_run_state s = Some ''suspended'' \<Longrightarrow> se_ready s \<Longrightarrow> se_origin s \<noteq> NoOrigin
   \<Longrightarrow> ph = Parked \<and> \<not> res"
  unfolding coupled_def linked_def by blast

section \<open>Reports the daemon knows\<close>

definition known_reports :: "pane \<Rightarrow> bool" where
  "known_reports p \<longleftrightarrow> fst ` set (pn_queue p) \<subseteq> set RUN_STATES"

lemma sup_step_reports: "sup_step cfg inp sv = (sv', es) \<Longrightarrow> set (reports es) \<subseteq> set RUN_STATES"
  by (auto simp: sup_step_defs RUN_STATES_def Let_def split: phase.splits if_splits sum.splits option.splits
      prod.splits poll.splits kill_result.splits)

lemma enqueue_queue: "fst ` set (pn_queue (enqueue_reports rs p)) = fst ` set (pn_queue p) \<union> set rs"
  by (induction rs p rule: enqueue_reports.induct) auto

lemma after_op_queue [simp]: "pn_queue (after_op r p) = pn_queue p"
  by (cases r) (simp add: after_op_def deliver_signals_def)

lemma deliver_queue: "set (pn_queue (deliver ob acked p)) \<subseteq> set (pn_queue p)"
  by (auto simp: deliver_def Let_def split: list.splits sum.splits prod.splits if_splits)

lemma known_step:
  assumes "known_reports p"
  shows "known_reports (pane_step cfg a p)"
proof (cases a)
  case (Supervise inp)
  obtain sv es where e: "sup_step cfg inp (pn_sup p) = (sv, es)" by fastforce
  show ?thesis using assms sup_step_reports [OF e] by (simp add: Supervise e known_reports_def enqueue_queue)
next
  case (Deliver ob acked)
  then show ?thesis using assms deliver_queue [of ob acked p] by (auto simp: known_reports_def)
next
  case FallBack
  then show ?thesis using assms
    by (auto simp: known_reports_def RUN_STATES_def split: phase.splits sum.splits)
qed (use assms in \<open>auto simp: known_reports_def split: prod.splits\<close>)

interpretation known: stepping "pane_step cfg" known_reports for cfg
  by unfold_locales (rule known_step)

lemma known_run: "known_reports p \<Longrightarrow> known_reports (pane_run cfg acts p)"
  by (simp add: pane_run_def known.run_holds)

section \<open>Waking a parked agent\<close>

text \<open>Observations of a manager that finds the live agent session and can signal it.\<close>

definition in_order :: "mgr_obs \<Rightarrow> bool" where
  "in_order ob \<longleftrightarrow> ob_found ob \<and> ob_current ob \<and> ob_signal_ok ob
     \<and> (\<exists>m. ob_meta ob = Inr (Some m) \<and> is_agent (sm_kind m))"

lemma report_accepted:
  assumes "in_order ob" and "r \<in> set RUN_STATES"
  obtains b s' cs where "set_run_state_report ob r n s = (Inr b, s', cs)"
proof -
  have "\<exists>b. fst (set_run_state_report ob r n s) = Inr b"
    using assms by (auto simp: set_run_state_report_def in_order_def Let_def)
  then show thesis using that by (metis prod.collapse)
qed

lemma deliver_accepts:
  assumes "in_order ob" and "known_reports p" and "pn_queue p = x # rest"
  shows "pn_queue (deliver ob True p) = rest"
proof -
  obtain r n where x: "x = (r, n)" by (cases x)
  then have "r \<in> set RUN_STATES" using assms(2,3) by (auto simp: known_reports_def)
  from report_accepted [OF assms(1) this] obtain b s cs
    where "set_run_state_report ob r n (pn_session p) = (Inr b, s, cs)" .
  then show ?thesis by (simp add: deliver_def assms(3) x Let_def)
qed

lemma deliver_phase: "sv_phase (pn_sup (deliver ob acked p)) = sv_phase (pn_sup p)"
  by (auto simp: deliver_def after_op_def deliver_signals_def Let_def split: list.splits sum.splits prod.splits)

lemma deliver_shell: "pn_shell (deliver ob acked p) = pn_shell p"
  by (auto simp: deliver_def after_op_def deliver_signals_def Let_def split: list.splits sum.splits prod.splits)

lemma drained:
  assumes "in_order ob" and "known_reports p" and "\<not> pn_shell p"
  shows "pn_queue (pane_run cfg (replicate (length (pn_queue p)) (Deliver ob True)) p) = []
    \<and> sv_phase (pn_sup (pane_run cfg (replicate (length (pn_queue p)) (Deliver ob True)) p)) = sv_phase (pn_sup p)"
  using assms
proof (induction "length (pn_queue p)" arbitrary: p)
  case 0
  then show ?case by (simp add: pane_run_def)
next
  case (Suc n)
  then obtain x rest where q: "pn_queue p = x # rest" by (cases "pn_queue p") auto
  let ?p = "deliver ob True p"
  have d: "pn_queue ?p = rest" "sv_phase (pn_sup ?p) = sv_phase (pn_sup p)" "\<not> pn_shell ?p"
    using deliver_accepts [OF Suc.prems(1,2) q] deliver_phase deliver_shell Suc.prems(3) by simp_all
  have k: "known_reports ?p" using known_step [OF Suc.prems(2), of cfg "Deliver ob True"] Suc.prems(3) by simp
  have n: "n = length (pn_queue ?p)" using Suc.hyps(2) q d(1) by simp
  from Suc.hyps(1) [OF n Suc.prems(1) k d(3)] d(1,2) q Suc.prems(3) show ?case
    by (simp add: pane_run_def)
qed

lemma resume_wakes:
  assumes "pane_inv p" and "sv_phase (pn_sup p) = Parked" and "pn_queue p = []" and "in_order ob"
  shows "sv_phase (pn_sup (pane_run cfg [DoResume ob ManualResume, Supervise inp] p)) = AtTop"
proof -
  let ?s = "pn_session p"
  have c: "se_alive ?s" "se_run_state ?s = Some ''suspended''" "se_ready ?s" "se_origin ?s = NoOrigin \<longleftrightarrow> sv_resume (pn_sup p)"
    using assms(1-3) by (auto simp: pane_inv_def unseen_def coupled_def linked_def)
  obtain r s cs where e: "resume ob ManualResume ?s = (r, s, cs)" by (metis prod_cases3)
  have "sv_resume (pn_sup p) \<or> Resume \<in> set cs"
    using e c assms(4)
    by (auto simp: resume_def resume_locked_def ensure_current_session_def in_order_def mark_user_activity_def
        split: if_splits)
  then have "sv_resume (fold apply_command cs (pn_sup p))" by simp
  then show ?thesis
    using assms(2) by (simp add: pane_run_def e sup_step_def parked_poll_def after_op_def deliver_signals_def)
qed

definition proper_suspension :: "(suspend_origin \<times> nat) option \<Rightarrow> bool" where
  "proper_suspension su \<longleftrightarrow> (case su of None \<Rightarrow> True | Some (org, _) \<Rightarrow> org \<noteq> NoOrigin)"

lemma pane_inv_reachable:
  assumes "proper_suspension su" and "length acts < u64_max"
  shows "pane_inv (pane_run cfg acts (pane_new now su))" "known_reports (pane_run cfg acts (pane_new now su))"
proof -
  have "pn_next_seq (pane_new now su) = 1" "known_reports (pane_new now su)"
    by (simp_all add: pane_new_def known_reports_def)
  moreover have "pane_inv (pane_new now su)"
    using assms(1) pane_inv_new by (auto simp: proper_suspension_def split: option.splits)
  ultimately show "pane_inv (pane_run cfg acts (pane_new now su))" "known_reports (pane_run cfg acts (pane_new now su))"
    using assms(2) by (auto intro: pane_inv_run known_run)
qed

section \<open>A suspension that meets the end of the agent\<close>

text \<open>
  The pane has become a shell, the daemon knows it, and the session still carries an
  origin. No operation clears it: only a report could, and there are no more reports.
\<close>

definition stranded :: "suspend_origin \<Rightarrow> nat \<Rightarrow> pane \<Rightarrow> bool" where
  "stranded org t p \<longleftrightarrow>
     se_run_state (pn_session p) = Some ''shell-fallback'' \<and> se_origin (pn_session p) = org
     \<and> se_started (pn_session p) = t \<and> pn_shell p \<and> pn_fell_back p
     \<and> (\<exists>x. sv_phase (pn_sup p) = Returned (Inr x))"

lemma stranded_op:
  assumes "stranded org t p" and "se_run_state s = se_run_state (pn_session p)"
    and "se_origin s = se_origin (pn_session p)" and "se_started s = se_started (pn_session p)"
  shows "stranded org t (after_op (r, s, cs) p)"
  using assms by (simp add: stranded_def)

lemma stranded_suspend:
  "se_run_state s = Some ''shell-fallback'' \<Longrightarrow> suspend ob o' s = (r, s', cs) \<Longrightarrow> s' = s"
  by (auto simp: suspend_def Let_def split: if_splits sum.splits)

lemma stranded_automatic:
  "se_run_state s = Some ''shell-fallback'' \<Longrightarrow> suspend_for_automatic ob rc fg s = (r, s', cs) \<Longrightarrow> s' = s"
  by (auto simp: suspend_for_automatic_def Let_def split: if_splits sum.splits)

lemma stranded_resume_locked:
  assumes "resume_locked ob cause s = (r, s', cs)" and "se_run_state s = Some ''shell-fallback''"
  shows "se_run_state s' = se_run_state s" "se_origin s' = se_origin s" "se_started s' = se_started s"
  using assms by (auto simp: resume_locked_def Let_def split: if_splits sum.splits option.splits)

lemma stranded_resume:
  assumes "resume ob cause s = (r, s', cs)" and "se_run_state s = Some ''shell-fallback''"
  shows "se_run_state s' = se_run_state s" "se_origin s' = se_origin s" "se_started s' = se_started s"
  using assms stranded_resume_locked [of ob cause "mark_user_activity (ob_clock ob) s" r s' cs]
  by (auto simp: resume_def mark_user_activity_def split: if_splits)

lemma stranded_focus:
  assumes "focus_session ob fg s = ((r, s', cs), fg')" and "se_run_state s = Some ''shell-fallback''"
  shows "se_run_state s' = se_run_state s" "se_origin s' = se_origin s" "se_started s' = se_started s"
  using assms stranded_resume_locked [of ob FocusResume "mark_user_activity (ob_clock ob) s" r s' cs]
  by (auto simp: focus_session_def mark_user_activity_def split: if_splits sum.splits)

lemma stranded_write:
  assumes "write_input ob fg s = ((r, s', cs), fg')" and "se_run_state s = Some ''shell-fallback''"
  shows "se_run_state s' = se_run_state s" "se_origin s' = se_origin s" "se_started s' = se_started s"
  using assms stranded_resume_locked [of ob FocusResume "mark_user_activity (ob_clock ob) s" _ s' cs]
  by (auto simp: write_input_def mark_user_activity_def split: if_splits sum.splits prod.splits)

lemma stranded_step:
  assumes "stranded org t p"
  shows "stranded org t (pane_step cfg a p)"
proof -
  let ?s = "pn_session p"
  have st: "se_run_state ?s = Some ''shell-fallback''" using assms by (simp add: stranded_def)
  have fg: "stranded org t (p\<lparr>pn_fg := k\<rparr>)" for k using assms by (simp add: stranded_def)
  show ?thesis
  proof (cases a)
    case (DoSuspend ob org')
    obtain r s cs where e: "suspend ob org' ?s = (r, s, cs)" by (metis prod_cases3)
    show ?thesis using stranded_op [OF assms, of s r cs] stranded_suspend [OF st e] by (simp add: DoSuspend e)
  next
    case (DoAutomatic ob rc)
    obtain r s cs where e: "suspend_for_automatic ob rc (pn_fg p) ?s = (r, s, cs)" by (metis prod_cases3)
    show ?thesis using stranded_op [OF assms, of s r cs] stranded_automatic [OF st e] by (simp add: DoAutomatic e)
  next
    case (DoResume ob c)
    obtain r s cs where e: "resume ob c ?s = (r, s, cs)" by (metis prod_cases3)
    show ?thesis using stranded_op [OF assms, of s r cs] stranded_resume [OF e st] by (simp add: DoResume e)
  next
    case (DoFocus ob)
    obtain r s cs k where e: "focus_session ob (pn_fg p) ?s = ((r, s, cs), k)" by (metis surj_pair)
    show ?thesis using stranded_op [OF fg [of k], of s r cs] stranded_focus [OF e st] by (simp add: DoFocus e)
  next
    case (DoWrite ob)
    obtain r s cs k where e: "write_input ob (pn_fg p) ?s = ((r, s, cs), k)" by (metis surj_pair)
    show ?thesis using stranded_op [OF fg [of k], of s r cs] stranded_write [OF e st] by (simp add: DoWrite e)
  qed (use assms in \<open>auto simp: stranded_def sup_step_def\<close>)
qed

interpretation stranded: stepping "pane_step cfg" "stranded org t" for cfg org t
  by unfold_locales (rule stranded_step)

lemma stranded_run: "stranded org t p \<Longrightarrow> stranded org t (pane_run cfg acts p)"
  by (simp add: pane_run_def stranded.run_holds)

text \<open>The interleaving: the agent is launched and reported, a suspension is requested and
  signalled, and the user quits the agent before the supervisor looks at the signal.\<close>

definition fine_meta :: session_meta where
  "fine_meta = \<lparr>sm_name = ''a'', sm_cwd = ''/'', sm_kind = Claude, sm_updated = 0, sm_title = None,
     sm_resume_as_claude = False, sm_resume_as_muse = False, sm_run_state = None, sm_slot = 1\<rparr>"

definition fine_obs :: "nat \<Rightarrow> mgr_obs" where
  "fine_obs t = \<lparr>ob_found = True, ob_current = True, ob_meta = Inr (Some fine_meta), ob_signal_ok = True,
     ob_clock = t, ob_clock' = t,
     ob_recorded = Inr (Some \<lparr>cm_session_id = ''i'', cm_cwd = ''/'', cm_updated = 0, cm_session_file = None, cm_agent_kind = None\<rparr>),
     ob_write_ok = True, ob_still_alive = True\<rparr>"

definition quiet_input :: "poll \<Rightarrow> sup_input" where
  "quiet_input po = \<lparr>in_read = Inr None,
     in_probe = \<lparr>fp_cwd_is_dir = True, fp_opens = True, fp_is_file = True, fp_header = None\<rparr>,
     in_rereads = [], in_minted = [], in_now = 0, in_write_ok = True, in_spawn_ok = True, in_poll = po, in_kill = Emptied\<rparr>"

definition quit_race :: "pane_act \<Rightarrow> nat \<Rightarrow> pane_act list" where
  "quit_race request t =
     [Supervise (quiet_input StillRunning), Deliver (fine_obs t) True, request,
      Supervise (quiet_input (Exit (ExitCode 0))), FallBack, Deliver (fine_obs t) True, ExecShell]"

lemma agent_meta: "is_agent (sm_kind fine_meta)"
  by (simp add: fine_meta_def is_agent_def)

lemma in_order_fine: "in_order (fine_obs t)"
  by (simp add: in_order_def fine_obs_def agent_meta)

lemma launched:
  obtains es where "sup_step cfg (quiet_input po) (supervisor_new False) = (supervisor_new False\<lparr>sv_phase := Running\<rparr>, es)"
    "reports es = [''claude'']"
proof -
  have "fst (sup_step cfg (quiet_input po) (supervisor_new False)) = supervisor_new False\<lparr>sv_phase := Running\<rparr>"
    "reports (snd (sup_step cfg (quiet_input po) (supervisor_new False))) = [''claude'']"
    by (auto simp: sup_step_def at_top_def launch_def supervisor_new_def quiet_input_def pi_recording_defect_def Let_def
        split: prod.splits option.splits)
  then show thesis using that by (metis prod.collapse)
qed

text \<open>The states along the interleaving, one equation per step.\<close>

definition pane_at :: "session \<Rightarrow> supervisor \<Rightarrow> (string \<times> nat) list \<Rightarrow> nat \<Rightarrow> bool \<Rightarrow> bool \<Rightarrow> pane" where
  "pane_at s sv q n fb sh = \<lparr>pn_session = s, pn_sup = sv, pn_queue = q, pn_next_seq = n, pn_fell_back = fb, pn_shell = sh, pn_fg = 0\<rparr>"

lemma pane_at_simps [simp]:
  "pn_session (pane_at s sv q n fb sh) = s" "pn_sup (pane_at s sv q n fb sh) = sv"
  "pn_queue (pane_at s sv q n fb sh) = q" "pn_fell_back (pane_at s sv q n fb sh) = fb"
  "pn_shell (pane_at s sv q n fb sh) = sh" "pn_fg (pane_at s sv q n fb sh) = 0"
  by (simp_all add: pane_at_def)

lemma pane_new_at: "pane_new now None = pane_at (session_new now) (supervisor_new False) [] 1 False False"
  by (simp add: pane_new_def pane_at_def inherit_suspension_def)

lemma enqueue_at: "n < u64_max \<Longrightarrow> enqueue_reports [r] (pane_at s sv q n fb sh) = pane_at s sv (q @ [(r, n)]) (n + 1) fb sh"
  by (simp add: pane_at_def)

lemma step_launch:
  "pane_step cfg (Supervise (quiet_input po)) (pane_at s (supervisor_new False) [] 1 False False)
   = pane_at s (supervisor_new False\<lparr>sv_phase := Running\<rparr>) [(''claude'', 1)] 2 False False"
proof -
  obtain es where e: "sup_step cfg (quiet_input po) (supervisor_new False) = (supervisor_new False\<lparr>sv_phase := Running\<rparr>, es)"
    "reports es = [''claude'']" by (rule launched)
  have "1 < u64_max" by (simp add: u64_max_def)
  from enqueue_at [OF this, of "''claude''" s "supervisor_new False\<lparr>sv_phase := Running\<rparr>" "[]" False False] e show ?thesis
    by (simp add: pane_at_def numeral_2_eq_2)
qed

lemma step_deliver:
  assumes "set_run_state_report ob r n s = (Inr b, s', [])"
  shows "pane_step cfg (Deliver ob True) (pane_at s sv [(r, n)] k fb False) = pane_at s' sv [] k fb False"
  by (simp add: deliver_def assms after_op_def deliver_signals_def Let_def) (simp add: pane_at_def)

lemma step_request:
  assumes "r = (x, s', [Suspend])"
  shows "after_op r (pane_at s sv q k fb sh) = pane_at s' (sv\<lparr>sv_suspend := True\<rparr>) q k fb sh"
  by (simp add: assms after_op_def deliver_signals_def apply_command_def pane_at_def)

lemma step_quit:
  assumes "sv_phase sv = Running"
  shows "pane_step cfg (Supervise (quiet_input (Exit (ExitCode 0)))) (pane_at s sv q k fb sh)
     = pane_at s (sv\<lparr>sv_phase := Returned (Inr CleanExit)\<rparr>) q k fb sh"
  by (simp add: assms sup_step_def wait_poll_def quiet_input_def finish_run_def classify_run_def is_user_quit_def)
     (simp add: pane_at_def)

lemma step_fallback:
  assumes "sv_phase sv = Returned (Inr x)" and "k < u64_max"
  shows "pane_step cfg FallBack (pane_at s sv q k False sh) = pane_at s sv (q @ [(''shell-fallback'', k)]) (k + 1) True sh"
  using enqueue_at [OF assms(2), of "''shell-fallback''" s sv q True sh] by (simp add: assms(1)) (simp add: pane_at_def)

lemma step_exec: "pane_step cfg ExecShell (pane_at s sv q k True sh) = pane_at s sv [] k True True"
  by (simp add: pane_at_def)

lemma report_fine:
  assumes "r = ''claude'' \<or> r = ''shell-fallback''" and "se_seq s < n" and "se_ready s"
  shows "set_run_state_report (fine_obs t) r n s = (Inr True, s\<lparr>se_run_state := Some r, se_seq := n\<rparr>, [])"
proof -
  have "r \<in> set RUN_STATES" "r \<noteq> ''suspended''" "r \<noteq> ''suspend-failed''"
    using assms(1) by (auto simp: RUN_STATES_def)
  with assms(2,3) show ?thesis
    by (simp add: set_run_state_report_def fine_obs_def agent_meta Let_def)
qed

text \<open>A request that claims the session for \<open>org\<close> strands it.\<close>

lemma race_strands:
  assumes "pane_step cfg request (pane_at s1 sv [] 2 False False)
      = pane_at (s1\<lparr>se_origin := org, se_started := u\<rparr>) (sv\<lparr>sv_suspend := True\<rparr>) [] 2 False False"
    and "s1 = (session_new now)\<lparr>se_run_state := Some ''claude'', se_seq := 1\<rparr>"
    and "sv = supervisor_new False\<lparr>sv_phase := Running\<rparr>"
  shows "stranded org u (pane_run cfg (quit_race request t) (pane_new now None))"
proof -
  let ?s2 = "s1\<lparr>se_origin := org, se_started := u\<rparr>" and ?sv2 = "sv\<lparr>sv_suspend := True\<rparr>"
  let ?sv3 = "?sv2\<lparr>sv_phase := Returned (Inr CleanExit)\<rparr>"
  have k: "2 < u64_max" by (simp add: u64_max_def)
  have 1: "set_run_state_report (fine_obs t) ''claude'' 1 (session_new now) = (Inr True, s1, [])"
    using report_fine [of "''claude''" "session_new now" 1 t] by (simp add: assms(2) session_new_def)
  have 2: "set_run_state_report (fine_obs t) ''shell-fallback'' 2 ?s2
      = (Inr True, ?s2\<lparr>se_run_state := Some ''shell-fallback'', se_seq := 2\<rparr>, [])"
    using report_fine [of "''shell-fallback''" ?s2 2 t] by (simp add: assms(2) session_new_def)
  have "pane_run cfg (quit_race request t) (pane_new now None)
     = pane_at (?s2\<lparr>se_run_state := Some ''shell-fallback'', se_seq := 2\<rparr>) ?sv3 [] 3 True True"
    using step_quit [of ?sv2 cfg ?s2 "[]" 2 False False] step_fallback [of ?sv3 CleanExit 2 cfg ?s2 "[]" False] k
      step_deliver [OF 2, of cfg ?sv3 "2 + 1" True] step_exec [of cfg _ ?sv3 "[]" 3 False]
    by (simp only: quit_race_def pane_run_def fold.simps o_apply id_apply pane_new_at step_launch
        step_deliver [OF 1] assms(3) [symmetric] assms(1)) (simp add: assms(3))
  then show ?thesis by (simp add: stranded_def)
qed

lemma race_strands_manual:
  "stranded ManualOrigin 0 (pane_run cfg (quit_race (DoSuspend (fine_obs t) ManualOrigin) t) (pane_new now None))"
proof (rule race_strands [OF _ refl refl])
  let ?s = "(session_new now)\<lparr>se_run_state := Some ''claude'', se_seq := 1\<rparr>"
  have "suspend (fine_obs t) ManualOrigin ?s = (Inr (), ?s\<lparr>se_origin := ManualOrigin, se_started := 0\<rparr>, [Suspend])"
    by (simp add: suspend_def fine_obs_def agent_meta ensure_current_session_def effective_meta_def claim_suspend_def
        session_new_def Let_def)
  from step_request [OF this] show "pane_step cfg (DoSuspend (fine_obs t) ManualOrigin)
      (pane_at ?s (supervisor_new False\<lparr>sv_phase := Running\<rparr>) [] 2 False False)
     = pane_at (?s\<lparr>se_origin := ManualOrigin, se_started := 0\<rparr>)
         (supervisor_new False\<lparr>sv_phase := Running, sv_suspend := True\<rparr>) [] 2 False False"
    by simp
qed

lemma race_strands_automatic:
  assumes "max now 1 + RECENT_USE_MS \<le> t"
  shows "stranded PressureOrigin t
     (pane_run cfg (quit_race (DoAutomatic (fine_obs t) MemoryRecency) t) (pane_new now None))"
proof (rule race_strands [OF _ refl refl])
  let ?s = "(session_new now)\<lparr>se_run_state := Some ''claude'', se_seq := 1\<rparr>"
  have t: "max t (Suc 0) = t" "\<not> t - max now (Suc 0) < RECENT_USE_MS" using assms by auto
  have "suspend_for_automatic (fine_obs t) MemoryRecency 0 ?s
      = (Inr t, ?s\<lparr>se_origin := PressureOrigin, se_started := t\<rparr>, [Suspend])"
    by (simp add: suspend_for_automatic_def fine_obs_def agent_meta ensure_current_session_def effective_meta_def
        claim_suspend_def last_used_ms_def t session_new_def Let_def)
  from step_request [OF this] show "pane_step cfg (DoAutomatic (fine_obs t) MemoryRecency)
      (pane_at ?s (supervisor_new False\<lparr>sv_phase := Running\<rparr>) [] 2 False False)
     = pane_at (?s\<lparr>se_origin := PressureOrigin, se_started := t\<rparr>)
         (supervisor_new False\<lparr>sv_phase := Running, sv_suspend := True\<rparr>) [] 2 False False"
    by simp
qed

lemma guardian_pending: "sd_candidate (guardian_step lv t current budget (Some x) cs) = None"
  by (simp add: guardian_step_def Let_def)

lemma host_pending: "ha_candidate (host_step t decision (Some x) hs) = None"
  by (simp add: host_step_def Let_def split: host_decision.splits)

section \<open>Properties\<close>

text \<open>C3: the daemon's word that an agent is parked is true. In every run of a pane, with
  any interleaving of requests, lost acknowledgements, failing signals and supervisor
  steps, a session that the daemon holds as suspended by someone, confirmed by its
  supervisor, has a supervisor that waits without an agent, and no wake-up on its way.\<close>

theorem suspended_means_parked:
  assumes "proper_suspension su" and "length acts < u64_max"
    and "p = pane_run cfg acts (pane_new now su)"
    and "se_run_state (pn_session p) = Some ''suspended''" and "se_ready (pn_session p)"
    and "se_origin (pn_session p) \<noteq> NoOrigin"
  shows "sv_phase (pn_sup p) = Parked \<and> \<not> sv_resume (pn_sup p)"
  using pane_inv_reachable(1) [OF assms(1,2), of cfg now] coupled_parked assms(3-6)
  unfolding pane_inv_def by blast

definition calm_config :: sup_config where
  "calm_config = \<lparr>sc_agent = AClaude ''s'', sc_cwd = ''/'', sc_max_attempts = 3, sc_slot = None, sc_parse = (\<lambda>_. None)\<rparr>"

definition park_acts :: "pane_act list" where
  "park_acts = [Supervise (quiet_input StillRunning), Deliver (fine_obs 5) True, DoSuspend (fine_obs 5) ManualOrigin,
     Supervise (quiet_input StillRunning), Deliver (fine_obs 5) True]"

lemma park_acts_state:
  "se_run_state (pn_session (pane_run calm_config park_acts (pane_new 5 None))) = Some ''suspended''
   \<and> se_ready (pn_session (pane_run calm_config park_acts (pane_new 5 None)))
   \<and> se_origin (pn_session (pane_run calm_config park_acts (pane_new 5 None))) = ManualOrigin"
proof -
  let ?s1 = "(session_new 5)\<lparr>se_run_state := Some ''claude'', se_seq := 1\<rparr>"
  let ?s2 = "?s1\<lparr>se_origin := ManualOrigin, se_started := 0\<rparr>"
  let ?sv = "supervisor_new False\<lparr>sv_phase := Running\<rparr>"
  have 1: "set_run_state_report (fine_obs 5) ''claude'' 1 (session_new 5) = (Inr True, ?s1, [])"
    using report_fine [of "''claude''" "session_new 5" 1 5] by (simp add: session_new_def)
  have "suspend (fine_obs 5) ManualOrigin ?s1 = (Inr (), ?s2, [Suspend])"
    by (simp add: suspend_def fine_obs_def agent_meta ensure_current_session_def effective_meta_def claim_suspend_def
        session_new_def Let_def)
  note 2 = step_request [OF this, of ?s1 ?sv "[]" 2 False False]
  have 3: "pane_step calm_config (Supervise (quiet_input StillRunning)) (pane_at ?s2 (?sv\<lparr>sv_suspend := True\<rparr>) [] 2 False False)
     = pane_at ?s2 (?sv\<lparr>sv_suspend := False, sv_phase := Parked\<rparr>) [(''suspended'', 2)] 3 False False"
    by (simp add: sup_step_def wait_poll_def quiet_input_def calm_config_def park_def Let_def)
       (simp add: pane_at_def u64_max_def)
  have 4: "set_run_state_report (fine_obs 5) ''suspended'' 2 ?s2
     = (Inr True, ?s2\<lparr>se_run_state := Some ''suspended'', se_seq := 2\<rparr>, [])"
    by (simp add: set_run_state_report_def fine_obs_def agent_meta RUN_STATES_def session_new_def Let_def)
  have "pane_run calm_config park_acts (pane_new 5 None)
     = pane_at (?s2\<lparr>se_run_state := Some ''suspended'', se_seq := 2\<rparr>) (?sv\<lparr>sv_suspend := False, sv_phase := Parked\<rparr>) [] 3 False False"
    by (simp only: park_acts_def pane_run_def fold.simps o_apply id_apply pane_new_at step_launch step_deliver [OF 1]
        pane_step.simps(1) pane_at_simps 2 3 step_deliver [OF 4])
  then show ?thesis by (simp add: session_new_def)
qed

theorem suspended_means_parked_witness:
  "sv_phase (pn_sup (pane_run calm_config park_acts (pane_new 5 None))) = Parked"
  using suspended_means_parked [of None park_acts _ calm_config 5, OF _ _ refl] park_acts_state
  by (simp add: proper_suspension_def park_acts_def u64_max_def)

text \<open>C16: a parked agent can always be woken. From every reachable state with a parked
  supervisor, delivering the queued reports and one manual resume, with a manager that
  finds the session and can signal it, brings the supervisor back to its launch.\<close>

theorem parked_agent_wakeable:
  assumes "proper_suspension su" and "length acts + length (pn_queue p) < u64_max"
    and "p = pane_run cfg acts (pane_new now su)"
    and "sv_phase (pn_sup p) = Parked" and "in_order ob"
  shows "sv_phase (pn_sup (pane_run cfg
           (replicate (length (pn_queue p)) (Deliver ob True) @ [DoResume ob ManualResume, Supervise inp]) p)) = AtTop"
proof -
  let ?ds = "replicate (length (pn_queue p)) (Deliver ob True)"
  let ?p = "pane_run cfg ?ds p"
  have inv: "pane_inv p" "known_reports p" using pane_inv_reachable [OF assms(1), of acts] assms(2,3) by simp_all
  have "\<not> pn_shell p" using inv(1) assms(4) by (auto simp: pane_inv_def)
  from drained [OF assms(5) inv(2) this] have d: "pn_queue ?p = []" "sv_phase (pn_sup ?p) = Parked"
    using assms(4) by simp_all
  have "?p = pane_run cfg (acts @ ?ds) (pane_new now su)" by (simp add: assms(3) pane_run_def)
  then have "pane_inv ?p" using pane_inv_reachable(1) [OF assms(1), of "acts @ ?ds"] assms(2) by simp
  from resume_wakes [OF this d(2,1) assms(5)] show ?thesis by (simp add: pane_run_def)
qed

theorem parked_agent_wakeable_witness:
  "\<exists>acts. sv_phase (pn_sup (pane_run calm_config acts (pane_new 5 (Some (PressureOrigin, 7))))) = AtTop
      \<and> Supervise (quiet_input StillRunning) \<in> set acts"
proof -
  let ?p = "pane_run calm_config [Supervise (quiet_input StillRunning)] (pane_new 5 (Some (PressureOrigin, 7)))"
  have p: "sv_phase (pn_sup ?p) = Parked" "length (pn_queue ?p) = 1"
    by (simp_all add: pane_run_def pane_new_def supervisor_new_def sup_step_def at_top_def)
  from parked_agent_wakeable [of "Some (PressureOrigin, 7)" "[Supervise (quiet_input StillRunning)]" ?p calm_config 5
      "fine_obs 5" "quiet_input StillRunning", OF _ _ refl p(1) in_order_fine] p(2)
  have "sv_phase (pn_sup (pane_run calm_config ([Supervise (quiet_input StillRunning)] @
     (replicate 1 (Deliver (fine_obs 5) True) @ [DoResume (fine_obs 5) ManualResume, Supervise (quiet_input StillRunning)]))
     (pane_new 5 (Some (PressureOrigin, 7))))) = AtTop"
    by (simp add: proper_suspension_def u64_max_def pane_run_def)
  then show ?thesis by fastforce
qed


text \<open>The same race under an automatic suspension stops the guardian. The session counts
  as a suspension that no supervisor has confirmed for as long as it lives, and while
  one is pending neither policy picks a session to park, whatever the pressure.\<close>

theorem quit_race_stalls_guardian:
  "\<exists>acts. let p = pane_run cfg acts (pane_new now None) in
     pn_shell p \<and> (\<forall>more xs ys lv t current budget cs decision hs.
       let pending = pressure_suspend_pending_since (xs @ pn_session (pane_run cfg more p) # ys)
       in sd_candidate (guardian_step lv t current budget pending cs) = None
          \<and> ha_candidate (host_step t decision pending hs) = None)"
proof -
  let ?t = "max now 1 + RECENT_USE_MS"
  let ?p = "pane_run cfg (quit_race (DoAutomatic (fine_obs ?t) MemoryRecency) ?t) (pane_new now None)"
  have s: "stranded PressureOrigin ?t ?p" by (rule race_strands_automatic) simp
  have "\<exists>x. pressure_suspend_pending_since (xs @ pn_session (pane_run cfg more ?p) # ys) = Some x"
    for more xs ys
    using stranded_run [OF s, of cfg more]
    by (auto simp: stranded_def pressure_suspend_pending_since_def split: list.splits)
  then have "sd_candidate (guardian_step lv t current budget
       (pressure_suspend_pending_since (xs @ pn_session (pane_run cfg more ?p) # ys)) cs) = None
     \<and> ha_candidate (host_step t decision
       (pressure_suspend_pending_since (xs @ pn_session (pane_run cfg more ?p) # ys)) hs) = None"
    for more xs ys lv t current budget cs decision hs
    by (metis guardian_pending host_pending)
  moreover have "pn_shell ?p" using s by (simp add: stranded_def)
  ultimately show ?thesis by (auto simp: Let_def)
qed

end
