(* ===== verification/Fanout.thy ===== *)
theory Fanout
  imports Ring Modes
begin

text \<open>
  The output path of a pane (\<^verbatim>\<open>crates/amber/src/pty.rs\<close>): the raw reader, the batcher that
  appends to the scrollback ring, feeds the mode tracker and fans out to bounded
  subscriber queues, subscription with a watermark, and the waiter that closes the
  streams. Every critical section and every \<^verbatim>\<open>try_send\<close> is one step, so the theorems cover
  every interleaving of the threads. \<open>None\<close> is a panic.
\<close>

section \<open>State\<close>

definition SUBSCRIBER_QUEUE_DEPTH :: nat where "SUBSCRIBER_QUEUE_DEPTH = 8"
definition BATCH_MAX_BYTES :: nat where "BATCH_MAX_BYTES = 256 * 1024"
definition READER_CHANNEL_DEPTH :: nat where "READER_CHANNEL_DEPTH = 32"
definition READ_BUFFER :: nat where "READ_BUFFER = 8192"
definition STALL_ROUND_LIMIT :: nat where "STALL_ROUND_LIMIT = 150"
definition ACTIVITY_MIN_INTERVAL_MS :: nat where "ACTIVITY_MIN_INTERVAL_MS = 500"

text \<open>A bounded channel: the frames in flight and whether its receiver still exists.\<close>

record channel =
  ch_queue :: "byte list list"
  ch_receiver :: bool

datatype send_result = Sent | Full | Disconnected

definition try_send :: "byte list \<Rightarrow> channel \<Rightarrow> send_result \<times> channel" where
  "try_send bs ch =
     (if \<not> ch_receiver ch then (Disconnected, ch)
      else if length (ch_queue ch) \<ge> SUBSCRIBER_QUEUE_DEPTH then (Full, ch)
      else (Sent, ch\<lparr>ch_queue := ch_queue ch @ [bs]\<rparr>))"

text \<open>The locals of \<^verbatim>\<open>deliver_chunk\<close>: who is still to be tried in this round, who stays pending.\<close>

record delivery =
  dl_chunk :: "byte list"
  dl_todo :: "nat list"
  dl_kept :: "nat list"
  dl_dead :: "nat list"
  dl_any :: bool
  dl_stalls :: nat

datatype batcher = Waiting | Collecting "byte list" | Delivering delivery | Ended

record stream =
  fo_raw :: "byte list list"
  fo_raw_closed :: bool
  fo_batcher :: batcher
  fo_ring :: ring
  fo_modes :: terminal_modes
  fo_subs :: "nat list"
  fo_chans :: "nat \<Rightarrow> channel"
  fo_next :: nat
  fo_done :: bool
  fo_last_hook :: nat
  fo_hooks :: nat

definition stream_new :: "u64 \<Rightarrow> nat \<Rightarrow> stream" where
  "stream_new ep c = \<lparr>fo_raw = [], fo_raw_closed = False, fo_batcher = Waiting, fo_ring = ring_new ep c,
     fo_modes = modes_new, fo_subs = [], fo_chans = (\<lambda>_. \<lparr>ch_queue = [], ch_receiver = False\<rparr>), fo_next = 0,
     fo_done = False, fo_last_hook = 0, fo_hooks = 0\<rparr>"

section \<open>The raw reader\<close>

text \<open>A read of at most 8 KiB; the send blocks while the channel is full.\<close>

definition read_chunk :: "byte list \<Rightarrow> stream \<Rightarrow> stream" where
  "read_chunk bs s =
     (if bs = [] \<or> length bs > READ_BUFFER \<or> fo_raw_closed s \<or> length (fo_raw s) \<ge> READER_CHANNEL_DEPTH then s
      else s\<lparr>fo_raw := fo_raw s @ [bs]\<rparr>)"

definition read_eof :: "stream \<Rightarrow> stream" where
  "read_eof s = s\<lparr>fo_raw_closed := True\<rparr>"

section \<open>The batcher\<close>

text \<open>\<^verbatim>\<open>chunk_rx.recv()\<close>: the first bytes of a frame, or the end of the stream.\<close>

definition end_stream :: "stream \<Rightarrow> stream" where
  "end_stream s = s\<lparr>fo_done := True, fo_subs := []\<rparr>"

definition open_batch :: "stream \<Rightarrow> stream" where
  "open_batch s =
     (case (fo_batcher s, fo_raw s) of
        (Waiting, c # rest) \<Rightarrow> s\<lparr>fo_raw := rest, fo_batcher := Collecting c\<rparr>
      | (Waiting, []) \<Rightarrow> if fo_raw_closed s then (end_stream s)\<lparr>fo_batcher := Ended\<rparr> else s
      | _ \<Rightarrow> s)"

text \<open>\<^verbatim>\<open>recv_timeout\<close> inside the window, while the frame is below the cap.\<close>

definition extend_batch :: "stream \<Rightarrow> stream" where
  "extend_batch s =
     (case (fo_batcher s, fo_raw s) of
        (Collecting b, c # rest) \<Rightarrow>
          if length b < BATCH_MAX_BYTES then s\<lparr>fo_raw := rest, fo_batcher := Collecting (b @ c)\<rparr> else s
      | _ \<Rightarrow> s)"

text \<open>The window closes: one critical section pushes, feeds and copies the subscriber list.\<close>

definition publish :: "stream \<Rightarrow> stream option" where
  "publish s =
     (case fo_batcher s of
        Collecting b \<Rightarrow>
          (case push b (fo_ring s) of
             None \<Rightarrow> None
           | Some r \<Rightarrow>
               Some (s\<lparr>fo_ring := r, fo_modes := feed (fo_modes s) b,
                       fo_batcher := Delivering \<lparr>dl_chunk = b, dl_todo = fo_subs s, dl_kept = [], dl_dead = [],
                                                 dl_any = False, dl_stalls = 0\<rparr>\<rparr>))
      | _ \<Rightarrow> Some s)"

text \<open>One \<^verbatim>\<open>try_send\<close> of a delivery round.\<close>

definition send_next :: "stream \<Rightarrow> stream" where
  "send_next s =
     (case fo_batcher s of
        Delivering d \<Rightarrow>
          (case dl_todo d of
             [] \<Rightarrow> s
           | i # rest \<Rightarrow>
               (case try_send (dl_chunk d) (fo_chans s i) of
                  (Sent, ch) \<Rightarrow> s\<lparr>fo_chans := (fo_chans s)(i := ch), fo_batcher := Delivering (d\<lparr>dl_todo := rest, dl_any := True\<rparr>)\<rparr>
                | (Full, ch) \<Rightarrow> s\<lparr>fo_batcher := Delivering (d\<lparr>dl_todo := rest, dl_kept := dl_kept d @ [i]\<rparr>)\<rparr>
                | (Disconnected, ch) \<Rightarrow> s\<lparr>fo_batcher := Delivering (d\<lparr>dl_todo := rest, dl_dead := dl_dead d @ [i]\<rparr>)\<rparr>))
      | _ \<Rightarrow> s)"

text \<open>After a delivery: prune, and notify the activity hook at most twice a second.\<close>

definition activity_hook :: "nat \<Rightarrow> stream \<Rightarrow> stream" where
  "activity_hook now s =
     (if fo_last_hook s = 0 \<or> now - fo_last_hook s \<ge> ACTIVITY_MIN_INTERVAL_MS
      then s\<lparr>fo_last_hook := max now 1, fo_hooks := fo_hooks s + 1\<rparr> else s)"

definition finish_delivery :: "nat \<Rightarrow> nat list \<Rightarrow> stream \<Rightarrow> stream" where
  "finish_delivery now dead s =
     activity_hook now (s\<lparr>fo_subs := filter (\<lambda>i. i \<notin> set dead) (fo_subs s), fo_batcher := Waiting\<rparr>)"

text \<open>The end of a round.\<close>

definition end_round :: "nat \<Rightarrow> stream \<Rightarrow> stream" where
  "end_round now s =
     (case fo_batcher s of
        Delivering d \<Rightarrow>
          if dl_todo d \<noteq> [] then s
          else if dl_kept d = [] then finish_delivery now (dl_dead d) s
          else let stalls = (if dl_any d then dl_stalls d + 1 else dl_stalls d) in
               if dl_any d \<and> stalls \<ge> STALL_ROUND_LIMIT then finish_delivery now (dl_dead d @ dl_kept d) s
               else s\<lparr>fo_batcher := Delivering (d\<lparr>dl_todo := dl_kept d, dl_kept := [], dl_stalls := stalls\<rparr>)\<rparr>
      | _ \<Rightarrow> s)"

section \<open>Subscribers\<close>

record subscription =
  sb_id :: nat
  sb_full :: bool
  sb_backlog :: "byte list"
  sb_preamble :: "byte list"
  sb_end :: nat

definition subscribe_from :: "u64 \<Rightarrow> nat \<Rightarrow> stream \<Rightarrow> subscription \<times> stream" where
  "subscribe_from ep offset s =
     (let r = fo_ring s;
          (is_full, backlog) = (if epoch r = ep \<and> ep \<noteq> 0
                                then (case since r offset of Some delta \<Rightarrow> (False, delta) | None \<Rightarrow> (True, snapshot r))
                                else (True, snapshot r));
          preamble = (if is_full then replay_preamble (fo_modes s) else []);
          i = fo_next s
      in (\<lparr>sb_id = i, sb_full = is_full, sb_backlog = backlog, sb_preamble = preamble, sb_end = written r\<rparr>,
          s\<lparr>fo_next := (i + 1) mod 2 ^ 64,
            fo_chans := (fo_chans s)(i := \<lparr>ch_queue = [], ch_receiver = True\<rparr>),
            fo_subs := (if fo_done s then fo_subs s else fo_subs s @ [i])\<rparr>))"

definition subscribe :: "stream \<Rightarrow> subscription \<times> stream" where
  "subscribe s = subscribe_from 0 0 s"

definition unsubscribe :: "nat \<Rightarrow> stream \<Rightarrow> stream" where
  "unsubscribe i s = s\<lparr>fo_subs := filter (\<lambda>j. j \<noteq> i) (fo_subs s)\<rparr>"

text \<open>The receiving end of a subscriber's channel.\<close>

definition recv_frame :: "nat \<Rightarrow> stream \<Rightarrow> stream" where
  "recv_frame i s =
     (let ch = fo_chans s i in
      if ch_receiver ch \<and> ch_queue ch \<noteq> [] then s\<lparr>fo_chans := (fo_chans s)(i := ch\<lparr>ch_queue := tl (ch_queue ch)\<rparr>)\<rparr> else s)"

definition drop_receiver :: "nat \<Rightarrow> stream \<Rightarrow> stream" where
  "drop_receiver i s = s\<lparr>fo_chans := (fo_chans s)(i := (fo_chans s i)\<lparr>ch_receiver := False\<rparr>)\<rparr>"

text \<open>Seeding the ring with persisted history.\<close>

definition preload :: "byte list \<Rightarrow> stream \<Rightarrow> stream option" where
  "preload bs s =
     (case push bs (fo_ring s) of None \<Rightarrow> None | Some r \<Rightarrow> Some (s\<lparr>fo_ring := r, fo_modes := feed (fo_modes s) bs\<rparr>))"

section \<open>Interleavings\<close>

datatype fan_act =
    ReadChunk "byte list" | ReadEof | OpenBatch | ExtendBatch | Publish | SendNext | EndRound nat
  | Subscribe u64 nat | Unsubscribe nat | RecvFrame nat | DropReceiver nat | Teardown | Preload "byte list"

fun fan_step :: "fan_act \<Rightarrow> stream \<Rightarrow> stream option" where
  "fan_step (ReadChunk bs) s = Some (read_chunk bs s)"
| "fan_step ReadEof s = Some (read_eof s)"
| "fan_step OpenBatch s = Some (open_batch s)"
| "fan_step ExtendBatch s = Some (extend_batch s)"
| "fan_step Publish s = publish s"
| "fan_step SendNext s = Some (send_next s)"
| "fan_step (EndRound now) s = Some (end_round now s)"
| "fan_step (Subscribe ep off) s = Some (snd (subscribe_from ep off s))"
| "fan_step (Unsubscribe i) s = Some (unsubscribe i s)"
| "fan_step (RecvFrame i) s = Some (recv_frame i s)"
| "fan_step (DropReceiver i) s = Some (drop_receiver i s)"
| "fan_step Teardown s = Some (end_stream s)"
| "fan_step (Preload bs) s = preload bs s"

text \<open>
  What an outside observer records: all bytes that entered the scrollback, and for each
  subscription the stream offset it started from and the bytes its receiver took.
\<close>

record observer =
  ov_hist :: "byte list"
  ov_base :: "nat \<Rightarrow> nat"
  ov_got :: "nat \<Rightarrow> byte list"

definition observer_new :: observer where
  "observer_new = \<lparr>ov_hist = [], ov_base = (\<lambda>_. 0), ov_got = (\<lambda>_. [])\<rparr>"

definition observe :: "fan_act \<Rightarrow> stream \<Rightarrow> observer \<Rightarrow> observer" where
  "observe a s g =
     (case a of
        Publish \<Rightarrow> (case fo_batcher s of Collecting b \<Rightarrow> g\<lparr>ov_hist := ov_hist g @ b\<rparr> | _ \<Rightarrow> g)
      | Preload bs \<Rightarrow> g\<lparr>ov_hist := ov_hist g @ bs\<rparr>
      | Subscribe _ _ \<Rightarrow> g\<lparr>ov_base := (ov_base g)(fo_next s := length (ov_hist g)), ov_got := (ov_got g)(fo_next s := [])\<rparr>
      | RecvFrame i \<Rightarrow>
          (if ch_receiver (fo_chans s i) \<and> ch_queue (fo_chans s i) \<noteq> []
           then g\<lparr>ov_got := (ov_got g)(i := ov_got g i @ hd (ch_queue (fo_chans s i)))\<rparr> else g)
      | _ \<Rightarrow> g)"

definition world_step :: "fan_act \<Rightarrow> stream \<times> observer \<Rightarrow> (stream \<times> observer) option" where
  "world_step a w = (case w of (s, g) \<Rightarrow> map_option (\<lambda>s'. (s', observe a s g)) (fan_step a s))"

end
