(* ===== verification/FanoutLaws.thy ===== *)
theory FanoutLaws
  imports Fanout
begin

text \<open>
  No byte of a pane's output is lost, repeated or reordered on the way to a subscriber,
  memory stays bounded, and a client that returns with its watermark continues exactly
  where it left off, in every interleaving of the threads.
\<close>

section \<open>The scrollback follows the history\<close>

definition ring_follows :: "nat \<Rightarrow> stream \<Rightarrow> observer \<Rightarrow> bool" where
  "ring_follows c s g \<longleftrightarrow>
     ring_inv (fo_ring s) \<and> cap (fo_ring s) = c \<and> snapshot (fo_ring s) = last_n c (ov_hist g)
     \<and> written (fo_ring s) = sat64 (length (ov_hist g)) \<and> fo_modes s = feed modes_new (ov_hist g)"

lemma feed_twice: "feed m (xs @ ys) = feed (feed m xs) ys"
  by (induction m xs rule: feed.induct) simp_all

lemma push_follows:
  assumes "ring_follows c s g" and "0 < c"
  obtains r where "push b (fo_ring s) = Some r"
    "ring_follows c (s\<lparr>fo_ring := r, fo_modes := feed (fo_modes s) b\<rparr>) (g\<lparr>ov_hist := ov_hist g @ b\<rparr>)"
proof -
  from assms(1) have "ring_inv (fo_ring s)" by (simp add: ring_follows_def)
  from push_spec [OF this, of b] assms obtain r where "push b (fo_ring s) = Some r" "ring_inv r" "cap r = c"
    "written r = sat64 (sat64 (length (ov_hist g)) + length b)" "snapshot r = last_n c (last_n c (ov_hist g) @ b)"
    by (auto simp: ring_follows_def)
  with assms that show thesis by (simp add: ring_follows_def feed_twice sat64_add)
qed

section \<open>The subscribers follow the history\<close>

definition pending_ids :: "batcher \<Rightarrow> nat set" where
  "pending_ids b = (case b of Delivering d \<Rightarrow> set (dl_todo d) \<union> set (dl_kept d) | _ \<Rightarrow> {})"

definition dropped_ids :: "batcher \<Rightarrow> nat set" where
  "dropped_ids b = (case b of Delivering d \<Rightarrow> set (dl_dead d) | _ \<Rightarrow> {})"

definition batch_of :: "batcher \<Rightarrow> byte list" where
  "batch_of b = (case b of Delivering d \<Rightarrow> dl_chunk d | _ \<Rightarrow> [])"


text \<open>What has been handed to the receiving end of subscription \<open>i\<close>, taken or queued.\<close>

definition handed :: "stream \<Rightarrow> observer \<Rightarrow> nat \<Rightarrow> byte list" where
  "handed s g i = ov_got g i @ concat (ch_queue (fo_chans s i))"

definition due :: "observer \<Rightarrow> nat \<Rightarrow> byte list" where
  "due g i = drop (ov_base g i) (ov_hist g)"

definition follows :: "stream \<Rightarrow> observer \<Rightarrow> nat \<Rightarrow> bool" where
  "follows s g i \<longleftrightarrow>
     ov_base g i \<le> length (ov_hist g) \<and> prefix (handed s g i) (due g i)
     \<and> (i \<in> pending_ids (fo_batcher s) \<longrightarrow> handed s g i @ batch_of (fo_batcher s) = due g i)
     \<and> (i \<in> set (fo_subs s) \<and> i \<notin> pending_ids (fo_batcher s) \<and> i \<notin> dropped_ids (fo_batcher s) \<longrightarrow> handed s g i = due g i)"

definition delivery_ok :: "batcher \<Rightarrow> bool" where
  "delivery_ok b = (case b of
     Delivering d \<Rightarrow> distinct (dl_todo d @ dl_kept d) \<and> set (dl_dead d) \<inter> (set (dl_todo d) \<union> set (dl_kept d)) = {}
   | _ \<Rightarrow> True)"

definition ids_ok :: "stream \<Rightarrow> bool" where
  "ids_ok s \<longleftrightarrow>
     distinct (fo_subs s) \<and> (\<forall>i\<in>set (fo_subs s). i < fo_next s)
     \<and> (\<forall>i\<in>pending_ids (fo_batcher s). i < fo_next s)
     \<and> delivery_ok (fo_batcher s)"

definition fan_inv :: "nat \<Rightarrow> stream \<times> observer \<Rightarrow> bool" where
  "fan_inv c w = (case w of (s, g) \<Rightarrow>
     ring_follows c s g \<and> ids_ok s \<and> (\<forall>i < fo_next s. follows s g i))"

lemmas batcher_sets = pending_ids_def dropped_ids_def batch_of_def delivery_ok_def

text \<open>Steps that touch neither the batcher, the subscribers, the channels nor the ring.\<close>

lemma fan_inv_cong:
  assumes "fan_inv c (s, g)"
    and "fo_batcher s' = fo_batcher s \<or> (pending_ids (fo_batcher s') = {} \<and> pending_ids (fo_batcher s) = {} \<and>
          dropped_ids (fo_batcher s) = {})"
    and "set (fo_subs s') \<subseteq> set (fo_subs s)" and "distinct (fo_subs s')" and "fo_chans s' = fo_chans s"
    and "fo_next s' = fo_next s" and "fo_ring s' = fo_ring s" and "fo_modes s' = fo_modes s"
  shows "fan_inv c (s', g)"
proof -
  have "follows s' g i" if "follows s g i" for i
    using that assms(2,3,5) unfolding follows_def handed_def by (auto simp: subset_iff)
  moreover have "ids_ok s'" using assms(1-4,6)
    by (auto simp: fan_inv_def ids_ok_def batcher_sets split: batcher.splits)
  ultimately show ?thesis using assms by (simp add: fan_inv_def ring_follows_def)
qed

lemma fan_inv_publish:
  assumes "fan_inv c (s, g)" and "0 < c"
  shows "\<exists>s'. publish s = Some s' \<and> fan_inv c (s', observe Publish s g)"
proof (cases "fo_batcher s")
  case (Collecting b)
  from assms have rf: "ring_follows c s g" by (simp add: fan_inv_def)
  from push_follows [OF rf assms(2), of b] obtain r where r: "push b (fo_ring s) = Some r"
    "ring_follows c (s\<lparr>fo_ring := r, fo_modes := feed (fo_modes s) b\<rparr>) (g\<lparr>ov_hist := ov_hist g @ b\<rparr>)" by blast
  let ?g = "g\<lparr>ov_hist := ov_hist g @ b\<rparr>"
  let ?s = "s\<lparr>fo_ring := r, fo_modes := feed (fo_modes s) b,
     fo_batcher := Delivering \<lparr>dl_chunk = b, dl_todo = fo_subs s, dl_kept = [], dl_dead = [], dl_any = False, dl_stalls = 0\<rparr>\<rparr>"
  have "follows ?s ?g i" if "i < fo_next s" for i
    using assms(1) that Collecting
    by (auto simp: fan_inv_def follows_def handed_def due_def batcher_sets prefix_def)
  moreover have "ids_ok ?s" using assms(1) by (auto simp: fan_inv_def ids_ok_def batcher_sets)
  moreover have "ring_follows c ?s ?g" using r(2) by (simp add: ring_follows_def)
  ultimately have "fan_inv c (?s, ?g)" by (simp add: fan_inv_def)
  then show ?thesis using r(1) Collecting by (simp add: publish_def observe_def)
qed (use assms in \<open>simp_all add: publish_def observe_def\<close>)

lemma fan_inv_send:
  assumes "fan_inv c (s, g)"
  shows "fan_inv c (send_next s, g)"
proof (cases "\<exists>d i rest. fo_batcher s = Delivering d \<and> dl_todo d = i # rest")
  case True
  then obtain d i rest where d: "fo_batcher s = Delivering d" "dl_todo d = i # rest" by blast
  obtain x ch where t: "try_send (dl_chunk d) (fo_chans s i) = (x, ch)" by fastforce
  have ids: "ids_ok s" and fl: "\<And>j. j < fo_next s \<Longrightarrow> follows s g j" and rf: "ring_follows c s g"
    using assms by (auto simp: fan_inv_def)
  have i: "i < fo_next s" "i \<notin> set rest" "i \<notin> set (dl_kept d)" "i \<notin> set (dl_dead d)"
    using ids d by (auto simp: ids_ok_def batcher_sets)
  have fi: "handed s g i @ dl_chunk d = due g i" using fl [OF i(1)] d by (simp add: follows_def batcher_sets)
  have "ids_ok (send_next s)" using ids d t
    by (cases x) (auto simp: send_next_def ids_ok_def batcher_sets)
  moreover have "follows (send_next s) g j" if "j < fo_next s" for j
  proof (cases "j = i")
    case True
    with fl [OF that] fi i d t show ?thesis
      by (cases x) (auto simp: send_next_def follows_def handed_def batcher_sets try_send_def prefix_def split: if_splits)
  next
    case False
    with fl [OF that] d t show ?thesis
      by (cases x) (auto simp: send_next_def follows_def handed_def batcher_sets)
  qed
  moreover have "ring_follows c (send_next s) g" "fo_next (send_next s) = fo_next s"
    using rf d t by (cases x; simp add: send_next_def ring_follows_def)+
  ultimately show ?thesis by (simp add: fan_inv_def)
next
  case False
  then have "send_next s = s" by (auto simp: send_next_def split: batcher.splits list.splits)
  with assms show ?thesis by simp
qed

lemma fan_inv_finish:
  assumes "fan_inv c (s, g)" and "fo_batcher s = Delivering d" and "dl_todo d = []"
    and "set dead = set (dl_dead d) \<union> set (dl_kept d)"
  shows "fan_inv c (finish_delivery now dead s, g)"
proof -
  have "follows (finish_delivery now dead s) g i" if "follows s g i" for i
    using that assms(2-4) by (auto simp: finish_delivery_def activity_hook_def follows_def handed_def batcher_sets)
  moreover have "ids_ok (finish_delivery now dead s)" using assms(1)
    by (auto simp: finish_delivery_def activity_hook_def fan_inv_def ids_ok_def batcher_sets)
  ultimately show ?thesis using assms(1)
    by (auto simp: fan_inv_def finish_delivery_def activity_hook_def ring_follows_def)
qed

lemma fan_inv_round:
  assumes "fan_inv c (s, g)"
  shows "fan_inv c (end_round now s, g)"
proof (cases "\<exists>d. fo_batcher s = Delivering d \<and> dl_todo d = []")
  case True
  then obtain d where d: "fo_batcher s = Delivering d" "dl_todo d = []" by blast
  let ?st = "if dl_any d then dl_stalls d + 1 else dl_stalls d"
  let ?s = "s\<lparr>fo_batcher := Delivering (d\<lparr>dl_todo := dl_kept d, dl_kept := [], dl_stalls := ?st\<rparr>)\<rparr>"
  consider "end_round now s = finish_delivery now (dl_dead d) s" "dl_kept d = []"
    | "end_round now s = finish_delivery now (dl_dead d @ dl_kept d) s" | "end_round now s = ?s"
  proof (cases "dl_kept d = []")
    case True
    with d that(1) show thesis by (simp add: end_round_def)
  next
    case kept: False
    show thesis
    proof (cases "dl_any d \<and> STALL_ROUND_LIMIT \<le> ?st")
      case True
      with d kept that(2) show thesis by (auto simp: end_round_def Let_def)
    next
      case False
      with d kept that(3) show thesis by (simp add: end_round_def Let_def)
    qed
  qed
  then show ?thesis
  proof cases
    case 1
    with fan_inv_finish [OF assms d, of "dl_dead d" now] show ?thesis by simp
  next
    case 2
    with fan_inv_finish [OF assms d, of "dl_dead d @ dl_kept d" now] show ?thesis by simp
  next
    case 3
    have "follows ?s g i" if "follows s g i" for i
      using that d by (simp add: follows_def handed_def batcher_sets)
    moreover have "ids_ok ?s" using assms d by (auto simp: fan_inv_def ids_ok_def batcher_sets)
    ultimately show ?thesis using assms 3 by (simp add: fan_inv_def ring_follows_def)
  qed
next
  case False
  then have "end_round now s = s" by (auto simp: end_round_def split: batcher.splits)
  with assms show ?thesis by simp
qed

lemma fan_inv_subscribe:
  assumes "fan_inv c (s, g)" and "fo_next s < 2 ^ 64 - 1"
  shows "fan_inv c (snd (subscribe_from ep off s), observe (Subscribe ep off) s g)"
proof -
  let ?s = "snd (subscribe_from ep off s)" and ?g = "observe (Subscribe ep off) s g"
  have s: "fo_next ?s = fo_next s + 1" "fo_batcher ?s = fo_batcher s" "fo_ring ?s = fo_ring s" "fo_modes ?s = fo_modes s"
    "fo_chans ?s = (fo_chans s)(fo_next s := \<lparr>ch_queue = [], ch_receiver = True\<rparr>)"
    "fo_subs ?s = (if fo_done s then fo_subs s else fo_subs s @ [fo_next s])"
    using assms(2) by (simp_all add: subscribe_from_def Let_def split: prod.splits)
  have lt: "\<And>i. i \<in> set (fo_subs s) \<union> pending_ids (fo_batcher s) \<Longrightarrow> i < fo_next s"
    using assms(1) by (auto simp: fan_inv_def ids_ok_def)
  have "follows ?s ?g i" if "i < fo_next s + 1" for i
  proof (cases "i = fo_next s")
    case True
    then have "i \<notin> pending_ids (fo_batcher s)" using lt by blast
    with True s show ?thesis by (simp add: follows_def handed_def due_def observe_def)
  next
    case False
    with that have "follows s g i" using assms(1) by (simp add: fan_inv_def)
    with False s show ?thesis by (auto simp: follows_def handed_def due_def observe_def)
  qed
  moreover have "ids_ok ?s" using assms(1) s lt
    by (auto simp: fan_inv_def ids_ok_def less_Suc_eq)
  ultimately show ?thesis using assms(1) s by (simp add: fan_inv_def ring_follows_def observe_def)
qed

lemma fan_inv_recv:
  assumes "fan_inv c (s, g)"
  shows "fan_inv c (recv_frame i s, observe (RecvFrame i) s g)"
proof -
  have "handed (recv_frame i s) (observe (RecvFrame i) s g) j = handed s g j" for j
    by (cases "ch_queue (fo_chans s i)") (auto simp: handed_def recv_frame_def observe_def Let_def)
  moreover have "due (observe (RecvFrame i) s g) j = due g j" "ov_base (observe (RecvFrame i) s g) j = ov_base g j"
    "ov_hist (observe (RecvFrame i) s g) = ov_hist g" for j
    by (simp_all add: due_def observe_def)
  moreover have "fo_batcher (recv_frame i s) = fo_batcher s" "fo_subs (recv_frame i s) = fo_subs s"
    "fo_next (recv_frame i s) = fo_next s" "fo_ring (recv_frame i s) = fo_ring s" "fo_modes (recv_frame i s) = fo_modes s"
    by (simp_all add: recv_frame_def Let_def)
  ultimately show ?thesis using assms by (simp add: fan_inv_def follows_def ids_ok_def ring_follows_def)
qed

lemma fan_inv_drop:
  assumes "fan_inv c (s, g)"
  shows "fan_inv c (drop_receiver i s, g)"
proof -
  have "handed (drop_receiver i s) g j = handed s g j" for j by (simp add: handed_def drop_receiver_def)
  moreover have "fo_batcher (drop_receiver i s) = fo_batcher s" "fo_subs (drop_receiver i s) = fo_subs s"
    "fo_next (drop_receiver i s) = fo_next s" "fo_ring (drop_receiver i s) = fo_ring s" "fo_modes (drop_receiver i s) = fo_modes s"
    by (simp_all add: drop_receiver_def)
  ultimately show ?thesis using assms by (simp add: fan_inv_def follows_def ids_ok_def ring_follows_def)
qed

lemma fan_inv_preload:
  assumes "fan_inv c (s, g)" and "0 < c" and "fo_next s = 0"
  shows "\<exists>s'. preload bs s = Some s' \<and> fan_inv c (s', observe (Preload bs) s g)"
proof -
  from assms(1) have rf: "ring_follows c s g" by (simp add: fan_inv_def)
  from push_follows [OF rf assms(2), of bs] obtain r where r: "push bs (fo_ring s) = Some r"
    "ring_follows c (s\<lparr>fo_ring := r, fo_modes := feed (fo_modes s) bs\<rparr>) (g\<lparr>ov_hist := ov_hist g @ bs\<rparr>)" by blast
  moreover have "fan_inv c (s\<lparr>fo_ring := r, fo_modes := feed (fo_modes s) bs\<rparr>, g\<lparr>ov_hist := ov_hist g @ bs\<rparr>)"
    using r(2) assms by (simp add: fan_inv_def ids_ok_def)
  ultimately show ?thesis by (simp add: preload_def observe_def)
qed

section \<open>Every step\<close>

definition is_subscribe :: "fan_act \<Rightarrow> bool" where
  "is_subscribe a = (case a of Subscribe _ _ \<Rightarrow> True | _ \<Rightarrow> False)"

definition is_preload :: "fan_act \<Rightarrow> bool" where
  "is_preload a = (case a of Preload _ \<Rightarrow> True | _ \<Rightarrow> False)"

lemma next_same:
  "fan_step a s = Some s' \<Longrightarrow> \<not> is_subscribe a \<Longrightarrow> fo_next s' = fo_next s"
  by (cases a) (auto simp: is_subscribe_def read_chunk_def read_eof_def open_batch_def extend_batch_def publish_def
      send_next_def end_round_def finish_delivery_def activity_hook_def unsubscribe_def recv_frame_def drop_receiver_def
      end_stream_def preload_def Let_def split: if_splits batcher.splits list.splits option.splits prod.splits send_result.splits)

lemma world_step_inv:
  assumes "fan_inv c (s, g)" and "0 < c" and "is_subscribe a \<Longrightarrow> fo_next s < 2 ^ 64 - 1" and "is_preload a \<Longrightarrow> fo_next s = 0"
  shows "\<exists>w. world_step a (s, g) = Some w \<and> fan_inv c w"
proof (cases a)
  case Publish
  with fan_inv_publish [OF assms(1,2)] show ?thesis by (auto simp: world_step_def)
next
  case (Preload bs)
  with fan_inv_preload [OF assms(1,2)] assms(4) show ?thesis by (auto simp: world_step_def is_preload_def)
next
  case (Subscribe ep off)
  with fan_inv_subscribe [OF assms(1)] assms(3) show ?thesis by (auto simp: world_step_def is_subscribe_def)
next
  case SendNext
  with fan_inv_send [OF assms(1)] show ?thesis by (simp add: world_step_def observe_def)
next
  case (EndRound now)
  with fan_inv_round [OF assms(1)] show ?thesis by (simp add: world_step_def observe_def)
next
  case (RecvFrame i)
  with fan_inv_recv [OF assms(1)] show ?thesis by (simp add: world_step_def)
next
  case (DropReceiver i)
  with fan_inv_drop [OF assms(1)] show ?thesis by (simp add: world_step_def observe_def)
next
  case (ReadChunk bs)
  have "fan_inv c (read_chunk bs s, g)"
    by (rule fan_inv_cong [OF assms(1)]) (use assms(1) in \<open>auto simp: read_chunk_def fan_inv_def ids_ok_def\<close>)
  with ReadChunk show ?thesis by (simp add: world_step_def observe_def)
next
  case ReadEof
  have "fan_inv c (read_eof s, g)"
    by (rule fan_inv_cong [OF assms(1)]) (use assms(1) in \<open>auto simp: read_eof_def fan_inv_def ids_ok_def\<close>)
  with ReadEof show ?thesis by (simp add: world_step_def observe_def)
next
  case OpenBatch
  have "fan_inv c (open_batch s, g)"
    by (rule fan_inv_cong [OF assms(1)])
       (use assms(1) in \<open>auto simp: open_batch_def end_stream_def batcher_sets fan_inv_def ids_ok_def
          split: batcher.splits list.splits\<close>)
  with OpenBatch show ?thesis by (simp add: world_step_def observe_def)
next
  case ExtendBatch
  have "fan_inv c (extend_batch s, g)"
    by (rule fan_inv_cong [OF assms(1)])
       (use assms(1) in \<open>auto simp: extend_batch_def batcher_sets fan_inv_def ids_ok_def
          split: batcher.splits list.splits\<close>)
  with ExtendBatch show ?thesis by (simp add: world_step_def observe_def)
next
  case (Unsubscribe i)
  have "fan_inv c (unsubscribe i s, g)"
    by (rule fan_inv_cong [OF assms(1)]) (use assms(1) in \<open>auto simp: unsubscribe_def fan_inv_def ids_ok_def\<close>)
  with Unsubscribe show ?thesis by (simp add: world_step_def observe_def)
next
  case Teardown
  have "fan_inv c (end_stream s, g)"
    by (rule fan_inv_cong [OF assms(1)]) (simp_all add: end_stream_def)
  with Teardown show ?thesis by (simp add: world_step_def observe_def)
qed

lemma fan_inv_new: "c \<le> u64_max \<Longrightarrow> fan_inv c (stream_new ep c, observer_new)"
  by (simp add: fan_inv_def stream_new_def observer_new_def ring_follows_def ring_inv_new ids_ok_def batcher_sets)
     (simp add: ring_new_def)

text \<open>Runs in which scrollback is preloaded only before the first subscription.\<close>

definition preload_first :: "nat \<Rightarrow> fan_act list \<Rightarrow> bool" where
  "preload_first n acts \<longleftrightarrow>
     (\<exists>xs ys. acts = xs @ ys \<and> (n = 0 \<and> (\<forall>a\<in>set xs. \<not> is_subscribe a) \<or> xs = []) \<and> (\<forall>a\<in>set ys. \<not> is_preload a))"

lemma preload_first_Cons:
  assumes "preload_first n (a # acts)"
  shows "is_preload a \<longrightarrow> n = 0" "is_subscribe a \<Longrightarrow> preload_first m acts" "\<not> is_subscribe a \<Longrightarrow> preload_first n acts"
proof -
  from assms obtain xs ys where x: "a # acts = xs @ ys" "n = 0 \<and> (\<forall>a\<in>set xs. \<not> is_subscribe a) \<or> xs = []"
    "\<forall>a\<in>set ys. \<not> is_preload a" by (auto simp: preload_first_def)
  show "is_preload a \<longrightarrow> n = 0" using x by (cases xs) auto
  show "preload_first m acts" if "is_subscribe a"
    using x that unfolding preload_first_def by (cases xs; intro exI [of _ "[]"] exI [of _ acts]) auto
  show "preload_first n acts" if "\<not> is_subscribe a"
  proof (cases xs)
    case Nil
    with x show ?thesis unfolding preload_first_def by (intro exI [of _ "[]"] exI [of _ acts]) auto
  next
    case (Cons b xs')
    with x show ?thesis unfolding preload_first_def by (intro exI [of _ xs'] exI [of _ ys]) auto
  qed
qed

lemma observe_mono:
  "prefix (ov_hist g) (ov_hist (observe a s g))"
  "i < fo_next s \<Longrightarrow> ov_base (observe a s g) i = ov_base g i"
  by (auto simp: observe_def split: fan_act.splits batcher.splits)

lemma next_step:
  assumes "fan_step a s = Some s'" and "fo_next s < 2 ^ 64 - 1"
  shows "fo_next s \<le> fo_next s'" "fo_next s' \<le> fo_next s + 1" "is_subscribe a \<Longrightarrow> fo_next s' = fo_next s + 1"
proof -
  have "fo_next s' = (if is_subscribe a then fo_next s + 1 else fo_next s)"
  proof (cases "is_subscribe a")
    case True
    with assms show ?thesis
      by (cases a) (auto simp: is_subscribe_def subscribe_from_def Let_def split: prod.splits)
  next
    case False
    with next_same [OF assms(1)] show ?thesis by simp
  qed
  then show "fo_next s \<le> fo_next s'" "fo_next s' \<le> fo_next s + 1" "is_subscribe a \<Longrightarrow> fo_next s' = fo_next s + 1" by auto
qed

lemma world_run:
  assumes "fan_inv c (s, g)" and "0 < c" and "fo_next s + length acts < 2 ^ 64" and "preload_first (fo_next s) acts"
  shows "\<exists>s' g'. run_opt world_step acts (s, g) = Some (s', g') \<and> fan_inv c (s', g')
     \<and> prefix (ov_hist g) (ov_hist g') \<and> (\<forall>i < fo_next s. ov_base g' i = ov_base g i) \<and> fo_next s \<le> fo_next s'"
  using assms
proof (induction acts arbitrary: s g)
  case (Cons a acts)
  have n: "fo_next s < 2 ^ 64 - 1" using Cons.prems(3) by simp
  note pf = preload_first_Cons [OF Cons.prems(4)]
  from world_step_inv [OF Cons.prems(1,2), of a] n pf(1) obtain s1 g1 where
    1: "world_step a (s, g) = Some (s1, g1)" "fan_inv c (s1, g1)" by auto
  then have fs: "fan_step a s = Some s1" "g1 = observe a s g" by (auto simp: world_step_def)
  note nx = next_step [OF fs(1) n]
  have "preload_first (fo_next s1) acts"
    using pf(2) [of "fo_next s1"] pf(3) nx next_same [OF fs(1)] by (cases "is_subscribe a") auto
  from Cons.IH [OF 1(2) Cons.prems(2) _ this] Cons.prems(3) nx(2) obtain s2 g2 where
    2: "run_opt world_step acts (s1, g1) = Some (s2, g2)" "fan_inv c (s2, g2)" "prefix (ov_hist g1) (ov_hist g2)"
      "\<forall>i < fo_next s1. ov_base g2 i = ov_base g1 i" "fo_next s1 \<le> fo_next s2" by auto
  have "prefix (ov_hist g) (ov_hist g2)" using observe_mono(1) [of g a s] fs(2) 2(3) prefix_order.trans by blast
  moreover have "ov_base g2 i = ov_base g i" if "i < fo_next s" for i
    using that 2(4) nx(1) observe_mono(2) [OF that, of a g] fs(2) by simp
  ultimately show ?case using 1(1) 2(1,2,5) nx(1) by auto
qed auto

lemma world_run_next:
  assumes "fan_inv c (s, g)" and "0 < c" and "fo_next s + length acts < 2 ^ 64" and "preload_first (fo_next s) acts"
    and "run_opt world_step acts (s, g) = Some (s', g')"
  shows "fan_inv c (s', g') \<and> fo_next s' \<le> fo_next s + length acts"
proof -
  have "fo_next s' \<le> fo_next s + length acts"
    using assms(3,5)
  proof (induction acts arbitrary: s g)
    case (Cons a acts)
    then obtain w where w: "world_step a (s, g) = Some w" "run_opt world_step acts w = Some (s', g')"
      by (auto split: option.splits)
    then obtain t h where t: "fan_step a s = Some t" "run_opt world_step acts (t, h) = Some (s', g')"
      by (auto simp: world_step_def [of a])
    have n: "fo_next s < 2 ^ 64 - 1" using Cons.prems(1) by simp
    from Cons.IH [OF _ t(2)] next_step(2) [OF t(1) n] Cons.prems(1) show ?case by simp
  qed simp
  with world_run [OF assms(1-4)] assms(5) show ?thesis by auto
qed

section \<open>Bounded memory\<close>

definition frame_ok :: "byte list \<Rightarrow> bool" where
  "frame_ok b \<longleftrightarrow> length b < BATCH_MAX_BYTES + READ_BUFFER"

definition fan_bounds :: "stream \<Rightarrow> bool" where
  "fan_bounds s \<longleftrightarrow> ring_inv (fo_ring s)
     \<and> length (fo_raw s) \<le> READER_CHANNEL_DEPTH \<and> (\<forall>b\<in>set (fo_raw s). length b \<le> READ_BUFFER)
     \<and> (case fo_batcher s of Collecting b \<Rightarrow> frame_ok b | Delivering d \<Rightarrow> frame_ok (dl_chunk d) \<and> dl_stalls d < STALL_ROUND_LIMIT | _ \<Rightarrow> True)
     \<and> (\<forall>i. length (ch_queue (fo_chans s i)) \<le> SUBSCRIBER_QUEUE_DEPTH \<and> (\<forall>b\<in>set (ch_queue (fo_chans s i)). frame_ok b))"

lemma frame_ok_read: "length b \<le> READ_BUFFER \<Longrightarrow> frame_ok b"
  by (simp add: frame_ok_def BATCH_MAX_BYTES_def)

lemma fan_bounds_step:
  assumes "fan_bounds s"
  shows "\<exists>s'. fan_step a s = Some s' \<and> fan_bounds s'"
proof -
  have push: "\<exists>r. push b (fo_ring s) = Some r \<and> ring_inv r" for b
    using assms push_spec [of "fo_ring s" b] by (metis fan_bounds_def)
  show ?thesis
  proof (cases a)
    case Publish
    show ?thesis
    proof (cases "fo_batcher s")
      case (Collecting b)
      with assms push [of b] Publish show ?thesis by (auto simp: publish_def fan_bounds_def STALL_ROUND_LIMIT_def)
    qed (use assms Publish in \<open>simp_all add: publish_def\<close>)
  next
    case (Preload bs)
    then show ?thesis using assms push [of bs] by (auto simp: preload_def fan_bounds_def)
  next
    case SendNext
    then show ?thesis using assms
      by (auto simp: send_next_def fan_bounds_def try_send_def split: batcher.splits list.splits prod.splits send_result.splits if_splits)
  next
    case (EndRound now)
    then show ?thesis using assms
      by (auto simp: end_round_def finish_delivery_def activity_hook_def fan_bounds_def Let_def split: batcher.splits)
  next
    case OpenBatch
    then show ?thesis using assms
      by (auto simp: open_batch_def end_stream_def fan_bounds_def frame_ok_read split: batcher.splits list.splits)
  next
    case ExtendBatch
    then show ?thesis using assms
      by (fastforce simp: extend_batch_def fan_bounds_def frame_ok_def split: batcher.splits list.splits)
  next
    case (Subscribe ep off)
    then show ?thesis using assms by (simp add: subscribe_from_def fan_bounds_def Let_def split: prod.splits)
  next
    case (RecvFrame i)
    then show ?thesis using assms by (auto simp: recv_frame_def fan_bounds_def Let_def le_diff_conv le_SucI dest: list.set_sel(2))
  qed (use assms in \<open>auto simp: fan_bounds_def read_chunk_def read_eof_def unsubscribe_def drop_receiver_def end_stream_def\<close>)
qed

interpretation fan: panic_free fan_step "\<lambda>_. True" fan_bounds
  by unfold_locales (rule fan_bounds_step)

section \<open>Subscribing\<close>

lemma subscribe_spec:
  assumes "fan_inv c (s, g)" and "length (ov_hist g) \<le> u64_max" and "subscribe_from ep off s = (sb, s')"
  shows "sb_id sb = fo_next s" "sb_end sb = length (ov_hist g)"
    "sb_full sb \<Longrightarrow> sb_backlog sb = last_n c (ov_hist g)"
    "\<not> sb_full sb \<Longrightarrow> sb_backlog sb = drop off (ov_hist g) \<and> off \<le> length (ov_hist g) \<and> epoch (fo_ring s) = ep"
proof -
  let ?h = "ov_hist g" and ?r = "fo_ring s"
  have r: "ring_inv ?r" "snapshot ?r = last_n c ?h" "written ?r = length ?h" "cap ?r = c"
    using assms(1,2) by (simp_all add: fan_inv_def ring_follows_def)
  have l: "len ?r = min c (length ?h)" using length_snapshot [OF r(1)] r(2) by simp
  have "since ?r off = (if off \<le> length ?h \<and> length ?h - off \<le> c then Some (drop off ?h) else None)"
    using since_snapshot [OF r(1), of off] r(2,3) l last_n_last_n [of "length ?h - off" c ?h] last_n_drop [of off ?h]
    by (auto simp: min_def)
  then show "sb_id sb = fo_next s" "sb_end sb = length ?h"
    "sb_full sb \<Longrightarrow> sb_backlog sb = last_n c ?h"
    "\<not> sb_full sb \<Longrightarrow> sb_backlog sb = drop off ?h \<and> off \<le> length ?h \<and> epoch ?r = ep"
    using assms(3) r(2,3) by (auto simp: subscribe_from_def Let_def split: if_splits option.splits)
qed

section \<open>Properties\<close>



text \<open>C1: a client never loses, repeats or reorders output across attachments. Let a client
  hold text that ends at its watermark, and attach at any moment of any run: what the
  attachment replays (after a reset when it is a full replay) followed by every frame it
  then receives is again a contiguous piece of the pane's output that ends at the new
  watermark. While it stays subscribed with an empty queue between deliveries, it has
  received everything.\<close>

theorem attach_continues_stream:
  assumes "0 < c" and "c \<le> u64_max" and "length acts + length later + 1 < 2 ^ 64"
    and "preload_first 0 acts" and "\<forall>a\<in>set later. \<not> is_preload a"
    and "run_opt world_step acts (stream_new ep0 c, observer_new) = Some (s, g)"
    and "subscribe_from ep off s = (sb, s1)"
    and "epoch (fo_ring s) = ep \<longrightarrow> suffix held (take off (ov_hist g))"
    and "run_opt world_step later (s1, observe (Subscribe ep off) s g) = Some (s2, g2)"
    and "length (ov_hist g2) \<le> u64_max"
  shows "let text = (if sb_full sb then sb_backlog sb else held @ sb_backlog sb) @ ov_got g2 (sb_id sb);
             mark = sb_end sb + length (ov_got g2 (sb_id sb))
         in mark \<le> length (ov_hist g2) \<and> suffix text (take mark (ov_hist g2))
            \<and> (sb_id sb \<in> set (fo_subs s2) \<and> fo_batcher s2 = Waiting \<and> ch_queue (fo_chans s2 (sb_id sb)) = []
                 \<longrightarrow> mark = length (ov_hist g2))"
proof -
  let ?i = "sb_id sb" and ?h = "ov_hist g" and ?h2 = "ov_hist g2"
  have new: "fo_next (stream_new ep0 c) = 0" by (simp add: stream_new_def)
  obtain inv: "fan_inv c (s, g)" and n: "fo_next s \<le> length acts"
    using world_run_next [OF fan_inv_new [OF assms(2)] assms(1), of ep0 acts] assms(3,4,6) new by auto
  have n': "fo_next s < 2 ^ 64 - 1" using n assms(3) by simp
  have inv1: "fan_inv c (s1, observe (Subscribe ep off) s g)"
    using fan_inv_subscribe [OF inv n', of ep off] assms(7) by simp
  have n1: "fo_next s1 = fo_next s + 1" using next_step(3) [of "Subscribe ep off" s s1] assms(7) n' by (simp add: is_subscribe_def)
  have "preload_first (fo_next s1) later" using assms(5) by (auto simp: preload_first_def)
  from world_run [OF inv1 assms(1) _ this] n n1 assms(3,9) have
    2: "fan_inv c (s2, g2)" "prefix (ov_hist (observe (Subscribe ep off) s g)) ?h2"
      "\<forall>i < fo_next s1. ov_base g2 i = ov_base (observe (Subscribe ep off) s g) i" "fo_next s1 \<le> fo_next s2" by auto
  have p: "prefix ?h ?h2" using 2(2) by (simp add: observe_def)
  then have lh: "length ?h \<le> u64_max" using assms(10) prefix_length_le le_trans by blast
  note sub = subscribe_spec [OF inv lh assms(7)]
  have base: "ov_base g2 ?i = length ?h" using 2(3) n1 sub(1) by (simp add: observe_def)
  have f: "follows s2 g2 ?i" using 2(1,4) n1 sub(1) by (simp add: fan_inv_def)
  from f have pre: "prefix (handed s2 g2 ?i) (drop (length ?h) ?h2)" by (simp add: follows_def due_def base)
  then have got: "prefix (ov_got g2 ?i) (drop (length ?h) ?h2)" by (auto simp: handed_def prefix_def)
  then have mark: "length ?h + length (ov_got g2 ?i) \<le> length ?h2" and
    t: "take (length ?h + length (ov_got g2 ?i)) ?h2 = ?h @ ov_got g2 ?i"
    using p by (auto simp: prefix_def)
  have held: "suffix (if sb_full sb then sb_backlog sb else held @ sb_backlog sb) ?h"
  proof (cases "sb_full sb")
    case True
    with sub(3) suffix_last_n show ?thesis by simp
  next
    case False
    with sub(4) assms(8) have "suffix held (take off ?h)" "sb_backlog sb = drop off ?h" by simp_all
    then show ?thesis using False by (auto simp: suffix_def) (metis append.assoc append_take_drop_id)
  qed
  have "handed s2 g2 ?i = drop (length ?h) ?h2" if "?i \<in> set (fo_subs s2)" "fo_batcher s2 = Waiting"
    using f that by (simp add: follows_def due_def base batcher_sets)
  then have caught_up: "length ?h + length (ov_got g2 ?i) = length ?h2"
    if "?i \<in> set (fo_subs s2)" "fo_batcher s2 = Waiting" "ch_queue (fo_chans s2 ?i) = []"
    using that p by (auto simp: handed_def prefix_def)
  show ?thesis
    using mark t held caught_up sub(2) by (auto simp: Let_def suffix_def)
qed

definition demo_acts :: "fan_act list" where
  "demo_acts = [ReadChunk [65], OpenBatch, Publish, EndRound 7]"

definition demo_later :: "fan_act list" where
  "demo_later = [ReadChunk [66], OpenBatch, Publish, SendNext, EndRound 9, RecvFrame 0]"

definition demo_ring :: "byte list \<Rightarrow> nat \<Rightarrow> ring" where
  "demo_ring bs n = \<lparr>cap = 64, buf = \<lparr>items = bs, capacity = n\<rparr>, head = 0, written = length bs, epoch = 1\<rparr>"

lemma demo_push:
  "ring_new 1 64 = demo_ring [] 0"
  "push [65] (demo_ring [] 0) = Some (demo_ring [65] 64)"
  "push [66] (demo_ring [65] 64) = Some (demo_ring [65, 66] 64)"
  by (simp_all add: demo_ring_def ring_new_def vec_new_def push_def reserve_up_to_cap_def vec_reserve_exact_def
      vec_extend_def sat64_def u64_max_def MIN_ALLOC_def Let_def)

lemmas demo_eval = demo_push world_step_def observe_def read_chunk_def open_batch_def publish_def send_next_def
  end_round_def finish_delivery_def activity_hook_def try_send_def recv_frame_def
  READ_BUFFER_def READER_CHANNEL_DEPTH_def SUBSCRIBER_QUEUE_DEPTH_def ACTIVITY_MIN_INTERVAL_MS_def Let_def

definition demo_stream :: "terminal_modes \<Rightarrow> (nat \<Rightarrow> channel) \<Rightarrow> stream" where
  "demo_stream m chans = \<lparr>fo_raw = [], fo_raw_closed = False, fo_batcher = Waiting, fo_ring = demo_ring [65] 64,
     fo_modes = m, fo_subs = [], fo_chans = chans, fo_next = 0, fo_done = False, fo_last_hook = 7, fo_hooks = 1\<rparr>"

lemma demo_first:
  "\<exists>m chans. run_opt world_step demo_acts (stream_new 1 64, observer_new)
     = Some (demo_stream m chans, observer_new\<lparr>ov_hist := [65]\<rparr>)"
  by (simp add: demo_acts_def stream_new_def demo_stream_def observer_new_def demo_eval)

lemma demo_attach:
  "\<exists>sb s1. subscribe_from 0 0 (demo_stream m chans) = (sb, s1)
     \<and> sb_id sb = 0 \<and> sb_full sb \<and> sb_backlog sb = [65] \<and> sb_end sb = 1
     \<and> s1 = (demo_stream m chans)\<lparr>fo_next := 1, fo_subs := [0], fo_chans := chans(0 := \<lparr>ch_queue = [], ch_receiver = True\<rparr>)\<rparr>"
  by (simp add: subscribe_from_def demo_stream_def demo_ring_def snapshot_def Let_def)

lemma demo_second:
  "\<exists>s2 g2. run_opt world_step demo_later
       ((demo_stream m chans)\<lparr>fo_next := 1, fo_subs := [0], fo_chans := chans(0 := \<lparr>ch_queue = [], ch_receiver = True\<rparr>)\<rparr>,
        observe (Subscribe 0 0) (demo_stream m chans) (observer_new\<lparr>ov_hist := [65]\<rparr>)) = Some (s2, g2)
     \<and> ov_hist g2 = [65, 66] \<and> ov_got g2 0 = [66]"
  by (simp add: demo_later_def demo_stream_def observer_new_def demo_eval)

text \<open>One client of a 64-byte pane: \<^verbatim>\<open>A\<close> is replayed when it attaches, \<^verbatim>\<open>B\<close> arrives as a frame.\<close>

theorem attach_continues_stream_witness:
  "\<exists>s g sb s1 s2 g2. run_opt world_step demo_acts (stream_new 1 64, observer_new) = Some (s, g)
     \<and> subscribe_from 0 0 s = (sb, s1)
     \<and> run_opt world_step demo_later (s1, observe (Subscribe 0 0) s g) = Some (s2, g2)
     \<and> sb_backlog sb @ ov_got g2 (sb_id sb) = [65, 66]
     \<and> suffix (sb_backlog sb @ ov_got g2 (sb_id sb)) (take (sb_end sb + length (ov_got g2 (sb_id sb))) (ov_hist g2))"
proof -
  obtain m chans where first: "run_opt world_step demo_acts (stream_new 1 64, observer_new)
     = Some (demo_stream m chans, observer_new\<lparr>ov_hist := [65]\<rparr>)" using demo_first by blast
  obtain sb s1 where att: "subscribe_from 0 0 (demo_stream m chans) = (sb, s1)"
      "sb_id sb = 0" "sb_full sb" "sb_backlog sb = [65]" "sb_end sb = 1"
    and s1: "s1 = (demo_stream m chans)\<lparr>fo_next := 1, fo_subs := [0], fo_chans := chans(0 := \<lparr>ch_queue = [], ch_receiver = True\<rparr>)\<rparr>"
    using demo_attach by blast
  obtain s2 g2 where later: "run_opt world_step demo_later
        (s1, observe (Subscribe 0 0) (demo_stream m chans) (observer_new\<lparr>ov_hist := [65]\<rparr>)) = Some (s2, g2)"
      "ov_hist g2 = [65, 66]" "ov_got g2 0 = [66]"
    unfolding s1 using demo_second by blast
  have "preload_first 0 demo_acts"
    unfolding preload_first_def by (rule exI [of _ demo_acts]) (simp add: demo_acts_def is_subscribe_def)
  then have "suffix (sb_backlog sb @ ov_got g2 (sb_id sb)) (take (sb_end sb + length (ov_got g2 (sb_id sb))) (ov_hist g2))"
    using attach_continues_stream [of 64 demo_acts demo_later 1 _ _ 0 0 sb s1 "[]", OF _ _ _ _ _ first att(1) _ later(1)] att later
    by (simp add: u64_max_def demo_acts_def demo_later_def Let_def is_preload_def)
  with first att later show ?thesis by fastforce
qed

end
