(* ===== verification/LayoutCas.thy ===== *)
theory LayoutCas
  imports LayoutFile Guardian
begin

text \<open>
  Saving the layout sidecar by compare-and-swap under a lock file
  (\<^verbatim>\<open>crates/amber/src/layout_cas.rs\<close>). The writers are processes and threads that share a
  directory: each is a state machine with one step per system call that touches the
  lock or the sidecar, and the steps of all of them interleave freely. A read of either
  file is one step, which \<open>LayoutFileLaws\<close> justifies; temporary files have private names and
  are created in the step that uses them. Any call may fail, and a process may die at
  any moment.
\<close>

section \<open>Owners\<close>

datatype owner_state = Live | Dead | Unknown

text \<open>\<^verbatim>\<open>linux_process_start\<close>: the start time is the twentieth field after the last \<^verbatim>\<open>") "\<close>.\<close>

fun after_last :: "string \<Rightarrow> string \<Rightarrow> string option" where
  "after_last p [] = None"
| "after_last p (c # cs) =
     (case after_last p cs of
        Some r \<Rightarrow> Some r
      | None \<Rightarrow> if starts_with p (c # cs) then Some (drop (length p) (c # cs)) else None)"

definition linux_process_start :: "string \<Rightarrow> string option" where
  "linux_process_start t =
     (case after_last '') '' t of
        None \<Rightarrow> None
      | Some rest \<Rightarrow>
          let fs = words rest in
          if 19 < length fs \<and> list_all ascii_digit (fs ! 19) then Some (''linux:'' @ fs ! 19) else None)"

text \<open>\<open>Inl ()\<close> is an error, \<open>Inr None\<close> that there is no such process.\<close>

definition process_start_identity :: "os_error + byte list \<Rightarrow> unit + string option" where
  "process_start_identity stat =
     (case stat of
        Inr bytes \<Rightarrow> (case from_utf8 bytes of None \<Rightarrow> Inl () | Some t \<Rightarrow> Inr (linux_process_start t))
      | Inl ENotFound \<Rightarrow> Inr None
      | Inl _ \<Rightarrow> Inl ())"

definition unknown_start :: "string \<Rightarrow> bool" where
  "unknown_start s \<longleftrightarrow> s = ''unknown'' \<or> starts_with ''unknown:'' s"

definition current_process_start :: "nat \<Rightarrow> unit + string option \<Rightarrow> string" where
  "current_process_start p identity =
     (case identity of Inr (Some s) \<Rightarrow> s | _ \<Rightarrow> ''unknown:'' @ dec_text p)"

definition owner_state :: "lock_record \<Rightarrow> unit + string option \<Rightarrow> owner_state" where
  "owner_state r identity =
     (case identity of
        Inl _ \<Rightarrow> Unknown
      | Inr i \<Rightarrow>
          if unknown_start (lr_start r) then Unknown
          else (case i of None \<Rightarrow> Dead | Some s \<Rightarrow> if s = lr_start r then Live else Dead))"

definition lock_owner :: "lock_snapshot \<Rightarrow> lock_record option" where
  "lock_owner s = (case ls_record s of Some r \<Rightarrow> Some r | None \<Rightarrow> parse_legacy_owner (ls_text s))"

text \<open>Tokens: the process id in the upper half, a counter mixed with the clock in the lower.\<close>

definition random_token :: "64 word \<Rightarrow> 64 word \<Rightarrow> 64 word \<Rightarrow> 128 word" where
  "random_token p count nanos = push_bit 64 (ucast p) OR ucast (count XOR nanos)"

definition token_text :: "128 word \<Rightarrow> string" where
  "token_text w = map (\<lambda>i. hex_digit (unat (drop_bit (4 * (31 - i)) w) mod 16)) [0 ..< 32]"

section \<open>The shared directory\<close>

text \<open>
  Which file the lock path names, the text and the change time of every lock file ever
  prepared, and the content of the sidecar. The change time of a file moves with its
  number of links.
\<close>

record shared =
  sh_lock :: "nat option"
  sh_text :: "nat \<Rightarrow> string"
  sh_ctime :: "nat \<Rightarrow> nat"
  sh_next :: nat
  sh_layout :: "string option"

definition stat_of :: "shared \<Rightarrow> nat \<Rightarrow> file_meta" where
  "stat_of sh i = \<lparr>fm_symlink = False, fm_regular = True, fm_len = length (sh_text sh i), fm_modified = 0,
     fm_file = i, fm_ctime = sh_ctime sh i\<rparr>"

definition touch :: "nat \<Rightarrow> shared \<Rightarrow> shared" where
  "touch i sh = sh\<lparr>sh_ctime := (sh_ctime sh)(i := sh_ctime sh i + 1)\<rparr>"

text \<open>A lock read that succeeds: the file at its last \<^verbatim>\<open>lstat\<close>.\<close>

definition lock_at :: "shared \<Rightarrow> lock_snapshot option" where
  "lock_at sh =
     (case sh_lock sh of
        None \<Rightarrow> None
      | Some i \<Rightarrow> Some \<lparr>ls_record = parse_lock_record (sh_text sh i), ls_text = sh_text sh i, ls_meta = stat_of sh i\<rparr>)"

section \<open>A writer\<close>

datatype save_result = SaveOk string | Conflict "string option" "string option" | SaveError string

text \<open>
  Where a call of \<^verbatim>\<open>save\<close> is: before the lock (\<open>Entering\<close> to \<open>Waiting\<close>), between the publication
  of its lock file and the guard's creation (\<open>Cleaning\<close>, \<open>Stamping\<close>), holding the guard with the
  metadata it recorded (\<open>Comparing\<close> to \<open>Dropping\<close>), or returned.
\<close>

datatype cas_phase =
    Entering | Preparing | Publishing nat | Inspecting | Probing lock_snapshot lock_record
  | Reclaiming lock_snapshot | Unlinking | Waiting
  | Cleaning nat | Stamping nat
  | Comparing file_meta | Replacing file_meta | Syncing file_meta
  | Releasing file_meta save_result | Dropping file_meta save_result
  | Finished save_result | Gone

record cas_client =
  cc_record :: lock_record
  cc_text :: string
  cc_expected :: "string option"
  cc_phase :: cas_phase

text \<open>What the environment decides about a step: its call fails, the waiting time is over.\<close>

record cas_input =
  ci_fault :: "string option"
  ci_expired :: bool

datatype cas_event = Replaced "string option" string

definition refused :: "cas_input \<Rightarrow> bool" where
  "refused inp \<longleftrightarrow> ci_fault inp \<noteq> None"

definition fault_text :: "cas_input \<Rightarrow> string" where
  "fault_text inp = (case ci_fault inp of Some e \<Rightarrow> e | None \<Rightarrow> [])"

definition cas_step :: "cas_input \<Rightarrow> (nat \<Rightarrow> string option) \<Rightarrow> shared \<Rightarrow> cas_client \<Rightarrow> shared \<times> cas_client \<times> cas_event list" where
  "cas_step inp procs sh c =
     (let go = (\<lambda>ph. (sh, c\<lparr>cc_phase := ph\<rparr>, []));
          bad = refused inp
      in case cc_phase c of
        Entering \<Rightarrow>
          if length (cc_text c) > LAYOUT_FILE_MAX_BYTES then go (Finished (SaveError ''LAYOUT_FILE_LIMIT''))
          else if bad then go (Finished (SaveError (fault_text inp)))
          else go Preparing
      | Preparing \<Rightarrow>
          if bad then go (Finished (SaveError (fault_text inp)))
          else (sh\<lparr>sh_text := (sh_text sh)(sh_next sh := format_lock_record (cc_record c)), sh_next := sh_next sh + 1\<rparr>,
                c\<lparr>cc_phase := Publishing (sh_next sh)\<rparr>, [])
      | Publishing i \<Rightarrow>
          if bad then go (Finished (SaveError (fault_text inp)))
          else (case sh_lock sh of
                  Some _ \<Rightarrow> go Inspecting
                | None \<Rightarrow> (touch i (sh\<lparr>sh_lock := Some i\<rparr>), c\<lparr>cc_phase := Cleaning i\<rparr>, []))
      | Cleaning i \<Rightarrow> (if bad then sh else touch i sh, c\<lparr>cc_phase := Stamping i\<rparr>, [])
      | Stamping i \<Rightarrow>
          (case (bad, sh_lock sh) of
             (False, Some j) \<Rightarrow> go (Comparing (stat_of sh j))
           | _ \<Rightarrow> go (Finished (SaveError (fault_text inp))))
      | Inspecting \<Rightarrow>
          (case (bad, lock_at sh) of
             (False, Some s) \<Rightarrow> (case lock_owner s of Some r \<Rightarrow> go (Probing s r) | None \<Rightarrow> go Waiting)
           | _ \<Rightarrow> go Waiting)
      | Probing s r \<Rightarrow>
          if owner_state r (if bad then Inl () else Inr (procs (lr_pid r))) = Dead then go (Reclaiming s) else go Waiting
      | Reclaiming s \<Rightarrow>
          (case (bad, lock_at sh) of
             (False, Some cur) \<Rightarrow>
               if ls_record cur = ls_record s \<and> ls_text cur = ls_text s \<and> same_lock_metadata (ls_meta cur) (ls_meta s)
               then go Unlinking else go Preparing
           | _ \<Rightarrow> go Preparing)
      | Unlinking \<Rightarrow> (if bad then sh else sh\<lparr>sh_lock := None\<rparr>, c\<lparr>cc_phase := Preparing\<rparr>, [])
      | Waiting \<Rightarrow> if ci_expired inp then go (Finished (SaveError ''LAYOUT_LOCK_TIMEOUT'')) else go Preparing
      | Comparing m \<Rightarrow>
          if bad then go (Releasing m (SaveError (fault_text inp)))
          else if sh_layout sh \<noteq> cc_expected c then go (Releasing m (Conflict (sh_layout sh) (sh_layout sh)))
          else go (Replacing m)
      | Replacing m \<Rightarrow>
          if bad then go (Releasing m (SaveError (fault_text inp)))
          else (sh\<lparr>sh_layout := Some (cc_text c)\<rparr>, c\<lparr>cc_phase := Syncing m\<rparr>, [Replaced (sh_layout sh) (cc_text c)])
      | Syncing m \<Rightarrow> go (Releasing m (if bad then SaveError (fault_text inp) else SaveOk (cc_text c)))
      | Releasing m r \<Rightarrow>
          (case (bad, lock_at sh) of
             (False, Some cur) \<Rightarrow>
               if ls_record cur = Some (cc_record c) \<and> ls_text cur = format_lock_record (cc_record c)
                  \<and> same_lock_metadata (ls_meta cur) m
               then go (Dropping m r) else go (Finished r)
           | _ \<Rightarrow> go (Finished r))
      | Dropping m r \<Rightarrow> (if bad then sh else sh\<lparr>sh_lock := None\<rparr>, c\<lparr>cc_phase := Finished r\<rparr>, [])
      | Finished _ \<Rightarrow> go (cc_phase c)
      | Gone \<Rightarrow> go Gone)"

section \<open>All writers\<close>

record cas_world =
  cw_shared :: shared
  cw_procs :: "nat \<Rightarrow> string option"
  cw_clients :: "cas_client list"

datatype cas_act = Act nat cas_input | Die nat

definition die :: "nat \<Rightarrow> cas_client \<Rightarrow> cas_client" where
  "die p c = (if lr_pid (cc_record c) = p then c\<lparr>cc_phase := Gone\<rparr> else c)"

fun cas_do :: "cas_act \<Rightarrow> cas_world \<Rightarrow> cas_world \<times> (nat \<times> cas_event) list" where
  "cas_do (Act k inp) w =
     (if k < length (cw_clients w)
      then let (sh, c, es) = cas_step inp (cw_procs w) (cw_shared w) (cw_clients w ! k)
           in (w\<lparr>cw_shared := sh, cw_clients := (cw_clients w)[k := c]\<rparr>, map (Pair k) es)
      else (w, []))"
| "cas_do (Die p) w =
     (w\<lparr>cw_procs := (cw_procs w)(p := None), cw_clients := map (die p) (cw_clients w)\<rparr>, [])"

definition cas_run :: "cas_act list \<Rightarrow> cas_world \<Rightarrow> cas_world \<times> (nat \<times> cas_event) list" where
  "cas_run = run_trace cas_do"

end
