(* ===== verification/LayoutFileLaws.thy ===== *)
theory LayoutFileLaws
  imports LayoutFile "HOL-Library.Multiset"
begin

text \<open>
  What the reads and the lock records promise: a successful read of the sidecar or of
  its lock is the file at one moment, and the record parser accepts exactly the records
  of the protocol.
\<close>

section \<open>A changing file system\<close>

text \<open>
  At each moment a path names a file or nothing, a file has metadata and bytes. The law
  is the documented one of \<^verbatim>\<open>stat(2)\<close>: the metadata carry the file's identity and length, and
  a file whose metadata are the same at two moments was not written in between.
\<close>

record world =
  wo_path :: "nat \<Rightarrow> nat option"
  wo_stat :: "nat \<Rightarrow> nat \<Rightarrow> file_meta"
  wo_data :: "nat \<Rightarrow> nat \<Rightarrow> byte list"

definition stat_law :: "world \<Rightarrow> bool" where
  "stat_law w \<longleftrightarrow>
     (\<forall>t i. fm_file (wo_stat w t i) = i \<and> fm_len (wo_stat w t i) = length (wo_data w t i))
     \<and> (\<forall>i s u t. s \<le> u \<longrightarrow> u \<le> t \<longrightarrow> same_metadata (wo_stat w s i) (wo_stat w t i) \<longrightarrow>
          wo_data w u i = wo_data w s i)"

text \<open>A call sees the world of its moment, or fails with another error.\<close>

definition seen :: "os_error + 'a \<Rightarrow> os_error + 'a \<Rightarrow> bool" where
  "seen got there \<longleftrightarrow> got = there \<or> (\<exists>e. got = Inl e \<and> e \<noteq> ENotFound)"

definition lstat_at :: "world \<Rightarrow> nat \<Rightarrow> os_error + file_meta" where
  "lstat_at w t = (case wo_path w t of None \<Rightarrow> Inl ENotFound | Some i \<Rightarrow> Inr (wo_stat w t i))"

definition open_at :: "world \<Rightarrow> nat \<Rightarrow> os_error + nat" where
  "open_at w t = (case wo_path w t of None \<Rightarrow> Inl ENotFound | Some i \<Rightarrow> Inr i)"

fun reads_at :: "(nat \<Rightarrow> byte list) \<Rightarrow> nat \<Rightarrow> nat list \<Rightarrow> (os_error + byte list) list \<Rightarrow> bool" where
  "reads_at d off [] rs = (rs = [])"
| "reads_at d off (t # ts) rs =
     (case rs of
        [] \<Rightarrow> True
      | Inl e # _ \<Rightarrow> True
      | Inr bs # rest \<Rightarrow>
          bs = take (length bs) (drop off (d t)) \<and> (bs = [] \<longrightarrow> length (d t) \<le> off)
          \<and> reads_at d (off + length bs) ts rest)"

text \<open>The moments of the calls of one read.\<close>

record moments =
  mo_initial :: nat
  mo_open :: nat
  mo_before :: nat
  mo_reads :: "nat list"
  mo_after :: nat
  mo_path_after :: nat

definition observed :: "world \<Rightarrow> moments \<Rightarrow> read_obs \<Rightarrow> bool" where
  "observed w m ob \<longleftrightarrow>
     sorted ([mo_initial m, mo_open m, mo_before m] @ mo_reads m @ [mo_after m, mo_path_after m])
     \<and> seen (ro_initial ob) (lstat_at w (mo_initial m)) \<and> seen (ro_open ob) (open_at w (mo_open m))
     \<and> seen (ro_path_after ob) (lstat_at w (mo_path_after m))
     \<and> (\<forall>i. ro_open ob = Inr i \<longrightarrow>
          seen (ro_before ob) (Inr (wo_stat w (mo_before m) i))
          \<and> reads_at (\<lambda>t. wo_data w t i) 0 (mo_reads m) (ro_reads ob)
          \<and> seen (ro_after ob) (Inr (wo_stat w (mo_after m) i)))"

lemma seen_Inr: "seen (Inr x) y \<longleftrightarrow> y = Inr x"
  by (auto simp: seen_def)

lemma seen_not_found: "seen (Inl ENotFound) y \<longleftrightarrow> y = Inl ENotFound"
  by (auto simp: seen_def)

lemma lstat_at_simps:
  "lstat_at w t = Inr m \<longleftrightarrow> (\<exists>i. wo_path w t = Some i \<and> m = wo_stat w t i)"
  "lstat_at w t = Inl ENotFound \<longleftrightarrow> wo_path w t = None"
  "open_at w t = Inr i \<longleftrightarrow> wo_path w t = Some i"
  "open_at w t = Inl ENotFound \<longleftrightarrow> wo_path w t = None"
  by (auto simp: lstat_at_def open_at_def split: option.splits)

lemmas call_simps = seen_Inr seen_not_found lstat_at_simps

lemma same_metadata_sym: "same_metadata a b \<longleftrightarrow> same_metadata b a"
  by (auto simp: same_metadata_def same_file_def)

lemma same_lock_metadata_eq: "same_lock_metadata a b \<longleftrightarrow> same_metadata a b"
  by (auto simp: same_lock_metadata_def same_metadata_def same_file_def)

section \<open>Reads of an unchanged file\<close>

text \<open>While the bytes stay the same, the loops collect a prefix of them.\<close>

lemma take_step: "acc = take (length acc) x \<Longrightarrow> bs = take (length bs) (drop (length acc) x) \<Longrightarrow>
    acc @ bs = take (length (acc @ bs)) x"
  by (metis length_append take_add)

lemma reads_at_cons:
  "reads_at d off ts (Inr bs # rs) \<Longrightarrow> \<forall>t\<in>set ts. d t = x \<Longrightarrow>
    \<exists>ts'. reads_at d (off + length bs) ts' rs \<and> (\<forall>t\<in>set ts'. d t = x) \<and> bs = take (length bs) (drop off x)"
  by (cases ts) auto

lemma read_bounded_bytes_take:
  "reads_at d (length acc) ts rs \<Longrightarrow> \<forall>t\<in>set ts. d t = x \<Longrightarrow> acc = take (length acc) x \<Longrightarrow>
    read_bounded_bytes acc rs = Inr bytes \<Longrightarrow> bytes = take (length bytes) x"
proof (induction acc rs arbitrary: ts rule: read_bounded_bytes.induct)
  case (3 acc bs rs)
  from reads_at_cons [OF 3(2,3)] obtain ts' where
    r: "reads_at d (length (acc @ bs)) ts' rs" "\<forall>t\<in>set ts'. d t = x" "bs = take (length bs) (drop (length acc) x)"
    by auto
  from 3(5) consider "bs = []" "bytes = acc"
    | "bs \<noteq> []" "\<not> LAYOUT_FILE_MAX_BYTES < length (acc @ bs)" "read_bounded_bytes (acc @ bs) rs = Inr bytes"
    by (auto split: if_splits)
  then show ?case
  proof cases
    case 1
    with 3(4) show ?thesis by simp
  next
    case 2
    from 3(1) [OF 2(1,2) r(1,2) take_step [OF 3(4) r(3)] 2(3)] show ?thesis .
  qed
qed auto

lemma read_lock_bytes_take:
  "reads_at d (length acc) ts rs \<Longrightarrow> \<forall>t\<in>set ts. d t = x \<Longrightarrow> acc = take (length acc) x \<Longrightarrow>
    read_lock_bytes acc rs = Inr bytes \<Longrightarrow> bytes = take (length bytes) x"
proof (induction acc rs arbitrary: ts rule: read_lock_bytes.induct)
  case (1 acc)
  then show ?case by (auto split: if_splits)
next
  case (2 acc r rs)
  from 2(5) consider "bytes = acc"
    | bs where "r = Inr bs" "\<not> LOCK_RECORD_MAX_BYTES + 1 \<le> length acc" "bs \<noteq> []" "read_lock_bytes (acc @ bs) rs = Inr bytes"
    by (auto split: if_splits sum.splits)
  then show ?case
  proof cases
    case 1
    with 2(4) show ?thesis by simp
  next
    case bs: 2
    from reads_at_cons [OF 2(2) [unfolded bs(1)] 2(3)] obtain ts' where
      r: "reads_at d (length (acc @ bs)) ts' rs" "\<forall>t\<in>set ts'. d t = x" "bs = take (length bs) (drop (length acc) x)"
      by auto
    from 2(1) [OF bs(2,1,3) r(1,2) take_step [OF 2(4) r(3)] bs(4)] show ?thesis .
  qed
qed

lemma between_reads:
  assumes "stat_law w" and "observed w m ob" and "ro_open ob = Inr i"
    and "same_metadata (wo_stat w (mo_before m) i) (wo_stat w (mo_after m) i)"
  shows "\<forall>t\<in>set (mo_reads m). wo_data w t i = wo_data w (mo_before m) i"
    and "wo_data w (mo_after m) i = wo_data w (mo_before m) i"
proof -
  have o: "sorted ([mo_initial m, mo_open m, mo_before m] @ mo_reads m @ [mo_after m, mo_path_after m])"
    using assms(2) by (simp add: observed_def)
  then have "\<forall>t\<in>set (mo_reads m). mo_before m \<le> t \<and> t \<le> mo_after m" and ba: "mo_before m \<le> mo_after m"
    by (auto simp: sorted_append)
  with assms(1,4) show "\<forall>t\<in>set (mo_reads m). wo_data w t i = wo_data w (mo_before m) i"
    unfolding stat_law_def by blast
  from ba assms(1,4) show "wo_data w (mo_after m) i = wo_data w (mo_before m) i"
    unfolding stat_law_def by (meson order_refl)
qed

lemma still_there:
  assumes "stat_law w" and "observed w m ob" and "wo_path w (mo_path_after m) = Some j"
    and "same_metadata (wo_stat w (mo_after m) i) (wo_stat w (mo_path_after m) j)"
  shows "j = i" and "wo_data w (mo_path_after m) i = wo_data w (mo_after m) i"
proof -
  show j: "j = i" using assms(1,4) unfolding stat_law_def same_metadata_def same_file_def by metis
  have "mo_after m \<le> mo_path_after m" using assms(2) by (auto simp: observed_def sorted_append)
  with assms(1,4) j show "wo_data w (mo_path_after m) i = wo_data w (mo_after m) i"
    unfolding stat_law_def by (meson order_refl)
qed

lemma from_utf8_text: "from_utf8 bs = Some t \<Longrightarrow> bytes_of t = bs"
proof -
  assume "from_utf8 bs = Some t"
  then have "t = string_of_bytes bs" by (auto simp: from_utf8_def split: option.splits)
  moreover have "word_of_nat (of_char (char_of (unat b) :: char)) = b" for b :: byte
    using unsigned_less [of b, where ?'a = nat] by (simp add: of_char_of)
  ultimately show ?thesis by (simp add: string_of_bytes_def bytes_of_def comp_def)
qed

section \<open>Reads are snapshots\<close>

lemma read_result_cases:
  assumes "read_bounded_regular_file ob = Inr (Some t)"
  obtains i b a p bytes where "ro_open ob = Inr i" "ro_before ob = Inr b" "read_bounded_bytes [] (ro_reads ob) = Inr bytes"
    "ro_after ob = Inr a" "ro_path_after ob = Inr p" "length bytes = fm_len b" "same_metadata a b" "same_metadata p a"
    "fm_regular p" "\<not> fm_symlink p" "from_utf8 bytes = Some t" "length bytes \<le> LAYOUT_FILE_MAX_BYTES"
  using assms unfolding read_bounded_regular_file_def open_regular_def initial_metadata_def
  by (auto split: sum.splits option.splits if_splits os_error.splits)

lemma read_lock_cases:
  assumes "read_lock ob = Inr (Some s)"
  obtains i b a p bytes where "ro_open ob = Inr i" "ro_before ob = Inr b" "read_lock_bytes [] (ro_reads ob) = Inr bytes"
    "ro_after ob = Inr a" "ro_path_after ob = Inr p" "length bytes = fm_len b" "same_metadata b a" "same_metadata a p"
    "\<not> fm_symlink p" "from_utf8 bytes = Some (ls_text s)" "ls_record s = parse_lock_record (ls_text s)" "ls_meta s = p"
    "length bytes \<le> LOCK_RECORD_MAX_BYTES"
  using assms unfolding read_lock_def same_lock_metadata_eq
  by (auto split: sum.splits option.splits if_splits os_error.splits)

lemma snapshot_at_end:
  assumes law: "stat_law w" and obs: "observed w m ob"
    and calls: "ro_open ob = Inr i" "ro_before ob = Inr b" "ro_after ob = Inr a" "ro_path_after ob = Inr p"
    and same: "same_metadata b a" "same_metadata a p"
    and take: "\<And>x. reads_at (\<lambda>t. wo_data w t i) 0 (mo_reads m) (ro_reads ob) \<Longrightarrow>
      \<forall>t\<in>set (mo_reads m). wo_data w t i = x \<Longrightarrow> bytes = take (length bytes) x" and len: "length bytes = fm_len b"
  shows "wo_path w (mo_path_after m) = Some i \<and> wo_data w (mo_path_after m) i = bytes \<and> p = wo_stat w (mo_path_after m) i"
proof -
  from obs calls have at: "b = wo_stat w (mo_before m) i" "a = wo_stat w (mo_after m) i"
    "reads_at (\<lambda>t. wo_data w t i) 0 (mo_reads m) (ro_reads ob)"
    by (auto simp: observed_def call_simps)
  from obs calls obtain j where j: "wo_path w (mo_path_after m) = Some j" "p = wo_stat w (mo_path_after m) j"
    by (auto simp: observed_def call_simps)
  note there = still_there [OF law obs j(1)] and still = between_reads [OF law obs calls(1)]
  have "bytes = take (length bytes) (wo_data w (mo_before m) i)" using take [OF at(3)] still(1) same(1) at by blast
  moreover have "length bytes = length (wo_data w (mo_before m) i)" using len law at by (simp add: stat_law_def)
  ultimately have "bytes = wo_data w (mo_before m) i" by simp
  with there still(2) same at j show ?thesis by metis
qed

text \<open>C21: a read of the sidecar is atomic. Whatever other processes do to the path and to the
  files behind it between any two system calls of a read, text that is returned is the
  complete content, at one moment of the read, of a regular file that the path named at
  that moment, and it respects the size limit. "Absent" is only answered when the path
  named nothing at some moment.\<close>

theorem sidecar_read_atomic:
  assumes "stat_law w" and "observed w m ob"
  shows "case read_bounded_regular_file ob of
      Inl _ \<Rightarrow> True
    | Inr None \<Rightarrow> wo_path w (mo_initial m) = None \<or> wo_path w (mo_open m) = None
    | Inr (Some t) \<Rightarrow> length t \<le> 8388608 \<and>
        (\<exists>i. wo_path w (mo_path_after m) = Some i \<and> wo_data w (mo_path_after m) i = bytes_of t
           \<and> fm_regular (wo_stat w (mo_path_after m) i))"
proof (cases "read_bounded_regular_file ob")
  case (Inr r)
  show ?thesis
  proof (cases r)
    case None
    with Inr have "ro_initial ob = Inl ENotFound \<or> ro_open ob = Inl ENotFound"
      unfolding read_bounded_regular_file_def open_regular_def initial_metadata_def
      by (auto split: sum.splits option.splits if_splits os_error.splits)
    with assms(2) None Inr show ?thesis by (auto simp: observed_def call_simps)
  next
    case (Some t)
    with Inr have "read_bounded_regular_file ob = Inr (Some t)" by simp
    then obtain i b a p bytes where c: "ro_open ob = Inr i" "ro_before ob = Inr b" "read_bounded_bytes [] (ro_reads ob) = Inr bytes"
      "ro_after ob = Inr a" "ro_path_after ob = Inr p" "length bytes = fm_len b" "same_metadata a b" "same_metadata p a"
      "fm_regular p" "\<not> fm_symlink p" "from_utf8 bytes = Some t" "length bytes \<le> LAYOUT_FILE_MAX_BYTES"
      by (rule read_result_cases)
    have "same_metadata b a" "same_metadata a p" using c(7,8) same_metadata_sym by blast+
    from snapshot_at_end [OF assms c(1,2,4,5) this read_bounded_bytes_take [where acc = "[]", OF _ _ _ c(3)] c(6)]
    have "wo_path w (mo_path_after m) = Some i \<and> wo_data w (mo_path_after m) i = bytes \<and> p = wo_stat w (mo_path_after m) i"
      by simp
    with c(9,12) from_utf8_text [OF c(11)] Some Inr show ?thesis by (auto simp: LAYOUT_FILE_MAX_BYTES_def)
  qed
qed simp

definition demo_world :: world where
  "demo_world = \<lparr>wo_path = (\<lambda>_. Some 1), wo_stat = (\<lambda>_ i. \<lparr>fm_symlink = False, fm_regular = True, fm_len = 2,
     fm_modified = 0, fm_file = i, fm_ctime = 0\<rparr>), wo_data = (\<lambda>_ _. [123, 125])\<rparr>"

definition demo_obs :: read_obs where
  "demo_obs = (let m = Inr (wo_stat demo_world 0 1) in
     \<lparr>ro_initial = m, ro_open = Inr 1, ro_swap = m, ro_fd = m, ro_before = m, ro_reads = [Inr [123], Inr [125], Inr []],
      ro_after = m, ro_path_after = m\<rparr>)"

definition demo_moments :: moments where
  "demo_moments = \<lparr>mo_initial = 0, mo_open = 1, mo_before = 2, mo_reads = [3, 4, 5], mo_after = 6, mo_path_after = 7\<rparr>"

text \<open>A sidecar of two bytes, read one at a time.\<close>

theorem sidecar_read_atomic_witness:
  "read_bounded_regular_file demo_obs = Inr (Some ''{}'') \<and> wo_data demo_world 7 1 = bytes_of ''{}''"
proof -
  have "stat_law demo_world" by (simp add: stat_law_def demo_world_def)
  moreover have "observed demo_world demo_moments demo_obs"
    by (simp add: observed_def demo_moments_def demo_obs_def call_simps demo_world_def lstat_at_def open_at_def Let_def numeral_2_eq_2)
  moreover have "read_bounded_regular_file demo_obs = Inr (Some ''{}'')"
    by (simp add: read_bounded_regular_file_def demo_obs_def demo_world_def open_regular_def initial_metadata_def
        LAYOUT_FILE_MAX_BYTES_def same_metadata_def same_file_def from_utf8_def string_of_bytes_def char_of_def bit_0 Let_def)
  ultimately show ?thesis
    using sidecar_read_atomic [of demo_world demo_moments demo_obs] by (auto simp: demo_world_def demo_moments_def)
qed

text \<open>The same for the lock file.\<close>

lemma lock_read_atomic:
  assumes "stat_law w" and "observed w m ob" and "read_lock ob = Inr (Some s)"
  shows "\<exists>i. wo_path w (mo_path_after m) = Some i \<and> wo_data w (mo_path_after m) i = bytes_of (ls_text s)
    \<and> ls_meta s = wo_stat w (mo_path_after m) i \<and> ls_record s = parse_lock_record (ls_text s)
    \<and> length (ls_text s) \<le> LOCK_RECORD_MAX_BYTES"
proof -
  from assms(3) obtain i b a p bytes where c: "ro_open ob = Inr i" "ro_before ob = Inr b"
    "read_lock_bytes [] (ro_reads ob) = Inr bytes"
    "ro_after ob = Inr a" "ro_path_after ob = Inr p" "length bytes = fm_len b" "same_metadata b a" "same_metadata a p"
    "\<not> fm_symlink p" "from_utf8 bytes = Some (ls_text s)" "ls_record s = parse_lock_record (ls_text s)" "ls_meta s = p"
    "length bytes \<le> LOCK_RECORD_MAX_BYTES"
    by (rule read_lock_cases)
  from snapshot_at_end [OF assms(1,2) c(1,2,4,5,7,8) read_lock_bytes_take [where acc = "[]", OF _ _ _ c(3)] c(6)]
  have "wo_path w (mo_path_after m) = Some i \<and> wo_data w (mo_path_after m) i = bytes \<and> p = wo_stat w (mo_path_after m) i"
    by simp
  with c(11-13) from_utf8_text [OF c(10)] show ?thesis by auto
qed

section \<open>Lines\<close>

definition unlines :: "string list \<Rightarrow> string" where
  "unlines ls = concat (map (\<lambda>l. l @ [newline]) ls)"

lemma unlines_simps [simp]: "unlines [] = []" "unlines (l # ls) = l @ newline # unlines ls"
  by (simp_all add: unlines_def)

lemma split_on_pieces: "w \<in> set (split_on c xs) \<Longrightarrow> c \<notin> set w"
  by (induction xs arbitrary: w) (auto split: list.splits if_splits)

lemma unlines_split: "unlines (split_on newline xs) = xs @ [newline]"
proof (induction xs)
  case (Cons x xs)
  obtain w ws where "split_on newline xs = w # ws" using split_on_nonempty [of newline xs] by (cases "split_on newline xs") auto
  with Cons show ?case by auto
qed simp

lemma split_unlines:
  "\<forall>l\<in>set (l # ls). newline \<notin> set l \<Longrightarrow> split_on newline (butlast (unlines (l # ls))) = l # ls"
proof (induction ls arbitrary: l)
  case Nil
  then show ?case by (simp add: split_on_fresh butlast_append)
next
  case (Cons m ls)
  then have "split_on newline (butlast (unlines (m # ls))) = m # ls" by simp
  moreover have "butlast (unlines (l # m # ls)) = l @ newline # butlast (unlines (m # ls))"
    by (simp add: butlast_append)
  ultimately show ?case using Cons(2) by (simp add: split_on_sep del: unlines_simps(2))
qed

lemma unlines_ends: "unlines (l # ls) \<noteq> [] \<and> last (unlines (l # ls)) = newline"
  by (induction ls arbitrary: l) auto

section \<open>Fields\<close>

definition line_of :: "string \<times> string \<Rightarrow> string" where
  "line_of kv = fst kv @ CHR ''='' # snd kv"

lemma split_once_Some: "split_once c xs = Some (k, v) \<longleftrightarrow> xs = k @ c # v \<and> c \<notin> set k"
proof (induction xs arbitrary: k)
  case (Cons x xs)
  show ?case
  proof (cases k)
    case (Cons y k')
    with Cons.IH [of k'] show ?thesis by auto
  qed auto
qed simp

lemma count_one: "count_list (k @ c # v) c = 1 \<longleftrightarrow> c \<notin> set k \<and> c \<notin> set v"
  by (auto simp: count_list_0_iff)

text \<open>A field the parser reads, and what a list of fields adds up to.\<close>

definition good_field :: "string \<times> string \<Rightarrow> bool" where
  "good_field kv \<longleftrightarrow>
     (fst kv = ''pid'' \<and> list_all ascii_digit (snd kv) \<or> fst kv = ''start'' \<or> fst kv = ''token'')
     \<and> snd kv \<noteq> [] \<and> CHR ''='' \<notin> set (snd kv)"

lemma parse_fields_lines:
  "parse_fields lines f = Some f' \<Longrightarrow> \<exists>kvs. lines = map line_of kvs \<and> list_all good_field kvs
     \<and> distinct (map fst kvs) \<and> set (map fst kvs) \<inter> set (lf_seen f) = {}"
proof (induction lines arbitrary: f)
  case (Cons line lines)
  then obtain k v f1 where 1: "split_once CHR ''='' line = Some (k, v)" "v \<noteq> []" "count_list line CHR ''='' = 1"
    "take_field k v f = Some f1" "parse_fields lines f1 = Some f'"
    by (auto split: if_splits option.splits)
  from Cons.IH [OF 1(5)] obtain kvs where k: "lines = map line_of kvs" "list_all good_field kvs"
    "distinct (map fst kvs)" "set (map fst kvs) \<inter> set (lf_seen f1) = {}" by blast
  have l: "line = line_of (k, v)" "CHR ''='' \<notin> set v"
    using 1(1,3) by (auto simp: split_once_Some count_one line_of_def count_list_0_iff)
  have "lf_seen f1 = k # lf_seen f" "k \<notin> set (lf_seen f)" "good_field (k, v)"
    using 1(2,4) l(2) by (auto simp: take_field_def good_field_def Let_def split: if_splits)
  with k l show ?case by (intro exI [of _ "(k, v) # kvs"]) auto
qed simp

text \<open>The value of a key after the fields, when it was \<open>old\<close> before them.\<close>

definition field_value :: "(string \<times> string) list \<Rightarrow> string \<Rightarrow> string option \<Rightarrow> string option" where
  "field_value kvs k old = (case map_of kvs k of Some v \<Rightarrow> if valid_lock_field v then Some v else old | None \<Rightarrow> old)"

lemma take_good_field:
  "good_field (k, v) \<Longrightarrow> k \<notin> set (lf_seen f) \<Longrightarrow> take_field k v f \<noteq> None"
  "take_field k v f = Some f1 \<Longrightarrow> lf_seen f1 = k # lf_seen f
    \<and> lf_pid f1 = (if k = ''pid'' then parse_pid v else lf_pid f)
    \<and> lf_start f1 = (if k = ''start'' \<and> valid_lock_field v then Some v else lf_start f)
    \<and> lf_token f1 = (if k = ''token'' \<and> valid_lock_field v then Some v else lf_token f)"
  by (auto simp: take_field_def good_field_def Let_def split: if_splits)

lemma parse_good_fields:
  "list_all good_field kvs \<Longrightarrow> distinct (map fst kvs) \<Longrightarrow> set (map fst kvs) \<inter> set (lf_seen f) = {} \<Longrightarrow>
    \<exists>f'. parse_fields (map line_of kvs) f = Some f'
      \<and> lf_pid f' = (case map_of kvs ''pid'' of Some v \<Rightarrow> parse_pid v | None \<Rightarrow> lf_pid f)
      \<and> lf_start f' = field_value kvs ''start'' (lf_start f) \<and> lf_token f' = field_value kvs ''token'' (lf_token f)"
proof (induction kvs arbitrary: f)
  case (Cons kv kvs)
  obtain k v where kv: "kv = (k, v)" by fastforce
  have g: "good_field (k, v)" "k \<notin> set (lf_seen f)" "map_of kvs k = None" using Cons.prems kv
    by (auto simp: map_of_eq_None_iff)
  then obtain f1 where t: "take_field k v f = Some f1" using take_good_field(1) by blast
  note f1 = t take_good_field(2) [OF t]
  have l: "parse_fields (map line_of (kv # kvs)) f = parse_fields (map line_of kvs) f1"
    using g(1) f1(1) split_once_Some [of "CHR ''=''" "line_of (k, v)" k v] count_one [of k "CHR ''=''" v]
    by (auto simp: kv line_of_def good_field_def)
  have "set (map fst kvs) \<inter> set (lf_seen f1) = {}" using Cons.prems kv f1(2) by auto
  from Cons.IH [OF _ _ this] Cons.prems obtain f' where r: "parse_fields (map line_of kvs) f1 = Some f'"
    "lf_pid f' = (case map_of kvs ''pid'' of Some v \<Rightarrow> parse_pid v | None \<Rightarrow> lf_pid f1)"
    "lf_start f' = field_value kvs ''start'' (lf_start f1)" "lf_token f' = field_value kvs ''token'' (lf_token f1)" by auto
  have "lf_pid f' = (case map_of (kv # kvs) ''pid'' of Some v \<Rightarrow> parse_pid v | None \<Rightarrow> lf_pid f)"
    using r(2) f1(2) g(3) by (cases "k = ''pid''") (simp_all add: kv split: option.splits)
  moreover have "lf_start f' = field_value (kv # kvs) ''start'' (lf_start f)"
    using r(3) f1(2) g(3) by (cases "k = ''start''") (simp_all add: kv field_value_def)
  moreover have "lf_token f' = field_value (kv # kvs) ''token'' (lf_token f)"
    using r(4) f1(2) g(3) by (cases "k = ''token''") (simp_all add: kv field_value_def)
  ultimately show ?case using r(1) l by metis
qed (simp add: field_value_def)

section \<open>The records accepted\<close>

lemma mset_map_split: "mset ys = image_mset f M \<Longrightarrow> \<exists>zs. mset zs = M \<and> map f zs = ys"
proof (induction ys arbitrary: M)
  case (Cons y ys)
  then obtain N a where n: "M = add_mset a N" "f a = y" "image_mset f N = mset ys"
    by (metis msed_map_invR mset.simps(2))
  from Cons.IH [OF n(3) [symmetric]] obtain zs where "mset zs = N" "map f zs = ys" by blast
  with n show ?case by (intro exI [of _ "a # zs"]) simp
qed simp

lemma three_fields:
  assumes "distinct (map fst kvs)" and "set (map fst kvs) = {''pid'', ''start'', ''token''}"
    and "map_of kvs ''pid'' = Some p" and "map_of kvs ''start'' = Some s" and "map_of kvs ''token'' = Some k"
  shows "mset kvs = {#(''pid'', p), (''start'', s), (''token'', k)#}"
proof -
  let ?g = "\<lambda>k. (k, the (map_of kvs k))"
  have keys: "mset (map fst kvs) = mset [''pid'', ''start'', ''token'']"
    using assms(1,2) by (intro set_eq_iff_mset_eq_distinct [THEN iffD1]) auto
  have "map ?g (map fst kvs) = kvs" unfolding map_map by (rule map_idI) (use assms(1) in auto)
  then have "mset kvs = image_mset ?g (mset (map fst kvs))" by (metis mset_map)
  then show ?thesis unfolding keys using assms(3-5) by simp
qed

lemma valid_field_text: "valid_lock_field v \<Longrightarrow> v \<noteq> [] \<and> CHR ''='' \<notin> set v \<and> newline \<notin> set v"
  by (auto simp: valid_lock_field_def list_all_iff is_ascii_alphanumeric_def in_rng_def)

lemma digit_text: "list_all ascii_digit v \<Longrightarrow> CHR ''='' \<notin> set v \<and> newline \<notin> set v"
  by (auto simp: list_all_iff ascii_digit_def in_rng_def)

lemma parsed_fields:
  assumes "parse_fields lines no_fields = Some f"
    and "lf_pid f = Some p" and "lf_start f = Some s" and "lf_token f = Some k"
  shows "\<exists>ds. list_all ascii_digit ds \<and> parse_pid ds = Some p \<and> valid_lock_field s \<and> valid_lock_field k
    \<and> mset lines = {#''pid='' @ ds, ''start='' @ s, ''token='' @ k#}"
proof -
  from parse_fields_lines [OF assms(1)] obtain kvs where kvs: "lines = map line_of kvs" "list_all good_field kvs"
    "distinct (map fst kvs)" by blast
  from parse_good_fields [OF kvs(2,3), of no_fields] assms kvs(1) obtain ds where
    vals: "map_of kvs ''pid'' = Some ds" "parse_pid ds = Some p" "map_of kvs ''start'' = Some s" "valid_lock_field s"
      "map_of kvs ''token'' = Some k" "valid_lock_field k"
    by (auto simp: no_fields_def field_value_def split: option.splits if_splits)
  have "set (map fst kvs) \<subseteq> {''pid'', ''start'', ''token''}" using kvs(2) by (auto simp: good_field_def list_all_iff)
  moreover have "{''pid'', ''start'', ''token''} \<subseteq> set (map fst kvs)" using vals by (force dest: map_of_SomeD)
  ultimately have "mset kvs = {#(''pid'', ds), (''start'', s), (''token'', k)#}"
    using three_fields [OF kvs(3) _ vals(1,3,5)] by blast
  then have "mset lines = {#''pid='' @ ds, ''start='' @ s, ''token='' @ k#}"
    by (simp add: kvs(1) line_of_def)
  moreover have "list_all ascii_digit ds" using kvs(2) map_of_SomeD [OF vals(1)] by (force simp: good_field_def list_all_iff)
  ultimately show ?thesis using vals by blast
qed

lemma parse_permuted:
  assumes "list_all ascii_digit ds" and "parse_pid ds = Some p" and "valid_lock_field s" and "valid_lock_field k"
    and "mset lines = {#''pid='' @ ds, ''start='' @ s, ''token='' @ k#}"
  shows "\<exists>f. parse_fields lines no_fields = Some f \<and> lf_pid f = Some p \<and> lf_start f = Some s \<and> lf_token f = Some k"
proof -
  have "mset lines = image_mset line_of {#(''pid'', ds), (''start'', s), (''token'', k)#}"
    using assms(5) by (simp add: line_of_def)
  from mset_map_split [OF this] obtain kvs where
    kvs: "mset kvs = mset [(''pid'', ds), (''start'', s), (''token'', k)]" "map line_of kvs = lines" by auto
  have "image_mset fst (mset kvs) = mset [''pid'', ''start'', ''token'']" by (simp add: kvs(1))
  then have "mset (map fst kvs) = mset [''pid'', ''start'', ''token'']" by simp
  from mset_eq_imp_distinct_iff [OF this] have d: "distinct (map fst kvs)" by simp
  have ds: "ds \<noteq> []" using assms(2) by (auto simp: parse_pid_def parse_uint_def)
  have "set kvs = {(''pid'', ds), (''start'', s), (''token'', k)}"
    using mset_eq_setD [OF kvs(1)] by simp
  then have "map_of kvs ''pid'' = Some ds" "map_of kvs ''start'' = Some s" "map_of kvs ''token'' = Some k"
    "list_all good_field kvs"
    using d ds assms(1,3,4) valid_field_text digit_text by (auto simp: good_field_def list_all_iff)
  with parse_good_fields [of kvs no_fields] d assms(2-4) kvs(2) show ?thesis
    by (auto simp: field_value_def no_fields_def)
qed

lemma field_lines_clean:
  assumes "list_all ascii_digit ds" and "valid_lock_field s" and "valid_lock_field k"
    and "mset lines = {#''pid='' @ ds, ''start='' @ s, ''token='' @ k#}"
  shows "\<forall>l\<in>set (LOCK_PROTOCOL # lines). newline \<notin> set l"
  using mset_eq_setD [of lines "[''pid='' @ ds, ''start='' @ s, ''token='' @ k]"] assms digit_text valid_field_text
  by (auto simp: LOCK_PROTOCOL_def)

text \<open>The lock parser accepts exactly the records of the protocol: the name of the
  protocol and the three fields, each once, in any order, one per line, with a positive
  32-bit process id and well-formed start and token; anything else is refused.\<close>

theorem lock_record_accepted:
  "parse_lock_record t = Some r \<longleftrightarrow>
     (\<exists>ds lines. t = unlines (LOCK_PROTOCOL # lines)
        \<and> mset lines = {#''pid='' @ ds, ''start='' @ lr_start r, ''token='' @ lr_token r#}
        \<and> list_all ascii_digit ds \<and> parse_pid ds = Some (lr_pid r)
        \<and> valid_lock_field (lr_start r) \<and> valid_lock_field (lr_token r))" (is "_ \<longleftrightarrow> ?R")
proof
  assume "parse_lock_record t = Some r"
  then obtain lines f where 1: "t \<noteq> []" "last t = newline" "split_on newline (butlast t) = LOCK_PROTOCOL # lines"
    "parse_fields lines no_fields = Some f" "lf_pid f = Some (lr_pid r)" "lf_start f = Some (lr_start r)"
    "lf_token f = Some (lr_token r)"
    by (auto simp: parse_lock_record_def split: if_splits list.splits option.splits)
  have "t = unlines (LOCK_PROTOCOL # lines)"
    using unlines_split [of "butlast t"] 1(1-3) by (metis append_butlast_last_id)
  with parsed_fields [OF 1(4-7)] show ?R by blast
next
  assume ?R
  then obtain ds lines where r: "t = unlines (LOCK_PROTOCOL # lines)"
    "mset lines = {#''pid='' @ ds, ''start='' @ lr_start r, ''token='' @ lr_token r#}"
    "list_all ascii_digit ds" "parse_pid ds = Some (lr_pid r)" "valid_lock_field (lr_start r)" "valid_lock_field (lr_token r)"
    by blast
  from parse_permuted [OF r(3-6,2)] obtain f where "parse_fields lines no_fields = Some f" "lf_pid f = Some (lr_pid r)"
    "lf_start f = Some (lr_start r)" "lf_token f = Some (lr_token r)" by blast
  with split_unlines [OF field_lines_clean [OF r(3,5,6,2)]] unlines_ends [of LOCK_PROTOCOL lines]
  show "parse_lock_record t = Some r" by (simp add: parse_lock_record_def r(1) del: unlines_simps(2))
qed

lemma dec_text_digits: "list_all ascii_digit (dec_text n)"
  using dec_digit [of n] by (auto simp: dec_text_def list_all_iff ascii_digit_def in_rng_def)

lemma parse_pid_dec: "0 < n \<Longrightarrow> n \<le> u32_max \<Longrightarrow> parse_pid (dec_text n) = Some n"
proof -
  assume "0 < n" "n \<le> u32_max"
  moreover have "map of_char (map char_of (dec n) :: string) = dec n"
    unfolding map_map by (rule map_idI) (use dec_digit [of n] in fastforce)
  ultimately show ?thesis by (simp add: parse_pid_def dec_text_def parse_dec)
qed

lemma lock_record_roundtrip:
  assumes "0 < lr_pid r" and "lr_pid r \<le> u32_max" and "valid_lock_field (lr_start r)" and "valid_lock_field (lr_token r)"
  shows "parse_lock_record (format_lock_record r) = Some r"
proof -
  let ?lines = "[''pid='' @ dec_text (lr_pid r), ''start='' @ lr_start r, ''token='' @ lr_token r]"
  have t: "format_lock_record r = unlines (LOCK_PROTOCOL # ?lines)"
    by (simp add: format_lock_record_def)
  from parse_permuted [OF dec_text_digits parse_pid_dec [OF assms(1,2)] assms(3,4), of ?lines]
  obtain f where "parse_fields ?lines no_fields = Some f" "lf_pid f = Some (lr_pid r)"
    "lf_start f = Some (lr_start r)" "lf_token f = Some (lr_token r)" by auto
  with split_unlines [OF field_lines_clean [OF dec_text_digits assms(3,4), of ?lines "lr_pid r"]]
    unlines_ends [of LOCK_PROTOCOL ?lines]
  show ?thesis unfolding t by (simp add: parse_lock_record_def del: unlines_simps(2))
qed

end
