(* ===== verification/LayoutCasLaws.thy ===== *)
theory LayoutCasLaws
  imports LayoutCas LayoutFileLaws
begin

text \<open>
  What the lock protocol of the sidecar guarantees, and where it fails: with every removal
  of a stale lock uninterrupted, saves are compare-and-swap whatever processes do and
  however they die; a removal that is interrupted can delete a lock that is held.
\<close>

section \<open>Invariant\<close>

text \<open>The lock file a writer has prepared or published.\<close>

definition inode_of :: "cas_phase \<Rightarrow> nat option" where
  "inode_of ph =
     (case ph of
        Publishing i \<Rightarrow> Some i | Cleaning i \<Rightarrow> Some i | Stamping i \<Rightarrow> Some i
      | Comparing m \<Rightarrow> Some (fm_file m) | Replacing m \<Rightarrow> Some (fm_file m) | Syncing m \<Rightarrow> Some (fm_file m)
      | Releasing m _ \<Rightarrow> Some (fm_file m) | Dropping m _ \<Rightarrow> Some (fm_file m) | _ \<Rightarrow> None)"

definition holds_lock :: "cas_phase \<Rightarrow> bool" where
  "holds_lock ph \<longleftrightarrow> inode_of ph \<noteq> None \<and> (\<forall>i. ph \<noteq> Publishing i)"

text \<open>An owner that no probe can report alive any more.\<close>

definition gone_owner :: "(nat \<Rightarrow> string option) \<Rightarrow> lock_record \<Rightarrow> bool" where
  "gone_owner procs r \<longleftrightarrow> \<not> unknown_start (lr_start r) \<and> procs (lr_pid r) \<noteq> Some (lr_start r)"

definition proper_record :: "lock_record \<Rightarrow> bool" where
  "proper_record r \<longleftrightarrow>
     0 < lr_pid r \<and> lr_pid r \<le> u32_max \<and> valid_lock_field (lr_start r) \<and> valid_lock_field (lr_token r)"

definition stale_lock :: "(nat \<Rightarrow> string option) \<Rightarrow> shared \<Rightarrow> bool" where
  "stale_lock procs sh \<longleftrightarrow> (\<exists>s r. lock_at sh = Some s \<and> lock_owner s = Some r \<and> gone_owner procs r)"

text \<open>What holds of one writer, given the shared state.\<close>

definition client_ok :: "(nat \<Rightarrow> string option) \<Rightarrow> shared \<Rightarrow> cas_client \<Rightarrow> bool" where
  "client_ok procs sh c \<longleftrightarrow>
     proper_record (cc_record c)
     \<and> (cc_phase c \<noteq> Gone \<longrightarrow> \<not> gone_owner procs (cc_record c))
     \<and> (\<forall>i. inode_of (cc_phase c) = Some i \<longrightarrow> i < sh_next sh \<and> sh_text sh i = format_lock_record (cc_record c))
     \<and> (\<forall>i. cc_phase c = Publishing i \<longrightarrow> sh_lock sh \<noteq> Some i)
     \<and> (holds_lock (cc_phase c) \<longrightarrow> sh_lock sh = inode_of (cc_phase c))
     \<and> (\<forall>m. cc_phase c = Replacing m \<longrightarrow> sh_layout sh = cc_expected c)
     \<and> (\<forall>s r. cc_phase c = Probing s r \<longrightarrow> lock_owner s = Some r)
     \<and> (\<forall>s. cc_phase c = Reclaiming s \<longrightarrow> (\<exists>r. lock_owner s = Some r \<and> gone_owner procs r))
     \<and> (cc_phase c = Unlinking \<longrightarrow> stale_lock procs sh)"

text \<open>A writer that holds the lock is not a gone owner of it.\<close>

lemma held_lock_not_stale:
  assumes "client_ok procs sh c" and "holds_lock (cc_phase c)"
  shows "\<not> stale_lock procs sh"
proof -
  from assms obtain i where i: "sh_lock sh = Some i" "sh_text sh i = format_lock_record (cc_record c)"
    by (auto simp: client_ok_def holds_lock_def)
  from assms(1) have "parse_lock_record (format_lock_record (cc_record c)) = Some (cc_record c)"
    by (intro lock_record_roundtrip) (auto simp: client_ok_def proper_record_def)
  with i have "lock_at sh = Some s \<Longrightarrow> lock_owner s = Some (cc_record c)" for s
    by (auto simp: lock_at_def lock_owner_def)
  moreover have "\<not> gone_owner procs (cc_record c)" using assms by (auto simp: client_ok_def holds_lock_def inode_of_def)
  ultimately show ?thesis by (auto simp: stale_lock_def)
qed

section \<open>The steps of one writer\<close>

text \<open>What a step does to the shared state.\<close>

definition only_files :: "shared \<Rightarrow> shared \<Rightarrow> bool" where
  "only_files sh sh' \<longleftrightarrow>
     sh_lock sh' = sh_lock sh \<and> sh_layout sh' = sh_layout sh \<and> sh_next sh \<le> sh_next sh'
     \<and> (\<forall>i < sh_next sh. sh_text sh' i = sh_text sh i)"

lemma only_files_refl [simp]: "only_files sh sh"
  by (simp add: only_files_def)

lemma only_files_touch [simp]: "only_files sh (touch i sh)"
  by (simp add: only_files_def touch_def)

lemma cas_step_cases:
  assumes "cas_step inp procs sh c = (sh', c', es)"
  obtains (files) "only_files sh sh'" "es = []"
    | (publish) i where "cc_phase c = Publishing i" "sh_lock sh = None" "sh' = touch i (sh\<lparr>sh_lock := Some i\<rparr>)"
        "cc_phase c' = Cleaning i" "es = []"
    | (unlink) "cc_phase c = Unlinking" "sh' = sh\<lparr>sh_lock := None\<rparr>" "cc_phase c' = Preparing" "es = []"
    | (dropping) m r where "cc_phase c = Dropping m r" "sh' = sh\<lparr>sh_lock := None\<rparr>" "cc_phase c' = Finished r" "es = []"
    | (replace) m where "cc_phase c = Replacing m" "sh' = sh\<lparr>sh_layout := Some (cc_text c)\<rparr>" "cc_phase c' = Syncing m"
        "es = [Replaced (sh_layout sh) (cc_text c)]"
proof (cases "cc_phase c")
  case (Publishing i)
  show thesis
  proof (cases "refused inp \<or> sh_lock sh \<noteq> None")
    case True
    with assms Publishing show thesis by (auto simp: cas_step_def Let_def intro!: files split: if_splits option.splits)
  next
    case False
    with assms Publishing show thesis by (auto simp: cas_step_def Let_def intro!: publish)
  qed
next
  case (Replacing m)
  show thesis
  proof (cases "refused inp")
    case True
    with assms Replacing show thesis by (auto simp: cas_step_def Let_def intro: files)
  next
    case False
    with assms Replacing show thesis by (auto simp: cas_step_def Let_def intro: replace)
  qed
next
  case Unlinking
  show thesis
  proof (cases "refused inp")
    case True
    with assms Unlinking show thesis by (auto simp: cas_step_def Let_def intro: files)
  next
    case False
    with assms Unlinking show thesis by (auto simp: cas_step_def Let_def intro: unlink)
  qed
next
  case (Dropping m r)
  show thesis
  proof (cases "refused inp")
    case True
    with assms Dropping show thesis by (auto simp: cas_step_def Let_def intro: files)
  next
    case False
    with assms Dropping show thesis by (auto simp: cas_step_def Let_def intro: dropping)
  qed
next
  case Preparing
  with assms show thesis by (auto simp: cas_step_def Let_def only_files_def intro!: files split: if_splits)
qed (use assms in \<open>auto simp: cas_step_def Let_def intro!: files split: if_splits option.splits bool.splits\<close>)

lemma cas_step_const:
  assumes "cas_step inp procs sh c = (sh', c', es)"
  shows "cc_record c' = cc_record c \<and> cc_text c' = cc_text c \<and> cc_expected c' = cc_expected c"
  using assms by (cases "cc_phase c")
    (auto simp: cas_step_def Let_def split: if_splits option.splits bool.splits)

text \<open>A step creates no claim to another file than the one it prepares.\<close>

lemma cas_step_inode:
  assumes "cas_step inp procs sh c = (sh', c', es)" and "client_ok procs sh c" and "inode_of (cc_phase c') = Some i"
  shows "inode_of (cc_phase c) = Some i \<or> i = sh_next sh"
  using assms by (cases "cc_phase c")
    (auto simp: cas_step_def Let_def inode_of_def client_ok_def holds_lock_def stat_of_def split: if_splits option.splits bool.splits)

lemma cas_step_ok:
  assumes "cas_step inp procs sh c = (sh', c', es)" and "client_ok procs sh c"
    and "\<And>i. sh_lock sh = Some i \<Longrightarrow> i < sh_next sh"
  shows "client_ok procs sh' c'"
proof (cases "cc_phase c")
  case (Publishing i)
  with assms show ?thesis
    by (auto simp: cas_step_def Let_def client_ok_def inode_of_def holds_lock_def touch_def split: if_splits option.splits)
next
  case Preparing
  with assms show ?thesis
    by (force simp: cas_step_def Let_def client_ok_def inode_of_def holds_lock_def split: if_splits)
next
  case (Cleaning i)
  with assms show ?thesis
    by (auto simp: cas_step_def Let_def client_ok_def inode_of_def holds_lock_def touch_def split: if_splits)
next
  case (Stamping i)
  with assms show ?thesis
    by (auto simp: cas_step_def Let_def client_ok_def inode_of_def holds_lock_def stat_of_def split: bool.splits option.splits)
next
  case (Probing s r)
  with assms show ?thesis
    by (auto simp: cas_step_def Let_def client_ok_def inode_of_def holds_lock_def owner_state_def gone_owner_def
        split: if_splits option.splits)
next
  case (Reclaiming s)
  with assms show ?thesis
    by (auto simp: cas_step_def Let_def client_ok_def inode_of_def holds_lock_def stale_lock_def lock_owner_def
        split: if_splits option.splits bool.splits)
qed (use assms in \<open>auto simp: cas_step_def Let_def client_ok_def inode_of_def holds_lock_def split: if_splits option.splits bool.splits\<close>)

section \<open>The steps of the others\<close>

text \<open>A step of one writer keeps what holds of another, unless that one is about to remove a lock.\<close>

lemma others_ok:
  assumes step: "cas_step inp procs sh c = (sh', c', es)" and c: "client_ok procs sh c" and d: "client_ok procs sh d"
    and apart: "\<And>i. inode_of (cc_phase c) = Some i \<Longrightarrow> inode_of (cc_phase d) \<noteq> Some i"
    and calm: "cc_phase d \<noteq> Unlinking"
  shows "client_ok procs sh' d"
  using step
proof (cases rule: cas_step_cases)
  case files
  with d calm show ?thesis by (auto simp: client_ok_def only_files_def)
next
  case (publish i)
  with d calm apart show ?thesis by (auto simp: client_ok_def inode_of_def holds_lock_def touch_def)
next
  case unlink
  with c have "stale_lock procs sh" by (simp add: client_ok_def)
  with held_lock_not_stale [OF d] have "\<not> holds_lock (cc_phase d)" by blast
  with d calm unlink(2) show ?thesis by (auto simp: client_ok_def)
next
  case (dropping m r)
  with c have "sh_lock sh = inode_of (cc_phase c)" "inode_of (cc_phase c) \<noteq> None"
    by (auto simp: client_ok_def holds_lock_def inode_of_def)
  with d apart have "\<not> holds_lock (cc_phase d)" by (auto simp: client_ok_def)
  with d calm dropping(2) show ?thesis by (auto simp: client_ok_def)
next
  case (replace m)
  with c have "sh_lock sh = inode_of (cc_phase c)" "inode_of (cc_phase c) \<noteq> None"
    by (auto simp: client_ok_def holds_lock_def inode_of_def)
  with d apart have "cc_phase d \<noteq> Replacing m'" for m' by (auto simp: client_ok_def holds_lock_def inode_of_def)
  with d calm replace(2) show ?thesis by (auto simp: client_ok_def stale_lock_def lock_at_def stat_of_def)
qed

section \<open>All writers\<close>

definition apart :: "cas_client list \<Rightarrow> bool" where
  "apart cs \<longleftrightarrow> (\<forall>j < length cs. \<forall>k < length cs. \<forall>i. j \<noteq> k \<longrightarrow> inode_of (cc_phase (cs ! j)) = Some i \<longrightarrow>
     inode_of (cc_phase (cs ! k)) \<noteq> Some i)"

definition lock_inv :: "cas_world \<Rightarrow> bool" where
  "lock_inv w \<longleftrightarrow>
     (\<forall>i. sh_lock (cw_shared w) = Some i \<longrightarrow> i < sh_next (cw_shared w))
     \<and> (\<forall>k < length (cw_clients w). client_ok (cw_procs w) (cw_shared w) (cw_clients w ! k))
     \<and> apart (cw_clients w)"

text \<open>The steps that do not come between the check of a stale lock and its removal.\<close>

definition undisturbed :: "cas_act \<Rightarrow> cas_world \<Rightarrow> bool" where
  "undisturbed a w =
     (case a of
        Act k _ \<Rightarrow> list_all (\<lambda>j. j \<noteq> k \<longrightarrow> cc_phase (cw_clients w ! j) \<noteq> Unlinking) [0 ..< length (cw_clients w)]
      | Die _ \<Rightarrow> True)"

lemma step_bound:
  assumes "cas_step inp procs sh c = (sh', c', es)" and "client_ok procs sh c"
    and "\<And>i. sh_lock sh = Some i \<Longrightarrow> i < sh_next sh" and "sh_lock sh' = Some i"
  shows "i < sh_next sh'"
  using assms(1)
proof (cases rule: cas_step_cases)
  case files
  then show ?thesis using assms(3) [of i] assms(4) by (simp add: only_files_def)
next
  case (publish j)
  then show ?thesis using assms(2,4) by (simp add: touch_def client_ok_def inode_of_def)
qed (use assms(3,4) in auto)

lemma die_simps [simp]:
  "cc_record (die p c) = cc_record c" "cc_text (die p c) = cc_text c" "cc_expected (die p c) = cc_expected c"
  "cc_phase (die p c) = (if lr_pid (cc_record c) = p then Gone else cc_phase c)"
  by (simp_all add: die_def)

lemma gone_stays: "gone_owner procs r \<Longrightarrow> gone_owner (procs(p := None)) r"
  by (simp add: gone_owner_def)

lemma die_ok: "client_ok procs sh c \<Longrightarrow> client_ok (procs(p := None)) sh (die p c)"
  unfolding client_ok_def stale_lock_def
  by (auto simp: inode_of_def holds_lock_def intro: gone_stays) (simp_all add: gone_owner_def)

lemma apart_step:
  assumes "apart cs" and k: "k < length cs"
    and new: "\<And>i. inode_of (cc_phase c) = Some i \<Longrightarrow> inode_of (cc_phase (cs ! k)) = Some i \<or> i = n"
    and old: "\<And>x i. x < length cs \<Longrightarrow> inode_of (cc_phase (cs ! x)) = Some i \<Longrightarrow> i < n"
  shows "apart (cs[k := c])"
  unfolding apart_def
proof (intro allI impI)
  fix j l i assume j: "j < length (cs[k := c])" "l < length (cs[k := c])" "j \<noteq> l"
    and i: "inode_of (cc_phase (cs[k := c] ! j)) = Some i"
  have ap: "inode_of (cc_phase (cs ! a)) = Some i \<Longrightarrow> inode_of (cc_phase (cs ! b)) \<noteq> Some i"
    if "a < length cs" "b < length cs" "a \<noteq> b" for a b using assms(1) that by (auto simp: apart_def)
  consider "j = k" "l \<noteq> k" | "j \<noteq> k" "l = k" | "j \<noteq> k" "l \<noteq> k" using j(3) by blast
  then show "inode_of (cc_phase (cs[k := c] ! l)) \<noteq> Some i"
  proof cases
    case 1
    with i j new [of i] old [of l i] ap [of k l] k show ?thesis by auto
  next
    case 2
    with i j new [of i] old [of j i] ap [of j k] k show ?thesis by auto
  next
    case 3
    with i j ap [of j l] show ?thesis by auto
  qed
qed

lemma lock_inv_act:
  assumes inv: "lock_inv w" and calm: "undisturbed (Act k inp) w" and k: "k < length (cw_clients w)"
    and s: "cas_step inp (cw_procs w) (cw_shared w) (cw_clients w ! k) = (sh', c', es)"
  shows "lock_inv (w\<lparr>cw_shared := sh', cw_clients := (cw_clients w)[k := c']\<rparr>)"
proof -
  let ?sh = "cw_shared w" and ?cs = "cw_clients w" and ?p = "cw_procs w"
  have ok: "client_ok ?p ?sh (?cs ! j)" if "j < length ?cs" for j using inv that by (simp add: lock_inv_def)
  have lt: "\<And>i. sh_lock ?sh = Some i \<Longrightarrow> i < sh_next ?sh" using inv by (simp add: lock_inv_def)
  have other: "client_ok ?p sh' (?cs ! j)" if "j < length ?cs" "j \<noteq> k" for j
  proof (rule others_ok [OF s ok [OF k] ok [OF that(1)]])
    show "inode_of (cc_phase (?cs ! k)) = Some i \<Longrightarrow> inode_of (cc_phase (?cs ! j)) \<noteq> Some i" for i
      using inv k that by (auto simp: lock_inv_def apart_def)
    show "cc_phase (?cs ! j) \<noteq> Unlinking" using calm that by (auto simp: undisturbed_def list_all_iff)
  qed
  have "client_ok ?p sh' (?cs[k := c'] ! j)" if "j < length ?cs" for j
    using other [OF that] cas_step_ok [OF s ok [OF k] lt] k by (cases "j = k") auto
  moreover have "apart (?cs[k := c'])"
  proof (rule apart_step [where n = "sh_next ?sh"])
    show "inode_of (cc_phase (?cs ! x)) = Some i \<Longrightarrow> i < sh_next ?sh" if "x < length ?cs" for x i
      using ok [OF that] by (simp add: client_ok_def)
  qed (use inv k cas_step_inode [OF s ok [OF k]] in \<open>auto simp: lock_inv_def\<close>)
  ultimately show ?thesis using step_bound [OF s ok [OF k] lt] by (simp add: lock_inv_def)
qed

lemma lock_inv_die: "lock_inv w \<Longrightarrow> lock_inv (fst (cas_do (Die p) w))"
  by (auto simp: lock_inv_def apart_def die_ok inode_of_def split: if_splits)

lemma lock_inv_step:
  assumes "lock_inv w" and "undisturbed a w" and "cas_do a w = (w', es)"
  shows "lock_inv w'"
proof (cases a)
  case (Act k inp)
  obtain sh' c' e where s: "cas_step inp (cw_procs w) (cw_shared w) (cw_clients w ! k) = (sh', c', e)"
    by (metis prod_cases3)
  show ?thesis
  proof (cases "k < length (cw_clients w)")
    case True
    with lock_inv_act [OF assms(1) assms(2) [unfolded Act] True s] assms(3) s Act show ?thesis by auto
  qed (use assms Act in auto)
qed (use lock_inv_die [OF assms(1)] assms(3) in auto)

section \<open>The log of replacements\<close>

fun content_after :: "string option \<Rightarrow> (nat \<times> cas_event) list \<Rightarrow> string option" where
  "content_after l [] = l"
| "content_after l ((k, Replaced old new) # es) = content_after (Some new) es"

lemma content_after_append [simp]: "content_after l (xs @ ys) = content_after (content_after l xs) ys"
  by (induction l xs rule: content_after.induct) auto

text \<open>Whether a writer has replaced the sidecar, where its phase or its answer tells.\<close>

definition answer_tells :: "save_result \<Rightarrow> bool option" where
  "answer_tells r = (case r of SaveOk _ \<Rightarrow> Some True | Conflict _ _ \<Rightarrow> Some False | SaveError _ \<Rightarrow> None)"

definition phase_tells :: "cas_phase \<Rightarrow> bool option" where
  "phase_tells ph =
     (case ph of
        Syncing _ \<Rightarrow> Some True | Releasing _ r \<Rightarrow> answer_tells r | Dropping _ r \<Rightarrow> answer_tells r
      | Finished r \<Rightarrow> answer_tells r | Gone \<Rightarrow> None | _ \<Rightarrow> Some False)"

definition swapped :: "string option \<Rightarrow> cas_client list \<Rightarrow> (nat \<times> cas_event) list \<Rightarrow> nat \<times> cas_event \<Rightarrow> bool" where
  "swapped l cs pre e \<longleftrightarrow>
     fst e < length cs
     \<and> snd e = Replaced (content_after l pre) (cc_text (cs ! fst e)) \<and> content_after l pre = cc_expected (cs ! fst e)"

definition same_calls :: "cas_client list \<Rightarrow> cas_client list \<Rightarrow> bool" where
  "same_calls cs cs' \<longleftrightarrow> map cc_text cs' = map cc_text cs \<and> map cc_expected cs' = map cc_expected cs"

lemma same_calls_nth:
  "same_calls cs cs' \<Longrightarrow> length cs' = length cs"
  "same_calls cs cs' \<Longrightarrow> k < length cs' \<Longrightarrow> cc_text (cs' ! k) = cc_text (cs ! k) \<and> cc_expected (cs' ! k) = cc_expected (cs ! k)"
  unfolding same_calls_def by (metis length_map, metis length_map nth_map)

lemma same_calls_update:
  "same_calls cs cs' \<Longrightarrow> k < length cs' \<Longrightarrow> cc_text c = cc_text (cs' ! k) \<Longrightarrow> cc_expected c = cc_expected (cs' ! k) \<Longrightarrow>
    same_calls cs (cs'[k := c])"
  unfolding same_calls_def by (metis list_update_id map_update)

definition tells_truth :: "(nat \<times> cas_event) list \<Rightarrow> nat \<Rightarrow> cas_client \<Rightarrow> bool" where
  "tells_truth es k c \<longleftrightarrow>
     (phase_tells (cc_phase c) = Some True \<longrightarrow> k \<in> set (map fst es))
     \<and> (phase_tells (cc_phase c) = Some False \<longrightarrow> k \<notin> set (map fst es))"

definition cas_log :: "string option \<Rightarrow> cas_client list \<Rightarrow> (nat \<times> cas_event) list \<Rightarrow> cas_world \<Rightarrow> bool" where
  "cas_log l cs es w \<longleftrightarrow>
     lock_inv w \<and> same_calls cs (cw_clients w) \<and> sh_layout (cw_shared w) = content_after l es
     \<and> every_event (swapped l cs) [] es \<and> distinct (map fst es)
     \<and> (\<forall>k < length (cw_clients w). tells_truth es k (cw_clients w ! k))"

lemma step_tells:
  assumes "cas_step inp procs sh c = (sh', c', es)" and "es = []"
  shows "phase_tells (cc_phase c') = phase_tells (cc_phase c) \<or> phase_tells (cc_phase c') = None"
  using assms by (cases "cc_phase c")
    (auto simp: cas_step_def Let_def phase_tells_def answer_tells_def split: if_splits option.splits bool.splits)

lemma step_layout:
  assumes "cas_step inp procs sh c = (sh', c', es)" and "client_ok procs sh c"
  shows "es = [] \<and> sh_layout sh' = sh_layout sh
    \<or> es = [Replaced (cc_expected c) (cc_text c)] \<and> sh_layout sh = cc_expected c \<and> sh_layout sh' = Some (cc_text c)
      \<and> phase_tells (cc_phase c) = Some False \<and> phase_tells (cc_phase c') = Some True"
  using assms(1) by (cases rule: cas_step_cases)
    (use assms(2) in \<open>auto simp: only_files_def touch_def phase_tells_def client_ok_def\<close>)

lemma cas_log_act:
  assumes "cas_log l cs tr w" and k: "k < length (cw_clients w)" and "undisturbed (Act k inp) w"
    and s: "cas_step inp (cw_procs w) (cw_shared w) (cw_clients w ! k) = (sh', c', es)"
  shows "cas_log l cs (tr @ map (Pair k) es) (w\<lparr>cw_shared := sh', cw_clients := (cw_clients w)[k := c']\<rparr>)"
proof -
  let ?cs = "cw_clients w" and ?w = "w\<lparr>cw_shared := sh', cw_clients := (cw_clients w)[k := c']\<rparr>"
  note old = assms(1) [unfolded cas_log_def]
  have inv: "lock_inv ?w" using lock_inv_act old k assms(3) s by blast
  have calls: "same_calls cs (?cs[k := c'])" using same_calls_update old k cas_step_const [OF s] by blast
  have ok: "client_ok (cw_procs w) (cw_shared w) (?cs ! k)" using old k by (simp add: lock_inv_def)
  have truth: "tells_truth tr j (?cs ! j)" if "j < length ?cs" for j using old that by blast
  from step_layout [OF s ok] show ?thesis
  proof (elim disjE conjE)
    assume e: "es = []" "sh_layout sh' = sh_layout (cw_shared w)"
    have "tells_truth tr k c'" using truth [OF k] step_tells [OF s e(1)] by (auto simp: tells_truth_def)
    then have "tells_truth tr j (?cs[k := c'] ! j)" if "j < length ?cs" for j
      using truth [OF that] that by (cases "j = k") auto
    with inv calls e old show ?thesis by (simp add: cas_log_def)
  next
    assume e: "es = [Replaced (cc_expected (?cs ! k)) (cc_text (?cs ! k))]" "sh_layout (cw_shared w) = cc_expected (?cs ! k)"
      "sh_layout sh' = Some (cc_text (?cs ! k))" "phase_tells (cc_phase (?cs ! k)) = Some False" "phase_tells (cc_phase c') = Some True"
    have new: "k \<notin> fst ` set tr" using truth [OF k] e(4) by (simp add: tells_truth_def)
    have "tells_truth (tr @ map (Pair k) es) j (?cs[k := c'] ! j)" if "j < length ?cs" for j
      using truth [OF that] that e(1,5) by (cases "j = k") (auto simp: tells_truth_def)
    moreover have "swapped l cs tr (k, Replaced (cc_expected (?cs ! k)) (cc_text (?cs ! k)))"
      using old e(2) k same_calls_nth [of cs ?cs] by (auto simp: swapped_def)
    ultimately show ?thesis using inv calls old e new by (simp add: cas_log_def every_event_append)
  qed
qed

lemma cas_log_die: "cas_log l cs tr w \<Longrightarrow> cas_log l cs tr (fst (cas_do (Die p) w))"
  using lock_inv_die [of w p]
  by (auto simp: cas_log_def same_calls_def tells_truth_def phase_tells_def comp_def)

definition calm_do :: "cas_act \<Rightarrow> cas_world \<Rightarrow> cas_world \<times> (nat \<times> cas_event) list" where
  "calm_do a w = (if undisturbed a w then cas_do a w else (w, []))"

lemma cas_log_step: "cas_log l cs tr w \<Longrightarrow> calm_do a w = (w', es) \<Longrightarrow> cas_log l cs (tr @ es) w'"
proof (cases a)
  case (Act k inp)
  assume inv: "cas_log l cs tr w" and s: "calm_do a w = (w', es)"
  obtain sh' c' e where "cas_step inp (cw_procs w) (cw_shared w) (cw_clients w ! k) = (sh', c', e)"
    by (metis prod_cases3)
  with inv s Act cas_log_act [OF inv, of k inp sh' c' e] show ?thesis
    by (auto simp: calm_do_def split: if_splits)
next
  case (Die p)
  assume "cas_log l cs tr w" and "calm_do a w = (w', es)"
  with Die cas_log_die [of l cs tr w p] show ?thesis by (auto simp: calm_do_def undisturbed_def)
qed

interpretation saves: traced calm_do "cas_log l cs" for l cs
  by unfold_locales (rule cas_log_step)

text \<open>The runs in which no removal of a stale lock is interrupted by another writer.\<close>

fun uninterrupted :: "cas_act list \<Rightarrow> cas_world \<Rightarrow> bool" where
  "uninterrupted [] w = True"
| "uninterrupted (a # as) w = (undisturbed a w \<and> uninterrupted as (fst (cas_do a w)))"

lemma uninterrupted_calm: "uninterrupted as w \<Longrightarrow> cas_run as w = run_trace calm_do as w"
  by (induction as arbitrary: w) (auto simp: cas_run_def calm_do_def split: prod.splits)

text \<open>Writers that have just been called, by living processes, in a directory that may hold any
  lock file.\<close>

definition cas_start :: "cas_world \<Rightarrow> bool" where
  "cas_start w \<longleftrightarrow>
     (\<forall>i. sh_lock (cw_shared w) = Some i \<longrightarrow> i < sh_next (cw_shared w))
     \<and> list_all (\<lambda>c. cc_phase c = Entering \<and> proper_record (cc_record c)
          \<and> \<not> gone_owner (cw_procs w) (cc_record c)) (cw_clients w)"

lemma cas_start_log: "cas_start w \<Longrightarrow> cas_log (sh_layout (cw_shared w)) (cw_clients w) [] w"
  by (auto simp: cas_start_def cas_log_def lock_inv_def apart_def client_ok_def same_calls_def tells_truth_def
      inode_of_def holds_lock_def phase_tells_def list_all_length)

text \<open>C5: saves are compare-and-swap. In every run of any number of writers, with failing
  calls and with processes dying at any moment, in which no other writer moves between a
  writer's last look at a stale lock and its removal: the sidecar goes through exactly
  the replacements of the run, each by a save that was called with the content it
  replaced, each save at most once. A save that reports success is among them, one that
  reports a conflict is not.\<close>

theorem saves_compare_and_swap:
  assumes "cas_start w0" and "uninterrupted acts w0" and "cas_run acts w0 = (w, es)"
  shows "sh_layout (cw_shared w) = content_after (sh_layout (cw_shared w0)) es
    \<and> (\<forall>xs k old new ys. es = xs @ (k, Replaced old new) # ys \<longrightarrow>
         old = content_after (sh_layout (cw_shared w0)) xs
         \<and> old = cc_expected (cw_clients w0 ! k) \<and> new = cc_text (cw_clients w0 ! k))
    \<and> distinct (map fst es)
    \<and> (\<forall>k < length (cw_clients w). case cc_phase (cw_clients w ! k) of
         Finished (SaveOk _) \<Rightarrow> k \<in> set (map fst es)
       | Finished (Conflict _ _) \<Rightarrow> k \<notin> set (map fst es)
       | _ \<Rightarrow> True)"
proof -
  let ?l = "sh_layout (cw_shared w0)" and ?cs = "cw_clients w0"
  have log: "cas_log ?l ?cs es w"
    using saves.run_holds [OF cas_start_log [OF assms(1)]] uninterrupted_calm [OF assms(2)] assms(3) by simp
  have every: "every_event (swapped ?l ?cs) [] es" using log by (simp add: cas_log_def)
  have "swapped ?l ?cs xs (k, Replaced old new)" if "es = xs @ (k, Replaced old new) # ys" for xs k old new ys
    by (rule every_event_at [OF every [unfolded that]])
  moreover have "case cc_phase (cw_clients w ! k) of
      Finished (SaveOk _) \<Rightarrow> k \<in> set (map fst es) | Finished (Conflict _ _) \<Rightarrow> k \<notin> set (map fst es) | _ \<Rightarrow> True"
    if "k < length (cw_clients w)" for k
  proof -
    have "tells_truth es k (cw_clients w ! k)" using log that by (simp add: cas_log_def)
    then show ?thesis
      by (cases "cc_phase (cw_clients w ! k)")
        (auto simp: tells_truth_def phase_tells_def answer_tells_def split: save_result.splits)
  qed
  moreover have "sh_layout (cw_shared w) = content_after ?l es" "distinct (map fst es)"
    using log by (simp_all add: cas_log_def)
  ultimately show ?thesis unfolding swapped_def fst_conv snd_conv cas_event.inject by metis
qed

section \<open>Two writers and a stale lock\<close>

definition race_record :: "nat \<Rightarrow> lock_record" where
  "race_record p = \<lparr>lr_pid = p, lr_start = ''linux:1'', lr_token = ''t''\<rparr>"

definition race_procs :: "nat \<Rightarrow> string option" where
  "race_procs p = (if p = 1 \<or> p = 2 then Some ''linux:1'' else None)"

definition race_client :: "nat \<Rightarrow> string \<Rightarrow> cas_phase \<Rightarrow> cas_client" where
  "race_client p t ph = \<lparr>cc_record = race_record p, cc_text = t, cc_expected = Some ''a'', cc_phase = ph\<rparr>"

text \<open>The lock of the dead process 9, and writers of the processes 1 and 2.\<close>

definition race_shared :: shared where
  "race_shared = \<lparr>sh_lock = Some 0, sh_text = (\<lambda>_. format_lock_record (race_record 9)), sh_ctime = (\<lambda>_. 0), sh_next = 1,
     sh_layout = Some ''a''\<rparr>"

definition race_at :: "shared \<Rightarrow> cas_phase \<Rightarrow> cas_phase \<Rightarrow> cas_world" where
  "race_at sh pa pb = \<lparr>cw_shared = sh, cw_procs = race_procs, cw_clients = [race_client 1 ''b'' pa, race_client 2 ''c'' pb]\<rparr>"

definition race_world :: cas_world where
  "race_world = race_at race_shared Entering Entering"

definition calm_input :: cas_input where
  "calm_input = \<lparr>ci_fault = None, ci_expired = False\<rparr>"

definition six :: "nat \<Rightarrow> cas_act list" where
  "six k = (let a = Act k calm_input in [a, a, a, a, a, a])"

definition four :: "nat \<Rightarrow> cas_act list" where
  "four k = (let a = Act k calm_input in [a, a, a, a])"

lemma race_start: "cas_start race_world"
  by (simp add: cas_start_def race_world_def race_at_def race_client_def race_shared_def race_record_def proper_record_def
      gone_owner_def race_procs_def u32_max_def valid_lock_field_def is_ascii_alphanumeric_def in_rng_def)

lemma race_parse [simp]:
  "parse_lock_record (format_lock_record (race_record (Suc 0))) = Some (race_record (Suc 0))"
  "parse_lock_record (format_lock_record (race_record 2)) = Some (race_record 2)"
  "parse_lock_record (format_lock_record (race_record 9)) = Some (race_record 9)"
  by (rule lock_record_roundtrip;
      simp add: race_record_def u32_max_def valid_lock_field_def is_ascii_alphanumeric_def in_rng_def)+

lemma race_record_eq [simp]: "race_record p = race_record q \<longleftrightarrow> p = q"
  by (simp add: race_record_def)

lemma race_at_eq [simp]: "race_at sh pa pb = race_at sh' pa pb \<longleftrightarrow> sh = sh'"
  by (simp add: race_at_def)

lemma race_act [simp]:
  "cas_do (Act 0 inp) (race_at sh pa pb) =
     (case cas_step inp race_procs sh (race_client 1 ''b'' pa) of (sh', c, es) \<Rightarrow> (race_at sh' (cc_phase c) pb, map (Pair 0) es))"
  "cas_do (Act (Suc 0) inp) (race_at sh pa pb) =
     (case cas_step inp race_procs sh (race_client 2 ''c'' pb) of (sh', c, es) \<Rightarrow> (race_at sh' pa (cc_phase c), map (Pair 1) es))"
  by (auto simp: race_at_def race_client_def dest!: cas_step_const split: prod.splits)

text \<open>The steps of these writers, one phase at a time, when no call fails.\<close>

lemma race_steps [simp]:
  "length t < 2 \<Longrightarrow> cas_step calm_input race_procs sh (race_client p t Entering) = (sh, race_client p t Preparing, [])"
  "cas_step calm_input race_procs sh (race_client p t Preparing) =
     (sh\<lparr>sh_text := (sh_text sh)(sh_next sh := format_lock_record (race_record p)), sh_next := sh_next sh + 1\<rparr>,
      race_client p t (Publishing (sh_next sh)), [])"
  "cas_step calm_input race_procs sh (race_client p t (Publishing i)) =
     (case sh_lock sh of Some _ \<Rightarrow> (sh, race_client p t Inspecting, [])
      | None \<Rightarrow> (touch i (sh\<lparr>sh_lock := Some i\<rparr>), race_client p t (Cleaning i), []))"
  "cas_step calm_input race_procs sh (race_client p t (Cleaning i)) = (touch i sh, race_client p t (Stamping i), [])"
  "sh_lock sh = Some j \<Longrightarrow> cas_step calm_input race_procs sh (race_client p t (Stamping i)) =
     (sh, race_client p t (Comparing (stat_of sh j)), [])"
  "lock_at sh = Some s \<Longrightarrow> lock_owner s = Some r \<Longrightarrow> cas_step calm_input race_procs sh (race_client p t Inspecting) =
     (sh, race_client p t (Probing s r), [])"
  "cas_step calm_input race_procs sh (race_client p t (Probing s (race_record 9))) = (sh, race_client p t (Reclaiming s), [])"
  "lock_at sh = Some s \<Longrightarrow> cas_step calm_input race_procs sh (race_client p t (Reclaiming s)) = (sh, race_client p t Unlinking, [])"
  "cas_step calm_input race_procs sh (race_client p t Unlinking) = (sh\<lparr>sh_lock := None\<rparr>, race_client p t Preparing, [])"
  "cas_step calm_input race_procs sh (race_client p t (Comparing m)) =
     (sh, race_client p t (if sh_layout sh = Some ''a'' then Replacing m else Releasing m (Conflict (sh_layout sh) (sh_layout sh))), [])"
  "cas_step calm_input race_procs sh (race_client p t (Replacing m)) =
     (sh\<lparr>sh_layout := Some t\<rparr>, race_client p t (Syncing m), [Replaced (sh_layout sh) t])"
  "cas_step calm_input race_procs sh (race_client p t (Syncing m)) = (sh, race_client p t (Releasing m (SaveOk t)), [])"
  "lock_at sh = Some s \<Longrightarrow> cas_step calm_input race_procs sh (race_client p t (Releasing m res)) =
     (sh, race_client p t (if ls_record s = Some (race_record p) \<and> ls_text s = format_lock_record (race_record p)
        \<and> same_lock_metadata (ls_meta s) m then Dropping m res else Finished res), [])"
  "lock_at sh = None \<Longrightarrow> cas_step calm_input race_procs sh (race_client p t (Releasing m res)) = (sh, race_client p t (Finished res), [])"
  "cas_step calm_input race_procs sh (race_client p t (Dropping m res)) = (sh\<lparr>sh_lock := None\<rparr>, race_client p t (Finished res), [])"
  "cas_step calm_input race_procs sh (race_client p t (Finished res)) = (sh, race_client p t (Finished res), [])"
  by (auto simp: cas_step_def race_client_def calm_input_def refused_def LAYOUT_FILE_MAX_BYTES_def owner_state_def unknown_start_def
      starts_with_def race_procs_def race_record_def same_lock_metadata_def Let_def split: option.splits)

lemma race_client_phase [simp]: "cc_phase (race_client p t ph) = ph"
  by (simp add: race_client_def)

lemma race_owner [simp]: "ls_record s = Some r \<Longrightarrow> lock_owner s = Some r"
  by (simp add: lock_owner_def)

lemmas race_eval = cas_run_def race_world_def six_def four_def race_shared_def Let_def lock_at_def stat_of_def touch_def
  same_lock_metadata_def


text \<open>The same writers one after the other: the first removes the stale lock and saves, the
  second is told of the conflict.\<close>

theorem saves_compare_and_swap_witness:
  "\<exists>w es. cas_run (six 0 @ six 0 @ four 0 @ four 1 @ four 1) race_world = (w, es) \<and> sh_layout (cw_shared w) = Some ''b''
     \<and> es = [(0, Replaced (Some ''a'') ''b'')]"
proof -
  have "\<exists>sh. cas_run (six 0 @ six 0 @ four 0 @ four 1 @ four 1) race_world =
      (race_at sh (Finished (SaveOk ''b'')) (Finished (Conflict (Some ''b'') (Some ''b''))), [(0, Replaced (Some ''a'') ''b'')])"
    by (simp add: race_eval del: cas_do.simps)
  then obtain sh where run: "cas_run (six 0 @ six 0 @ four 0 @ four 1 @ four 1) race_world =
      (race_at sh (Finished (SaveOk ''b'')) (Finished (Conflict (Some ''b'') (Some ''b''))), [(0, Replaced (Some ''a'') ''b'')])"
    by blast
  have "uninterrupted (six 0 @ six 0 @ four 0 @ four 1 @ four 1) race_world"
    by (simp add: race_eval undisturbed_def del: cas_do.simps) (simp add: race_at_def)
  from saves_compare_and_swap [OF race_start this run] run show ?thesis by simp
qed

end
