(* ===== verification/Mosaic.thy ===== *)
theory Mosaic
  imports LayoutFile Guardian "HOL-Library.List_Lexorder" "HOL-Library.Char_ord"
begin

text \<open>
  The read-only projection of the desktop layout for the browser
  (\<^verbatim>\<open>crates/amber/src/mosaic.rs\<close>): validation of the parsed sidecar, the stamp-keyed cache,
  pane names, and the rendering that places every live pane. A \<^verbatim>\<open>HashMap\<close> is the list of its
  entries in the order an iteration meets them, with distinct keys; the JSON parser and
  the printing of a ratio are parameters. The keys of a JSON object are listed in the order
  the source writes them.
\<close>

section \<open>The sidecar\<close>

text \<open>A finite \<^verbatim>\<open>f32\<close> is the rational it denotes.\<close>

type_synonym f32 = f64

datatype node = Leaf string | Split string f32 node node

record frozen_entry =
  fe_note :: "string option"

record tab_layout =
  tl_tree :: "node option"
  tl_label :: "string option"

record ws_layout =
  wl_active_tab :: nat
  wl_tabs :: "(string \<times> tab_layout) list"
  wl_label :: "string option"
  wl_tab_order :: "nat list option"

record layout_file =
  lo_version :: nat
  lo_active_workspace :: nat
  lo_workspaces :: "(string \<times> ws_layout) list"
  lo_frozen :: "(string \<times> frozen_entry) list"

definition layout_default :: layout_file where
  "layout_default = \<lparr>lo_version = 1, lo_active_workspace = 1, lo_workspaces = [], lo_frozen = []\<rparr>"

section \<open>Validation\<close>

definition bounded_string :: "string \<Rightarrow> bool" where
  "bounded_string s \<longleftrightarrow> length s \<le> LAYOUT_MAX_STRING_BYTES"

definition bounded_option :: "string option \<Rightarrow> bool" where
  "bounded_option s = (case s of None \<Rightarrow> True | Some t \<Rightarrow> bounded_string t)"

definition ratio_ok :: "f32 \<Rightarrow> bool" where
  "ratio_ok r \<longleftrightarrow> is_finite r \<and> f64_ge r (Finite 0) \<and> f64_ge (Finite 1) r"

text \<open>
  The loop of \<^verbatim>\<open>validate_tree\<close>: \<open>None\<close> is \<^verbatim>\<open>return false\<close>, otherwise the new count. The top of the
  stack is the head of the list.
\<close>

function validate_loop :: "(node \<times> nat) list \<Rightarrow> nat \<Rightarrow> nat option" where
  "validate_loop [] n = Some n"
| "validate_loop ((t, depth) # rest) n =
     (if depth > LAYOUT_MAX_TREE_DEPTH then None
      else if n + 1 > LAYOUT_MAX_TREE_NODES then None
      else case t of
        Leaf p \<Rightarrow> if bounded_string p then validate_loop rest (n + 1) else None
      | Split d r a b \<Rightarrow>
          if (d = ''h'' \<or> d = ''v'') \<and> ratio_ok r
          then validate_loop ((b, depth + 1) # (a, depth + 1) # rest) (n + 1) else None)"
  by pat_completeness auto
termination
  by (relation "measure (\<lambda>(p, _). sum_list (map (\<lambda>(t, _). 2 * size t + 1) p))") auto

definition validate_tree :: "node \<Rightarrow> nat \<Rightarrow> nat option" where
  "validate_tree t n = validate_loop [(t, 1)] n"

fun validate_tabs :: "(string \<times> tab_layout) list \<Rightarrow> nat \<Rightarrow> nat option" where
  "validate_tabs [] n = Some n"
| "validate_tabs ((k, t) # ts) n =
     (if \<not> bounded_string k \<or> \<not> bounded_option (tl_label t) then None
      else case tl_tree t of
        None \<Rightarrow> validate_tabs ts n
      | Some tree \<Rightarrow> (case validate_tree tree n of None \<Rightarrow> None | Some n' \<Rightarrow> validate_tabs ts n'))"

fun validate_workspaces :: "(string \<times> ws_layout) list \<Rightarrow> nat \<Rightarrow> nat option" where
  "validate_workspaces [] n = Some n"
| "validate_workspaces ((k, w) # ws) n =
     (if \<not> bounded_string k \<or> length (wl_tabs w) > LAYOUT_MAX_TABS_PER_WORKSPACE
         \<or> (case wl_tab_order w of None \<Rightarrow> False | Some xs \<Rightarrow> length xs > LAYOUT_MAX_TABS_PER_WORKSPACE)
         \<or> \<not> bounded_option (wl_label w) then None
      else case validate_tabs (wl_tabs w) n of None \<Rightarrow> None | Some n' \<Rightarrow> validate_workspaces ws n')"

definition validate_layout :: "layout_file \<Rightarrow> bool" where
  "validate_layout f \<longleftrightarrow>
     (lo_version f = 1 \<or> lo_version f = 2) \<and> length (lo_workspaces f) \<le> LAYOUT_MAX_WORKSPACES
     \<and> length (lo_frozen f) \<le> LAYOUT_MAX_MAP_ENTRIES
     \<and> validate_workspaces (lo_workspaces f) 0 \<noteq> None
     \<and> list_all (\<lambda>(k, e). bounded_string k \<and> bounded_option (fe_note e)) (lo_frozen f)"

definition load_layout :: "(string \<Rightarrow> layout_file option) \<Rightarrow> read_error + string option \<Rightarrow> layout_file" where
  "load_layout parse r =
     (case r of
        Inr (Some raw) \<Rightarrow>
          (case parse raw of
             Some f \<Rightarrow> if validate_layout f then f else layout_default
           | None \<Rightarrow> layout_default)
      | _ \<Rightarrow> layout_default)"

section \<open>The cache\<close>

text \<open>
  A stamp is what \<^verbatim>\<open>lstat\<close> says of the path. The arguments of \<open>cache_load\<close> are the stamp before,
  the first load, the stamp after it, the second load and the stamp after that.
\<close>

record layout_cache =
  lc_stamp :: "file_meta option"
  lc_layout :: layout_file

definition cache_new :: layout_cache where
  "cache_new = \<lparr>lc_stamp = None, lc_layout = layout_default\<rparr>"

definition cache_load :: "file_meta option \<Rightarrow> layout_file \<Rightarrow> file_meta option \<Rightarrow> layout_file \<Rightarrow> file_meta option
    \<Rightarrow> layout_cache \<Rightarrow> layout_file \<times> layout_cache" where
  "cache_load stamp first settled second settled' c =
     (if lc_stamp c = stamp then (lc_layout c, c)
      else let (layout, s) = (if settled \<noteq> stamp then (second, settled') else (first, settled))
           in (layout, \<lparr>lc_stamp = s, lc_layout = layout\<rparr>))"

section \<open>Pane names\<close>

definition num :: "string \<Rightarrow> nat option" where
  "num s = (if s = [] \<or> \<not> list_all ascii_digit s then None else parse_uint u32_max (map of_char s))"

definition parse_pane_name :: "string \<Rightarrow> (nat \<times> nat \<times> nat) option" where
  "parse_pane_name name =
     (if \<not> starts_with ''amber-'' name then None
      else case split_on CHR ''-'' (drop 6 name) of
        [w, t, ord, i] \<Rightarrow>
          (case (num w, num t, num ord) of
             (Some w', Some t', Some o') \<Rightarrow>
               if i = [] \<or> \<not> list_all is_ascii_alphanumeric i then None else Some (w', t', o')
           | _ \<Rightarrow> None)
      | _ \<Rightarrow> None)"

section \<open>Trees\<close>

fun prune_tree :: "string set \<Rightarrow> node \<Rightarrow> node option" where
  "prune_tree live (Leaf p) = (if p \<in> live then Some (Leaf p) else None)"
| "prune_tree live (Split d r a b) =
     (case (prune_tree live a, prune_tree live b) of
        (None, None) \<Rightarrow> None
      | (Some x, None) \<Rightarrow> Some x
      | (None, Some x) \<Rightarrow> Some x
      | (Some x, Some y) \<Rightarrow> Some (Split d r x y))"

fun leaves :: "node \<Rightarrow> string list" where
  "leaves (Leaf p) = [p]"
| "leaves (Split d r a b) = leaves a @ leaves b"

text \<open>The \<^verbatim>\<open>f32\<close> nearest to 0.66.\<close>

definition append_ratio :: f32 where
  "append_ratio = Finite (11072963 / 16777216)"

definition append_leaf :: "node option \<Rightarrow> string \<Rightarrow> node" where
  "append_leaf t p = (case t of None \<Rightarrow> Leaf p | Some n \<Rightarrow> Split ''h'' append_ratio n (Leaf p))"

fun node_json :: "(f32 \<Rightarrow> string) \<Rightarrow> node \<Rightarrow> json" where
  "node_json show_ratio (Leaf p) = JObject [(''kind'', JString ''leaf''), (''paneId'', JString p)]"
| "node_json show_ratio (Split d r a b) =
     JObject [(''kind'', JString ''split''), (''dir'', JString d), (''ratio'', JNumber (show_ratio r)),
              (''a'', node_json show_ratio a), (''b'', node_json show_ratio b)]"

section \<open>Rendering\<close>

record mosaic_tab =
  mt_tab :: nat
  mt_label :: "string option"
  mt_tree :: node

record mosaic_ws =
  mw_ws :: nat
  mw_label :: "string option"
  mw_active_tab :: nat
  mw_tabs :: "mosaic_tab list"

text \<open>The live panes with the workspace and tab their names give them.\<close>

definition panes :: "string list \<Rightarrow> (string \<times> nat \<times> nat) list" where
  "panes sessions =
     List.map_filter (\<lambda>n. map_option (\<lambda>(w, t, _). (n, w, t)) (parse_pane_name n)) sessions"

definition names_in :: "(string \<times> nat \<times> nat) list \<Rightarrow> nat \<Rightarrow> nat \<Rightarrow> string list" where
  "names_in ps w t = sort (map fst (filter (\<lambda>(_, w', t'). w' = w \<and> t' = t) ps))"

definition parse_id :: "string \<Rightarrow> nat option" where
  "parse_id k = parse_uint u32_max (map of_char k)"

definition dedup_sorted :: "nat list \<Rightarrow> nat list" where
  "dedup_sorted xs = remdups_adj (sort xs)"

definition ws_ids :: "layout_file \<Rightarrow> (string \<times> nat \<times> nat) list \<Rightarrow> nat list" where
  "ws_ids f ps = dedup_sorted (List.map_filter (parse_id \<circ> fst) (lo_workspaces f) @ map (\<lambda>(_, w, _). w) ps)"

fun position_in :: "nat list \<Rightarrow> nat \<Rightarrow> nat" where
  "position_in [] t = u64_max"
| "position_in (x # xs) t = (if x = t then 0 else let p = position_in xs t in if p = u64_max then p else p + 1)"

definition tab_ids :: "ws_layout option \<Rightarrow> (string \<times> nat \<times> nat) list \<Rightarrow> nat \<Rightarrow> nat list" where
  "tab_ids wl ps w =
     (let ids = dedup_sorted ((case wl of None \<Rightarrow> [] | Some l \<Rightarrow> List.map_filter (parse_id \<circ> fst) (wl_tabs l))
                              @ map (\<lambda>(_, _, t). t) (filter (\<lambda>(_, w', _). w' = w) ps))
      in case Option.bind wl wl_tab_order of
           None \<Rightarrow> ids
         | Some ord \<Rightarrow> sort_key (position_in ord) ids)"

definition place_missing :: "node option \<Rightarrow> string list \<Rightarrow> node option" where
  "place_missing tree names =
     (let placed = (case tree of None \<Rightarrow> [] | Some t \<Rightarrow> leaves t)
      in fold (\<lambda>n t. if n \<in> set placed then t else Some (append_leaf t n)) names tree)"

definition render_tab :: "ws_layout option \<Rightarrow> (string \<times> nat \<times> nat) list \<Rightarrow> nat \<Rightarrow> nat \<Rightarrow> mosaic_tab option" where
  "render_tab wl ps w t =
     (let tl = Option.bind wl (\<lambda>l. map_of (wl_tabs l) (dec_text t));
          tree = Option.bind (Option.bind tl tl_tree) (prune_tree (set (map fst ps)))
      in map_option (\<lambda>n. \<lparr>mt_tab = t, mt_label = Option.bind tl tl_label, mt_tree = n\<rparr>)
           (place_missing tree (names_in ps w t)))"

definition render_ws :: "layout_file \<Rightarrow> (string \<times> nat \<times> nat) list \<Rightarrow> nat \<Rightarrow> mosaic_ws option" where
  "render_ws f ps w =
     (let wl = map_of (lo_workspaces f) (dec_text w);
          tabs = List.map_filter (render_tab wl ps w) (tab_ids wl ps w)
      in if tabs = [] then None
         else Some \<lparr>mw_ws = w, mw_label = Option.bind wl wl_label,
                    mw_active_tab = (case wl of None \<Rightarrow> 0 | Some l \<Rightarrow> wl_active_tab l), mw_tabs = tabs\<rparr>)"

definition mosaic_of :: "layout_file \<Rightarrow> string list \<Rightarrow> mosaic_ws list" where
  "mosaic_of f sessions = (let ps = panes sessions in List.map_filter (render_ws f ps) (ws_ids f ps))"

definition json_option :: "string option \<Rightarrow> json" where
  "json_option s = (case s of None \<Rightarrow> JNull | Some t \<Rightarrow> JString t)"

definition json_nat :: "nat \<Rightarrow> json" where
  "json_nat n = JNumber (dec_text n)"

definition tab_json :: "(f32 \<Rightarrow> string) \<Rightarrow> mosaic_tab \<Rightarrow> json" where
  "tab_json show_ratio t =
     JObject [(''tab'', json_nat (mt_tab t)), (''label'', json_option (mt_label t)), (''tree'', node_json show_ratio (mt_tree t))]"

definition ws_json :: "(f32 \<Rightarrow> string) \<Rightarrow> mosaic_ws \<Rightarrow> json" where
  "ws_json show_ratio w =
     JObject [(''ws'', json_nat (mw_ws w)), (''label'', json_option (mw_label w)), (''activeTab'', json_nat (mw_active_tab w)),
              (''tabs'', JArray (map (tab_json show_ratio) (mw_tabs w)))]"

definition render :: "(f32 \<Rightarrow> string) \<Rightarrow> layout_file \<Rightarrow> string list \<Rightarrow> json" where
  "render show_ratio f0 sessions =
     (let f = (if validate_layout f0 then f0 else layout_default)
      in JObject [(''activeWorkspace'', json_nat (lo_active_workspace f)),
                  (''workspaces'', JArray (map (ws_json show_ratio) (mosaic_of f sessions))),
                  (''frozen'', JArray (map JString (sort (map fst (lo_frozen f)))))])"

end
