(* ===== verification/MosaicLaws.thy ===== *)
theory MosaicLaws
  imports Mosaic
begin

text \<open>
  What the mosaic promises: validation in closed form, and that every live pane is placed
  whatever the sidecar says.
\<close>

section \<open>Validation\<close>

primrec nodes :: "node \<Rightarrow> nat" where
  "nodes (Leaf p) = 1"
| "nodes (Split d r a b) = 1 + nodes a + nodes b"

primrec height_of :: "node \<Rightarrow> nat" where
  "height_of (Leaf p) = 1"
| "height_of (Split d r a b) = 1 + max (height_of a) (height_of b)"

primrec well_formed :: "node \<Rightarrow> bool" where
  "well_formed (Leaf p) \<longleftrightarrow> bounded_string p"
| "well_formed (Split d r a b) \<longleftrightarrow> (d = ''h'' \<or> d = ''v'') \<and> ratio_ok r \<and> well_formed a \<and> well_formed b"

definition tree_ok :: "node \<Rightarrow> bool" where
  "tree_ok t \<longleftrightarrow> height_of t \<le> LAYOUT_MAX_TREE_DEPTH \<and> well_formed t"

lemma height_of_pos [simp]: "0 < height_of t" by (cases t) auto
lemma nodes_pos [simp]: "0 < nodes t" by (cases t) auto

definition stack_nodes :: "(node \<times> nat) list \<Rightarrow> nat" where
  "stack_nodes st = sum_list (map (nodes \<circ> fst) st)"

definition stack_ok :: "(node \<times> nat) list \<Rightarrow> bool" where
  "stack_ok st \<longleftrightarrow> (\<forall>(t, d) \<in> set st. d + height_of t \<le> LAYOUT_MAX_TREE_DEPTH + 1 \<and> well_formed t)"

lemma stack_nodes_simps [simp]:
  "stack_nodes [] = 0" "stack_nodes ((t, d) # st) = nodes t + stack_nodes st"
  by (simp_all add: stack_nodes_def)

lemma stack_ok_simps [simp]:
  "stack_ok []"
  "stack_ok ((t, d) # st) \<longleftrightarrow> d + height_of t \<le> LAYOUT_MAX_TREE_DEPTH + 1 \<and> well_formed t \<and> stack_ok st"
  by (simp_all add: stack_ok_def)

lemma validate_loop_closed:
  assumes "n \<le> LAYOUT_MAX_TREE_NODES"
  shows "validate_loop st n =
     (if stack_ok st \<and> n + stack_nodes st \<le> LAYOUT_MAX_TREE_NODES then Some (n + stack_nodes st) else None)"
  using assms
proof (induction st n rule: validate_loop.induct)
  case (2 t depth rest n)
  have h: "0 < height_of t" and k: "0 < nodes t" by simp_all
  show ?case
  proof (cases "depth > LAYOUT_MAX_TREE_DEPTH \<or> n + 1 > LAYOUT_MAX_TREE_NODES")
    case True
    then show ?thesis using h k by (auto simp del: height_of_pos nodes_pos)
  next
    case False
    then show ?thesis
      using "2.IH" by (cases t) (auto simp: max_def)
  qed
qed simp

lemma validate_tree_closed:
  "n \<le> LAYOUT_MAX_TREE_NODES \<Longrightarrow> validate_tree t n =
     (if tree_ok t \<and> n + nodes t \<le> LAYOUT_MAX_TREE_NODES then Some (n + nodes t) else None)"
  unfolding validate_tree_def by (subst validate_loop_closed) (simp_all add: tree_ok_def)

definition tab_ok :: "string \<times> tab_layout \<Rightarrow> bool" where
  "tab_ok kt \<longleftrightarrow> bounded_string (fst kt) \<and> bounded_option (tl_label (snd kt))
     \<and> (case tl_tree (snd kt) of None \<Rightarrow> True | Some t \<Rightarrow> tree_ok t)"

definition tab_nodes :: "string \<times> tab_layout \<Rightarrow> nat" where
  "tab_nodes kt = (case tl_tree (snd kt) of None \<Rightarrow> 0 | Some t \<Rightarrow> nodes t)"

definition tabs_nodes :: "(string \<times> tab_layout) list \<Rightarrow> nat" where
  "tabs_nodes ts = sum_list (map tab_nodes ts)"

lemma validate_tabs_closed:
  "n \<le> LAYOUT_MAX_TREE_NODES \<Longrightarrow> validate_tabs ts n =
     (if list_all tab_ok ts \<and> n + tabs_nodes ts \<le> LAYOUT_MAX_TREE_NODES then Some (n + tabs_nodes ts) else None)"
proof (induction ts arbitrary: n)
  case (Cons kt ts)
  obtain k t where [simp]: "kt = (k, t)" by (cases kt)
  show ?case
    using Cons by (auto simp: tab_ok_def tab_nodes_def tabs_nodes_def validate_tree_closed split: option.splits)
qed (simp add: tabs_nodes_def)

definition workspace_ok :: "string \<times> ws_layout \<Rightarrow> bool" where
  "workspace_ok kw \<longleftrightarrow> bounded_string (fst kw) \<and> length (wl_tabs (snd kw)) \<le> LAYOUT_MAX_TABS_PER_WORKSPACE
     \<and> (case wl_tab_order (snd kw) of None \<Rightarrow> True | Some xs \<Rightarrow> length xs \<le> LAYOUT_MAX_TABS_PER_WORKSPACE)
     \<and> bounded_option (wl_label (snd kw)) \<and> list_all tab_ok (wl_tabs (snd kw))"

definition layout_nodes :: "(string \<times> ws_layout) list \<Rightarrow> nat" where
  "layout_nodes ws = sum_list (map (tabs_nodes \<circ> wl_tabs \<circ> snd) ws)"

lemma validate_workspaces_closed:
  "n \<le> LAYOUT_MAX_TREE_NODES \<Longrightarrow> validate_workspaces ws n =
     (if list_all workspace_ok ws \<and> n + layout_nodes ws \<le> LAYOUT_MAX_TREE_NODES
      then Some (n + layout_nodes ws) else None)"
proof (induction ws arbitrary: n)
  case (Cons kw ws)
  obtain k w where [simp]: "kw = (k, w)" by (cases kw)
  show ?case
    using Cons by (auto simp: workspace_ok_def layout_nodes_def validate_tabs_closed split: option.splits)
qed (simp add: layout_nodes_def)

text \<open>
  C40: validation accepts exactly the sidecars of version 1 or 2 within every cap: the entry counts
  of the maps, the byte length of every string, and for the trees \<^emph>\<open>all together\<close> at most 4096
  nodes, none deeper than 64, every split horizontal or vertical with a finite ratio between
  zero and one. The work-list loop, its running counter and the order in which the maps are
  walked make no difference.
\<close>

theorem validate_layout_exact:
  "validate_layout f \<longleftrightarrow>
     lo_version f \<in> {1, 2} \<and> length (lo_workspaces f) \<le> LAYOUT_MAX_WORKSPACES
     \<and> length (lo_frozen f) \<le> LAYOUT_MAX_MAP_ENTRIES
     \<and> list_all workspace_ok (lo_workspaces f) \<and> layout_nodes (lo_workspaces f) \<le> LAYOUT_MAX_TREE_NODES
     \<and> list_all (\<lambda>(k, e). bounded_string k \<and> bounded_option (fe_note e)) (lo_frozen f)"
  by (auto simp: validate_layout_def validate_workspaces_closed)

section \<open>Placing the panes\<close>

lemma prune_tree_leaves:
  "(case prune_tree live t of None \<Rightarrow> [] | Some u \<Rightarrow> leaves u) = filter (\<lambda>p. p \<in> live) (leaves t)"
proof (induction t)
  case (Split d r a b)
  show ?case
    using Split[symmetric] by (auto split: option.splits)
qed simp

definition shown :: "node option \<Rightarrow> string list" where
  "shown t = (case t of None \<Rightarrow> [] | Some u \<Rightarrow> leaves u)"

lemma shown_simps [simp]: "shown None = []" "shown (Some u) = leaves u"
  by (simp_all add: shown_def)

lemma leaves_nonempty [simp]: "leaves t \<noteq> []"
  by (induction t) auto

lemma shown_empty_iff: "shown t = [] \<longleftrightarrow> t = None"
  by (cases t) auto

lemma leaves_append_leaf [simp]: "leaves (append_leaf t p) = shown t @ [p]"
  by (cases t) (simp_all add: append_leaf_def)

lemma shown_fold:
  "shown (fold (\<lambda>n t. if n \<in> S then t else Some (append_leaf t n)) names t)
     = shown t @ filter (\<lambda>n. n \<notin> S) names"
  by (induction names arbitrary: t) simp_all

lemma shown_place_missing:
  "shown (place_missing t names) = shown t @ filter (\<lambda>n. n \<notin> set (shown t)) names"
  by (simp add: place_missing_def shown_fold shown_def[of t, symmetric])

lemma shown_bind_prune:
  "shown (Option.bind t (prune_tree live)) = filter (\<lambda>p. p \<in> live) (shown t)"
  using prune_tree_leaves[of live] by (cases t) (auto simp: shown_def)

text \<open>What the sidecar records for a tab, and the leaves its rendering shows.\<close>

definition recorded :: "ws_layout option \<Rightarrow> nat \<Rightarrow> string list" where
  "recorded wl t = shown (Option.bind (Option.bind wl (\<lambda>l. map_of (wl_tabs l) (dec_text t))) tl_tree)"

definition tab_leaves :: "ws_layout option \<Rightarrow> (string \<times> nat \<times> nat) list \<Rightarrow> nat \<Rightarrow> nat \<Rightarrow> string list" where
  "tab_leaves wl ps w t =
     (let kept = filter (\<lambda>p. p \<in> set (map fst ps)) (recorded wl t)
      in kept @ filter (\<lambda>n. n \<notin> set kept) (names_in ps w t))"

lemma render_tab_leaves:
  "render_tab wl ps w t = None \<longleftrightarrow> tab_leaves wl ps w t = []"
  "render_tab wl ps w t = Some T \<Longrightarrow> mt_tab T = t \<and> leaves (mt_tree T) = tab_leaves wl ps w t"
proof -
  define tree where
    "tree = Option.bind (Option.bind (Option.bind wl (\<lambda>l. map_of (wl_tabs l) (dec_text t))) tl_tree) (prune_tree (set (map fst ps)))"
  have tl: "tab_leaves wl ps w t = shown (place_missing tree (names_in ps w t))"
    unfolding tree_def tab_leaves_def recorded_def by (simp add: shown_place_missing shown_bind_prune Let_def del: bind_assoc)
  show "render_tab wl ps w t = None \<longleftrightarrow> tab_leaves wl ps w t = []"
    unfolding tl shown_empty_iff by (simp add: render_tab_def tree_def Let_def)
  show "mt_tab T = t \<and> leaves (mt_tree T) = tab_leaves wl ps w t" if "render_tab wl ps w t = Some T"
    using that unfolding tl by (auto simp: render_tab_def tree_def Let_def simp del: bind_assoc)
qed

lemma set_panes: "(n, w, t) \<in> set (panes ss) \<longleftrightarrow> n \<in> set ss \<and> (\<exists>k. parse_pane_name n = Some (w, t, k))"
  by (auto simp: panes_def List.map_filter_def image_iff)

lemma fst_panes: "fst ` set (panes ss) = {n \<in> set ss. parse_pane_name n \<noteq> None}"
proof (intro set_eqI iffI)
  fix n assume "n \<in> {n \<in> set ss. parse_pane_name n \<noteq> None}"
  then obtain w t k where "n \<in> set ss" "parse_pane_name n = Some (w, t, k)" by auto
  then have "(n, w, t) \<in> set (panes ss)" by (auto simp: set_panes)
  then show "n \<in> fst ` set (panes ss)" by force
qed (auto simp: set_panes)

lemma set_names_in: "set (names_in ps w t) = {n. (n, w, t) \<in> set ps}"
  by (force simp: names_in_def)

lemma set_tab_leaves:
  "set (tab_leaves wl ps w t) = {p \<in> fst ` set ps. p \<in> set (recorded wl t) \<or> (p, w, t) \<in> set ps}"
  by (force simp: tab_leaves_def Let_def set_names_in)

lemma set_dedup_sorted [simp]: "set (dedup_sorted xs) = set xs"
  by (simp add: dedup_sorted_def)

lemma distinct_remdups_adj: "sorted xs \<Longrightarrow> distinct (remdups_adj xs)" for xs :: "nat list"
  by (induction xs rule: remdups_adj.induct) (auto simp: order_antisym)

lemma distinct_dedup_sorted [simp]: "distinct (dedup_sorted xs)"
  by (simp add: dedup_sorted_def distinct_remdups_adj)

lemma distinct_tab_ids: "distinct (tab_ids wl ps w)"
  by (simp add: tab_ids_def Let_def split: option.split)

lemma pane_tab_listed: "(n, w, t) \<in> set ps \<Longrightarrow> t \<in> set (tab_ids wl ps w)"
  by (force simp: tab_ids_def Let_def split: option.split)

lemma pane_ws_listed: "(n, w, t) \<in> set ps \<Longrightarrow> w \<in> set (ws_ids f ps)"
  by (force simp: ws_ids_def)

lemma distinct_map_filter:
  assumes "distinct xs" "\<And>x y. g x = Some y \<Longrightarrow> key y = x"
  shows "distinct (map key (List.map_filter g xs))"
  using assms by (induction xs) (auto simp: List.map_filter_def split: option.splits)

lemma render_ws_SomeD:
  assumes "render_ws f ps w = Some W"
  shows "mw_ws W = w" "mw_tabs W = List.map_filter (render_tab (map_of (lo_workspaces f) (dec_text w)) ps w)
           (tab_ids (map_of (lo_workspaces f) (dec_text w)) ps w)"
  using assms by (auto simp: render_ws_def Let_def split: if_splits)

lemma mosaic_tab_leaves:
  assumes "W \<in> set (mosaic_of f ss)" "T \<in> set (mw_tabs W)"
  shows "leaves (mt_tree T) = tab_leaves (map_of (lo_workspaces f) (dec_text (mw_ws W))) (panes ss) (mw_ws W) (mt_tab T)"
proof -
  obtain w where w: "render_ws f (panes ss) w = Some W"
    using assms(1) by (auto simp: mosaic_of_def Let_def in_map_filter)
  show ?thesis
    using assms(2) render_ws_SomeD[OF w] by (auto simp: in_map_filter dest!: render_tab_leaves(2))
qed

lemma mosaic_covers:
  assumes "(n, w, t) \<in> set (panes ss)"
  shows "\<exists>W \<in> set (mosaic_of f ss). mw_ws W = w \<and> (\<exists>T \<in> set (mw_tabs W). mt_tab T = t)"
proof -
  define wl where "wl = map_of (lo_workspaces f) (dec_text w)"
  have "n \<in> set (tab_leaves wl (panes ss) w t)"
    unfolding set_tab_leaves using assms by force
  then obtain T where T: "render_tab wl (panes ss) w t = Some T"
    using render_tab_leaves(1)[of wl "panes ss" w t] by (cases "render_tab wl (panes ss) w t") auto
  define tabs where "tabs = List.map_filter (render_tab wl (panes ss) w) (tab_ids wl (panes ss) w)"
  have "T \<in> set tabs"
    unfolding tabs_def in_map_filter using T pane_tab_listed[OF assms] by blast
  moreover from this have "tabs \<noteq> []" by auto
  then obtain W where "render_ws f (panes ss) w = Some W" "mw_ws W = w" "mw_tabs W = tabs"
    by (simp add: render_ws_def Let_def wl_def[symmetric] tabs_def[symmetric])
  moreover have "w \<in> set (ws_ids f (panes ss))" by (rule pane_ws_listed[OF assms])
  ultimately have "W \<in> set (mosaic_of f ss)" "mw_ws W = w" "T \<in> set (mw_tabs W)"
    by (auto simp: mosaic_of_def Let_def in_map_filter)
  then show ?thesis using render_tab_leaves(2)[OF T] by blast
qed

lemma mosaic_distinct:
  "distinct (map mw_ws (mosaic_of f ss))"
  "W \<in> set (mosaic_of f ss) \<Longrightarrow> distinct (map mt_tab (mw_tabs W))"
proof -
  show "distinct (map mw_ws (mosaic_of f ss))"
    unfolding mosaic_of_def Let_def ws_ids_def
    by (rule distinct_map_filter) (auto dest: render_ws_SomeD(1))
  show "distinct (map mt_tab (mw_tabs W))" if W: "W \<in> set (mosaic_of f ss)"
  proof -
    obtain w where w: "render_ws f (panes ss) w = Some W"
      using W by (auto simp: mosaic_of_def Let_def in_map_filter)
    show ?thesis
      unfolding render_ws_SomeD(2)[OF w]
      by (rule distinct_map_filter[OF distinct_tab_ids]) (auto dest: render_tab_leaves(2))
  qed
qed

lemma mosaic_tab_exact:
  assumes "W \<in> set (mosaic_of f ss)" "T \<in> set (mw_tabs W)"
  shows "p \<in> set (leaves (mt_tree T)) \<longleftrightarrow>
           p \<in> set ss \<and> parse_pane_name p \<noteq> None \<and>
           (p \<in> set (recorded (map_of (lo_workspaces f) (dec_text (mw_ws W))) (mt_tab T))
            \<or> (\<exists>k. parse_pane_name p = Some (mw_ws W, mt_tab T, k)))"
  unfolding mosaic_tab_leaves[OF assms] set_tab_leaves fst_panes by (auto simp: set_panes)

lemma mosaic_shows:
  assumes "n \<in> set ss" "parse_pane_name n = Some (w, t, k)"
  shows "\<exists>W \<in> set (mosaic_of f ss). mw_ws W = w \<and> (\<exists>T \<in> set (mw_tabs W). mt_tab T = t \<and> n \<in> set (leaves (mt_tree T)))"
proof -
  have "(n, w, t) \<in> set (panes ss)" using assms by (auto simp: set_panes)
  from mosaic_covers[OF this, of f] obtain W T
    where W: "W \<in> set (mosaic_of f ss)" "mw_ws W = w" "T \<in> set (mw_tabs W)" "mt_tab T = t" by blast
  moreover have "n \<in> set (leaves (mt_tree T))"
    using assms W by (auto simp: mosaic_tab_exact[OF W(1,3)])
  ultimately show ?thesis by blast
qed

text \<open>C22: 
  C41: the browser's mosaic, whatever the sidecar says, loses no live pane and invents none: every
  session whose name is a pane name appears in the tab its name gives it; a tab shows exactly
  the live panes that the sidecar records there or whose names put them there; and every
  workspace, and every tab of it, is listed once.
\<close>

theorem mosaic_places_panes:
  "(\<forall>n \<in> set ss. \<forall>w t k. parse_pane_name n = Some (w, t, k) \<longrightarrow>
      (\<exists>W \<in> set (mosaic_of f ss). mw_ws W = w \<and>
         (\<exists>T \<in> set (mw_tabs W). mt_tab T = t \<and> n \<in> set (leaves (mt_tree T)))))
   \<and> (\<forall>W \<in> set (mosaic_of f ss). \<forall>T \<in> set (mw_tabs W). \<forall>p. p \<in> set (leaves (mt_tree T)) \<longleftrightarrow>
           p \<in> set ss \<and> parse_pane_name p \<noteq> None \<and>
           (p \<in> set (recorded (map_of (lo_workspaces f) (dec_text (mw_ws W))) (mt_tab T))
            \<or> (\<exists>k. parse_pane_name p = Some (mw_ws W, mt_tab T, k))))
   \<and> distinct (map mw_ws (mosaic_of f ss))
   \<and> (\<forall>W \<in> set (mosaic_of f ss). distinct (map mt_tab (mw_tabs W)))"
  by (intro conjI ballI allI impI mosaic_shows mosaic_tab_exact mosaic_distinct)

text \<open>
  A sidecar that records a browser pane and one live pane of tab 2, and does not know the
  second session.
\<close>

definition demo_layout :: layout_file where
  "demo_layout = \<lparr>lo_version = 2, lo_active_workspace = 1,
     lo_workspaces = [(''1'', \<lparr>wl_active_tab = 2,
        wl_tabs = [(''2'', \<lparr>tl_tree = Some (Split ''v'' (Finite (1/2)) (Leaf ''browser-1'') (Leaf ''amber-1-2-0-ab'')),
                            tl_label = None\<rparr>)],
        wl_label = Some ''work'', wl_tab_order = None\<rparr>)],
     lo_frozen = []\<rparr>"

definition demo_sessions :: "string list" where
  "demo_sessions = [''s1'', ''amber-1-2-0-ab'', ''amber-1-2-1-cd'']"

theorem mosaic_places_panes_witness:
  "\<exists>W \<in> set (mosaic_of demo_layout demo_sessions). mw_ws W = 1 \<and>
     (\<exists>T \<in> set (mw_tabs W). mt_tab T = 2 \<and> ''amber-1-2-1-cd'' \<in> set (leaves (mt_tree T)))"
proof -
  have "''amber-1-2-1-cd'' \<in> set demo_sessions" by (simp add: demo_sessions_def)
  moreover have "parse_pane_name ''amber-1-2-1-cd'' = Some (1, 2, 1)"
    by (simp add: parse_pane_name_def starts_with_def num_def ascii_digit_def is_ascii_alphanumeric_def in_rng_def
        parse_uint_def u32_max_def)
  ultimately show ?thesis using mosaic_places_panes[of demo_sessions demo_layout] by blast
qed

section \<open>The stamp cache\<close>

text \<open>
  When the sidecar does not change during a call, the answer is the layout it holds.
\<close>

lemma cache_load_quiet:
  assumes "lc_stamp c = stamp \<Longrightarrow> lc_layout c = layout"
  shows "cache_load stamp layout stamp second settled' c = (layout, \<lparr>lc_stamp = stamp, lc_layout = layout\<rparr>)"
  using assms by (auto simp: cache_load_def)

text \<open>
  A replacement between the second load and the stamp after it leaves the replaced layout
  under the new file's stamp; while that file stays, every further call answers with it.
\<close>

lemma cache_keeps_replaced_layout:
  assumes "lc_stamp c \<noteq> s0" "s1 \<noteq> s0" "cache_load s0 old0 s1 old1 s2 c = (r, c')"
  shows "cache_load s2 new s2 new s2 c' = (old1, c')"
  using assms by (auto simp: cache_load_def Let_def)

end
