(* ===== verification/WebMsg.thy ===== *)
theory WebMsg
  imports Mosaic PiCommands Proto "HOL-Library.Monad_Syntax"
begin

text \<open>
  The boundary between a browser and the daemon (\<^verbatim>\<open>crates/amber/src/web.rs\<close>): the messages a
  browser can send, their decoding from JSON and the one mapping from them to control
  messages. The JSON parser and \<^verbatim>\<open>Path::is_dir\<close> are parameters.
\<close>

section \<open>Browser messages\<close>

datatype (plugins only: code) browser_msg =
    BOpen string
  | BClose string
  | BFocus string
  | BCreate string string string "string option"
  | BSetTitle string "string option"
  | BKill string
  | BMove string string
  | BSuspend string
  | BResume string
  | BDumpBacklog string
  | BResize string u16 u16
  | BPiOpen string
  | BPiClose string
  | BPiPrompt string string pi_delivery
  | BPiPromptWithAttachments string string string pi_delivery "string list"
  | BPiUploadBegin string string string string nat
  | BPiUploadChunk string string string nat string
  | BPiUploadFinish string string string
  | BPiUploadCancel string string string
  | BPiSubagentStatus string string
  | BPiSubagentTranscript string string string "nat option"
  | BPiSubagentControl string string pi_subagent_action string "string option" "nat option" "string option"
  | BPiAbort string
  | BPiThinking string string
  | BRelease

section \<open>Decoding\<close>

fun json_str :: "json \<Rightarrow> string option" where
  "json_str (JString s) = Some s"
| "json_str _ = None"

fun json_array :: "json \<Rightarrow> json list option" where
  "json_array (JArray xs) = Some xs"
| "json_array _ = None"

text \<open>A number without sign, fraction or exponent that fits 64 bits.\<close>

fun json_u64 :: "json \<Rightarrow> nat option" where
  "json_u64 (JNumber s) =
     (if s \<noteq> [] \<and> list_all ascii_digit s then parse_uint u64_max (map of_char s) else None)"
| "json_u64 _ = None"

definition u16_try_from :: "nat \<Rightarrow> u16 option" where
  "u16_try_from n = (if n < 65536 then Some (of_nat n) else None)"

definition u32_try_from :: "nat \<Rightarrow> nat option" where
  "u32_try_from n = (if n \<le> u32_max then Some n else None)"

definition text_field :: "json \<Rightarrow> string \<Rightarrow> string option" where
  "text_field v k = Option.bind (json_get v k) json_str"

definition optional_text :: "json \<Rightarrow> string \<Rightarrow> string option option" where
  "optional_text v k =
     (case json_get v k of
        None \<Rightarrow> Some None
      | Some JNull \<Rightarrow> Some None
      | Some x \<Rightarrow> map_option Some (json_str x))"

fun all_strings :: "json list \<Rightarrow> string list option" where
  "all_strings [] = Some []"
| "all_strings (x # xs) =
     (case json_str x of None \<Rightarrow> None | Some s \<Rightarrow> map_option ((#) s) (all_strings xs))"

definition text_array :: "json \<Rightarrow> string \<Rightarrow> string list option" where
  "text_array v k = Option.bind (Option.bind (json_get v k) json_array) all_strings"

definition u64_field :: "json \<Rightarrow> string \<Rightarrow> nat option" where
  "u64_field v k = Option.bind (json_get v k) json_u64"

definition u16_field :: "json \<Rightarrow> string \<Rightarrow> u16 option" where
  "u16_field v k = Option.bind (u64_field v k) u16_try_from"

definition delivery_of :: "string \<Rightarrow> pi_delivery option" where
  "delivery_of s =
     (if s = ''now'' then Some Now else if s = ''steer'' then Some Steer
      else if s = ''follow_up'' then Some FollowUp else None)"

definition action_of :: "string \<Rightarrow> pi_subagent_action option" where
  "action_of s =
     (if s = ''stop'' then Some Stop else if s = ''steer'' then Some SteerRun
      else if s = ''interrupt'' then Some Interrupt else if s = ''resume'' then Some ResumeRun else None)"

definition index_field :: "json \<Rightarrow> nat option option" where
  "index_field v =
     (case json_get v ''index'' of
        None \<Rightarrow> Some None
      | Some x \<Rightarrow> map_option Some (Option.bind (json_u64 x) u32_try_from))"

definition parse_subagent_control :: "json \<Rightarrow> browser_msg option" where
  "parse_subagent_control v =
     (if (case json_get v ''childId'' of None \<Rightarrow> False | Some x \<Rightarrow> x \<noteq> JNull) \<or> json_get v ''index'' \<noteq> None
      then None
      else do { n \<leftarrow> text_field v ''name''; r \<leftarrow> text_field v ''requestId'';
                a \<leftarrow> Option.bind (text_field v ''action'') action_of; run \<leftarrow> text_field v ''runId'';
                m \<leftarrow> optional_text v ''message'';
                Some (BPiSubagentControl n r a run None None m) })"

text \<open>The messages whose only field is the name of a session.\<close>

definition name_only :: "string \<Rightarrow> (string \<Rightarrow> browser_msg) option" where
  "name_only t =
     (if t = ''open'' then Some BOpen else if t = ''close'' then Some BClose
      else if t = ''focus'' then Some BFocus else if t = ''kill'' then Some BKill
      else if t = ''suspend'' then Some BSuspend else if t = ''resume'' then Some BResume
      else if t = ''dumpBacklog'' then Some BDumpBacklog else if t = ''piOpen'' then Some BPiOpen
      else if t = ''piClose'' then Some BPiClose else if t = ''piAbort'' then Some BPiAbort else None)"

definition parse_pi_msg :: "string \<Rightarrow> json \<Rightarrow> browser_msg option" where
  "parse_pi_msg t v =
     (let f = text_field v in
      if t = ''piPrompt'' then
        do { n \<leftarrow> f ''name''; m \<leftarrow> f ''message''; d \<leftarrow> Option.bind (f ''delivery'') delivery_of;
             Some (BPiPrompt n m d) }
      else if t = ''piPromptWithAttachments'' then
        do { n \<leftarrow> f ''name''; r \<leftarrow> f ''requestId''; m \<leftarrow> f ''message'';
             d \<leftarrow> Option.bind (f ''delivery'') delivery_of; as \<leftarrow> text_array v ''attachments'';
             Some (BPiPromptWithAttachments n r m d as) }
      else if t = ''piUploadBegin'' then
        do { n \<leftarrow> f ''name''; r \<leftarrow> f ''requestId''; fn \<leftarrow> f ''filename''; mt \<leftarrow> f ''mimeType'';
             s \<leftarrow> u64_field v ''size''; Some (BPiUploadBegin n r fn mt s) }
      else if t = ''piUploadChunk'' then
        do { n \<leftarrow> f ''name''; r \<leftarrow> f ''requestId''; a \<leftarrow> f ''attachmentId''; off \<leftarrow> u64_field v ''offset'';
             d \<leftarrow> f ''data''; Some (BPiUploadChunk n r a off d) }
      else if t = ''piUploadFinish'' then
        do { n \<leftarrow> f ''name''; r \<leftarrow> f ''requestId''; a \<leftarrow> f ''attachmentId''; Some (BPiUploadFinish n r a) }
      else if t = ''piUploadCancel'' then
        do { n \<leftarrow> f ''name''; r \<leftarrow> f ''requestId''; a \<leftarrow> f ''attachmentId''; Some (BPiUploadCancel n r a) }
      else if t = ''piSubagentStatus'' then
        do { n \<leftarrow> f ''name''; r \<leftarrow> f ''requestId''; Some (BPiSubagentStatus n r) }
      else if t = ''piSubagentTranscript'' then
        do { n \<leftarrow> f ''name''; r \<leftarrow> f ''requestId''; run \<leftarrow> f ''runId''; i \<leftarrow> index_field v;
             Some (BPiSubagentTranscript n r run i) }
      else if t = ''piSubagentControl'' then parse_subagent_control v
      else if t = ''piThinking'' then do { n \<leftarrow> f ''name''; l \<leftarrow> f ''level''; Some (BPiThinking n l) }
      else None)"

definition parse_browser_value :: "json \<Rightarrow> browser_msg option" where
  "parse_browser_value v =
     (let f = text_field v in do {
        t \<leftarrow> f ''t'';
        case name_only t of
          Some c \<Rightarrow> map_option c (f ''name'')
        | None \<Rightarrow>
            if t = ''create'' then
              do { n \<leftarrow> f ''name''; d \<leftarrow> f ''cwd''; k \<leftarrow> f ''kind''; ti \<leftarrow> optional_text v ''title'';
                   Some (BCreate n d k ti) }
            else if t = ''set-title'' then
              do { n \<leftarrow> f ''name''; ti \<leftarrow> optional_text v ''title''; Some (BSetTitle n ti) }
            else if t = ''move'' then do { a \<leftarrow> f ''from''; b \<leftarrow> f ''to''; Some (BMove a b) }
            else if t = ''resize'' then
              do { n \<leftarrow> f ''name''; c \<leftarrow> u16_field v ''cols''; r \<leftarrow> u16_field v ''rows'';
                   Some (BResize n c r) }
            else if t = ''release'' then Some BRelease
            else parse_pi_msg t v })"

definition parse_browser_msg :: "(string \<Rightarrow> json option) \<Rightarrow> string \<Rightarrow> browser_msg option" where
  "parse_browser_msg from_str s = Option.bind (from_str s) parse_browser_value"

section \<open>The mapping to control messages\<close>

definition RESIZE_MIN_COLS :: u16 where "RESIZE_MIN_COLS = 10"
definition RESIZE_MAX_COLS :: u16 where "RESIZE_MAX_COLS = 1000"
definition RESIZE_MIN_ROWS :: u16 where "RESIZE_MIN_ROWS = 4"
definition RESIZE_MAX_ROWS :: u16 where "RESIZE_MAX_ROWS = 300"

definition CREATE_KINDS :: "string list" where
  "CREATE_KINDS = [''shell'', ''claude'', ''grok'', ''codex'', ''opencode'', ''hermes'', ''pi'', ''muse'']"

definition is_live :: "session_info list \<Rightarrow> string \<Rightarrow> bool" where
  "is_live sessions n \<longleftrightarrow> list_ex (\<lambda>s. si_name s = n) sessions"

definition is_pi_session :: "session_info list \<Rightarrow> string \<Rightarrow> bool" where
  "is_pi_session sessions n \<longleftrightarrow> list_ex (\<lambda>s. si_name s = n \<and> si_kind s = ''pi'') sessions"

definition is_agent_session :: "session_info list \<Rightarrow> string \<Rightarrow> bool" where
  "is_agent_session sessions n \<longleftrightarrow>
     list_ex (\<lambda>s. si_name s = n
       \<and> si_kind s \<in> {''claude'', ''grok'', ''codex'', ''opencode'', ''hermes'', ''pi'', ''muse''}) sessions"

text \<open>The arms that build a Pi command, check it and send it to its session.\<close>

definition pi_checked :: "session_info list \<Rightarrow> string \<Rightarrow> pi_command \<Rightarrow> control_msg list" where
  "pi_checked sessions n c =
     (if \<not> is_pi_session sessions n \<or> isl (validate_pi_command c) then [] else [PiBridgeCommand n c])"

definition when_ok :: "bool \<Rightarrow> control_msg list \<Rightarrow> control_msg list" where
  "when_ok b cs = (if b then cs else [])"

fun map_browser_msg :: "(string \<Rightarrow> bool) \<Rightarrow> browser_msg \<Rightarrow> string option \<Rightarrow> session_info list \<Rightarrow> control_msg list" where
  "map_browser_msg is_dir (BOpen n) opn ss =
     (if \<not> is_live ss n then []
      else (case opn of None \<Rightarrow> [] | Some p \<Rightarrow> if p \<noteq> n then [Detach p] else [])
           @ [Attach n False False None])"
| "map_browser_msg is_dir (BClose n) opn ss = when_ok (is_live ss n) [Detach n]"
| "map_browser_msg is_dir (BFocus n) opn ss = when_ok (is_live ss n) [Focus n]"
| "map_browser_msg is_dir (BCreate n d k t) opn ss =
     (if parse_pane_name n = None \<or> is_live ss n \<or> k \<notin> set CREATE_KINDS \<or> \<not> is_dir d then []
      else [Create n d k t])"
| "map_browser_msg is_dir (BSetTitle n t) opn ss = when_ok (is_live ss n) [SetTitle n t]"
| "map_browser_msg is_dir (BKill n) opn ss = when_ok (is_live ss n) [Kill n]"
| "map_browser_msg is_dir (BMove a b) opn ss =
     (if \<not> is_live ss a \<or> parse_pane_name b = None \<or> is_live ss b then [] else [Rename a b])"
| "map_browser_msg is_dir (BSuspend n) opn ss = when_ok (is_agent_session ss n) [control_msg.Suspend n]"
| "map_browser_msg is_dir (BResume n) opn ss = when_ok (is_agent_session ss n) [control_msg.Resume n]"
| "map_browser_msg is_dir (BDumpBacklog n) opn ss = when_ok (is_live ss n) [DumpBacklog n]"
| "map_browser_msg is_dir (BPiOpen n) opn ss =
     (if \<not> is_pi_session ss n then []
      else (case opn of None \<Rightarrow> [] | Some p \<Rightarrow> [Detach p])
           @ [WatchPiEvents 1, PiBridgeCommand n PiSnapshot])"
| "map_browser_msg is_dir (BPiClose n) opn ss = []"
| "map_browser_msg is_dir (BPiPrompt n m d) opn ss =
     (if \<not> is_pi_session ss n \<or> blank m \<or> length m > PI_PROMPT_MAX_BYTES then []
      else [PiBridgeCommand n (Prompt m d)])"
| "map_browser_msg is_dir (BPiPromptWithAttachments n r m d as) opn ss =
     pi_checked ss n (PromptWithAttachments r m d as)"
| "map_browser_msg is_dir (BPiUploadBegin n r f mt s) opn ss = pi_checked ss n (UploadBegin r f mt s)"
| "map_browser_msg is_dir (BPiUploadChunk n r a off d) opn ss = pi_checked ss n (UploadChunk r a off d)"
| "map_browser_msg is_dir (BPiUploadFinish n r a) opn ss = pi_checked ss n (UploadFinish r a)"
| "map_browser_msg is_dir (BPiUploadCancel n r a) opn ss = pi_checked ss n (UploadCancel r a)"
| "map_browser_msg is_dir (BPiSubagentStatus n r) opn ss = pi_checked ss n (SubagentStatus r)"
| "map_browser_msg is_dir (BPiSubagentTranscript n r run i) opn ss =
     pi_checked ss n (SubagentTranscript r run i)"
| "map_browser_msg is_dir (BPiSubagentControl n r a run c i m) opn ss =
     pi_checked ss n (SubagentControl r a run c i m)"
| "map_browser_msg is_dir (BPiAbort n) opn ss = when_ok (is_pi_session ss n) [PiBridgeCommand n Abort]"
| "map_browser_msg is_dir (BPiThinking n l) opn ss =
     (if \<not> is_pi_session ss n \<or> l \<notin> {''off'', ''minimal'', ''low'', ''medium'', ''high'', ''xhigh'', ''max''} then []
      else [PiBridgeCommand n (SetThinkingLevel l)])"
| "map_browser_msg is_dir BRelease opn ss = []"
| "map_browser_msg is_dir (BResize n c r) opn ss =
     (if \<not> is_live ss n \<or> \<not> (RESIZE_MIN_COLS \<le> c \<and> c \<le> RESIZE_MAX_COLS)
         \<or> \<not> (RESIZE_MIN_ROWS \<le> r \<and> r \<le> RESIZE_MAX_ROWS) then []
      else [Resize n c r])"

section \<open>What the mapping can produce\<close>

text \<open>The control messages a browser message may cause, stated on the result alone.\<close>

definition permitted :: "(string \<Rightarrow> bool) \<Rightarrow> session_info list \<Rightarrow> string option \<Rightarrow> control_msg \<Rightarrow> bool" where
  "permitted is_dir ss opn c =
     (case c of
        Attach n raw pre res \<Rightarrow> is_live ss n \<and> \<not> raw \<and> \<not> pre \<and> res = None
      | Detach n \<Rightarrow> is_live ss n \<or> opn = Some n
      | Focus n \<Rightarrow> is_live ss n
      | Create n d k t \<Rightarrow> parse_pane_name n \<noteq> None \<and> \<not> is_live ss n \<and> k \<in> set CREATE_KINDS \<and> is_dir d
      | SetTitle n t \<Rightarrow> is_live ss n
      | Kill n \<Rightarrow> is_live ss n
      | Rename a b \<Rightarrow> is_live ss a \<and> \<not> is_live ss b \<and> parse_pane_name b \<noteq> None
      | control_msg.Suspend n \<Rightarrow> is_agent_session ss n
      | control_msg.Resume n \<Rightarrow> is_agent_session ss n
      | DumpBacklog n \<Rightarrow> is_live ss n
      | WatchPiEvents v \<Rightarrow> v = 1
      | PiBridgeCommand n cmd \<Rightarrow> is_pi_session ss n \<and> validate_pi_command cmd = Inr ()
      | Resize n co ro \<Rightarrow> is_live ss n \<and> RESIZE_MIN_COLS \<le> co \<and> co \<le> RESIZE_MAX_COLS
                       \<and> RESIZE_MIN_ROWS \<le> ro \<and> ro \<le> RESIZE_MAX_ROWS
      | _ \<Rightarrow> False)"

lemma validated_iff: "\<not> isl (validate_pi_command c) \<longleftrightarrow> validate_pi_command c = Inr ()"
  by (cases "validate_pi_command c") auto

lemma set_pi_checked:
  "c \<in> set (pi_checked ss n cmd) \<longleftrightarrow>
     c = PiBridgeCommand n cmd \<and> is_pi_session ss n \<and> validate_pi_command cmd = Inr ()"
  by (auto simp: pi_checked_def validated_iff)

lemma map_browser_msg_permitted:
  "c \<in> set (map_browser_msg is_dir m opn ss) \<Longrightarrow> permitted is_dir ss opn c"
  by (cases m) (auto simp: when_ok_def permitted_def set_pi_checked split: if_splits option.splits)

end
