(* ===== verification/WebHub.thy ===== *)
theory WebHub
  imports WebMsg "HOL-Library.AList"
begin

text \<open>
  The hub of \<^verbatim>\<open>amber web\<close> (\<^verbatim>\<open>crates/amber/src/web.rs\<close>): one connection to the daemon shared by every
  browser tab. Each operation runs under the hub's mutex, so a run of the server is a
  sequence of operations; \<open>hub_event\<close> lists them. A queued text frame is the JSON value it prints,
  and so is the rendered layout (\<open>None\<close> is the empty string).
\<close>

section \<open>State\<close>

datatype out = OText json | OBinary "byte list"

record hub_client =
  hc_id :: nat
  hc_open :: "string option"
  hc_pi :: "string option"
  hc_queue :: "out list"
  hc_gone :: bool

record pending_title =
  pt_client :: nat
  pt_created :: bool
  pt_since :: nat

record borrow =
  bo_client :: nat
  bo_prior :: "u16 \<times> u16"
  bo_set :: "(u16 \<times> u16) option"

text \<open>
  The daemon link is the number of writes it still takes before one fails; \<open>hb_wire\<close> holds the
  frames the present connection took. The maps that are iterated are lists of their entries.
\<close>

record hub =
  hb_daemon :: "nat option"
  hb_wire :: "frame list"
  hb_sessions :: "session_info list"
  hb_file :: layout_file
  hb_layout :: "json option"
  hb_layout_dirty :: bool
  hb_clients :: "hub_client list"
  hb_pending_backlog :: "string set"
  hb_dump_pending :: "string \<Rightarrow> nat list option"
  hb_title_pending :: "((string \<times> string option) \<times> pending_title list) list"
  hb_usage :: "provider_usage list option"
  hb_borrows :: "(string \<times> borrow) list"
  hb_next_id :: nat

definition hub_new :: hub where
  "hub_new = \<lparr>hb_daemon = None, hb_wire = [], hb_sessions = [], hb_file = layout_default, hb_layout = None,
     hb_layout_dirty = False, hb_clients = [], hb_pending_backlog = {}, hb_dump_pending = (\<lambda>_. None),
     hb_title_pending = [], hb_usage = None, hb_borrows = [], hb_next_id = 0\<rparr>"

definition CLIENT_QUEUE_DEPTH :: nat where "CLIENT_QUEUE_DEPTH = 512"
definition TITLE_ACK_TIMEOUT_MS :: nat where "TITLE_ACK_TIMEOUT_MS = 5000"
definition MAX_TITLE_BYTES :: nat where "MAX_TITLE_BYTES = 120"

section \<open>What browsers are sent\<close>

definition text_obj :: "string \<Rightarrow> (string \<times> json) list \<Rightarrow> out" where
  "text_obj t ms = OText (JObject ((''t'', JString t) # ms))"

definition session_json :: "session_info \<Rightarrow> json" where
  "session_json s = JObject
     ([(''name'', JString (si_name s)), (''kind'', JString (si_kind s)), (''cwd'', JString (si_cwd s)),
       (''run_state'', json_option (si_run_state s)), (''alive'', JBool (si_alive s)),
       (''cols'', json_nat (unat (si_cols s))), (''rows'', json_nat (unat (si_rows s))),
       (''slot'', json_nat (unat (si_slot s)))]
      @ (case si_title s of None \<Rightarrow> [] | Some t \<Rightarrow> [(''title'', JString t)])
      @ (case si_branch s of None \<Rightarrow> [] | Some b \<Rightarrow> [(''branch'', JString b)]))"

definition layout_value :: "json option \<Rightarrow> json" where
  "layout_value l = (case l of None \<Rightarrow> JNull | Some v \<Rightarrow> v)"

definition payload :: "session_info list \<Rightarrow> json option \<Rightarrow> json" where
  "payload ss l = JObject [(''sessions'', JArray (map session_json ss)), (''layout'', layout_value l)]"

definition sessions_msg :: "session_info list \<Rightarrow> json option \<Rightarrow> out" where
  "sessions_msg ss l = text_obj ''sessions'' [(''sessions'', JArray (map session_json ss)), (''layout'', layout_value l)]"

definition error_msg :: "string \<Rightarrow> out" where
  "error_msg m = text_obj ''error'' [(''msg'', JString m)]"

definition sessions_json :: "hub \<Rightarrow> json" where
  "sessions_json h = payload (hb_sessions h) (hb_layout h)"

definition status_json :: "nat \<Rightarrow> nat \<Rightarrow> hub \<Rightarrow> json" where
  "status_json port uptime h = JObject
     [(''port'', json_nat port), (''uptime_secs'', json_nat uptime), (''sessions'', json_nat (length (hb_sessions h))),
      (''clients'', JArray (map (\<lambda>c. JObject [(''id'', json_nat (hc_id c)), (''open'', json_option (hc_open c)),
         (''pi'', json_option (hc_pi c)), (''borrow'', JNull)]) (hb_clients h)))]"

definition image_paste_target :: "hub \<Rightarrow> string \<Rightarrow> bool" where
  "image_paste_target h n \<longleftrightarrow> n \<noteq> [] \<and> list_ex (\<lambda>s. si_name s = n \<and> si_alive s) (hb_sessions h)"

section \<open>The daemon link and the queues\<close>

definition write_daemon :: "frame \<Rightarrow> hub \<Rightarrow> hub" where
  "write_daemon f h =
     (case hb_daemon h of
        None \<Rightarrow> h
      | Some 0 \<Rightarrow> h\<lparr>hb_daemon := None\<rparr>
      | Some (Suc k) \<Rightarrow> h\<lparr>hb_daemon := Some k, hb_wire := hb_wire h @ [f]\<rparr>)"

definition write_daemon_tracking :: "control_msg \<Rightarrow> hub \<Rightarrow> hub" where
  "write_daemon_tracking c h =
     write_daemon (Control c)
       (case c of Attach n _ _ _ \<Rightarrow> h\<lparr>hb_pending_backlog := insert n (hb_pending_backlog h)\<rparr> | _ \<Rightarrow> h)"

definition viewed :: "hub \<Rightarrow> string \<Rightarrow> bool" where
  "viewed h n \<longleftrightarrow> list_ex (\<lambda>c. hc_open c = Some n) (hb_clients h)"

definition detach_if_unwanted :: "string option \<Rightarrow> hub \<Rightarrow> hub" where
  "detach_if_unwanted n h =
     (case n of None \<Rightarrow> h | Some n \<Rightarrow> if viewed h n then h else write_daemon (Control (Detach n)) h)"

definition try_send :: "out \<Rightarrow> hub_client \<Rightarrow> hub_client option" where
  "try_send m c =
     (if hc_gone c \<or> length (hc_queue c) \<ge> CLIENT_QUEUE_DEPTH then None
      else Some (c\<lparr>hc_queue := hc_queue c @ [m]\<rparr>))"

definition offer :: "(hub_client \<Rightarrow> bool) \<Rightarrow> out \<Rightarrow> hub_client \<Rightarrow> hub_client option" where
  "offer want m c = (if want c then try_send m c else Some c)"

definition queue :: "(hub_client \<Rightarrow> bool) \<Rightarrow> out \<Rightarrow> hub \<Rightarrow> hub" where
  "queue want m h =
     fold detach_if_unwanted (map hc_open (filter (\<lambda>c. offer want m c = None) (hb_clients h)))
       (h\<lparr>hb_clients := List.map_filter (offer want m) (hb_clients h)\<rparr>)"

section \<open>Title acknowledgements\<close>

definition validate_title :: "string option \<Rightarrow> string option option" where
  "validate_title t =
     (case t of
        None \<Rightarrow> Some None
      | Some s \<Rightarrow>
          (let s' = str_trim s in
           if s' = [] then Some None
           else if length s' > MAX_TITLE_BYTES \<or> list_ex is_control (chars s') then None
           else Some (Some s')))"

definition keep_requests :: "(pending_title \<Rightarrow> bool) \<Rightarrow> hub \<Rightarrow> hub" where
  "keep_requests p h = h\<lparr>hb_title_pending :=
     filter (\<lambda>e. snd e \<noteq> []) (map (\<lambda>(k, rs). (k, filter p rs)) (hb_title_pending h))\<rparr>"

definition prune_title_pending :: "nat \<Rightarrow> hub \<Rightarrow> hub" where
  "prune_title_pending now h = keep_requests (\<lambda>r. now - pt_since r < TITLE_ACK_TIMEOUT_MS) h"

definition track_title_pending :: "nat \<Rightarrow> nat \<Rightarrow> string \<Rightarrow> string option \<Rightarrow> bool \<Rightarrow> hub \<Rightarrow> hub" where
  "track_title_pending now client n t requires_created h =
     (case validate_title t of
        None \<Rightarrow> h
      | Some normalized \<Rightarrow>
          (let h = prune_title_pending now h;
               rs = (case map_of (hb_title_pending h) (n, normalized) of None \<Rightarrow> [] | Some rs \<Rightarrow> rs);
               rs' = (if list_ex (\<lambda>r. pt_client r = client) rs then rs
                      else rs @ [\<lparr>pt_client = client, pt_created = \<not> requires_created, pt_since = now\<rparr>])
           in h\<lparr>hb_title_pending := AList.update (n, normalized) rs' (hb_title_pending h)\<rparr>))"

definition forget_title_client :: "nat \<Rightarrow> hub \<Rightarrow> hub" where
  "forget_title_client client h = keep_requests (\<lambda>r. pt_client r \<noteq> client) h"

definition tell_clients :: "nat list \<Rightarrow> out \<Rightarrow> hub \<Rightarrow> hub" where
  "tell_clients ids m h = fold (\<lambda>i. queue (\<lambda>c. hc_id c = i) m) (dedup_sorted ids) h"

definition title_created_ack :: "nat \<Rightarrow> string \<Rightarrow> hub \<Rightarrow> hub" where
  "title_created_ack now n h0 =
     (let h = prune_title_pending now h0;
          mine = filter (\<lambda>((n', _), _). n' = n) (hb_title_pending h);
          ids = map pt_client (filter (\<lambda>r. \<not> pt_created r) (concat (map snd mine)));
          marked = map (\<lambda>((n', t), rs). ((n', t), if n' = n then map (\<lambda>r. r\<lparr>pt_created := True\<rparr>) rs else rs))
                     (hb_title_pending h)
      in tell_clients ids (text_obj ''created'' [(''name'', JString n)]) (h\<lparr>hb_title_pending := marked\<rparr>))"

definition title_set_ack :: "nat \<Rightarrow> string \<Rightarrow> string option \<Rightarrow> hub \<Rightarrow> hub" where
  "title_set_ack now n t h0 =
     (let h = prune_title_pending now h0 in
      case map_of (hb_title_pending h) (n, t) of
        None \<Rightarrow> h
      | Some rs \<Rightarrow>
          (let rest = AList.delete (n, t) (hb_title_pending h);
               remaining = filter (\<lambda>r. \<not> pt_created r) rs;
               h' = h\<lparr>hb_title_pending := (if remaining = [] then rest else AList.update (n, t) remaining rest)\<rparr>
           in tell_clients (map pt_client (filter pt_created rs))
                (text_obj ''titleSet'' [(''name'', JString n), (''title'', json_option t)]) h'))"

section \<open>Borrowed grids\<close>

definition session_named :: "session_info list \<Rightarrow> string \<Rightarrow> session_info option" where
  "session_named ss n = find (\<lambda>s. si_name s = n) ss"

definition note_open :: "nat \<Rightarrow> string \<Rightarrow> hub \<Rightarrow> hub" where
  "note_open i n h =
     (if map_of (hb_borrows h) n \<noteq> None then h
      else case session_named (hb_sessions h) n of
        None \<Rightarrow> h
      | Some s \<Rightarrow>
          if si_cols s = 0 \<or> si_rows s = 0 then h
          else h\<lparr>hb_borrows := AList.update n
                 \<lparr>bo_client = i, bo_prior = (si_cols s, si_rows s), bo_set = None\<rparr> (hb_borrows h)\<rparr>)"

definition note_resize :: "nat \<Rightarrow> string \<Rightarrow> u16 \<Rightarrow> u16 \<Rightarrow> hub \<Rightarrow> hub" where
  "note_resize i n cols rows h =
     (case map_of (hb_borrows h) n of
        None \<Rightarrow> h
      | Some b \<Rightarrow>
          if bo_client b = i
          then h\<lparr>hb_borrows := AList.update n (b\<lparr>bo_set := Some (cols, rows)\<rparr>) (hb_borrows h)\<rparr> else h)"

definition release_borrow :: "nat \<Rightarrow> string \<Rightarrow> hub \<Rightarrow> hub" where
  "release_borrow i n h =
     (case map_of (hb_borrows h) n of
        None \<Rightarrow> h
      | Some b \<Rightarrow>
          if bo_client b \<noteq> i then h
          else (let h' = h\<lparr>hb_borrows := AList.delete n (hb_borrows h)\<rparr> in
            case (bo_set b, session_named (hb_sessions h) n) of
              (Some g, Some s) \<Rightarrow>
                if (si_cols s, si_rows s) \<noteq> g then h'
                else if (si_cols s, si_rows s) = bo_prior b then h'
                else write_daemon (Control (Resize n (fst (bo_prior b)) (snd (bo_prior b)))) h'
            | _ \<Rightarrow> h'))"

definition release_all :: "nat \<Rightarrow> hub \<Rightarrow> hub" where
  "release_all i h = fold (release_borrow i) (map fst (filter (\<lambda>(_, b). bo_client b = i) (hb_borrows h))) h"

section \<open>Clients\<close>

definition add_client :: "hub \<Rightarrow> hub" where
  "add_client h = h\<lparr>hb_next_id := hb_next_id h + 1,
     hb_clients := hb_clients h @ [\<lparr>hc_id = hb_next_id h, hc_open = None, hc_pi = None,
       hc_queue = sessions_msg (hb_sessions h) (hb_layout h)
                  # (if hb_daemon h = None then [error_msg ''daemon unreachable''] else []),
       hc_gone = False\<rparr>]\<rparr>"

fun without_client :: "nat \<Rightarrow> hub_client list \<Rightarrow> hub_client list" where
  "without_client i [] = []"
| "without_client i (c # cs) = (if hc_id c = i then cs else c # without_client i cs)"

definition client_of :: "nat \<Rightarrow> hub \<Rightarrow> hub_client option" where
  "client_of i h = find (\<lambda>c. hc_id c = i) (hb_clients h)"

definition remove_client :: "nat \<Rightarrow> hub \<Rightarrow> hub" where
  "remove_client i h =
     (case client_of i h of
        None \<Rightarrow> h
      | Some c \<Rightarrow>
          (let h' = forget_title_client i (release_all i h)
           in detach_if_unwanted (hc_open c) (h'\<lparr>hb_clients := without_client i (hb_clients h')\<rparr>)))"

fun update_client :: "nat \<Rightarrow> (hub_client \<Rightarrow> hub_client) \<Rightarrow> hub_client list \<Rightarrow> hub_client list" where
  "update_client i f [] = []"
| "update_client i f (c # cs) = (if hc_id c = i then f c # cs else c # update_client i f cs)"

fun command_name :: "browser_msg \<Rightarrow> string option" where
  "command_name (BPiPrompt n _ _) = Some n"
| "command_name (BPiPromptWithAttachments n _ _ _ _) = Some n"
| "command_name (BPiUploadBegin n _ _ _ _) = Some n"
| "command_name (BPiUploadChunk n _ _ _ _) = Some n"
| "command_name (BPiUploadFinish n _ _) = Some n"
| "command_name (BPiUploadCancel n _ _) = Some n"
| "command_name (BPiSubagentStatus n _) = Some n"
| "command_name (BPiSubagentTranscript n _ _ _) = Some n"
| "command_name (BPiSubagentControl n _ _ _ _ _ _) = Some n"
| "command_name (BPiAbort n) = Some n"
| "command_name (BPiThinking n _) = Some n"
| "command_name _ = None"

fun hub_only :: "browser_msg \<Rightarrow> bool" where
  "hub_only BRelease = True"
| "hub_only (BPiClose _) = True"
| "hub_only _ = False"

definition title_step :: "nat \<Rightarrow> nat \<Rightarrow> browser_msg \<Rightarrow> hub \<Rightarrow> hub" where
  "title_step now i m h =
     (case m of
        BCreate n _ _ (Some t) \<Rightarrow> track_title_pending now i n (Some t) True h
      | BSetTitle n t \<Rightarrow> track_title_pending now i n t False h
      | _ \<Rightarrow> h)"

definition borrow_step :: "nat \<Rightarrow> string option \<Rightarrow> browser_msg \<Rightarrow> hub \<Rightarrow> hub" where
  "borrow_step i previous m h =
     (case m of
        BOpen n \<Rightarrow> note_open i n (if previous \<noteq> Some n then release_all i h else h)
      | BClose n \<Rightarrow> release_borrow i n h
      | BRelease \<Rightarrow> release_all i h
      | BResize n cols rows \<Rightarrow> note_resize i n cols rows h
      | _ \<Rightarrow> h)"

definition view_step :: "browser_msg \<Rightarrow> hub_client \<Rightarrow> hub_client" where
  "view_step m c =
     (case m of
        BOpen n \<Rightarrow> c\<lparr>hc_open := Some n\<rparr>
      | BClose n \<Rightarrow> c\<lparr>hc_open := None\<rparr>
      | BPiOpen n \<Rightarrow> c\<lparr>hc_open := None, hc_pi := Some n\<rparr>
      | BPiClose n \<Rightarrow> if hc_pi c = Some n then c\<lparr>hc_pi := None\<rparr> else c
      | _ \<Rightarrow> c)"

definition send_control :: "nat \<Rightarrow> control_msg \<Rightarrow> hub \<Rightarrow> hub" where
  "send_control i c h =
     (case c of
        Detach n \<Rightarrow> if viewed h n then h else write_daemon_tracking c h
      | DumpBacklog n \<Rightarrow>
          write_daemon_tracking c (h\<lparr>hb_dump_pending := (hb_dump_pending h)(n \<mapsto>
            (case hb_dump_pending h n of None \<Rightarrow> [] | Some ids \<Rightarrow> ids) @ [i])\<rparr>)
      | _ \<Rightarrow> write_daemon_tracking c h)"

definition handle_msg :: "(string \<Rightarrow> bool) \<Rightarrow> nat \<Rightarrow> nat \<Rightarrow> browser_msg \<Rightarrow> hub \<Rightarrow> hub" where
  "handle_msg is_dir now i m h =
     (case client_of i h of
        None \<Rightarrow> h
      | Some c \<Rightarrow>
          if (case command_name m of None \<Rightarrow> False | Some n \<Rightarrow> hc_pi c \<noteq> Some n)
          then queue (\<lambda>x. hc_id x = i) (error_msg ''Pi command does not match this semantic pane'') h
          else (let controls = map_browser_msg is_dir m (hc_open c) (hb_sessions h) in
            if controls = [] \<and> \<not> hub_only m
            then queue (\<lambda>x. hc_id x = i) (error_msg ''no such session'') h
            else (let h' = borrow_step i (hc_open c) m (title_step now i m h)
                  in fold (send_control i) controls
                       (h'\<lparr>hb_clients := update_client i (view_step m) (hb_clients h')\<rparr>))))"

definition handle_browser :: "(string \<Rightarrow> json option) \<Rightarrow> (string \<Rightarrow> bool) \<Rightarrow> nat \<Rightarrow> nat \<Rightarrow> string \<Rightarrow> hub \<Rightarrow> hub" where
  "handle_browser from_str is_dir now i s h =
     (case parse_browser_msg from_str s of None \<Rightarrow> h | Some m \<Rightarrow> handle_msg is_dir now i m h)"

definition input_bytes :: "nat \<Rightarrow> byte list \<Rightarrow> hub \<Rightarrow> hub" where
  "input_bytes i bs h =
     (case Option.bind (client_of i h) hc_open of
        None \<Rightarrow> h
      | Some n \<Rightarrow> write_daemon (Data n bs) h)"

section \<open>Frames from the daemon\<close>

definition viewer :: "string \<Rightarrow> hub_client \<Rightarrow> bool" where
  "viewer n c \<longleftrightarrow> hc_open c = Some n"

definition pi_viewer :: "string \<Rightarrow> hub_client \<Rightarrow> bool" where
  "pi_viewer n c \<longleftrightarrow> hc_pi c = Some n"

definition everyone :: "hub_client \<Rightarrow> bool" where
  "everyone c = True"

definition render_layout :: "(f32 \<Rightarrow> string) \<Rightarrow> layout_file \<Rightarrow> session_info list \<Rightarrow> json" where
  "render_layout show_ratio f ss = render show_ratio f (map si_name ss)"

definition set_sessions :: "(f32 \<Rightarrow> string) \<Rightarrow> session_info list \<Rightarrow> hub \<Rightarrow> hub" where
  "set_sessions show_ratio ss h =
     (let l = Some (render_layout show_ratio (hb_file h) ss)
      in queue everyone (sessions_msg ss l) (h\<lparr>hb_sessions := ss, hb_layout := l\<rparr>))"

definition json_int :: "int \<Rightarrow> json" where
  "json_int k = JNumber (if k < 0 then CHR ''-'' # dec_text (nat (- k)) else dec_text (nat k))"

definition level_name :: "resource_pressure_level \<Rightarrow> string" where
  "level_name l = (case l of RplNormal \<Rightarrow> ''normal'' | RplCritical \<Rightarrow> ''critical'')"

definition cause_name :: "resource_pressure_cause \<Rightarrow> string" where
  "cause_name c = (case c of Cpu \<Rightarrow> ''cpu'' | resource_pressure_cause.Io \<Rightarrow> ''io'' | Memory \<Rightarrow> ''memory'')"

definition on_control :: "(f32 \<Rightarrow> string) \<Rightarrow> nat \<Rightarrow> control_msg \<Rightarrow> hub \<Rightarrow> hub" where
  "on_control show_ratio now m h =
     (case m of
        Created n \<Rightarrow> title_created_ack now n h
      | TitleSet n t \<Rightarrow> title_set_ack now n t h
      | Sessions ss \<Rightarrow>
          if hb_sessions h = ss \<and> \<not> hb_layout_dirty h then h
          else set_sessions show_ratio ss (h\<lparr>hb_layout_dirty := False\<rparr>)
      | SessionsChanged added removed \<Rightarrow>
          set_sessions show_ratio
            (filter (\<lambda>s. si_name s \<notin> set removed \<and> \<not> list_ex (\<lambda>a. si_name a = si_name s) added) (hb_sessions h) @ added) h
      | Usage ps \<Rightarrow> h\<lparr>hb_usage := Some ps\<rparr>
      | control_msg.Exit n code \<Rightarrow> queue (viewer n) (text_obj ''exit'' [(''name'', JString n), (''code'', json_int code)]) h
      | ErrorMsg e \<Rightarrow> queue everyone (error_msg e) h
      | PiEvent n k ev \<Rightarrow>
          queue (pi_viewer n) (text_obj ''piEvent'' [(''name'', JString n), (''seq'', json_nat k), (''event'', ev)]) h
      | PiBridgeStatus n av \<Rightarrow>
          queue (pi_viewer n) (text_obj ''piStatus'' [(''name'', JString n), (''available'', JBool av)]) h
      | Activity n \<Rightarrow> queue everyone (text_obj ''activity'' [(''name'', JString n)]) h
      | MemoryStat n kb g \<Rightarrow>
          queue everyone (text_obj ''memory'' [(''name'', JString n), (''rss_kb'', json_nat kb), (''growing'', JBool g)]) h
      | MemoryPressure l cur bud b \<Rightarrow>
          queue everyone (text_obj ''memoryPressure'' [(''level'', JString l), (''current_kb'', json_nat cur),
            (''budget_kb'', json_nat bud), (''blocked'', JBool b)]) h
      | ResourcePressure l cs b \<Rightarrow>
          queue everyone (text_obj ''resourcePressure'' [(''level'', JString (level_name l)),
            (''causes'', JArray (map (JString \<circ> cause_name) cs)), (''blocked'', JBool b)]) h
      | _ \<Rightarrow> h)"

definition on_data :: "string \<Rightarrow> byte list \<Rightarrow> hub \<Rightarrow> hub" where
  "on_data n bs h =
     queue (viewer n) (OBinary bs)
       (if n \<in> hb_pending_backlog h
        then queue (viewer n) (text_obj ''backlog'' [(''name'', JString n)])
               (h\<lparr>hb_pending_backlog := hb_pending_backlog h - {n}\<rparr>)
        else h)"

definition on_backlog :: "string \<Rightarrow> byte list \<Rightarrow> hub \<Rightarrow> hub" where
  "on_backlog n bs h =
     (case hb_dump_pending h n of
        None \<Rightarrow> h
      | Some ids \<Rightarrow>
          fold (\<lambda>i h. queue (\<lambda>c. hc_id c = i) (OBinary bs)
                   (queue (\<lambda>c. hc_id c = i) (text_obj ''backlogReply'' [(''name'', JString n)]) h))
            ids (h\<lparr>hb_dump_pending := (hb_dump_pending h)(n := None)\<rparr>))"

definition on_frame :: "(f32 \<Rightarrow> string) \<Rightarrow> nat \<Rightarrow> frame \<Rightarrow> hub \<Rightarrow> hub" where
  "on_frame show_ratio now f h =
     (case f of
        Data n bs \<Rightarrow> on_data n bs h
      | Backlog n bs \<Rightarrow> on_backlog n bs h
      | Control m \<Rightarrow> on_control show_ratio now m h)"

section \<open>The link and the polls\<close>

definition sort_dedup_names :: "string list \<Rightarrow> string list" where
  "sort_dedup_names xs = remdups_adj (sort xs)"

definition link_up :: "nat \<Rightarrow> hub \<Rightarrow> hub" where
  "link_up writes h =
     (let pis = sort_dedup_names (List.map_filter hc_pi (hb_clients h));
          opens = sort_dedup_names (List.map_filter hc_open (hb_clients h));
          first = [WatchSessions, WatchMemoryPressure 2] @ (if pis = [] then [] else [WatchPiEvents 1])
                  @ map (\<lambda>n. PiBridgeCommand n PiSnapshot) pis
      in fold (\<lambda>n. write_daemon_tracking (Attach n False False None)) opens
           (fold (write_daemon \<circ> Control) first (h\<lparr>hb_daemon := Some writes, hb_wire := []\<rparr>)))"

definition link_down :: "hub \<Rightarrow> hub" where
  "link_down h =
     queue everyone (error_msg ''daemon unreachable'')
       (queue everyone (sessions_msg [] None)
         (h\<lparr>hb_daemon := None, hb_sessions := [], hb_layout := None, hb_pending_backlog := {},
            hb_dump_pending := (\<lambda>_. None), hb_title_pending := []\<rparr>))"

definition connect_failed :: "hub \<Rightarrow> hub" where
  "connect_failed h = queue everyone (error_msg ''daemon unreachable'') h"

definition geometry_poll :: "(f32 \<Rightarrow> string) \<Rightarrow> nat \<Rightarrow> layout_file \<Rightarrow> hub \<Rightarrow> hub" where
  "geometry_poll show_ratio now f h0 =
     (let h = prune_title_pending now h0;
          rendered = Some (render_layout show_ratio f (hb_sessions h));
          h1 = (if rendered \<noteq> hb_layout h then h\<lparr>hb_layout := rendered, hb_layout_dirty := True\<rparr> else h);
          h2 = h1\<lparr>hb_file := f\<rparr>
      in if hb_daemon h2 \<noteq> None then write_daemon (Control ListSessionsDetailed) h2 else h2)"

definition usage_poll :: "hub \<Rightarrow> hub" where
  "usage_poll h = (if hb_daemon h \<noteq> None then write_daemon (Control GetUsage) h else h)"

section \<open>Runs\<close>

datatype hub_event =
    Join
  | Leave nat
  | BrowserText "string \<Rightarrow> json option" "string \<Rightarrow> bool" nat nat string
  | BrowserBytes nat "byte list"
  | FromDaemon "f32 \<Rightarrow> string" nat frame
  | LinkUp nat
  | LinkDown
  | ConnectFailed
  | GeometryPoll "f32 \<Rightarrow> string" nat layout_file
  | UsagePoll
  | WriterTakes nat
  | WriterEnds nat

fun hub_step :: "hub_event \<Rightarrow> hub \<Rightarrow> hub" where
  "hub_step Join h = add_client h"
| "hub_step (Leave i) h = remove_client i h"
| "hub_step (BrowserText from_str is_dir now i s) h = handle_browser from_str is_dir now i s h"
| "hub_step (BrowserBytes i bs) h = input_bytes i bs h"
| "hub_step (FromDaemon show_ratio now f) h = on_frame show_ratio now f h"
| "hub_step (LinkUp k) h = link_up k h"
| "hub_step LinkDown h = link_down h"
| "hub_step ConnectFailed h = connect_failed h"
| "hub_step (GeometryPoll show_ratio now f) h = geometry_poll show_ratio now f h"
| "hub_step UsagePoll h = usage_poll h"
| "hub_step (WriterTakes i) h =
     h\<lparr>hb_clients := update_client i (\<lambda>c. c\<lparr>hc_queue := tl (hc_queue c)\<rparr>) (hb_clients h)\<rparr>"
| "hub_step (WriterEnds i) h =
     h\<lparr>hb_clients := update_client i (\<lambda>c. c\<lparr>hc_gone := True\<rparr>) (hb_clients h)\<rparr>"

definition hub_run :: "hub_event list \<Rightarrow> hub \<Rightarrow> hub" where
  "hub_run es h = fold hub_step es h"

end
