(* ===== verification/WebHubLaws.thy ===== *)
theory WebHubLaws
  imports WebHub
begin

text \<open>
  What the hub promises: which frames a browser can put on the daemon link, that every session
  a tab has open stays attached, where output goes, the bounds of the queues, and when a
  borrowed terminal grid is handed back.
\<close>

section \<open>Frames of the operations\<close>

lemma write_daemon_same [simp]:
  "hb_clients (write_daemon f h) = hb_clients h"
  "hb_sessions (write_daemon f h) = hb_sessions h"
  "hb_borrows (write_daemon f h) = hb_borrows h"
  "hb_next_id (write_daemon f h) = hb_next_id h"
  by (simp_all add: write_daemon_def split: option.split nat.split)

lemma write_daemon_tracking_same [simp]:
  "hb_clients (write_daemon_tracking c h) = hb_clients h"
  "hb_sessions (write_daemon_tracking c h) = hb_sessions h"
  "hb_borrows (write_daemon_tracking c h) = hb_borrows h"
  "hb_next_id (write_daemon_tracking c h) = hb_next_id h"
  by (cases c; simp add: write_daemon_tracking_def)+

lemma viewed_write [simp]: "viewed (write_daemon f h) n = viewed h n"
  by (simp add: viewed_def)

lemma detach_if_unwanted_same [simp]:
  "hb_clients (detach_if_unwanted p h) = hb_clients h"
  "hb_sessions (detach_if_unwanted p h) = hb_sessions h"
  "hb_borrows (detach_if_unwanted p h) = hb_borrows h"
  "hb_next_id (detach_if_unwanted p h) = hb_next_id h"
  by (simp_all add: detach_if_unwanted_def split: option.split)

lemma fold_same:
  assumes "\<And>x h. g (f x h) = g h"
  shows "g (fold f xs h) = g h"
  by (induction xs arbitrary: h) (simp_all add: assms)

lemma queue_same [simp]:
  "hb_clients (queue want m h) = List.map_filter (offer want m) (hb_clients h)"
  "hb_sessions (queue want m h) = hb_sessions h"
  "hb_borrows (queue want m h) = hb_borrows h"
  "hb_next_id (queue want m h) = hb_next_id h"
  by (simp_all add: queue_def fold_same[where f = detach_if_unwanted and g = hb_clients]
      fold_same[where f = detach_if_unwanted and g = hb_sessions]
      fold_same[where f = detach_if_unwanted and g = hb_borrows]
      fold_same[where f = detach_if_unwanted and g = hb_next_id])

lemma keep_requests_same [simp]:
  "hb_clients (keep_requests p h) = hb_clients h" "hb_sessions (keep_requests p h) = hb_sessions h"
  "hb_borrows (keep_requests p h) = hb_borrows h" "hb_daemon (keep_requests p h) = hb_daemon h"
  "hb_wire (keep_requests p h) = hb_wire h" "hb_next_id (keep_requests p h) = hb_next_id h"
  by (simp_all add: keep_requests_def)

lemma prune_same [simp]:
  "hb_clients (prune_title_pending t h) = hb_clients h" "hb_sessions (prune_title_pending t h) = hb_sessions h"
  "hb_borrows (prune_title_pending t h) = hb_borrows h" "hb_daemon (prune_title_pending t h) = hb_daemon h"
  "hb_wire (prune_title_pending t h) = hb_wire h" "hb_next_id (prune_title_pending t h) = hb_next_id h"
  by (simp_all add: prune_title_pending_def)

lemma title_step_same [simp]:
  "hb_clients (title_step t i m h) = hb_clients h" "hb_sessions (title_step t i m h) = hb_sessions h"
  "hb_borrows (title_step t i m h) = hb_borrows h" "hb_daemon (title_step t i m h) = hb_daemon h"
  "hb_wire (title_step t i m h) = hb_wire h" "hb_next_id (title_step t i m h) = hb_next_id h"
  by (auto simp: title_step_def track_title_pending_def Let_def split: browser_msg.split option.split)

lemma note_same [simp]:
  "hb_clients (note_open i n h) = hb_clients h" "hb_sessions (note_open i n h) = hb_sessions h"
  "hb_daemon (note_open i n h) = hb_daemon h" "hb_wire (note_open i n h) = hb_wire h"
  "hb_next_id (note_open i n h) = hb_next_id h"
  "hb_clients (note_resize i n a b h) = hb_clients h" "hb_sessions (note_resize i n a b h) = hb_sessions h"
  "hb_daemon (note_resize i n a b h) = hb_daemon h" "hb_wire (note_resize i n a b h) = hb_wire h"
  "hb_next_id (note_resize i n a b h) = hb_next_id h"
  by (simp_all add: note_open_def note_resize_def split: option.split)

lemma release_same [simp]:
  "hb_clients (release_borrow i n h) = hb_clients h" "hb_sessions (release_borrow i n h) = hb_sessions h"
  "hb_next_id (release_borrow i n h) = hb_next_id h"
  by (simp_all add: release_borrow_def Let_def split: option.split)

lemma release_all_same [simp]:
  "hb_clients (release_all i h) = hb_clients h" "hb_sessions (release_all i h) = hb_sessions h"
  "hb_next_id (release_all i h) = hb_next_id h"
  by (simp_all add: release_all_def fold_same[where g = hb_clients] fold_same[where g = hb_sessions]
      fold_same[where g = hb_next_id])

lemma borrow_step_same [simp]:
  "hb_clients (borrow_step i p m h) = hb_clients h" "hb_sessions (borrow_step i p m h) = hb_sessions h"
  "hb_next_id (borrow_step i p m h) = hb_next_id h"
  by (simp_all add: borrow_step_def split: browser_msg.split)

lemma send_control_same [simp]:
  "hb_clients (send_control i c h) = hb_clients h" "hb_sessions (send_control i c h) = hb_sessions h"
  "hb_borrows (send_control i c h) = hb_borrows h" "hb_next_id (send_control i c h) = hb_next_id h"
  by (cases c; simp add: send_control_def)+

section \<open>What is written\<close>

text \<open>The frames an operation adds to the link all satisfy a predicate.\<close>

definition sends :: "(frame \<Rightarrow> bool) \<Rightarrow> hub \<Rightarrow> hub \<Rightarrow> bool" where
  "sends P h h' \<longleftrightarrow> (\<exists>fs. hb_wire h' = hb_wire h @ fs \<and> list_all P fs)"

lemma sends_refl [simp]: "sends P h h"
  by (simp add: sends_def)

lemma sends_same_wire: "hb_wire h' = hb_wire h \<Longrightarrow> sends P h h'"
  by (simp add: sends_def)

lemma sends_trans: "sends P h h1 \<Longrightarrow> sends P h1 h2 \<Longrightarrow> sends P h h2"
  unfolding sends_def by (metis append.assoc list_all_append)

lemma sends_write: "P f \<Longrightarrow> sends P h (write_daemon f h)"
  by (auto simp: sends_def write_daemon_def split: option.split nat.split)

lemma sends_tracking: "P (Control c) \<Longrightarrow> sends P h (write_daemon_tracking c h)"
  by (cases c) (auto simp: write_daemon_tracking_def intro: sends_write sends_trans[OF sends_same_wire sends_write])

lemma sends_fold:
  assumes "\<And>x h. x \<in> set xs \<Longrightarrow> sends P h (f x h)"
  shows "sends P h (fold f xs h)"
  using assms by (induction xs arbitrary: h) (auto intro: sends_trans)

lemma sends_detach: "(\<And>n. p = Some n \<Longrightarrow> P (Control (Detach n))) \<Longrightarrow> sends P h (detach_if_unwanted p h)"
  by (cases p) (auto simp: detach_if_unwanted_def intro: sends_write)

lemma sends_queue:
  assumes "\<And>c n. c \<in> set (hb_clients h) \<Longrightarrow> want c \<Longrightarrow> hc_open c = Some n \<Longrightarrow> P (Control (Detach n))"
  shows "sends P h (queue want m h)"
  unfolding queue_def
  by (rule sends_trans[OF sends_same_wire sends_fold])
     (auto simp: offer_def assms split: if_splits intro!: sends_detach)

text \<open>A grid that client \<open>i\<close> has to give back.\<close>

definition owes :: "hub \<Rightarrow> nat \<Rightarrow> frame \<Rightarrow> bool" where
  "owes h i f \<longleftrightarrow> (\<exists>n b. map_of (hb_borrows h) n = Some b \<and> bo_client b = i
      \<and> f = Control (Resize n (fst (bo_prior b)) (snd (bo_prior b))))"

lemma sends_write_on: "hb_wire h' = hb_wire h \<Longrightarrow> P f \<Longrightarrow> sends P h (write_daemon f h')"
  by (rule sends_trans[OF sends_same_wire sends_write])

lemma sends_release:
  assumes "\<forall>f. owes h i f \<longrightarrow> P f"
  shows "sends P h (release_borrow i n h)"
proof (cases "map_of (hb_borrows h) n")
  case (Some b)
  have "P (Control (Resize n (fst (bo_prior b)) (snd (bo_prior b))))" if "bo_client b = i"
    using that assms Some by (auto simp: owes_def)
  then show ?thesis
    by (auto simp: release_borrow_def Let_def Some split: option.split intro: sends_write_on sends_same_wire)
qed (simp add: release_borrow_def)

lemma owes_release: "owes (release_borrow i n h) j f \<Longrightarrow> owes h j f"
  by (auto simp: owes_def release_borrow_def Let_def delete_conv' split: option.splits if_splits)

lemma sends_release_fold:
  "\<forall>f. owes h i f \<longrightarrow> P f \<Longrightarrow> sends P h (fold (release_borrow i) ns h)"
proof (induction ns arbitrary: h)
  case (Cons n ns)
  have "sends P (release_borrow i n h) (fold (release_borrow i) ns (release_borrow i n h))"
    by (rule Cons.IH) (use Cons.prems owes_release in blast)
  with sends_release[OF Cons.prems] show ?case by (auto intro: sends_trans)
qed simp

lemma sends_release_all: "\<forall>f. owes h i f \<longrightarrow> P f \<Longrightarrow> sends P h (release_all i h)"
  unfolding release_all_def by (rule sends_release_fold)

lemma sends_borrow_step:
  assumes "\<forall>f. owes h i f \<longrightarrow> P f"
  shows "sends P h (borrow_step i p m h)"
proof -
  have "sends P h (note_open i n (release_all i h))" for n
    by (rule sends_trans[OF sends_release_all[OF assms] sends_same_wire]) simp
  then show ?thesis
    using sends_release[OF assms] sends_release_all[OF assms]
    by (cases m) (auto simp: borrow_step_def intro: sends_same_wire)
qed

lemma sends_send_control: "P (Control c) \<Longrightarrow> sends P h (send_control i c h)"
  by (cases c)
     (auto simp: send_control_def intro: sends_tracking sends_trans[OF sends_same_wire sends_tracking])

section \<open>Invariants of the hub\<close>

lemma fold_keeps:
  assumes "\<And>x h. x \<in> set xs \<Longrightarrow> I h \<Longrightarrow> I (f x h)" "I h"
  shows "I (fold f xs h)"
  using assms by (induction xs arbitrary: h) auto

text \<open>
  A property of hubs that queueing a message keeps and that does not look at the fields the
  daemon's frames write is kept by every frame of the daemon.
\<close>

locale hub_invariant =
  fixes I :: "hub \<Rightarrow> bool"
  assumes queue: "I h \<Longrightarrow> I (queue want m h)"
    and title_pending: "I h \<Longrightarrow> I (h\<lparr>hb_title_pending := tp\<rparr>)"
    and usage: "I h \<Longrightarrow> I (h\<lparr>hb_usage := u\<rparr>)"
    and pending_backlog: "I h \<Longrightarrow> I (h\<lparr>hb_pending_backlog := pb\<rparr>)"
    and dump_pending: "I h \<Longrightarrow> I (h\<lparr>hb_dump_pending := dp\<rparr>)"
    and layout_dirty: "I h \<Longrightarrow> I (h\<lparr>hb_layout_dirty := ld\<rparr>)"
    and sessions: "I h \<Longrightarrow> I (h\<lparr>hb_sessions := ss, hb_layout := l\<rparr>)"
begin

lemma prune: "I h \<Longrightarrow> I (prune_title_pending now h)"
  by (simp add: prune_title_pending_def keep_requests_def title_pending)

lemma tell: "I h \<Longrightarrow> I (tell_clients ids m h)"
  unfolding tell_clients_def by (rule fold_keeps) (auto intro: queue)

lemma title_acks: "I h \<Longrightarrow> I (title_created_ack now n h)" "I h \<Longrightarrow> I (title_set_ack now n t h)"
  by (auto simp: title_created_ack_def title_set_ack_def Let_def split: option.split
      intro!: tell title_pending prune)

lemma set_sessions: "I h \<Longrightarrow> I (set_sessions sr ss h)"
  by (simp add: set_sessions_def Let_def queue sessions)

lemma on_control: "I h \<Longrightarrow> I (on_control sr now m h)"
  by (cases m) (simp_all add: on_control_def queue title_acks set_sessions usage layout_dirty)

lemma on_frame: "I h \<Longrightarrow> I (on_frame sr now f h)"
proof (cases f)
  case (Backlog n bs)
  assume "I h"
  then show ?thesis
    by (auto simp: Backlog on_frame_def on_backlog_def split: option.split
        intro!: fold_keeps[where I = I] queue dump_pending)
qed (simp_all add: on_frame_def on_data_def on_control queue pending_backlog)

end

section \<open>The invariant of the hub\<close>

definition clients_ok :: "nat \<Rightarrow> hub_client list \<Rightarrow> bool" where
  "clients_ok k cs \<longleftrightarrow> distinct (map hc_id cs) \<and> (\<forall>c\<in>set cs. hc_id c < k \<and> length (hc_queue c) \<le> CLIENT_QUEUE_DEPTH)"

definition borrows_ok :: "(string \<times> borrow) list \<Rightarrow> bool" where
  "borrows_ok bs \<longleftrightarrow> distinct (map fst bs) \<and> distinct (map (bo_client \<circ> snd) bs)"

text \<open>A client that has a pane open holds no borrow but that pane's.\<close>

definition views_ok :: "hub_client list \<Rightarrow> (string \<times> borrow) list \<Rightarrow> bool" where
  "views_ok cs bs \<longleftrightarrow> (\<forall>c\<in>set cs. \<forall>n m b. hc_open c = Some n \<longrightarrow> (m, b) \<in> set bs \<longrightarrow> bo_client b = hc_id c \<longrightarrow> m = n)"

definition hub_ok :: "hub \<Rightarrow> bool" where
  "hub_ok h \<longleftrightarrow> clients_ok (hb_next_id h) (hb_clients h) \<and> borrows_ok (hb_borrows h)
     \<and> views_ok (hb_clients h) (hb_borrows h)"

lemma offer_id: "offer want m c = Some c' \<Longrightarrow> hc_id c' = hc_id c"
  by (auto simp: offer_def try_send_def split: if_splits)

lemma offer_queue: "offer want m c = Some c' \<Longrightarrow> length (hc_queue c) \<le> CLIENT_QUEUE_DEPTH \<Longrightarrow>
    length (hc_queue c') \<le> CLIENT_QUEUE_DEPTH"
  by (auto simp: offer_def try_send_def split: if_splits)

lemma offer_open: "offer want m c = Some c' \<Longrightarrow> hc_open c' = hc_open c \<and> hc_pi c' = hc_pi c"
  by (auto simp: offer_def try_send_def split: if_splits)

lemma map_filter_Cons [simp]:
  "List.map_filter g (x # xs) = (case g x of None \<Rightarrow> List.map_filter g xs | Some y \<Rightarrow> y # List.map_filter g xs)"
  by (simp add: List.map_filter_def split: option.split)

lemma map_filter_Nil [simp]: "List.map_filter g [] = []"
  by (simp add: List.map_filter_def)

lemma offered_ids: "distinct (map hc_id cs) \<Longrightarrow> distinct (map hc_id (List.map_filter (offer want m) cs))"
proof (induction cs)
  case (Cons c cs)
  have "hc_id ` set (List.map_filter (offer want m) cs) \<subseteq> hc_id ` set cs"
    by (auto simp: in_map_filter dest!: offer_id)
  moreover have "distinct (map hc_id (List.map_filter (offer want m) cs))" and "hc_id c \<notin> hc_id ` set cs"
    using Cons by simp_all
  ultimately show ?case
  proof (cases "offer want m c")
    case (Some c')
    then show ?thesis using offer_id[OF Some] \<open>hc_id c \<notin> hc_id ` set cs\<close>
        \<open>hc_id ` set (List.map_filter (offer want m) cs) \<subseteq> hc_id ` set cs\<close>
        \<open>distinct (map hc_id (List.map_filter (offer want m) cs))\<close> by (simp add: subset_iff) blast
  qed simp
qed simp

lemma clients_ok_offer:
  assumes "clients_ok k cs"
  shows "clients_ok k (List.map_filter (offer want m) cs)"
  unfolding clients_ok_def
proof (intro conjI ballI)
  show "distinct (map hc_id (List.map_filter (offer want m) cs))"
    using assms by (simp add: clients_ok_def offered_ids)
next
  fix c assume "c \<in> set (List.map_filter (offer want m) cs)"
  then obtain c0 where "c0 \<in> set cs" "offer want m c0 = Some c" by (auto simp: in_map_filter)
  with assms show "hc_id c < k" "length (hc_queue c) \<le> CLIENT_QUEUE_DEPTH"
    by (auto simp: clients_ok_def offer_id dest: offer_queue)
qed

lemma views_ok_offer: "views_ok cs bs \<Longrightarrow> views_ok (List.map_filter (offer want m) cs) bs"
  unfolding views_ok_def
proof (intro ballI allI impI)
  fix c n k b
  assume inv: "\<forall>c\<in>set cs. \<forall>n m b. hc_open c = Some n \<longrightarrow> (m, b) \<in> set bs \<longrightarrow> bo_client b = hc_id c \<longrightarrow> m = n"
    and mem: "c \<in> set (List.map_filter (offer want m) cs)"
    and c: "hc_open c = Some n" "(k, b) \<in> set bs" "bo_client b = hc_id c"
  from mem obtain c0 where c0: "c0 \<in> set cs" "offer want m c0 = Some c" by (auto simp: in_map_filter)
  show "k = n" using inv c c0(1) offer_id[OF c0(2)] offer_open[OF c0(2)] by simp
qed

lemma views_ok_subset: "views_ok cs bs \<Longrightarrow> set cs' \<subseteq> set cs \<Longrightarrow> set bs' \<subseteq> set bs \<Longrightarrow> views_ok cs' bs'"
  unfolding views_ok_def by blast

lemma ok_queue [simp]: "hub_ok h \<Longrightarrow> hub_ok (queue want m h)"
  by (simp add: hub_ok_def clients_ok_offer views_ok_offer)

lemma update_client_map:
  "(\<And>c. g (f c) = g c) \<Longrightarrow> map g (update_client i f cs) = map g cs"
  by (induction cs) auto

lemma in_update_client: "x \<in> set (update_client i f cs) \<Longrightarrow> \<exists>c\<in>set cs. x = c \<or> x = f c"
  by (induction cs) (auto split: if_splits)

lemma in_update_client_id:
  "x \<in> set (update_client i f cs) \<Longrightarrow> distinct (map hc_id cs) \<Longrightarrow>
     \<exists>c\<in>set cs. x = c \<and> hc_id c \<noteq> i \<or> x = f c \<and> hc_id c = i"
proof (induction cs)
  case (Cons c cs)
  show ?case
  proof (cases "hc_id c = i")
    case True
    then have "x = f c \<or> x \<in> set cs \<and> hc_id x \<noteq> i" using Cons.prems by (auto simp: image_iff)
    then show ?thesis using True by auto
  next
    case False
    then show ?thesis using Cons by auto
  qed
qed simp

lemma clients_ok_update:
  assumes "\<And>c. hc_id (f c) = hc_id c" "\<And>c. length (hc_queue (f c)) \<le> length (hc_queue c)"
    and ok: "clients_ok k cs"
  shows "clients_ok k (update_client i f cs)"
  unfolding clients_ok_def
proof (intro conjI ballI)
  show "distinct (map hc_id (update_client i f cs))"
    using ok by (simp add: update_client_map[of hc_id f, OF assms(1)] clients_ok_def)
next
  fix x assume "x \<in> set (update_client i f cs)"
  then obtain c where c: "c \<in> set cs" "x = c \<or> x = f c" by (blast dest: in_update_client)
  then show "hc_id x < k" "length (hc_queue x) \<le> CLIENT_QUEUE_DEPTH"
    using ok assms(1)[of c] assms(2)[of c] by (fastforce simp: clients_ok_def)+
qed

lemma without_client_ids: "map hc_id (without_client i cs) = remove1 i (map hc_id cs)"
  by (induction cs) auto

lemma without_client_subset: "set (without_client i cs) \<subseteq> set cs"
  by (induction cs) auto

lemma clients_ok_without: "clients_ok k cs \<Longrightarrow> clients_ok k (without_client i cs)"
  using without_client_subset[of i cs] by (auto simp: clients_ok_def without_client_ids)

lemma in_update: "(n', b') \<in> set (AList.update n b bs) \<Longrightarrow> (n', b') = (n, b) \<or> (n', b') \<in> set bs"
  by (induction bs) (auto split: if_splits)

lemma borrows_update:
  assumes "borrows_ok bs" "\<And>n' b'. (n', b') \<in> set bs \<Longrightarrow> n' \<noteq> n \<Longrightarrow> bo_client b' \<noteq> bo_client b"
  shows "borrows_ok (AList.update n b bs)"
  using assms
proof (induction bs)
  case (Cons e bs)
  obtain n0 b0 where e [simp]: "e = (n0, b0)" by (cases e)
  have ok: "borrows_ok bs" and n0: "n0 \<notin> fst ` set bs" and b0: "bo_client b0 \<notin> (bo_client \<circ> snd) ` set bs"
    using Cons.prems(1) by (auto simp: borrows_ok_def)
  have other: "bo_client b' \<noteq> bo_client b" if "(n', b') \<in> set (e # bs)" "n' \<noteq> n" for n' b'
    using Cons.prems(2) that by blast
  show ?case
  proof (cases "n0 = n")
    case True
    have "bo_client b' \<noteq> bo_client b" if "(n', b') \<in> set bs" for n' b'
    proof (rule other)
      show "(n', b') \<in> set (e # bs)" using that by simp
      show "n' \<noteq> n" using that n0 True by force
    qed
    then have "bo_client b \<notin> (bo_client \<circ> snd) ` set bs" by fastforce
    then show ?thesis using ok n0 True by (simp add: borrows_ok_def)
  next
    case False
    have "borrows_ok (AList.update n b bs)"
      by (rule Cons.IH[OF ok]) (use other in auto)
    moreover have "bo_client b0 \<noteq> bo_client b' " if "(n', b') \<in> set (AList.update n b bs)" for n' b'
      using in_update[OF that] b0 other[of n0 b0] False by (auto simp: image_iff)
    moreover have "n0 \<notin> fst ` set (AList.update n b bs)"
      using n0 False by (simp add: dom_update)
    ultimately show ?thesis using False by (fastforce simp: borrows_ok_def)
  qed
qed (simp add: borrows_ok_def)

lemma borrows_filter: "borrows_ok bs \<Longrightarrow> borrows_ok (filter p bs)"
  by (simp add: borrows_ok_def distinct_map_filter)

lemma delete_filter: "AList.delete n bs = filter (\<lambda>e. fst e \<noteq> n) bs"
  by (induction bs) auto

lemma release_borrows:
  "hb_borrows (release_borrow i n h) =
     (case map_of (hb_borrows h) n of
        Some b \<Rightarrow> if bo_client b = i then AList.delete n (hb_borrows h) else hb_borrows h
      | None \<Rightarrow> hb_borrows h)"
  by (simp add: release_borrow_def Let_def split: option.split)

lemma release_fold_borrows:
  assumes "\<And>n b. n \<in> set ns \<Longrightarrow> map_of (hb_borrows h) n = Some b \<Longrightarrow> bo_client b = i"
  shows "hb_borrows (fold (release_borrow i) ns h) = filter (\<lambda>e. fst e \<notin> set ns) (hb_borrows h)"
  using assms
proof (induction ns arbitrary: h)
  case (Cons n ns)
  have "hb_borrows (release_borrow i n h) = filter (\<lambda>e. fst e \<noteq> n) (hb_borrows h)"
    using Cons.prems[of n]
    by (auto simp: release_borrows delete_filter map_of_eq_None_iff split: option.split intro!: filter_True[symmetric])
  moreover have "bo_client b = i" if "m \<in> set ns" "map_of (filter (\<lambda>e. fst e \<noteq> n) (hb_borrows h)) m = Some b" for m b
    using that Cons.prems[of m b] by (simp add: delete_filter[symmetric] delete_conv' split: if_splits)
  ultimately show ?case
    using Cons.IH[of "release_borrow i n h"] by (simp add: conj_commute)
qed simp

lemma release_all_borrows:
  assumes "borrows_ok (hb_borrows h)"
  shows "hb_borrows (release_all i h) = filter (\<lambda>e. bo_client (snd e) \<noteq> i) (hb_borrows h)"
proof -
  define ns where "ns = map fst (filter (\<lambda>(_, b). bo_client b = i) (hb_borrows h))"
  have d: "distinct (map fst (hb_borrows h))" using assms by (simp add: borrows_ok_def)
  have mine: "fst e \<in> set ns \<longleftrightarrow> bo_client (snd e) = i" if "e \<in> set (hb_borrows h)" for e
  proof
    assume "fst e \<in> set ns"
    then obtain b where b: "(fst e, b) \<in> set (hb_borrows h)" "bo_client b = i" by (auto simp: ns_def)
    moreover have "b = snd e" using d b(1) that by (metis eq_key_imp_eq_value prod.collapse)
    ultimately show "bo_client (snd e) = i" by simp
  next
    assume "bo_client (snd e) = i"
    then show "fst e \<in> set ns" using that by (cases e) (force simp: ns_def)
  qed
  have "hb_borrows (fold (release_borrow i) ns h) = filter (\<lambda>e. fst e \<notin> set ns) (hb_borrows h)"
    by (rule release_fold_borrows) (metis map_of_SomeD mine fst_conv snd_conv)
  also have "\<dots> = filter (\<lambda>e. bo_client (snd e) \<noteq> i) (hb_borrows h)"
    using mine by (intro filter_cong) auto
  finally show ?thesis by (simp add: release_all_def ns_def)
qed

lemma ok_release_borrow: "hub_ok h \<Longrightarrow> hub_ok (release_borrow i n h)"
  by (auto simp: hub_ok_def release_borrows delete_filter borrows_filter split: option.split
      elim!: views_ok_subset)

lemma ok_release_all: "hub_ok h \<Longrightarrow> hub_ok (release_all i h)"
  unfolding release_all_def by (rule fold_keeps) (auto intro: ok_release_borrow)

lemma borrow_of_client_unique:
  assumes "borrows_ok bs" "(n, b) \<in> set bs" "(n', b') \<in> set bs" "bo_client b = bo_client b'"
  shows "n = n'"
proof -
  have "inj_on (bo_client \<circ> snd) (set bs)" using assms(1) by (simp add: borrows_ok_def distinct_map)
  then show ?thesis using assms(2-4) by (metis comp_apply inj_onD prod.inject snd_conv)
qed

lemma views_ok_update:
  assumes "views_ok cs bs"
    "\<And>c m. c \<in> set cs \<Longrightarrow> hc_id c = bo_client b \<Longrightarrow> hc_open c = Some m \<Longrightarrow> n = m"
  shows "views_ok cs (AList.update n b bs)"
  using assms unfolding views_ok_def by (metis in_update prod.inject)

lemma ok_note_resize:
  assumes ok: "hub_ok h"
  shows "hub_ok (note_resize i n a b h)"
proof (cases "map_of (hb_borrows h) n")
  case (Some bo)
  have mem: "(n, bo) \<in> set (hb_borrows h)" using Some by (rule map_of_SomeD)
  have "bo_client b' \<noteq> bo_client bo" if "(n', b') \<in> set (hb_borrows h)" "n' \<noteq> n" for n' b'
    using borrow_of_client_unique[OF _ that(1) mem] that(2) ok by (auto simp: hub_ok_def)
  then have "borrows_ok (AList.update n (bo\<lparr>bo_set := Some (a, b)\<rparr>) (hb_borrows h))"
    using ok by (intro borrows_update) (auto simp: hub_ok_def)
  moreover have "views_ok (hb_clients h) (AList.update n (bo\<lparr>bo_set := Some (a, b)\<rparr>) (hb_borrows h))"
    using ok mem by (intro views_ok_update) (auto simp: hub_ok_def views_ok_def)
  ultimately show ?thesis
    using ok Some by (simp add: note_resize_def hub_ok_def)
qed (simp add: note_resize_def ok)

text \<open>
  The moment of a view: a client records the grid of the pane it is about to show, and
  holds no other borrow.
\<close>

lemma ok_view:
  assumes ok: "hub_ok h" and mine: "\<And>m b. (m, b) \<in> set (hb_borrows h) \<Longrightarrow> bo_client b = i \<Longrightarrow> m = n"
  shows "hub_ok (note_open i n h \<lparr>hb_clients := update_client i (view_step (BOpen n)) (hb_clients h)\<rparr>)"
proof -
  define bs where "bs = hb_borrows (note_open i n h)"
  define cs where "cs = update_client i (view_step (BOpen n)) (hb_clients h)"
  have none: "bo_client b' \<noteq> i" if "map_of (hb_borrows h) n = None" "(n', b') \<in> set (hb_borrows h)" for n' b'
    using that mine[of n' b'] by (auto simp: map_of_eq_None_iff image_iff)
  have bs: "borrows_ok bs" using ok none
    by (auto simp: bs_def note_open_def hub_ok_def split: option.split intro!: borrows_update)
  have in_bs: "(m, b) \<in> set (hb_borrows h) \<or> m = n \<and> bo_client b = i" if "(m, b) \<in> set bs" for m b
    using that by (auto simp: bs_def note_open_def split: option.splits if_splits dest!: in_update)
  have cs: "clients_ok (hb_next_id h) cs"
    unfolding cs_def using ok by (intro clients_ok_update) (auto simp: hub_ok_def view_step_def)
  have "m = k" if asm: "c \<in> set cs" "hc_open c = Some k" "(m, b) \<in> set bs" "bo_client b = hc_id c" for c k m b
  proof -
    obtain c0 where c0: "c0 \<in> set (hb_clients h)" "c = c0 \<and> hc_id c0 \<noteq> i \<or> c = view_step (BOpen n) c0 \<and> hc_id c0 = i"
      using asm(1) ok unfolding cs_def hub_ok_def clients_ok_def by (auto dest: in_update_client_id)
    then show ?thesis
      using asm ok mine in_bs[OF asm(3)] by (auto simp: view_step_def hub_ok_def views_ok_def)
  qed
  with bs cs show ?thesis
    by (auto simp: hub_ok_def views_ok_def bs_def[symmetric] cs_def[symmetric])
qed

lemma hub_ok_cong:
  "hb_clients h' = hb_clients h \<Longrightarrow> hb_borrows h' = hb_borrows h \<Longrightarrow> hb_next_id h' = hb_next_id h \<Longrightarrow> hub_ok h' = hub_ok h"
  by (simp add: hub_ok_def)

lemma ok_same [simp]:
  "hub_ok (write_daemon f h) = hub_ok h" "hub_ok (write_daemon_tracking c h) = hub_ok h"
  "hub_ok (detach_if_unwanted p h) = hub_ok h" "hub_ok (keep_requests q h) = hub_ok h"
  "hub_ok (prune_title_pending t h) = hub_ok h" "hub_ok (title_step t i m h) = hub_ok h"
  "hub_ok (send_control i c h) = hub_ok h"
  by (rule hub_ok_cong; simp)+

lemma ok_update_client:
  assumes "hub_ok h" "\<And>c. hc_id (f c) = hc_id c" "\<And>c. length (hc_queue (f c)) \<le> length (hc_queue c)"
    "\<And>c n. hc_open (f c) = Some n \<Longrightarrow> hc_open c = Some n"
  shows "hub_ok (h\<lparr>hb_clients := update_client i f (hb_clients h)\<rparr>)"
proof -
  have same: "k = n" if asm: "x \<in> set (update_client i f (hb_clients h))" "hc_open x = Some n" "(k, b) \<in> set (hb_borrows h)"
      "bo_client b = hc_id x" for x n k b
  proof -
    from in_update_client[OF asm(1)] obtain c
      where c: "c \<in> set (hb_clients h)" "hc_id x = hc_id c" "hc_open c = Some n"
      using assms(2,4) asm(2) by blast
    then show ?thesis using assms(1) asm(3,4) by (simp add: hub_ok_def views_ok_def)
  qed
  have "views_ok (update_client i f (hb_clients h)) (hb_borrows h)"
    unfolding views_ok_def by (intro ballI allI impI) (rule same)
  moreover have "clients_ok (hb_next_id h) (update_client i f (hb_clients h))"
    by (rule clients_ok_update[OF assms(2,3)]) (use assms(1) in \<open>simp add: hub_ok_def\<close>)
  ultimately show ?thesis using assms(1) by (simp add: hub_ok_def)
qed

lemma ok_borrow_view:
  assumes ok: "hub_ok h" and c: "client_of i h = Some c"
  shows "hub_ok (borrow_step i (hc_open c) m h
                   \<lparr>hb_clients := update_client i (view_step m) (hb_clients h)\<rparr>)"
proof (cases "\<exists>n. m = BOpen n")
  case True
  then obtain n where m: "m = BOpen n" by blast
  have c': "c \<in> set (hb_clients h)" "hc_id c = i"
    using c by (auto simp: client_of_def find_Some_iff)
  show ?thesis
  proof (cases "hc_open c = Some n")
    case True
    have "k = n" if "(k, b) \<in> set (hb_borrows h)" "bo_client b = i" for k b
      using ok c' True that by (auto simp: hub_ok_def views_ok_def)
    then show ?thesis using ok_view[OF ok, of i n] True by (simp add: m borrow_step_def)
  next
    case False
    have "k = n" if "(k, b) \<in> set (hb_borrows (release_all i h))" "bo_client b = i" for k b
      using that ok by (simp add: release_all_borrows hub_ok_def)
    then show ?thesis
      using ok_view[OF ok_release_all[OF ok, of i], of i n] False by (simp add: m borrow_step_def)
  qed
next
  case False
  have "hub_ok (borrow_step i (hc_open c) m h)"
    using False ok by (cases m) (simp_all add: borrow_step_def ok_release_borrow ok_release_all ok_note_resize)
  then have "hub_ok (borrow_step i (hc_open c) m h
      \<lparr>hb_clients := update_client i (view_step m) (hb_clients (borrow_step i (hc_open c) m h))\<rparr>)"
    by (rule ok_update_client) (use False in \<open>auto simp: view_step_def split: browser_msg.splits if_splits\<close>)
  then show ?thesis by simp
qed

lemma ok_fold_send: "hub_ok (fold (send_control i) cs h) = hub_ok h"
  by (induction cs arbitrary: h) simp_all

lemma client_of_title [simp]: "client_of i (title_step t j m h) = client_of i h"
  by (simp add: client_of_def)

lemma ok_handle_msg: "hub_ok h \<Longrightarrow> hub_ok (handle_msg is_dir now i m h)"
  using ok_borrow_view[of "title_step now i m h" i _ m]
  by (auto simp: handle_msg_def Let_def ok_fold_send split: option.split)

interpretation ok: hub_invariant hub_ok
  by unfold_locales (simp_all add: hub_ok_def clients_ok_offer views_ok_offer)

lemma ok_link_up: "hub_ok h \<Longrightarrow> hub_ok (link_up k h)"
proof -
  assume "hub_ok h"
  then have "hub_ok (h\<lparr>hb_daemon := Some k, hb_wire := []\<rparr>)" by (simp add: hub_ok_def)
  then show ?thesis
    unfolding link_up_def Let_def by (intro fold_keeps[where I = hub_ok]) simp_all
qed

lemma ok_step: "hub_ok h \<Longrightarrow> hub_ok (hub_step e h)"
proof (cases e)
  case Join
  assume ok: "hub_ok h"
  then show ?thesis
    by (auto simp: Join add_client_def hub_ok_def clients_ok_def views_ok_def CLIENT_QUEUE_DEPTH_def less_Suc_eq)
next
  case (Leave i)
  assume ok: "hub_ok h"
  define h' where "h' = forget_title_client i (release_all i h)"
  have h': "hub_ok h'" using ok by (simp add: h'_def forget_title_client_def ok_release_all)
  then have "hub_ok (h'\<lparr>hb_clients := without_client i (hb_clients h')\<rparr>)"
    using without_client_subset[of i "hb_clients h'"]
    by (auto simp: hub_ok_def clients_ok_without elim!: views_ok_subset)
  then show ?thesis
    using ok by (simp add: Leave remove_client_def Let_def h'_def split: option.split)
next
  case LinkDown
  assume ok: "hub_ok h"
  then show ?thesis
    by (simp add: LinkDown link_down_def hub_ok_def clients_ok_offer views_ok_offer)
next
  case (GeometryPoll sr now f)
  assume "hub_ok h"
  then show ?thesis by (simp add: GeometryPoll geometry_poll_def Let_def hub_ok_def)
next
  case (WriterTakes i)
  assume "hub_ok h"
  then show ?thesis unfolding WriterTakes hub_step.simps by (rule ok_update_client) auto
next
  case (WriterEnds i)
  assume "hub_ok h"
  then show ?thesis unfolding WriterEnds hub_step.simps by (rule ok_update_client) auto
qed (simp_all add: handle_browser_def input_bytes_def connect_failed_def usage_poll_def
      ok_handle_msg ok.on_frame ok_link_up split: option.split)

lemma ok_run: "hub_ok h \<Longrightarrow> hub_ok (hub_run es h)"
  unfolding hub_run_def by (rule fold_keeps) (auto intro: ok_step)

lemma ok_new: "hub_ok hub_new"
  by (simp add: hub_new_def hub_ok_def clients_ok_def borrows_ok_def views_ok_def)

lemmas reachable_ok = ok_run[OF ok_new]

section \<open>Open sessions stay attached\<close>

text \<open>The sessions the connection is attached to after it took these frames.\<close>

fun attach_frame :: "frame \<Rightarrow> string set \<Rightarrow> string set" where
  "attach_frame (Control (Attach n _ _ _)) S = insert n S"
| "attach_frame (Control (Detach n)) S = S - {n}"
| "attach_frame _ S = S"

definition attached :: "frame list \<Rightarrow> string set" where
  "attached fs = fold attach_frame fs {}"

lemma attached_snoc [simp]: "attached (fs @ [f]) = attach_frame f (attached fs)"
  by (simp add: attached_def)

definition views :: "hub \<Rightarrow> string set" where
  "views h = {n. viewed h n}"

text \<open>All but the sessions \<open>S\<close> of those some tab has open are attached.\<close>

definition attached_but :: "string set \<Rightarrow> hub \<Rightarrow> bool" where
  "attached_but S h \<longleftrightarrow> (hb_daemon h \<noteq> None \<longrightarrow> views h \<subseteq> attached (hb_wire h) \<union> S)"

lemma attached_but_cong:
  "hb_clients h' = hb_clients h \<Longrightarrow> hb_daemon h' = hb_daemon h \<Longrightarrow> hb_wire h' = hb_wire h \<Longrightarrow>
     attached_but S h' = attached_but S h"
  by (simp add: attached_but_def views_def viewed_def)

lemma attached_but_fewer:
  "attached_but S h \<Longrightarrow> hb_daemon h' = hb_daemon h \<Longrightarrow> hb_wire h' = hb_wire h \<Longrightarrow> views h' \<subseteq> views h \<Longrightarrow>
     attached_but S h'"
  by (auto simp: attached_but_def)

lemma detach_frame_other: "(\<And>n. f = Control (Detach n) \<Longrightarrow> n \<notin> V) \<Longrightarrow> V \<subseteq> A \<union> S \<Longrightarrow> V \<subseteq> attach_frame f A \<union> S"
  by (cases "(f, A)" rule: attach_frame.cases) auto

lemma attached_write:
  assumes "attached_but S h" "\<And>n. f = Control (Detach n) \<Longrightarrow> \<not> viewed h n"
  shows "attached_but S (write_daemon f h)"
  using assms detach_frame_other[of f "views h" "attached (hb_wire h)" S]
  by (auto simp: attached_but_def write_daemon_def views_def viewed_def split: option.split nat.split)

lemma attached_attach:
  assumes "attached_but (insert n S) h"
  shows "attached_but S (write_daemon_tracking (Attach n False False None) h)"
  using assms
  by (auto simp: attached_but_def write_daemon_tracking_def write_daemon_def views_def viewed_def
      split: option.split nat.split)

lemma attached_tracking:
  assumes "attached_but S h" "\<And>n. c = Detach n \<Longrightarrow> \<not> viewed h n"
  shows "attached_but S (write_daemon_tracking c h)"
  using attached_write[of S "h\<lparr>hb_pending_backlog := x\<rparr>" "Control c" for x]
    attached_write[OF assms(1), of "Control c"] assms
  by (cases c) (auto simp: write_daemon_tracking_def attached_but_def views_def viewed_def)

lemma attached_detach: "attached_but S h \<Longrightarrow> attached_but S (detach_if_unwanted p h)"
  by (auto simp: detach_if_unwanted_def split: option.split intro!: attached_write)

lemma views_offer: "n \<in> views (h\<lparr>hb_clients := List.map_filter (offer want m) (hb_clients h)\<rparr>) \<Longrightarrow> n \<in> views h"
  by (fastforce simp: views_def viewed_def list_ex_iff in_map_filter dest!: offer_open)

lemma attached_queue [simp]: "attached_but S h \<Longrightarrow> attached_but S (queue want m h)"
  unfolding queue_def
  by (rule fold_keeps) (auto intro: attached_detach attached_but_fewer views_offer)

lemma attached_release: "attached_but S h \<Longrightarrow> attached_but S (release_borrow i n h)"
proof -
  assume a: "attached_but S h"
  define h' where "h' = h\<lparr>hb_borrows := AList.delete n (hb_borrows h)\<rparr>"
  have "attached_but S h'" using a by (simp add: h'_def attached_but_def views_def viewed_def)
  then show ?thesis
    using a by (auto simp: release_borrow_def Let_def h'_def[symmetric] split: option.split intro!: attached_write)
qed

lemma attached_release_all: "attached_but S h \<Longrightarrow> attached_but S (release_all i h)"
  unfolding release_all_def by (rule fold_keeps) (auto intro: attached_release)

lemma attached_note: "attached_but S (note_open i n h) = attached_but S h"
    "attached_but S (note_resize i n a b h) = attached_but S h"
    "attached_but S (title_step t i m h) = attached_but S h"
    "attached_but S (keep_requests q h) = attached_but S h"
    "attached_but S (prune_title_pending t h) = attached_but S h"
  by (rule attached_but_cong; simp)+

lemma attached_borrow_step: "attached_but S h \<Longrightarrow> attached_but S (borrow_step i p m h)"
  by (cases m) (simp_all add: borrow_step_def attached_note attached_release attached_release_all)

lemma attached_send:
  assumes "attached_but S h"
  shows "attached_but S (send_control i c h)"
proof (cases c)
  case (DumpBacklog n)
  define h' where "h' = h\<lparr>hb_dump_pending := (hb_dump_pending h)(n \<mapsto>
            (case hb_dump_pending h n of None \<Rightarrow> [] | Some ids \<Rightarrow> ids) @ [i])\<rparr>"
  have "attached_but S h'" using assms by (simp add: h'_def attached_but_def views_def viewed_def)
  then have "attached_but S (write_daemon_tracking c h')"
    by (rule attached_tracking) (simp add: DumpBacklog)
  then show ?thesis by (simp add: DumpBacklog send_control_def h'_def)
qed (use assms in \<open>auto simp: send_control_def intro: attached_tracking\<close>)

lemma attached_send_all: "attached_but S h \<Longrightarrow> attached_but S (fold (send_control i) cs h)"
  by (rule fold_keeps) (auto intro: attached_send)

lemma views_update:
  assumes "\<And>c n. hc_open (f c) = Some n \<Longrightarrow> hc_open c = Some n \<or> n \<in> S"
  shows "views (h\<lparr>hb_clients := update_client i f (hb_clients h)\<rparr>) \<subseteq> views h \<union> S"
proof
  fix n assume "n \<in> views (h\<lparr>hb_clients := update_client i f (hb_clients h)\<rparr>)"
  then obtain x where x: "x \<in> set (update_client i f (hb_clients h))" "hc_open x = Some n"
    by (auto simp: views_def viewed_def list_ex_iff)
  from in_update_client[OF x(1)] obtain c where c: "c \<in> set (hb_clients h)" "x = c \<or> x = f c" by blast
  then show "n \<in> views h \<union> S"
    using x(2) assms[of c n] by (auto simp: views_def viewed_def list_ex_iff)
qed

lemma attached_update:
  assumes "attached_but {} h" "\<And>c n. hc_open (f c) = Some n \<Longrightarrow> hc_open c = Some n \<or> n \<in> S"
  shows "attached_but S (h\<lparr>hb_clients := update_client i f (hb_clients h)\<rparr>)"
  using assms(1) views_update[of f S i h, OF assms(2)] by (auto simp: attached_but_def)

lemma attached_handle_msg:
  assumes "attached_but {} h"
  shows "attached_but {} (handle_msg is_dir now i m h)"
proof (cases "client_of i h")
  case (Some c)
  define h' where "h' = borrow_step i (hc_open c) m (title_step now i m h)"
  define h'' where "h'' = h'\<lparr>hb_clients := update_client i (view_step m) (hb_clients h')\<rparr>"
  define cs where "cs = map_browser_msg is_dir m (hc_open c) (hb_sessions h)"
  have h': "attached_but {} h'"
    using assms by (simp add: h'_def attached_borrow_step attached_note)
  have "attached_but {} (fold (send_control i) cs h'')" if sent: "cs \<noteq> [] \<or> hub_only m"
  proof (cases "\<exists>n. m = BOpen n")
    case True
    then obtain n where m: "m = BOpen n" by blast
    have "attached_but {n} h''"
      unfolding h''_def by (rule attached_update[OF h']) (auto simp: m view_step_def)
    then obtain ds where "cs = ds @ [Attach n False False None]" "attached_but {n} (fold (send_control i) ds h'')"
      using sent by (auto simp: cs_def m split: if_splits intro: attached_send_all)
    then show ?thesis
      using attached_attach[of n "{}"] by (simp add: send_control_def)
  next
    case False
    have "attached_but {} h''"
      unfolding h''_def
      by (rule attached_update[OF h']) (use False in \<open>auto simp: view_step_def split: browser_msg.splits if_splits\<close>)
    then show ?thesis by (rule attached_send_all)
  qed
  then show ?thesis
    using assms Some unfolding cs_def h''_def h'_def by (auto simp: handle_msg_def Let_def)
qed (simp add: handle_msg_def assms)

lemma attached_fields [simp]:
  "attached_but S (h\<lparr>hb_title_pending := a\<rparr>) = attached_but S h"
  "attached_but S (h\<lparr>hb_usage := u\<rparr>) = attached_but S h"
  "attached_but S (h\<lparr>hb_pending_backlog := p\<rparr>) = attached_but S h"
  "attached_but S (h\<lparr>hb_dump_pending := d\<rparr>) = attached_but S h"
  "attached_but S (h\<lparr>hb_layout_dirty := y\<rparr>) = attached_but S h"
  "attached_but S (h\<lparr>hb_sessions := ss, hb_layout := l\<rparr>) = attached_but S h"
  by (rule attached_but_cong; simp)+

interpretation att: hub_invariant "attached_but S" for S
  by unfold_locales simp_all

lemma attached_attach_all:
  "attached_but (set ns) h \<Longrightarrow> attached_but {} (fold (\<lambda>n. write_daemon_tracking (Attach n False False None)) ns h)"
  by (induction ns arbitrary: h) (simp_all add: attached_attach)

lemma attached_link_up: "attached_but {} (link_up k h)"
proof -
  define opens where "opens = sort_dedup_names (List.map_filter hc_open (hb_clients h))"
  have views: "views h \<subseteq> set opens"
    by (auto simp: opens_def sort_dedup_names_def views_def viewed_def list_ex_iff in_map_filter)
  have "attached_but (set opens) (h\<lparr>hb_daemon := Some k, hb_wire := []\<rparr>)"
    using views by (auto simp: attached_but_def views_def viewed_def)
  then have first: "attached_but (set opens) (fold (write_daemon \<circ> Control) cs (h\<lparr>hb_daemon := Some k, hb_wire := []\<rparr>))"
    if "\<forall>n. Detach n \<notin> set cs" for cs
    by (rule fold_keeps[rotated]) (use that in \<open>auto intro!: attached_write\<close>)
  show ?thesis
    unfolding link_up_def Let_def opens_def[symmetric] by (intro attached_attach_all first) auto
qed

lemma attached_down: "hb_daemon h = None \<Longrightarrow> attached_but S h"
  by (simp add: attached_but_def)

lemma attached_step: "attached_but {} h \<Longrightarrow> attached_but {} (hub_step e h)"
proof (cases e)
  case Join
  assume "attached_but {} h"
  then show ?thesis by (simp add: Join add_client_def attached_but_def views_def viewed_def)
next
  case (Leave i)
  assume a: "attached_but {} h"
  define h' where "h' = forget_title_client i (release_all i h)"
  have h': "attached_but {} h'"
    using a by (simp add: h'_def forget_title_client_def attached_note attached_release_all)
  have "views (h'\<lparr>hb_clients := without_client i (hb_clients h')\<rparr>) \<subseteq> views h'"
    using without_client_subset[of i "hb_clients h'"] by (auto simp: views_def viewed_def list_ex_iff)
  then have "attached_but {} (h'\<lparr>hb_clients := without_client i (hb_clients h')\<rparr>)"
    by (intro attached_but_fewer[OF h']) simp_all
  then show ?thesis
    using a by (auto simp: Leave remove_client_def Let_def h'_def[symmetric] split: option.split intro: attached_detach)
next
  case (GeometryPoll sr now f)
  assume a: "attached_but {} h"
  have *: "attached_but {} (h'\<lparr>hb_file := x\<rparr>)" "attached_but {} (h'\<lparr>hb_layout := l, hb_layout_dirty := y, hb_file := x\<rparr>)"
    if "attached_but {} h'" for h' x l y
    using that by (simp_all add: attached_but_def views_def viewed_def)
  show ?thesis
    using a by (auto simp: GeometryPoll geometry_poll_def Let_def attached_note intro!: attached_write *)
next
  case (WriterTakes i)
  assume "attached_but {} h"
  then show ?thesis unfolding WriterTakes hub_step.simps by (rule attached_update) auto
next
  case (WriterEnds i)
  assume "attached_but {} h"
  then show ?thesis unfolding WriterEnds hub_step.simps by (rule attached_update) auto
next
  case (BrowserBytes i bs)
  assume "attached_but {} h"
  then show ?thesis by (auto simp: BrowserBytes input_bytes_def split: option.split intro!: attached_write)
qed (auto simp: handle_browser_def connect_failed_def usage_poll_def link_down_def
      attached_handle_msg att.on_frame attached_link_up attached_down
      split: option.split intro!: attached_write)

lemma attached_run: "attached_but {} (hub_run es hub_new)"
  unfolding hub_run_def by (rule fold_keeps) (auto intro: attached_step attached_down simp: hub_new_def)

section \<open>Properties\<close>

lemma client_of_iff:
  "distinct (map hc_id (hb_clients h)) \<Longrightarrow> client_of i h = Some c \<longleftrightarrow> c \<in> set (hb_clients h) \<and> hc_id c = i"
proof -
  have "find (\<lambda>c. hc_id c = i) cs = Some c \<longleftrightarrow> c \<in> set cs \<and> hc_id c = i" if "distinct (map hc_id cs)" for cs
    using that by (induction cs) (auto simp: image_iff)
  then show "distinct (map hc_id (hb_clients h)) \<Longrightarrow> ?thesis" by (simp add: client_of_def)
qed

lemma pi_command_named:
  "PiBridgeCommand n cmd \<in> set (map_browser_msg d m p ss) \<Longrightarrow> cmd = PiSnapshot \<or> command_name m = Some n"
  by (cases m) (auto simp: when_ok_def set_pi_checked split: if_splits option.splits)

text \<open>What the message of client \<open>i\<close> may put on the link.\<close>

definition browser_frame :: "(string \<Rightarrow> bool) \<Rightarrow> hub \<Rightarrow> nat \<Rightarrow> frame \<Rightarrow> bool" where
  "browser_frame is_dir h i f \<longleftrightarrow>
     (\<exists>c m. client_of i h = Some c \<and> f = Control m \<and>
        permitted is_dir (hb_sessions h) (hc_open c) m \<and>
        (\<forall>n cmd. m = PiBridgeCommand n cmd \<longrightarrow> cmd = PiSnapshot \<or> hc_pi c = Some n))
     \<or> owes h i f"

lemma sends_handle_msg:
  assumes ok: "hub_ok h"
  shows "sends (browser_frame is_dir h i) h (handle_msg is_dir now i m h)"
proof (cases "client_of i h")
  case (Some c)
  let ?P = "browser_frame is_dir h i"
  have ids: "distinct (map hc_id (hb_clients h))" using ok by (simp add: hub_ok_def clients_ok_def)
  have queue: "sends ?P h (queue (\<lambda>x. hc_id x = i) e h)" for e
  proof (rule sends_queue)
    fix x n assume x: "x \<in> set (hb_clients h)" "hc_id x = i" "hc_open x = Some n"
    then have "client_of i h = Some x" by (simp add: client_of_iff[OF ids])
    then have "x = c" using Some by simp
    then show "?P (Control (Detach n))" using Some x by (auto simp: browser_frame_def permitted_def)
  qed
  define h' where "h' = borrow_step i (hc_open c) m (title_step now i m h)"
  have owe: "\<forall>f. owes (title_step now i m h) i f \<longrightarrow> ?P f" by (simp add: owes_def browser_frame_def)
  have "sends ?P (title_step now i m h) h'"
    unfolding h'_def by (rule sends_borrow_step[OF owe])
  then have before_sends: "sends ?P h h'" by (rule sends_trans[OF sends_same_wire, rotated]) simp
  have controls: "sends ?P (h'\<lparr>hb_clients := cs\<rparr>) (fold (send_control i)
      (map_browser_msg is_dir m (hc_open c) (hb_sessions h)) (h'\<lparr>hb_clients := cs\<rparr>))"
    if guard: "\<not> (case command_name m of None \<Rightarrow> False | Some n \<Rightarrow> hc_pi c \<noteq> Some n)" for cs
  proof (rule sends_fold, rule sends_send_control)
    fix x assume x: "x \<in> set (map_browser_msg is_dir m (hc_open c) (hb_sessions h))"
    have "cmd = PiSnapshot \<or> hc_pi c = Some n" if "x = PiBridgeCommand n cmd" for n cmd
      using that guard x pi_command_named[of n cmd is_dir m "hc_open c" "hb_sessions h"] by auto
    then show "?P (Control x)"
      using map_browser_msg_permitted[OF x] Some by (auto simp: browser_frame_def)
  qed
  have "sends ?P h (fold (send_control i)
      (map_browser_msg is_dir m (hc_open c) (hb_sessions h)) (h'\<lparr>hb_clients := cs\<rparr>))"
    if guard: "\<not> (case command_name m of None \<Rightarrow> False | Some n \<Rightarrow> hc_pi c \<noteq> Some n)" for cs
    by (rule sends_trans[OF before_sends sends_trans[OF sends_same_wire controls[OF guard]]]) simp
  then show ?thesis
    using queue by (simp add: handle_msg_def Some Let_def h'_def)
qed (simp add: handle_msg_def)

text \<open>C6: 
  C1: whatever text a browser sends, in whatever state the server has reached, the frames it causes
  on the daemon link are control messages of the permitted kinds only, each checked against
  the session list: a pane that exists, an agent for suspending, a fresh name of the pane
  grammar with a known kind and an existing directory for creating, a grid within the
  bounds for resizing, a validated Pi command for the Pi session this very socket opened. The one
  exception is the grid this client borrowed, which is restored to what it was. \<^verbatim>\<open>Snapshot\<close>,
  \<^verbatim>\<open>ReportRunState\<close> and every other message are out of reach.
\<close>

theorem browser_reaches_only_permitted:
  "\<exists>fs. hb_wire (hub_step (BrowserText from_str is_dir now i s) (hub_run es hub_new)) = hb_wire (hub_run es hub_new) @ fs
     \<and> list_all (browser_frame is_dir (hub_run es hub_new) i) fs"
proof (cases "parse_browser_msg from_str s")
  case (Some m)
  then show ?thesis
    using sends_handle_msg[OF reachable_ok, of is_dir es i now m] by (simp add: handle_browser_def sends_def)
qed (simp add: handle_browser_def)

text \<open>C11: 
  C1: while the daemon link is up, every session some tab has open is attached on it, after any
  sequence of tabs opening, closing and vanishing, evictions of slow tabs, failing writes
  and reconnections: a tab is never left watching a pane whose output the server no longer receives.
\<close>

theorem open_sessions_attached:
  assumes "hb_daemon (hub_run es hub_new) \<noteq> None"
    and "c \<in> set (hb_clients (hub_run es hub_new))" and "hc_open c = Some n"
  shows "n \<in> attached (hb_wire (hub_run es hub_new))"
  using attached_run[of es] assms by (auto simp: attached_but_def views_def viewed_def list_ex_iff)

text \<open>
  C1: no run queues more than 512 frames for a tab, tabs keep distinct numbers, and a tab holds at
  most one borrowed grid.
\<close>

theorem hub_bounded:
  "list_all (\<lambda>c. length (hc_queue c) \<le> 512) (hb_clients (hub_run es hub_new))
   \<and> distinct (map hc_id (hb_clients (hub_run es hub_new)))
   \<and> distinct (map (bo_client \<circ> snd) (hb_borrows (hub_run es hub_new)))"
  using reachable_ok[of es] by (simp add: list_all_iff hub_ok_def clients_ok_def borrows_ok_def CLIENT_QUEUE_DEPTH_def)

lemma map_filter_map_filter:
  "List.map_filter f (List.map_filter g xs) = List.map_filter (\<lambda>x. Option.bind (g x) f) xs"
  by (induction xs) (simp_all split: option.split)

text \<open>C30: 
  C1: terminal output reaches exactly the tabs that have its session open, after the marker that
  announces a replay when one is due; a tab that cannot take it is dropped, every other tab is
  left as it was.
\<close>

theorem output_only_to_viewers:
  "hb_clients (on_frame show_ratio now (Data n bs) h) =
     List.map_filter
       (\<lambda>c. if hc_open c = Some n
            then Option.bind (if n \<in> hb_pending_backlog h
                              then try_send (text_obj ''backlog'' [(''name'', JString n)]) c else Some c)
                   (try_send (OBinary bs))
            else Some c) (hb_clients h)"
proof -
  have "hc_open c' = hc_open c" if "try_send m c = Some c'" for m c c'
    using that by (auto simp: try_send_def split: if_splits)
  then show ?thesis
    by (auto simp: on_frame_def on_data_def map_filter_map_filter offer_def viewer_def
        intro!: arg_cong[of _ _ "\<lambda>f. List.map_filter f (hb_clients h)"] split: Option.bind_splits)
qed

end
