(* ===== verification/WebGrid.thy ===== *)
theory WebGrid
  imports WebHubLaws
begin

text \<open>
  The terminal grid a browser borrows: when it is handed back, and the two ways it is not.
\<close>

section \<open>The grid the daemon was last told\<close>

fun grid_frame :: "string \<Rightarrow> frame \<Rightarrow> (u16 \<times> u16) option \<Rightarrow> (u16 \<times> u16) option" where
  "grid_frame n (Control (Resize m a b)) g = (if m = n then Some (a, b) else g)"
| "grid_frame n _ g = g"

definition last_grid :: "string \<Rightarrow> frame list \<Rightarrow> (u16 \<times> u16) option" where
  "last_grid n fs = fold (grid_frame n) fs None"

lemma last_grid_snoc [simp]: "last_grid n (fs @ [f]) = grid_frame n f (last_grid n fs)"
  by (simp add: last_grid_def)

lemma last_grid_detach [simp]: "last_grid n (hb_wire (detach_if_unwanted p h)) = last_grid n (hb_wire h)"
  by (simp add: detach_if_unwanted_def write_daemon_def split: option.split nat.split)

section \<open>Opening, resizing, leaving\<close>

lemma fold_send_same [simp]:
  "hb_clients (fold (send_control i) cs h) = hb_clients h" "hb_sessions (fold (send_control i) cs h) = hb_sessions h"
  "hb_borrows (fold (send_control i) cs h) = hb_borrows h"
  by (induction cs arbitrary: h) simp_all

lemma title_step_other: "\<lbrakk>\<And>n d k t. m \<noteq> BCreate n d k (Some t); \<And>n t. m \<noteq> BSetTitle n t\<rbrakk> \<Longrightarrow> title_step now i m h = h"
  by (cases m) (auto simp: title_step_def split: option.split)

lemma live_named: "session_named ss n = Some s \<Longrightarrow> is_live ss n"
  by (induction ss) (auto simp: session_named_def is_live_def split: if_splits)

lemma update_client_same: "(\<And>c. f c = c) \<Longrightarrow> update_client i f cs = cs"
  by (induction cs) auto

lemma open_records_grid:
  assumes c: "client_of i h = Some c" "hc_open c \<noteq> Some n" and fresh: "map_of (hb_borrows h) n = None"
    and s: "session_named (hb_sessions h) n = Some s" "si_cols s \<noteq> 0" "si_rows s \<noteq> 0" and ok: "hub_ok h"
  shows "map_of (hb_borrows (handle_msg d t i (BOpen n) h)) n
           = Some \<lparr>bo_client = i, bo_prior = (si_cols s, si_rows s), bo_set = None\<rparr>"
    and "hb_sessions (handle_msg d t i (BOpen n) h) = hb_sessions h"
    and "client_of i (handle_msg d t i (BOpen n) h) = Some (c\<lparr>hc_open := Some n\<rparr>)"
proof -
  have none: "map_of (hb_borrows (release_all i h)) n = None"
    using fresh ok by (auto simp: hub_ok_def release_all_borrows map_of_eq_None_iff)
  have upd: "find (\<lambda>c. hc_id c = i) (update_client i (view_step (BOpen n)) cs)
      = map_option (\<lambda>c. c\<lparr>hc_open := Some n\<rparr>) (find (\<lambda>c. hc_id c = i) cs)" for cs
    by (induction cs) (auto simp: view_step_def)
  have h1: "handle_msg d t i (BOpen n) h = fold (send_control i)
      (map_browser_msg d (BOpen n) (hc_open c) (hb_sessions h))
      (note_open i n (release_all i h)\<lparr>hb_clients := update_client i (view_step (BOpen n)) (hb_clients h)\<rparr>)"
    using c s(1) by (simp add: handle_msg_def Let_def live_named title_step_other borrow_step_def)
  show "map_of (hb_borrows (handle_msg d t i (BOpen n) h)) n
           = Some \<lparr>bo_client = i, bo_prior = (si_cols s, si_rows s), bo_set = None\<rparr>"
    using none s by (simp add: h1 note_open_def update_conv')
  show "hb_sessions (handle_msg d t i (BOpen n) h) = hb_sessions h" by (simp add: h1)
  show "client_of i (handle_msg d t i (BOpen n) h) = Some (c\<lparr>hc_open := Some n\<rparr>)"
    using c upd[of "hb_clients h"] by (simp add: h1 client_of_def)
qed

definition grid_in_bounds :: "u16 \<Rightarrow> u16 \<Rightarrow> bool" where
  "grid_in_bounds a b \<longleftrightarrow> RESIZE_MIN_COLS \<le> a \<and> a \<le> RESIZE_MAX_COLS \<and> RESIZE_MIN_ROWS \<le> b \<and> b \<le> RESIZE_MAX_ROWS"

lemma resize_notes_grid:
  assumes c: "client_of i h = Some c" and bo: "map_of (hb_borrows h) n = Some bo" "bo_client bo = i"
    and s: "is_live (hb_sessions h) n" and g: "grid_in_bounds a b"
  shows "handle_msg d t i (BResize n a b) h =
           write_daemon (Control (Resize n a b))
             (h\<lparr>hb_borrows := AList.update n (bo\<lparr>bo_set := Some (a, b)\<rparr>) (hb_borrows h)\<rparr>)"
proof -
  have "update_client i (view_step (BResize n a b)) cs = cs" for cs
    by (rule update_client_same) (simp add: view_step_def)
  then show ?thesis
    using assms
    by (simp add: handle_msg_def Let_def title_step_other borrow_step_def note_resize_def send_control_def
        write_daemon_tracking_def grid_in_bounds_def)
qed

lemma filter_unique:
  assumes "distinct (map k xs)" "x \<in> set xs" "k x = v"
  shows "filter (\<lambda>x. k x = v) xs = [x]"
  using assms
proof (induction xs)
  case (Cons y ys)
  show ?case
  proof (cases "x = y")
    case True
    then have "\<forall>z\<in>set ys. k z \<noteq> v" using Cons.prems by (force simp: image_iff)
    then show ?thesis using True Cons.prems(3) by (simp add: filter_empty_conv)
  next
    case False
    then have "x \<in> set ys" using Cons.prems(2) by simp
    moreover have "k y \<noteq> v" using Cons.prems \<open>x \<in> set ys\<close> by (force simp: image_iff)
    ultimately show ?thesis using Cons by simp
  qed
qed simp

lemma release_all_single:
  assumes "borrows_ok (hb_borrows h)" "map_of (hb_borrows h) n = Some bo" "bo_client bo = i"
  shows "release_all i h = release_borrow i n h"
proof -
  have "filter (\<lambda>(_, b). bo_client b = i) (hb_borrows h) = filter (\<lambda>e. bo_client (snd e) = i) (hb_borrows h)"
    by (rule filter_cong) auto
  also have "\<dots> = [(n, bo)]"
    using filter_unique[of "bo_client \<circ> snd" "hb_borrows h" "(n, bo)" i] assms(1,3) map_of_SomeD[OF assms(2)]
    by (simp add: borrows_ok_def)
  finally show ?thesis by (simp add: release_all_def)
qed

lemma leave_wire:
  assumes "client_of i h = Some c" "borrows_ok (hb_borrows h)" "map_of (hb_borrows h) n = Some bo" "bo_client bo = i"
  shows "last_grid n (hb_wire (remove_client i h)) = last_grid n (hb_wire (release_borrow i n h))"
    and "hb_borrows (remove_client i h) = hb_borrows (release_borrow i n h)"
  using assms by (simp_all add: remove_client_def Let_def release_all_single forget_title_client_def)

lemma sessions_frame:
  "hb_sessions (hub_step (FromDaemon sr t (Control (Sessions ss))) h) = ss"
  "hb_borrows (hub_step (FromDaemon sr t (Control (Sessions ss))) h) = hb_borrows h"
  by (simp_all add: on_frame_def on_control_def set_sessions_def Let_def)


text \<open>
  C1: when the tab leaves before the daemon has reported the new grid, the server compares the
  resize with the report of before it, takes the terminal for refitted by someone else and restores nothing:
  the pane keeps the grid of a tab that is gone.
\<close>

theorem quick_leave_keeps_browser_grid:
  assumes h0: "h0 = hub_run es hub_new" and c: "client_of i h0 = Some c" "hc_open c \<noteq> Some n"
    and fresh: "map_of (hb_borrows h0) n = None"
    and s: "session_named (hb_sessions h0) n = Some s" "si_cols s \<noteq> 0" "si_rows s \<noteq> 0"
    and open_text: "parse_browser_msg from_str text1 = Some (BOpen n)"
    and resize_text: "parse_browser_msg from_str text2 = Some (BResize n a b)"
    and g: "grid_in_bounds a b" "(a, b) \<noteq> (si_cols s, si_rows s)"
    and h1: "h1 = hub_run [BrowserText from_str is_dir t1 i text1, BrowserText from_str is_dir t2 i text2] h0"
    and up: "hb_daemon h1 = Some k"
  shows "last_grid n (hb_wire (hub_step (Leave i) h1)) = Some (a, b)
         \<and> map_of (hb_borrows (hub_step (Leave i) h1)) n = None"
proof -
  have ok0: "hub_ok h0" unfolding h0 by (rule reachable_ok)
  define ha where "ha = handle_msg is_dir t1 i (BOpen n) h0"
  note opened = open_records_grid[OF c fresh s ok0, of is_dir t1, folded ha_def]
  have live: "is_live (hb_sessions ha) n" using live_named[OF s(1)] opened(2) by simp
  have h1': "h1 = handle_msg is_dir t2 i (BResize n a b) ha"
    unfolding h1 hub_run_def ha_def using open_text resize_text by (simp add: handle_browser_def)
  note resized = resize_notes_grid[OF opened(3) opened(1) _ live g(1), of is_dir t2, folded h1']
  have bo: "map_of (hb_borrows h1) n = Some \<lparr>bo_client = i, bo_prior = (si_cols s, si_rows s), bo_set = Some (a, b)\<rparr>"
    by (simp add: resized update_conv')
  have ss: "hb_sessions h1 = hb_sessions h0" by (simp add: resized opened(2))
  have here: "client_of i h1 = Some (c\<lparr>hc_open := Some n\<rparr>)"
    using opened(3) by (simp add: resized client_of_def)
  have wire: "last_grid n (hb_wire h1) = Some (a, b)"
    using up by (auto simp: resized write_daemon_def split: option.splits nat.splits)
  have ok1: "hub_ok h1" unfolding h1 by (rule ok_run[OF ok0])
  then have bs: "borrows_ok (hb_borrows h1)" by (simp add: hub_ok_def)
  show ?thesis
    using leave_wire[OF here bs bo] bo ss s(1) g(2) wire
    by (auto simp: release_borrow_def Let_def delete_conv')
qed

section \<open>A borrow whose client was dropped\<close>

definition orphaned :: "nat \<Rightarrow> string \<Rightarrow> borrow \<Rightarrow> hub \<Rightarrow> bool" where
  "orphaned i n b h \<longleftrightarrow> i \<notin> hc_id ` set (hb_clients h) \<and> i < hb_next_id h \<and> map_of (hb_borrows h) n = Some b \<and> bo_client b = i"

lemma client_of_None: "client_of i h = None \<longleftrightarrow> i \<notin> hc_id ` set (hb_clients h)"
  by (auto simp: client_of_def find_None_iff)

lemma client_of_present: "client_of j h = Some c \<Longrightarrow> orphaned i n b h \<Longrightarrow> j \<noteq> i"
  using client_of_None[of i h] by (auto simp: orphaned_def)

lemma orphaned_cong:
  "hb_clients h' = hb_clients h \<Longrightarrow> hb_borrows h' = hb_borrows h \<Longrightarrow> hb_next_id h' = hb_next_id h \<Longrightarrow>
     orphaned i n b h' = orphaned i n b h"
  by (simp add: orphaned_def)

lemma orphaned_fewer:
  "orphaned i n b h \<Longrightarrow> hc_id ` set (hb_clients h') \<subseteq> hc_id ` set (hb_clients h) \<Longrightarrow>
     hb_borrows h' = hb_borrows h \<Longrightarrow> hb_next_id h' = hb_next_id h \<Longrightarrow> orphaned i n b h'"
  by (auto simp: orphaned_def)

lemma orphaned_same [simp]:
  "orphaned i n b (write_daemon f h) = orphaned i n b h"
  "orphaned i n b (write_daemon_tracking c h) = orphaned i n b h"
  "orphaned i n b (detach_if_unwanted p h) = orphaned i n b h"
  "orphaned i n b (keep_requests q h) = orphaned i n b h"
  "orphaned i n b (prune_title_pending t h) = orphaned i n b h"
  "orphaned i n b (title_step t j m h) = orphaned i n b h"
  "orphaned i n b (send_control j c h) = orphaned i n b h"
  by (rule orphaned_cong; simp)+

lemma orphaned_queue [simp]: "orphaned i n b h \<Longrightarrow> orphaned i n b (queue want m h)"
  by (erule orphaned_fewer) (auto simp: in_map_filter dest!: offer_id)

lemma update_client_ids: "(\<And>c. hc_id (f c) = hc_id c) \<Longrightarrow> hc_id ` set (update_client j f cs) = hc_id ` set cs"
  by (induction cs) auto

lemma orphaned_release: "j \<noteq> i \<Longrightarrow> orphaned i n b h \<Longrightarrow> orphaned i n b (release_borrow j m h)"
  by (auto simp: orphaned_def release_borrows delete_conv' split: option.split)

lemma orphaned_release_all: "j \<noteq> i \<Longrightarrow> orphaned i n b h \<Longrightarrow> orphaned i n b (release_all j h)"
  unfolding release_all_def by (rule fold_keeps) (auto intro: orphaned_release)

lemma orphaned_note:
  "orphaned i n b h \<Longrightarrow> orphaned i n b (note_open j m h)"
  "j \<noteq> i \<Longrightarrow> orphaned i n b h \<Longrightarrow> orphaned i n b (note_resize j m x y h)"
  by (auto simp: orphaned_def note_open_def note_resize_def update_conv' split: option.split)

lemma orphaned_borrow_step: "j \<noteq> i \<Longrightarrow> orphaned i n b h \<Longrightarrow> orphaned i n b (borrow_step j p m h)"
  by (cases m) (simp_all add: borrow_step_def orphaned_note orphaned_release orphaned_release_all)

lemma orphaned_fold_send: "orphaned i n b (fold (send_control j) cs h) = orphaned i n b h"
  by (induction cs arbitrary: h) simp_all

lemma orphaned_handle_msg:
  assumes "orphaned i n b h"
  shows "orphaned i n b (handle_msg d t j m h)"
proof (cases "client_of j h")
  case (Some c)
  define h' where "h' = borrow_step j (hc_open c) m (title_step t j m h)"
  have h': "orphaned i n b h'"
    using orphaned_borrow_step[OF client_of_present[OF Some assms], of n b "title_step t j m h" "hc_open c" m] assms
    by (simp add: h'_def)
  have "hc_id (view_step m x) = hc_id x" for x
    by (simp add: view_step_def split: browser_msg.split)
  then have "orphaned i n b (h'\<lparr>hb_clients := update_client j (view_step m) (hb_clients h')\<rparr>)"
    by (intro orphaned_fewer[OF h']) (simp_all add: update_client_ids)
  with assms show ?thesis
    by (auto simp: handle_msg_def Some Let_def orphaned_fold_send h'_def[symmetric])
qed (simp add: handle_msg_def assms)

lemma orphaned_fields [simp]:
  "orphaned i n b (h\<lparr>hb_title_pending := a\<rparr>) = orphaned i n b h"
  "orphaned i n b (h\<lparr>hb_usage := u\<rparr>) = orphaned i n b h"
  "orphaned i n b (h\<lparr>hb_pending_backlog := p\<rparr>) = orphaned i n b h"
  "orphaned i n b (h\<lparr>hb_dump_pending := d\<rparr>) = orphaned i n b h"
  "orphaned i n b (h\<lparr>hb_layout_dirty := y\<rparr>) = orphaned i n b h"
  "orphaned i n b (h\<lparr>hb_sessions := ss\<rparr>) = orphaned i n b h"
  "orphaned i n b (h\<lparr>hb_layout := l\<rparr>) = orphaned i n b h"
  "orphaned i n b (h\<lparr>hb_daemon := dm\<rparr>) = orphaned i n b h"
  "orphaned i n b (h\<lparr>hb_wire := w\<rparr>) = orphaned i n b h"
  "orphaned i n b (h\<lparr>hb_file := lf\<rparr>) = orphaned i n b h"
  by (rule orphaned_cong; simp)+

interpretation orphan: hub_invariant "orphaned i n b" for i n b
  by unfold_locales simp_all

lemma orphaned_step: "orphaned i n b h \<Longrightarrow> orphaned i n b (hub_step e h)"
proof (cases e)
  case Join
  assume "orphaned i n b h"
  then show ?thesis by (auto simp: Join add_client_def orphaned_def)
next
  case (Leave j)
  assume a: "orphaned i n b h"
  show ?thesis
  proof (cases "client_of j h")
    case (Some c)
    define h' where "h' = forget_title_client j (release_all j h)"
    have h': "orphaned i n b h'"
      using orphaned_release_all[OF client_of_present[OF Some a] a] by (simp add: h'_def forget_title_client_def)
    then have "orphaned i n b (h'\<lparr>hb_clients := without_client j (hb_clients h')\<rparr>)"
      using without_client_subset[of j "hb_clients h'"] by (intro orphaned_fewer[OF h']) auto
    then show ?thesis by (simp add: Leave remove_client_def Some Let_def h'_def)
  qed (simp add: Leave remove_client_def a)
next
  case (LinkUp k)
  assume a: "orphaned i n b h"
  show ?thesis
    unfolding LinkUp hub_step.simps link_up_def Let_def
    by (intro fold_keeps[where I = "orphaned i n b"]) (use a in simp_all)
next
  case (WriterTakes j)
  assume "orphaned i n b h"
  then show ?thesis unfolding WriterTakes hub_step.simps by (rule orphaned_fewer) (simp_all add: update_client_ids)
next
  case (WriterEnds j)
  assume "orphaned i n b h"
  then show ?thesis unfolding WriterEnds hub_step.simps by (rule orphaned_fewer) (simp_all add: update_client_ids)
qed (auto simp: handle_browser_def input_bytes_def connect_failed_def usage_poll_def link_down_def
      geometry_poll_def Let_def orphaned_handle_msg orphan.on_frame split: option.split)

text \<open>C40: 
  C1: the borrow of a tab that the server dropped, for a full queue or a writer that ended, is
  never given up: nothing that happens later, the end of that tab's connection included,
  restores the grid or lets another tab record one for the pane.
\<close>

theorem dropped_client_keeps_borrow:
  assumes "map_of (hb_borrows (hub_run es hub_new)) n = Some b"
    and "client_of (bo_client b) (hub_run es hub_new) = None"
    and "bo_client b < hb_next_id (hub_run es hub_new)"
  shows "map_of (hb_borrows (hub_run (es @ es') hub_new)) n = Some b"
proof -
  have "orphaned (bo_client b) n b (hub_run es hub_new)"
    using assms by (simp add: orphaned_def client_of_None)
  then have "orphaned (bo_client b) n b (hub_run es' (hub_run es hub_new))"
    unfolding hub_run_def[of es'] by (rule fold_keeps[rotated]) (rule orphaned_step)
  then show ?thesis by (simp add: hub_run_def orphaned_def)
qed

section \<open>A run\<close>

definition demo_pane :: session_info where
  "demo_pane = \<lparr>si_name = ''p'', si_cwd = ''/'', si_kind = ''shell'', si_alive = True, si_title = None, si_branch = None,
     si_updated = 0, si_run_state = None, si_claude_id = None, si_cols = 120, si_rows = 40, si_slot = 1\<rparr>"

definition demo_json :: "string \<Rightarrow> json option" where
  "demo_json s =
     (if s = ''open'' then Some (JObject [(''t'', JString ''open''), (''name'', JString ''p'')])
      else if s = ''resize'' then Some (JObject [(''t'', JString ''resize''), (''name'', JString ''p''),
        (''cols'', JNumber ''46''), (''rows'', JNumber ''20'')])
      else None)"

lemma demo_texts:
  "parse_browser_msg demo_json ''open'' = Some (BOpen ''p'')"
  "parse_browser_msg demo_json ''resize'' = Some (BResize ''p'' 46 20)"
  by (simp_all add: parse_browser_msg_def demo_json_def parse_browser_value_def text_field_def json_get_def name_only_def
      u16_field_def u64_field_def u16_try_from_def ascii_digit_def in_rng_def parse_uint_def u64_max_def)

definition demo_start :: "hub_event list" where
  "demo_start = [LinkUp 20, Join, FromDaemon (\<lambda>_. []) 0 (Control (Sessions [demo_pane]))]"

lemma demo_start_state:
  "hb_sessions (hub_run demo_start hub_new) = [demo_pane]" "hb_borrows (hub_run demo_start hub_new) = []"
  "hb_daemon (hub_run demo_start hub_new) = Some 18"
  "hb_clients (hub_run demo_start hub_new) = [\<lparr>hc_id = 0, hc_open = None, hc_pi = None,
     hc_queue = [sessions_msg [] None, sessions_msg [demo_pane] (Some (render_layout (\<lambda>_. []) layout_default [demo_pane]))],
     hc_gone = False\<rparr>]"
  by (simp_all add: hub_run_def demo_start_def hub_new_def link_up_def Let_def sort_dedup_names_def write_daemon_def
      add_client_def on_frame_def on_control_def set_sessions_def queue_def offer_def everyone_def try_send_def
      CLIENT_QUEUE_DEPTH_def)

definition demo_views :: "hub_event list" where
  "demo_views = [BrowserText demo_json (\<lambda>_. False) 0 0 ''open'', BrowserText demo_json (\<lambda>_. False) 0 0 ''resize'']"

definition demo_refit :: hub_event where
  "demo_refit = FromDaemon (\<lambda>_. []) 0 (Control (Sessions [demo_pane\<lparr>si_cols := 46, si_rows := 20\<rparr>]))"

definition demo_drop :: "hub_event list" where
  "demo_drop = [WriterEnds 0, FromDaemon (\<lambda>_. []) 0 (Data ''p'' [])]"

lemmas hub_eval = hub_run_def demo_start_def demo_views_def demo_refit_def demo_drop_def hub_new_def link_up_def Let_def
  sort_dedup_names_def write_daemon_def add_client_def on_frame_def on_control_def set_sessions_def queue_def offer_def
  everyone_def try_send_def CLIENT_QUEUE_DEPTH_def handle_browser_def demo_texts handle_msg_def client_of_def is_live_def
  demo_pane_def title_step_def borrow_step_def release_all_def note_open_def session_named_def view_step_def
  send_control_def write_daemon_tracking_def note_resize_def RESIZE_MIN_COLS_def RESIZE_MAX_COLS_def RESIZE_MIN_ROWS_def
  RESIZE_MAX_ROWS_def on_data_def viewer_def detach_if_unwanted_def viewed_def

lemma demo_viewing:
  "hb_daemon (hub_run (demo_start @ demo_views) hub_new) = Some 16"
  "map hc_open (hb_clients (hub_run (demo_start @ demo_views) hub_new)) = [Some ''p'']"
  by (simp_all add: hub_eval)

lemma demo_refitted:
  "hb_daemon (hub_run (demo_start @ demo_views @ [demo_refit]) hub_new) = Some 16"
  "map hc_id (hb_clients (hub_run (demo_start @ demo_views @ [demo_refit]) hub_new)) = [0]"
  by (simp_all add: hub_eval)

lemma demo_dropped:
  "hb_borrows (hub_run (demo_start @ demo_views @ demo_drop) hub_new)
     = [(''p'', \<lparr>bo_client = 0, bo_prior = (120, 40), bo_set = Some (46, 20)\<rparr>)]"
  "hb_clients (hub_run (demo_start @ demo_views @ demo_drop) hub_new) = []"
  "hb_next_id (hub_run (demo_start @ demo_views @ demo_drop) hub_new) = 1"
  by (simp_all add: hub_eval)

theorem open_sessions_attached_witness:
  "''p'' \<in> attached (hb_wire (hub_run (demo_start @ demo_views) hub_new))"
proof -
  obtain c where "hb_clients (hub_run (demo_start @ demo_views) hub_new) = [c]" "hc_open c = Some ''p''"
    using demo_viewing(2) by auto
  then show ?thesis
    using open_sessions_attached[of "demo_start @ demo_views" c "''p''"] demo_viewing(1) by simp
qed

lemma demo_opening:
  "client_of 0 (hub_run demo_start hub_new) = Some \<lparr>hc_id = 0, hc_open = None, hc_pi = None,
     hc_queue = [sessions_msg [] None, sessions_msg [demo_pane] (Some (render_layout (\<lambda>_. []) layout_default [demo_pane]))],
     hc_gone = False\<rparr>"
  "map_of (hb_borrows (hub_run demo_start hub_new)) ''p'' = None"
  "session_named (hb_sessions (hub_run demo_start hub_new)) ''p'' = Some demo_pane"
  by (simp_all add: client_of_def demo_start_state session_named_def) (simp add: demo_pane_def)

lemma demo_grid: "si_cols demo_pane = 120" "si_rows demo_pane = 40" "grid_in_bounds 46 20"
  by (simp_all add: demo_pane_def grid_in_bounds_def RESIZE_MIN_COLS_def RESIZE_MAX_COLS_def RESIZE_MIN_ROWS_def
      RESIZE_MAX_ROWS_def)


theorem quick_leave_keeps_browser_grid_witness:
  "last_grid ''p'' (hb_wire (hub_step (Leave 0) (hub_run demo_views (hub_run demo_start hub_new)))) = Some (46, 20)"
proof -
  have run: "hub_run demo_views (hub_run demo_start hub_new) = hub_run (demo_start @ demo_views) hub_new"
    by (simp add: hub_run_def)
  show ?thesis
    using quick_leave_keeps_browser_grid[OF refl demo_opening(1) _ demo_opening(2,3) _ _ demo_texts demo_grid(3) _ refl,
        of "\<lambda>_. False" 0 0 16] demo_viewing(1)
    by (simp add: demo_views_def demo_grid run[unfolded demo_views_def] del: hub_step.simps)
qed

theorem dropped_client_keeps_borrow_witness:
  "map_of (hb_borrows (hub_run ((demo_start @ demo_views @ demo_drop) @ [Leave 0, Join]) hub_new)) ''p''
     = Some \<lparr>bo_client = 0, bo_prior = (120, 40), bo_set = Some (46, 20)\<rparr>"
  by (rule dropped_client_keeps_borrow) (simp_all add: demo_dropped client_of_def)

end
