(* ===== verification/WebHttp.thy ===== *)
theory WebHttp
  imports WebMsg
begin

text \<open>
  The HTTP surface of \<^verbatim>\<open>amber web\<close> (\<^verbatim>\<open>crates/amber/src/web.rs\<close>): reading a request, cookie sessions and
  the failure budget, the identity of a Tailscale Serve hop, and which route a request
  reaches. Times are milliseconds; a fresh session id is what the random source gave.
\<close>

section \<open>Requests\<close>

record request =
  rq_method :: string
  rq_path :: string
  rq_headers :: "(string \<times> string) list"
  rq_body :: "byte list"

record head =
  hd_method :: string
  hd_path :: string
  hd_headers :: "(string \<times> string) list"
  hd_body_start :: nat

datatype http_error = HeadTooLong | NotUtf8 | BadRequestLine | BadHeaderLine | RequestTooLong | BadLength

definition MAX_REQUEST_LEN :: nat where "MAX_REQUEST_LEN = 32 * 1024"
definition MAX_HEAD_LEN :: nat where "MAX_HEAD_LEN = 16 * 1024"

definition ascii_lower_char :: "char \<Rightarrow> char" where
  "ascii_lower_char c = (if in_rng 65 90 (of_char c) then char_of (of_char c + 32 :: nat) else c)"

definition to_ascii_lowercase :: "string \<Rightarrow> string" where
  "to_ascii_lowercase s = map ascii_lower_char s"

definition header_of :: "request \<Rightarrow> string \<Rightarrow> string option" where
  "header_of r k = map_option snd (find (\<lambda>(k', _). k' = k) (rq_headers r))"

text \<open>The position of the first blank line.\<close>

fun head_end :: "byte list \<Rightarrow> nat option" where
  "head_end [] = None"
| "head_end (b # bs) = (if take 4 (b # bs) = [13, 10, 13, 10] then Some 0 else map_option Suc (head_end bs))"

fun split_crlf :: "string \<Rightarrow> string list" where
  "split_crlf [] = [[]]"
| "split_crlf [c] = [[c]]"
| "split_crlf (c # d # cs) =
     (if c = CHR 0x0D \<and> d = CHR 0x0A then [] # split_crlf cs
      else case split_crlf (d # cs) of [] \<Rightarrow> [[c]] | l # ls \<Rightarrow> (c # l) # ls)"

fun parse_header_lines :: "string list \<Rightarrow> http_error + (string \<times> string) list" where
  "parse_header_lines [] = Inr []"
| "parse_header_lines (l # ls) =
     (case split_once CHR '':'' l of
        None \<Rightarrow> Inl BadHeaderLine
      | Some (k, v) \<Rightarrow>
          (case parse_header_lines ls of
             Inl e \<Rightarrow> Inl e
           | Inr hs \<Rightarrow> Inr ((to_ascii_lowercase (str_trim k), str_trim v) # hs)))"

definition parse_head :: "byte list \<Rightarrow> http_error + head option" where
  "parse_head rx =
     (case head_end rx of
        None \<Rightarrow> if length rx > MAX_HEAD_LEN then Inl HeadTooLong else Inr None
      | Some e \<Rightarrow>
          if e + 4 > MAX_HEAD_LEN then Inl HeadTooLong
          else (case from_utf8 (take e rx) of
            None \<Rightarrow> Inl NotUtf8
          | Some t \<Rightarrow>
              (case split_on CHR '' '' (hd (split_crlf t)) of
                 m # p # v # _ \<Rightarrow>
                   if \<not> starts_with ''HTTP/'' v then Inl BadRequestLine
                   else (case parse_header_lines (tl (split_crlf t)) of
                     Inl err \<Rightarrow> Inl err
                   | Inr hs \<Rightarrow> Inr (Some \<lparr>hd_method = m, hd_path = p, hd_headers = hs, hd_body_start = e + 4\<rparr>))
               | _ \<Rightarrow> Inl BadRequestLine)))"

definition content_length :: "(string \<times> string) list \<Rightarrow> http_error + nat" where
  "content_length hs =
     (case find (\<lambda>(k, _). k = ''content-length'') hs of
        None \<Rightarrow> Inr 0
      | Some (_, v) \<Rightarrow> (case parse_uint u64_max (map of_char v) of None \<Rightarrow> Inl BadLength | Some n \<Rightarrow> Inr n))"

definition parse_request :: "byte list \<Rightarrow> http_error + request option" where
  "parse_request rx =
     (if length rx > MAX_REQUEST_LEN then Inl RequestTooLong
      else case parse_head rx of
        Inl e \<Rightarrow> Inl e
      | Inr None \<Rightarrow> Inr None
      | Inr (Some h) \<Rightarrow>
          (case content_length (hd_headers h) of
             Inl e \<Rightarrow> Inl e
           | Inr n \<Rightarrow>
               if length rx < hd_body_start h + n then Inr None
               else Inr (Some \<lparr>rq_method = hd_method h, rq_path = hd_path h, rq_headers = hd_headers h,
                               rq_body = take n (drop (hd_body_start h) rx)\<rparr>)))"

text \<open>The loop that reads until the request is complete; the end of the list is the end of the stream.\<close>

fun read_request :: "byte list \<Rightarrow> byte list list \<Rightarrow> http_error + request option" where
  "read_request rx chunks =
     (case parse_request rx of
        Inl e \<Rightarrow> Inl e
      | Inr (Some r) \<Rightarrow> Inr (Some r)
      | Inr None \<Rightarrow> (case chunks of [] \<Rightarrow> Inr None | c # cs \<Rightarrow> if c = [] then Inr None else read_request (rx @ c) cs))"

declare read_request.simps [simp del]

section \<open>Comparison, cookies, origins\<close>

definition ct_eq :: "byte list \<Rightarrow> byte list \<Rightarrow> bool" where
  "ct_eq a b \<longleftrightarrow> (if length a \<noteq> length b then False
                 else fold (\<lambda>(x, y) diff. or diff (xor x y)) (zip a b) 0 = 0)"

fun find_cookie :: "string list \<Rightarrow> string \<Rightarrow> string option" where
  "find_cookie [] name = None"
| "find_cookie (p # ps) name =
     (case split_once CHR ''='' p of
        Some (k, v) \<Rightarrow> if str_trim k = name then Some (str_trim v) else find_cookie ps name
      | None \<Rightarrow> find_cookie ps name)"

definition cookie_value :: "string \<Rightarrow> string \<Rightarrow> string option" where
  "cookie_value header name = find_cookie (split_on CHR '';'' header) name"

fun after_scheme :: "string \<Rightarrow> string option" where
  "after_scheme [] = None"
| "after_scheme (c # cs) =
     (if starts_with ''://'' (c # cs) then Some (drop 3 (c # cs)) else after_scheme cs)"

definition origin_ok :: "string option \<Rightarrow> string option \<Rightarrow> string option \<Rightarrow> bool" where
  "origin_ok origin host fwd_host =
     (case origin of
        None \<Rightarrow> True
      | Some o' \<Rightarrow>
          (let authority = (case after_scheme o' of None \<Rightarrow> o' | Some rest \<Rightarrow> rest)
           in list_ex (\<lambda>h. case h of None \<Rightarrow> False | Some h \<Rightarrow> to_ascii_lowercase authority = to_ascii_lowercase h)
                [host, fwd_host]))"

definition request_origin_ok :: "request \<Rightarrow> bool" where
  "request_origin_ok r = origin_ok (header_of r ''origin'') (header_of r ''host'') (header_of r ''x-forwarded-host'')"

definition image_ext_for_magic :: "byte list \<Rightarrow> string option" where
  "image_ext_for_magic bs =
     (if take 8 bs = [0x89, 0x50, 0x4E, 0x47, 0x0D, 0x0A, 0x1A, 0x0A] then Some ''png''
      else if take 3 bs = [0xFF, 0xD8, 0xFF] then Some ''jpg''
      else if take 6 bs = bytes_of ''GIF87a'' \<or> take 6 bs = bytes_of ''GIF89a'' then Some ''gif''
      else if length bs \<ge> 12 \<and> take 4 bs = bytes_of ''RIFF'' \<and> take 4 (drop 8 bs) = bytes_of ''WEBP'' then Some ''webp''
      else None)"

section \<open>Sessions of browsers\<close>

datatype ip_addr = V4 byte byte byte byte | V6 "128 word"

fun is_loopback :: "ip_addr \<Rightarrow> bool" where
  "is_loopback (V4 a _ _ _) \<longleftrightarrow> a = 127"
| "is_loopback (V6 x) \<longleftrightarrow> x = 1"

record auth =
  au_token :: string
  au_sessions :: "string list"
  au_fails :: "ip_addr \<Rightarrow> (nat \<times> nat) option"

definition COOKIE_NAME :: string where "COOKIE_NAME = ''amber_web''"
definition AUTH_MAX_FAILS :: nat where "AUTH_MAX_FAILS = 8"
definition AUTH_WINDOW_MS :: nat where "AUTH_WINDOW_MS = 60000"

definition auth_new :: "string \<Rightarrow> auth" where
  "auth_new t = \<lparr>au_token = t, au_sessions = [], au_fails = (\<lambda>_. None)\<rparr>"

definition throttled :: "nat \<Rightarrow> ip_addr \<Rightarrow> auth \<Rightarrow> bool \<times> auth" where
  "throttled now ip a =
     (case au_fails a ip of
        Some (n, at_ms) \<Rightarrow>
          if n \<ge> AUTH_MAX_FAILS then
            (if now - at_ms < AUTH_WINDOW_MS then (True, a)
             else (False, a\<lparr>au_fails := (au_fails a)(ip := None)\<rparr>))
          else (False, a)
      | None \<Rightarrow> (False, a))"

definition presented_token :: "byte list \<Rightarrow> string" where
  "presented_token body = str_trim (case from_utf8 body of None \<Rightarrow> [] | Some s \<Rightarrow> s)"

definition record_failure :: "nat \<Rightarrow> (nat \<times> nat) option \<Rightarrow> nat \<times> nat" where
  "record_failure now e =
     (let (n, at_ms) = (case e of None \<Rightarrow> (0, now) | Some x \<Rightarrow> x);
          (n', at') = (if now - at_ms \<ge> AUTH_WINDOW_MS then (0, now) else (n, at_ms))
      in (n' + 1, at'))"

definition authenticate :: "nat \<Rightarrow> string option \<Rightarrow> ip_addr \<Rightarrow> byte list \<Rightarrow> auth \<Rightarrow> string option \<times> auth" where
  "authenticate now fresh ip body a =
     (if ct_eq (bytes_of (presented_token body)) (bytes_of (au_token a)) then
        (case fresh of
           None \<Rightarrow> (None, a)
         | Some i \<Rightarrow> (Some i, a\<lparr>au_sessions := au_sessions a @ [i], au_fails := (au_fails a)(ip := None)\<rparr>))
      else (None, a\<lparr>au_fails := (au_fails a)(ip \<mapsto> record_failure now (au_fails a ip))\<rparr>))"

definition valid_cookie :: "auth \<Rightarrow> request \<Rightarrow> bool" where
  "valid_cookie a r =
     (case Option.bind (header_of r ''cookie'') (\<lambda>h. cookie_value h COOKIE_NAME) of
        None \<Rightarrow> False
      | Some v \<Rightarrow> fold (\<lambda>s ok. ct_eq (bytes_of s) (bytes_of v) \<or> ok) (au_sessions a) False)"

text \<open>The part before the last colon, when what follows is digits only.\<close>

definition strip_port :: "string \<Rightarrow> string" where
  "strip_port h =
     (case split_once CHR '':'' (rev h) of
        Some (p, k) \<Rightarrow> if list_all ascii_digit p then rev k else h
      | None \<Rightarrow> h)"

definition strip_brackets :: "string \<Rightarrow> string" where
  "strip_brackets h =
     (case h of
        c # s \<Rightarrow> if c = CHR ''['' then (case split_once CHR '']'' s of Some (i, _) \<Rightarrow> i | None \<Rightarrow> h) else h
      | [] \<Rightarrow> h)"

definition ts_net_host :: "string option \<Rightarrow> bool" where
  "ts_net_host host =
     (case host of
        None \<Rightarrow> False
      | Some raw \<Rightarrow>
          (let first = str_trim (hd (split_on CHR '','' (str_trim raw)));
               h = strip_port (strip_brackets first);
               h = to_ascii_lowercase (rev (dropWhile (\<lambda>c. c = CHR ''.'') (rev h)))
           in \<not> (length h \<le> 7 \<or> CHR ''/'' \<in> set h \<or> CHR 0x5C \<in> set h \<or> CHR '' '' \<in> set h)
              \<and> ends_with ''.ts.net'' h \<and> \<not> starts_with ''.'' h))"

definition serve_identity_ok :: "ip_addr \<Rightarrow> request \<Rightarrow> bool" where
  "serve_identity_ok peer r \<longleftrightarrow>
     is_loopback peer
     \<and> str_trim (case header_of r ''tailscale-user-login'' of None \<Rightarrow> [] | Some l \<Rightarrow> l) \<noteq> []
     \<and> header_of r ''x-forwarded-proto'' = Some ''https''
     \<and> ts_net_host (case header_of r ''x-forwarded-host'' of None \<Rightarrow> header_of r ''host'' | Some h \<Rightarrow> Some h)"

definition authorized :: "auth \<Rightarrow> ip_addr \<Rightarrow> request \<Rightarrow> bool" where
  "authorized a peer r \<longleftrightarrow> valid_cookie a r \<or> serve_identity_ok peer r"

section \<open>Routes\<close>

text \<open>
  What a request reaches: a status without a body of data, a file that is public, the token
  exchange, or one of the operations behind the guards.
\<close>

datatype web_route =
    RStatus string
  | RPublic string
  | RAuth
  | RSessions
  | RUsage control_msg
  | RHubStatus
  | RBootstrap
  | RLayoutLoad
  | RLayoutSave string "string option"
  | RRouterStatus
  | RRouterSlots
  | RRouterSetSlots "byte list"
  | RRouterKey string
  | RRouterLog
  | RRouterAction string
  | RWebSocket string
  | RImage string nat

definition path_query :: "string \<Rightarrow> string \<times> string" where
  "path_query p = (case split_once CHR ''?'' p of None \<Rightarrow> (p, []) | Some x \<Rightarrow> x)"

fun find_param :: "string list \<Rightarrow> string \<Rightarrow> string option" where
  "find_param [] key = None"
| "find_param (p # ps) key =
     (case split_once CHR ''='' p of
        Some (k, v) \<Rightarrow> if k = key then Some v else find_param ps key
      | None \<Rightarrow> find_param ps key)"

definition query_param :: "string \<Rightarrow> string \<Rightarrow> string option" where
  "query_param query key = find_param (split_on CHR ''&'' query) key"

definition name_param :: "string \<Rightarrow> string" where
  "name_param query = (case query_param query ''name'' of None \<Rightarrow> [] | Some n \<Rightarrow> n)"

definition guarded :: "auth \<Rightarrow> ip_addr \<Rightarrow> request \<Rightarrow> web_route \<Rightarrow> web_route" where
  "guarded a peer r k = (if \<not> authorized a peer r then RStatus ''401 Unauthorized'' else k)"

definition same_origin :: "request \<Rightarrow> web_route \<Rightarrow> web_route" where
  "same_origin r k = (if \<not> request_origin_ok r then RStatus ''403 Forbidden'' else k)"

text \<open>The checks of an upload, made on the head alone.\<close>

definition MAX_CLIPBOARD_IMAGE_BYTES :: nat where "MAX_CLIPBOARD_IMAGE_BYTES = 16 * 1024 * 1024"

definition clipboard_route :: "(string \<Rightarrow> bool) \<Rightarrow> auth \<Rightarrow> ip_addr \<Rightarrow> request \<Rightarrow> web_route" where
  "clipboard_route paste_target a peer r =
     guarded a peer r (same_origin r
       (let name = name_param (snd (path_query (rq_path r))) in
        if \<not> paste_target name then RStatus ''404 Not Found''
        else case Option.bind (header_of r ''content-length'') (\<lambda>v. parse_uint u64_max (map of_char v)) of
          None \<Rightarrow> RStatus ''400 Bad Request''
        | Some n \<Rightarrow>
            if n < 1 then RStatus ''400 Bad Request''
            else if n > MAX_CLIPBOARD_IMAGE_BYTES then RStatus ''413 Payload Too Large''
            else RImage name n))"

definition layout_save_route :: "(byte list \<Rightarrow> json option) \<Rightarrow> request \<Rightarrow> web_route" where
  "layout_save_route parse_json r =
     (case parse_json (rq_body r) of
        None \<Rightarrow> RStatus ''400 Bad Request''
      | Some v \<Rightarrow>
          (case text_field v ''text'' of
             None \<Rightarrow> RStatus ''400 Bad Request''
           | Some t \<Rightarrow> RLayoutSave t (text_field v ''version'')))"

definition get_route :: "auth \<Rightarrow> ip_addr \<Rightarrow> request \<Rightarrow> string \<Rightarrow> string \<Rightarrow> web_route" where
  "get_route a peer r path query =
     (if path = ''/api/sessions'' then guarded a peer r RSessions
      else if path = ''/api/usage'' then guarded a peer r (same_origin r (RUsage GetUsage))
      else if path = ''/api/status'' then guarded a peer r RHubStatus
      else if path = ''/api/bootstrap'' then guarded a peer r RBootstrap
      else if path = ''/api/layout'' then guarded a peer r RLayoutLoad
      else if path = ''/api/router/status'' then guarded a peer r RRouterStatus
      else if path = ''/api/router/slots'' then guarded a peer r RRouterSlots
      else if path = ''/api/router/key'' then guarded a peer r (RRouterKey (name_param query))
      else if path = ''/api/router/log'' then guarded a peer r RRouterLog
      else if path = ''/ws'' then
        guarded a peer r (same_origin r
          (case header_of r ''sec-websocket-key'' of None \<Rightarrow> RStatus ''400 Bad Request'' | Some k \<Rightarrow> RWebSocket k))
      else RPublic path)"

definition post_route :: "(byte list \<Rightarrow> json option) \<Rightarrow> (string \<Rightarrow> bool) \<Rightarrow> auth \<Rightarrow> ip_addr \<Rightarrow> request \<Rightarrow> string \<Rightarrow> web_route" where
  "post_route parse_json paste_target a peer r path =
     (if path = ''/api/clipboard-image'' then clipboard_route paste_target a peer r
      else if path = ''/api/auth'' then RAuth
      else if path = ''/api/usage'' then guarded a peer r (same_origin r (RUsage RefreshUsage))
      else if path = ''/api/layout'' then guarded a peer r (layout_save_route parse_json r)
      else if path = ''/api/router/action'' then
        guarded a peer r (RRouterAction
          (case Option.bind (parse_json (rq_body r)) (\<lambda>v. text_field v ''action'') of None \<Rightarrow> [] | Some s \<Rightarrow> s))
      else RStatus ''405 Method Not Allowed'')"

definition route_of :: "(byte list \<Rightarrow> json option) \<Rightarrow> (string \<Rightarrow> bool) \<Rightarrow> auth \<Rightarrow> ip_addr \<Rightarrow> request \<Rightarrow> web_route" where
  "route_of parse_json paste_target a peer r =
     (let (path, query) = path_query (rq_path r) in
      if rq_method r = ''POST'' then post_route parse_json paste_target a peer r path
      else if rq_method r = ''PUT'' \<and> path = ''/api/router/slots''
      then guarded a peer r (RRouterSetSlots (rq_body r))
      else if rq_method r = ''GET'' then get_route a peer r path query
      else RStatus ''405 Method Not Allowed'')"

text \<open>The token exchange: the answer's status and the session id it sets, if any.\<close>

definition auth_route :: "nat \<Rightarrow> string option \<Rightarrow> ip_addr \<Rightarrow> byte list \<Rightarrow> auth \<Rightarrow> (string \<times> string option) \<times> auth" where
  "auth_route now fresh peer body a =
     (let (blocked, a') = throttled now peer a in
      if blocked then ((''429 Too Many Requests'', None), a')
      else case authenticate now fresh peer body a' of
        (Some i, a'') \<Rightarrow> ((''204 No Content'', Some i), a'')
      | (None, a'') \<Rightarrow> ((''401 Unauthorized'', None), a''))"

end
