(* ===== verification/WebHttpLaws.thy ===== *)
theory WebHttpLaws
  imports WebHttp
begin

text \<open>
  What the HTTP surface promises: requests do not depend on how they were split into reads,
  data needs a credential, wrong tokens run into the budget, and where a foreign origin is not refused.
\<close>

section \<open>Reading\<close>

lemma head_end_Some: "head_end xs = Some e \<Longrightarrow> e + 4 \<le> length xs"
proof (induction xs arbitrary: e)
  case (Cons x xs)
  show ?case
  proof (cases "take 4 (x # xs) = [13, 10, 13, 10]")
    case True
    then have "length (take 4 (x # xs)) = 4" by simp
    then have "4 \<le> length (x # xs)" by (simp del: take_Suc_Cons)
    then show ?thesis using Cons.prems True by simp
  next
    case False
    then show ?thesis using Cons by auto
  qed
qed simp

lemma head_end_append: "head_end xs = Some e \<Longrightarrow> head_end (xs @ ys) = Some e"
proof (induction xs arbitrary: e)
  case (Cons x xs)
  have "4 \<le> length (x # xs)" using head_end_Some[OF Cons.prems] by simp
  then have "take 4 ((x # xs) @ ys) = take 4 (x # xs)" by (simp only: take_append) simp
  then show ?case using Cons by (auto split: if_splits simp del: take_Suc_Cons)
qed simp

lemma head_end_take: "head_end xs = Some e \<Longrightarrow> head_end (take (e + 4) xs) = Some e"
proof (induction xs arbitrary: e)
  case (Cons x xs)
  show ?case
  proof (cases "take 4 (x # xs) = [13, 10, 13, 10]")
    case True
    then have "e = 0" using Cons.prems by simp
    moreover have "take 4 (take (e + 4) (x # xs)) = [13, 10, 13, 10]" using True by (simp only: take_take) simp
    ultimately show ?thesis using True by simp
  next
    case False
    then obtain e' where e': "head_end xs = Some e'" "e = Suc e'" using Cons.prems by auto
    have "take (e + 4) (x # xs) = x # take (e' + 4) xs"
      unfolding e'(2) by (simp only: add_Suc take_Suc_Cons)
    moreover have "take 4 (take (e + 4) (x # xs)) \<noteq> [13, 10, 13, 10]" using False by (simp only: take_take) simp
    ultimately have "head_end (take (e + 4) (x # xs)) = map_option Suc (head_end (take (e' + 4) xs))"
      by (auto simp del: take_Suc_Cons)
    then show ?thesis using Cons.IH[OF e'(1)] e'(2) by simp
  qed
qed simp

lemma parse_head_start:
  assumes "parse_head xs = Inr (Some h)"
  shows "hd_body_start h \<le> length xs"
proof -
  obtain e where e: "head_end xs = Some e" using assms by (auto simp: parse_head_def split: option.splits if_splits)
  then have "hd_body_start h = e + 4"
    using assms by (auto simp: parse_head_def split: option.splits if_splits list.splits sum.splits)
  then show ?thesis using head_end_Some[OF e] by simp
qed

text \<open>A read that has not settled the request leaves it to the next one; a settled one is final.\<close>

lemma parse_request_append:
  assumes r: "parse_request (xs @ ys) = Inr (Some r)"
  shows "parse_request xs = Inr None \<or> parse_request xs = Inr (Some r)"
proof -
  have len: "length xs + length ys \<le> MAX_REQUEST_LEN" using r by (auto simp: parse_request_def split: if_splits)
  obtain h where h: "parse_head (xs @ ys) = Inr (Some h)"
    using r by (auto simp: parse_request_def split: if_splits sum.splits option.splits)
  show ?thesis
  proof (cases "head_end xs")
    case None
    have "length xs \<le> MAX_HEAD_LEN"
    proof (rule ccontr)
      assume long: "\<not> ?thesis"
      obtain e where e: "head_end (xs @ ys) = Some e" "e + 4 \<le> MAX_HEAD_LEN"
        using h by (auto simp: parse_head_def split: option.splits if_splits)
      have "head_end (take (e + 4) (xs @ ys)) = Some e"
        using e(1) by (rule head_end_take)
      moreover have "take (e + 4) (xs @ ys) = take (e + 4) xs" using long e(2) by simp
      ultimately have "head_end (take (e + 4) xs) = Some e" by (simp only:)
      from head_end_append[OF this, of "drop (e + 4) xs"] show False using None by simp
    qed
    then have "parse_head xs = Inr None" using None by (simp add: parse_head_def)
    then show ?thesis using len by (simp add: parse_request_def)
  next
    case (Some e)
    then have same: "parse_head (xs @ ys) = parse_head xs"
      using head_end_append[OF Some] head_end_Some[OF Some] by (simp add: parse_head_def)
    then have hx: "parse_head xs = Inr (Some h)" using h by simp
    show ?thesis
      using r len h hx parse_head_start[OF hx]
      by (auto simp: parse_request_def split: sum.splits if_splits)
  qed
qed

text \<open>C31: 
  C1: a request that is complete in the bytes of a connection is read as that request however the
  bytes are split into reads.
\<close>

theorem request_read_any_chunks:
  assumes "parse_request (rx @ concat chunks) = Inr (Some r)" "[] \<notin> set chunks"
  shows "read_request rx chunks = Inr (Some r)"
  using assms
proof (induction chunks arbitrary: rx)
  case Nil
  then show ?case by (simp add: read_request.simps)
next
  case (Cons c cs)
  have "read_request (rx @ c) cs = Inr (Some r)" using Cons by simp
  moreover have "parse_request rx = Inr None \<or> parse_request rx = Inr (Some r)"
    using parse_request_append[of rx "c @ concat cs"] Cons.prems(1) by simp
  ultimately show ?case using Cons.prems(2) by (auto simp: read_request.simps[of rx "c # cs"])
qed

definition demo_get :: "byte list" where
  "demo_get = bytes_of ''GET / HTTP/1.1'' @ [13, 10, 13, 10]"

lemma demo_get_parses:
  "parse_request demo_get = Inr (Some \<lparr>rq_method = ''GET'', rq_path = ''/'', rq_headers = [], rq_body = []\<rparr>)"
proof -
  have e: "head_end demo_get = Some 14" by (simp add: demo_get_def bytes_of_def)
  have t: "from_utf8 (take 14 demo_get) = Some ''GET / HTTP/1.1''"
    using from_utf8_bytes_of[of "''GET / HTTP/1.1''"] by (simp add: demo_get_def is_ascii_def)
  show ?thesis
    unfolding parse_request_def parse_head_def e
    by (simp add: t starts_with_def MAX_HEAD_LEN_def MAX_REQUEST_LEN_def content_length_def)
       (simp add: demo_get_def)
qed

theorem request_read_any_chunks_witness:
  "read_request [] [take 9 demo_get, drop 9 demo_get]
     = Inr (Some \<lparr>rq_method = ''GET'', rq_path = ''/'', rq_headers = [], rq_body = []\<rparr>)"
  by (rule request_read_any_chunks) (simp_all add: demo_get_parses, simp add: demo_get_def)

section \<open>Credentials\<close>

lemma fold_or_zero:
  fixes d :: byte
  shows "fold (\<lambda>(x, y) diff. or diff (xor x y)) ps d = 0 \<longleftrightarrow> d = 0 \<and> (\<forall>(x, y)\<in>set ps. x = y)"
proof (induction ps arbitrary: d)
  case (Cons p ps)
  obtain x y where p: "p = (x, y)" by (cases p)
  have "xor x y = 0 \<longleftrightarrow> x = y"
  proof
    assume "xor x y = 0"
    then have "xor (xor x y) y = y" by simp
    then show "x = y" by (simp add: xor.assoc)
  qed simp
  then have "or d (xor x y) = 0 \<longleftrightarrow> d = 0 \<and> x = y" by (simp add: or_eq_0_iff)
  with Cons show ?case by (auto simp: p)
qed simp

lemma ct_eq_iff: "ct_eq a b \<longleftrightarrow> a = b"
proof (cases "length a = length b")
  case True
  then have "(\<forall>(x, y)\<in>set (zip a b). x = y) \<longleftrightarrow> a = b"
    by (induction a b rule: list_induct2) auto
  then show ?thesis using True by (simp add: ct_eq_def fold_or_zero)
qed (auto simp: ct_eq_def)

lemma valid_cookie_iff:
  "valid_cookie a r \<longleftrightarrow> (\<exists>s \<in> set (au_sessions a). Option.bind (header_of r ''cookie'') (\<lambda>h. cookie_value h COOKIE_NAME) = Some s)"
proof -
  have "fold (\<lambda>s ok. s = v \<or> ok) ss b \<longleftrightarrow> v \<in> set ss \<or> b" for ss :: "string list" and v b
    by (induction ss arbitrary: b) auto
  then show ?thesis by (auto simp: valid_cookie_def ct_eq_iff split: option.split)
qed

text \<open>The exchanges of tokens a server has seen.\<close>

record login =
  lg_now :: nat
  lg_fresh :: "string option"
  lg_ip :: ip_addr
  lg_body :: "byte list"

definition login_step :: "login \<Rightarrow> auth \<Rightarrow> auth" where
  "login_step l a = snd (auth_route (lg_now l) (lg_fresh l) (lg_ip l) (lg_body l) a)"

definition login_run :: "login list \<Rightarrow> auth \<Rightarrow> auth" where
  "login_run ls a = fold login_step ls a"

lemma login_run_snoc [simp]: "login_run (ls @ [l]) a = login_step l (login_run ls a)"
  by (simp add: login_run_def)

lemma throttled_same [simp]:
  "au_token (snd (throttled now ip a)) = au_token a" "au_sessions (snd (throttled now ip a)) = au_sessions a"
  by (auto simp: throttled_def split: option.split)

lemma login_step_sessions:
  "au_token (login_step l a) = au_token a"
  "s \<in> set (au_sessions (login_step l a)) \<Longrightarrow>
     s \<in> set (au_sessions a) \<or> presented_token (lg_body l) = au_token a \<and> lg_fresh l = Some s"
proof -
  obtain blocked a' where t: "throttled (lg_now l) (lg_ip l) a = (blocked, a')" by fastforce
  have a': "au_token a' = au_token a" "au_sessions a' = au_sessions a"
    using throttled_same[of "lg_now l" "lg_ip l" a] by (simp_all add: t)
  show "au_token (login_step l a) = au_token a"
    by (auto simp: login_step_def auth_route_def t authenticate_def a' Let_def split: option.split)
  show "s \<in> set (au_sessions a) \<or> presented_token (lg_body l) = au_token a \<and> lg_fresh l = Some s"
    if "s \<in> set (au_sessions (login_step l a))"
    using that by (auto simp: login_step_def auth_route_def t authenticate_def a' Let_def ct_eq_iff split: option.splits if_splits)
qed

lemma login_run_sessions:
  "au_token (login_run ls (auth_new tok)) = tok \<and>
   (\<forall>s \<in> set (au_sessions (login_run ls (auth_new tok))).
      \<exists>l \<in> set ls. presented_token (lg_body l) = tok \<and> lg_fresh l = Some s)"
proof (induction ls rule: rev_induct)
  case Nil
  show ?case by (simp add: login_run_def auth_new_def)
next
  case (snoc l ls)
  then show ?case by (auto simp: login_step_sessions(1) dest!: login_step_sessions(2))
qed

text \<open>The routes that need no credential: statuses, public files and the exchange itself.\<close>

fun open_route :: "web_route \<Rightarrow> bool" where
  "open_route (RStatus _) = True"
| "open_route (RPublic _) = True"
| "open_route RAuth = True"
| "open_route _ = False"

lemma guarded_open: "open_route (guarded a peer r k) \<or> authorized a peer r"
  by (simp add: guarded_def)

lemma route_authorized: "\<not> open_route (route_of pj pt a peer r) \<Longrightarrow> authorized a peer r"
  using guarded_open[of a peer r]
  by (auto simp: route_of_def get_route_def post_route_def clipboard_route_def Let_def split: prod.splits if_splits)

text \<open>C15: 
  C1: whatever exchanges of tokens a server has seen, a request reaches data or an operation only
  from a Tailscale Serve hop with a login, or with a cookie that was handed out in answer to
  the server's own token.
\<close>

theorem data_needs_credential:
  assumes "\<not> open_route (route_of parse_json paste_target (login_run ls (auth_new tok)) peer r)"
  shows "serve_identity_ok peer r
    \<or> (\<exists>l \<in> set ls. presented_token (lg_body l) = tok \<and> lg_fresh l \<noteq> None
         \<and> Option.bind (header_of r ''cookie'') (\<lambda>h. cookie_value h COOKIE_NAME) = lg_fresh l)"
proof -
  have "valid_cookie (login_run ls (auth_new tok)) r \<or> serve_identity_ok peer r"
    using route_authorized[OF assms] by (simp add: authorized_def)
  then show ?thesis
    using login_run_sessions[of ls tok] by (auto simp: valid_cookie_iff) (metis option.distinct(1))
qed

section \<open>The budget of wrong tokens\<close>

lemma wrong_login:
  assumes wrong: "presented_token (lg_body l) \<noteq> au_token a"
    and e: "au_fails a ip = (if k = 0 then None else Some (k, t))" and k: "k < AUTH_MAX_FAILS"
    and l: "lg_ip l = ip" "k = 0 \<Longrightarrow> lg_now l = t" "lg_now l - t < AUTH_WINDOW_MS"
  shows "au_fails (login_step l a) ip = Some (Suc k, t)"
  using assms
  by (auto simp: login_step_def auth_route_def throttled_def authenticate_def ct_eq_iff Let_def record_failure_def
      AUTH_WINDOW_MS_def split: if_splits)

lemma other_login: "lg_ip l \<noteq> ip \<Longrightarrow> au_fails (login_step l a) ip = au_fails a ip"
  by (auto simp: login_step_def auth_route_def throttled_def authenticate_def Let_def split: option.split)

lemma find_snoc: "find P (xs @ [x]) = (case find P xs of None \<Rightarrow> if P x then Some x else None | Some y \<Rightarrow> Some y)"
  by (induction xs) auto

lemma wrong_logins_counted:
  assumes "\<forall>l\<in>set ls. lg_ip l = ip \<longrightarrow> presented_token (lg_body l) \<noteq> tok \<and> t \<le> lg_now l \<and> lg_now l - t < AUTH_WINDOW_MS"
    and "\<forall>l. find (\<lambda>l. lg_ip l = ip) ls = Some l \<longrightarrow> lg_now l = t"
    and "length (filter (\<lambda>l. lg_ip l = ip) ls) \<le> AUTH_MAX_FAILS"
  shows "au_fails (login_run ls (auth_new tok)) ip =
    (let k = length (filter (\<lambda>l. lg_ip l = ip) ls) in if k = 0 then None else Some (k, t))"
  using assms
proof (induction ls rule: rev_induct)
  case Nil
  show ?case by (simp add: login_run_def auth_new_def)
next
  case (snoc l ls)
  define k where "k = length (filter (\<lambda>l. lg_ip l = ip) ls)"
  have first: "\<forall>l'. find (\<lambda>l. lg_ip l = ip) ls = Some l' \<longrightarrow> lg_now l' = t"
    using snoc.prems(2) by (auto simp: find_snoc)
  have IH: "au_fails (login_run ls (auth_new tok)) ip = (if k = 0 then None else Some (k, t))"
    using snoc.IH snoc.prems first by (simp add: k_def split: if_splits)
  show ?case
  proof (cases "lg_ip l = ip")
    case True
    have "lg_now l = t" if "k = 0"
    proof -
      have "find (\<lambda>l. lg_ip l = ip) ls = None" using that by (auto simp: k_def filter_empty_conv find_None_iff)
      then show ?thesis using snoc.prems(2) True by (simp add: find_snoc)
    qed
    then have "au_fails (login_step l (login_run ls (auth_new tok))) ip = Some (Suc k, t)"
      using snoc.prems True IH login_run_sessions[of ls tok] by (intro wrong_login) (auto simp: k_def)
    then show ?thesis using True by (simp add: k_def)
  qed (use IH other_login in \<open>simp add: k_def\<close>)
qed

text \<open>C34: 
  C1: once eight wrong tokens have come from an address within a minute of the first, whatever
  other addresses sent in between, every further attempt from it within that minute is
  refused without being looked at, the right token included.
\<close>

theorem ninth_attempt_refused:
  assumes "\<forall>l\<in>set ls. lg_ip l = ip \<longrightarrow> presented_token (lg_body l) \<noteq> tok \<and> t \<le> lg_now l \<and> lg_now l - t < 60000"
    and "\<forall>l. find (\<lambda>l. lg_ip l = ip) ls = Some l \<longrightarrow> lg_now l = t"
    and "length (filter (\<lambda>l. lg_ip l = ip) ls) = 8" and "now - t < 60000"
  shows "auth_route now fresh ip body (login_run ls (auth_new tok))
           = ((''429 Too Many Requests'', None), login_run ls (auth_new tok))"
  using wrong_logins_counted[of ls ip tok t] assms
  by (simp add: auth_route_def throttled_def AUTH_MAX_FAILS_def AUTH_WINDOW_MS_def)

definition demo_guess :: login where
  "demo_guess = \<lparr>lg_now = 5, lg_fresh = None, lg_ip = V4 127 0 0 1, lg_body = []\<rparr>"

lemma no_token_presented: "presented_token [] = []"
  by (simp add: presented_token_def from_utf8_def string_of_bytes_def str_trim_def str_chars.simps)

theorem ninth_attempt_refused_witness:
  "fst (auth_route 9 (Some ''id'') (V4 127 0 0 1) (bytes_of ''k'') (login_run (replicate 8 demo_guess) (auth_new ''k'')))
     = (''429 Too Many Requests'', None)"
proof -
  have "replicate 8 demo_guess = demo_guess # replicate 7 demo_guess" by (simp add: numeral_eq_Suc)
  then have "\<forall>l. find (\<lambda>l. lg_ip l = V4 127 0 0 1) (replicate 8 demo_guess) = Some l \<longrightarrow> lg_now l = 5"
    by (simp add: demo_guess_def)
  then show ?thesis
    by (subst ninth_attempt_refused[where t = 5]) (simp_all add: demo_guess_def no_token_presented)
qed

section \<open>A foreign origin\<close>

text \<open>
  A page of another site posts to the layout of a user who reaches the server through
  Tailscale Serve: the browser sends no cookie, the hop adds the user's identity.
\<close>

definition foreign_post :: request where
  "foreign_post = \<lparr>rq_method = ''POST'', rq_path = ''/api/layout'',
     rq_headers = [(''host'', ''pc.tail.ts.net''), (''origin'', ''https://evil.example''), (''x-forwarded-proto'', ''https''),
       (''x-forwarded-host'', ''pc.tail.ts.net''), (''tailscale-user-login'', ''me'')],
     rq_body = [1]\<rparr>"

definition foreign_json :: "byte list \<Rightarrow> json option" where
  "foreign_json bs = (if bs = [1] then Some (JObject [(''text'', JString ''x'')]) else None)"

lemma trim_plain:
  "str_trim ''me'' = ''me''" "str_trim ''pc.tail.ts.net'' = ''pc.tail.ts.net''"
  by (simp_all add: str_trim_def str_chars.simps utf8_head_def ws_group_def is_whitespace_def in_rng_def)

lemma foreign_identity: "serve_identity_ok (V4 127 0 0 1) foreign_post"
  by (simp add: serve_identity_ok_def foreign_post_def header_of_def trim_plain ts_net_host_def strip_brackets_def
      strip_port_def to_ascii_lowercase_def ascii_lower_char_def in_rng_def ends_with_def starts_with_def Let_def)


text \<open>A session reached through the token: the cookie of the answer opens the session list.\<close>

definition demo_login :: login where
  "demo_login = \<lparr>lg_now = 0, lg_fresh = Some ''id'', lg_ip = V4 10 0 0 7, lg_body = bytes_of ''me''\<rparr>"

definition demo_request :: request where
  "demo_request = \<lparr>rq_method = ''GET'', rq_path = ''/api/sessions'', rq_headers = [(''cookie'', ''amber_web=id'')], rq_body = []\<rparr>"

lemma demo_cookie: "cookie_value ''amber_web=id'' COOKIE_NAME = Some ''id''"
  by (simp add: cookie_value_def COOKIE_NAME_def str_trim_def str_chars.simps utf8_head_def ws_group_def
      is_whitespace_def in_rng_def)

lemma demo_session: "au_sessions (login_run [demo_login] (auth_new ''me'')) = [''id'']"
  by (simp add: login_run_def login_step_def auth_route_def throttled_def auth_new_def demo_login_def authenticate_def
      ct_eq_iff presented_token_def from_utf8_bytes_of is_ascii_def trim_plain Let_def)

lemma demo_reaches:
  "route_of parse_json paste_target (login_run [demo_login] (auth_new ''me'')) (V4 10 0 0 7) demo_request = RSessions"
proof -
  have "path_query (rq_path demo_request) = (''/api/sessions'', [])" by (simp add: demo_request_def path_query_def)
  moreover have "valid_cookie (login_run [demo_login] (auth_new ''me'')) demo_request"
    by (simp add: valid_cookie_iff demo_session demo_request_def header_of_def demo_cookie)
  ultimately show ?thesis
    by (simp add: route_of_def get_route_def guarded_def authorized_def) (simp add: demo_request_def)
qed

theorem data_needs_credential_witness:
  "serve_identity_ok (V4 10 0 0 7) demo_request
    \<or> (\<exists>l \<in> set [demo_login]. presented_token (lg_body l) = ''me'' \<and> lg_fresh l \<noteq> None
         \<and> Option.bind (header_of demo_request ''cookie'') (\<lambda>h. cookie_value h COOKIE_NAME) = lg_fresh l)"
  by (rule data_needs_credential[of "\<lambda>_. None" "\<lambda>_. False"]) (simp add: demo_reaches)

end
