(* ===== verification/Spec2Isabelle.thy ===== *)
theory Spec2Isabelle
  imports Ring Modes Proto PiCommands StoreLaws RouterHttp GuardianLaws SupervisorLaws SuspendLaws FanoutLaws LayoutCasLaws MosaicLaws WebGrid WebHttpLaws
begin

text \<open>
  \<^bold>\<open>A verification of the amber session daemon.\<close>

  Amber keeps terminal panes and coding agents alive in a daemon, shows them to a desktop
  application and to browsers, saves the desktop's layout, stores what is needed to resume a
  session after a crash, parks agents under memory pressure, and routes the agents' model requests
  over several providers and keys. The development models the Rust code of the crates
  \<^verbatim>\<open>amber-core\<close>, \<^verbatim>\<open>amber\<close>, \<^verbatim>\<open>router-core\<close> and \<^verbatim>\<open>amber-router\<close> under \<^verbatim>\<open>src/crates/\<close>.

  \<^bold>\<open>Conventions.\<close>
  \<^item> A Rust function is a HOL function of the same name; a struct is a \<open>record\<close>, an enum a
    \<open>datatype\<close>. A method that changes its object returns the changed object. Code that fails returns
    \<open>error + 'a\<close> (\<open>Inl\<close> the error) or an option; a panic is a value of its own wherever the code can
    panic, and no theorem assumes that it does not.
  \<^item> Bytes are \<open>8 word\<close>; a \<^verbatim>\<open>u64\<close> or \<^verbatim>\<open>usize\<close> that is counted or compared is a natural
    number, with saturation or the overflow test written out where the code relies on it.
  \<^item> What another process, the kernel or the clock decides is an argument: a list of answers
    consumed call by call, a record of observations, or a function. The theorems quantify over it,
    so they hold for every such behaviour.
  \<^item> Third-party code (serde_json, TOML, reqwest, axum, decimal parsing) is a parameter of the
    definitions; what is needed of it is a named hypothesis and has a witness with a concrete function.
  \<^item> Code whose threads or processes interleave is a step function over the shared state together
    with a list of steps. Each step is what the code does under one lock or in one system call, and the
    theorems are over all lists.

  \<^bold>\<open>Parts and theories.\<close>

  \<^item> \<open>Prelude\<close> holds the shared vocabulary and the interfaces below; \<open>Text\<close> the operations of
    Rust's strings that several components use.
  \<^item> \<open>Ring\<close> is \<^verbatim>\<open>amber-core/src/ring.rs\<close>, the capped scrollback. The bytes kept are exactly the
    newest of the stream, with wrap-around and growth of the vector; \<^verbatim>\<open>since\<close> answers a delta or the
    whole; epochs are never reused.
  \<^item> \<open>Modes\<close> is \<^verbatim>\<open>amber-core/src/modes.rs\<close>, the tracker of private terminal modes: independent of
    how the output is cut into reads, every complete sequence is recognized, and the preamble
    reproduces the mask.
  \<^item> \<open>Messages\<close> and \<open>Proto\<close> are \<^verbatim>\<open>amber-core/src/proto.rs\<close> and the read loop of
    \<^verbatim>\<open>amber/src/daemon.rs\<close>: all message types and the length-prefixed framing. Frames survive every
    chunking and unknown control messages are skipped. \<open>PiCommands\<close> holds the validators of the Pi
    bridge in the same file with the strict base64 decoder.
  \<^item> \<open>Fs\<close>, \<open>Store\<close>, \<open>Rename\<close> and \<open>StoreLaws\<close> are \<^verbatim>\<open>amber-core/src/state.rs\<close>: a file system in which
    every call may fail and the machine may stop between two calls, the atomic write, the artifacts of
    a session, the journalled rename with its recovery, the parse cache and the journal of events.
    The rename is crash safe; a write is all or nothing.
  \<^item> \<open>RouterConfig\<close>, \<open>RouterSelect\<close>, \<open>RouterProxy\<close>, \<open>RouterHttp\<close>, with \<open>RouterLaws\<close> and \<open>RouterWalk\<close>,
    are \<^verbatim>\<open>router-core\<close> and \<^verbatim>\<open>amber-router\<close>: configuration and registry, slots, key health and the
    lease loop, the buffered and the streaming proxy, the chat and admin routes. Permits are conserved, leases
    return, a request contacts each endpoint of its chain at most once and ends by its deadline,
    an edit through the admin route takes effect, keys are not shown.
  \<^item> \<open>Guardian\<close> and \<open>GuardianLaws\<close> are \<^verbatim>\<open>memory_guardian.rs\<close>, \<^verbatim>\<open>host_pressure.rs\<close>, the memory
    count of \<^verbatim>\<open>procinfo.rs\<close> and the sections of the configuration they use: which session is parked,
    and when.
  \<^item> \<open>Supervisor\<close> and \<open>SupervisorLaws\<close> are \<^verbatim>\<open>supervisor.rs\<close> and the command lines of the agents
    (\<^verbatim>\<open>claude.rs\<close>, \<^verbatim>\<open>grok.rs\<close>, \<^verbatim>\<open>codex.rs\<close>, \<^verbatim>\<open>opencode.rs\<close>, \<^verbatim>\<open>hermes.rs\<close>, \<^verbatim>\<open>muse.rs\<close>,
    \<^verbatim>\<open>pi.rs\<close>): the resume ladder and the retry budget, as steps between which signals arrive.
  \<^item> \<open>Suspend\<close> and \<open>SuspendLaws\<close> compose that supervisor with the suspension state of a live session
    (\<^verbatim>\<open>pty.rs\<close>), the operations of the session manager on it (\<^verbatim>\<open>manager.rs\<close>) and the ordered
    report queue between the two: a session held as suspended is parked, and a parked agent can be woken.
  \<^item> \<open>Fanout\<close> and \<open>FanoutLaws\<close> are the output path of a pane in \<^verbatim>\<open>pty.rs\<close>: reader, batcher, ring
    and mode tracker (the models of \<open>Ring\<close> and \<open>Modes\<close>), subscribers and their bounded queues. Replay
    and live frames join without a gap and memory is bounded.
  \<^item> \<open>LayoutFile\<close> and \<open>LayoutFileLaws\<close> are \<^verbatim>\<open>layout_file.rs\<close> and the lock records of
    \<^verbatim>\<open>layout_cas.rs\<close>; \<open>LayoutCas\<close> and \<open>LayoutCasLaws\<close> the compare-and-swap of the sidecar by several
    processes. A run without an interrupted removal of a stale lock refines an atomic register; with one,
    a save is lost.
  \<^item> \<open>Mosaic\<close> and \<open>MosaicLaws\<close> are \<^verbatim>\<open>mosaic.rs\<close>: the projection of the sidecar and the live
    sessions to what a browser shows.
  \<^item> \<open>WebMsg\<close>, \<open>WebHub\<close>, \<open>WebHubLaws\<close>, \<open>WebGrid\<close>, \<open>WebHttp\<close> and \<open>WebHttpLaws\<close> are \<^verbatim>\<open>web.rs\<close>: what a
    browser may send, the hub that shares one daemon connection among tabs, the terminal grid a tab
    borrows, and the HTTP requests with their authorization.

  \<^bold>\<open>Interfaces.\<close> \<open>bounded_log\<close> and \<open>bounded_stream\<close> state what a capped buffer promises; the ring and
  the journal of recovery events provide them. \<open>scanner\<close> is a byte-wise recognizer (the mode
  tracker), \<open>framed_stream\<close> a decoder that may be fed piecewise (the wire). \<open>traced\<close>, \<open>stepping\<close> and
  \<open>panic_free\<close> carry a relation on traces, an invariant, and an invariant with the absence of a panic
  over runs: they are interpreted on the supervisor's launches, on the sequence of sidecar
  replacements, on the composed pane and on the output path. \<open>removal\<close> is the unlinking of a
  list of files in any phase of a rename, for the destination and for the source. \<open>lease_keeper\<close> is
  a property of the selector that survives taking and returning leases, for conservation and for
  balance. \<open>hub_invariant\<close> is a property of the hub that survives its primitive operations, for
  the bounds, the attachments and the abandoned borrow.

  \<^bold>\<open>Bounds.\<close> Loops over data are total functions with a termination proof. A loop that waits for
  its environment consumes the list of what the environment answers, and ends where the list ends: the
  reads of a file (the deadline of \<^verbatim>\<open>layout_file.rs\<close> is the end of that list), the turns of the lease
  loop and the exchanges of a walk. That the buffered proxy ends is proved for every clock that passes
  the deadline; the walk itself recurses on the endpoints not yet tried. A daemon link that breaks is the number of
  writes it still takes. The bounds proved (ring capacity, 32 waiting reads, 8 frames for each subscriber,
  queues of a browser, failure budget) are the constants of the code.

  \<^bold>\<open>Properties.\<close> They are numbered by importance, each beside the component it concerns. Some state
  behaviour that the comments of the code exclude: a pane whose input stays refused after a suspension
  that met the agent's own exit, and the guardian waiting for it; a save lost to an interrupted removal
  of a stale lock; a layout saved by a foreign page; a grid that a dropped or a quick tab never hands back; a
  malformed message taken for a future one; a rename that overwrites an agent's record; a key
  poisoned by an upstream's retry time; a streaming walk without a bound on an error's body; a tick in three
  that skips memory pressure; a Pi recording read twice and used once; a layout cached under
  the stamp of its successor.

  \<^bold>\<open>Not modelled.\<close> Creating, restoring and removing sessions in \<^verbatim>\<open>manager.rs\<close> and the dispatch in
  \<^verbatim>\<open>daemon.rs\<close> drive processes, pseudo-terminals, control groups and sockets. \<^verbatim>\<open>main.rs\<close>,
  \<^verbatim>\<open>transport.rs\<close>, \<^verbatim>\<open>platform.rs\<close>, \<^verbatim>\<open>cgroup.rs\<close>, \<^verbatim>\<open>webctl.rs\<close>, \<^verbatim>\<open>routerctl.rs\<close> and
  \<^verbatim>\<open>tailscale.rs\<close> are input and output. \<^verbatim>\<open>attach.rs\<close>, \<^verbatim>\<open>watchers.rs\<close>, \<^verbatim>\<open>search.rs\<close>, \<^verbatim>\<open>usage.rs\<close> and
  \<^verbatim>\<open>codex_usage.rs\<close> are clients of modelled parts or of network services.
  The bodies of HTTP answers, uploads to disk, the WebSocket codec, the front end, log lines, and the
  Windows and macOS variants of system calls are left out. The desktop application is
  TypeScript; to the sidecar it is one more writer of the same protocol.
\<close>

end
